(* ===== verification/Redbase_Prelude.thy ===== *)
theory Redbase_Prelude
  imports "HOL-Library.Word" "HOL-Library.Char_ord" "HOL-Library.List_Lexorder"
begin

section \<open>Shared vocabulary of the storage engine model\<close>

text \<open>
  Types and combinators every component uses: the machine integers, the result values of
  fallible operations with the early return of the question-mark operator, checked
  arithmetic, byte ranges of arrays, little-endian encodings and three-way comparisons.
  Integers of the source keep their width: \<open>u8\<close>, \<open>u32\<close> and \<open>i32\<close> are words (an \<open>i32\<close> is
  read by \<open>sint\<close>, so a cast between \<open>i32\<close> and \<open>u32\<close> is the identity on the word).  A
  \<open>usize\<close> is a natural number whose checked additions fail at \<open>2 ^ 64\<close>.  An \<open>f32\<close> is its
  bit pattern.
\<close>

unbundle bit_operations_syntax

named_theorems size_consts "unfolds the numeric constants of the source"
named_theorems view_simps "frame facts: what an operation leaves unchanged"

type_synonym u8 = "8 word"
type_synonym u32 = "32 word"
type_synonym i32 = "32 word"
type_synonym f32 = "32 word"

subsection \<open>Results and the early return\<close>

fun and_then :: "'e + 'a \<Rightarrow> ('a \<Rightarrow> 'e + 'b) \<Rightarrow> 'e + 'b" where
  "and_then (Inl e) k = Inl e"
| "and_then (Inr x) k = k x"

fun and_then_st :: "('e + 'a) \<times> 's \<Rightarrow> ('a \<Rightarrow> 's \<Rightarrow> ('e + 'b) \<times> 's) \<Rightarrow> ('e + 'b) \<times> 's" where
  "and_then_st (Inl e, s) k = (Inl e, s)"
| "and_then_st (Inr x, s) k = k x s"

fun map_err :: "('e \<Rightarrow> 'f) \<Rightarrow> 'e + 'a \<Rightarrow> 'f + 'a" where
  "map_err h (Inl e) = Inl (h e)"
| "map_err h (Inr x) = Inr x"

fun ok_or :: "'e \<Rightarrow> 'a option \<Rightarrow> 'e + 'a" where
  "ok_or e None = Inl e"
| "ok_or e (Some x) = Inr x"

fun is_ok :: "'e + 'a \<Rightarrow> bool" where
  "is_ok (Inl e) = False"
| "is_ok (Inr x) = True"

lemma and_then_cong [fundef_cong]:
  "r = r' \<Longrightarrow> (\<And>x. r' = Inr x \<Longrightarrow> k x = k' x) \<Longrightarrow> and_then r k = and_then r' k'"
  by (cases r') auto

lemma and_then_st_cong [fundef_cong]:
  "r = r' \<Longrightarrow> (\<And>x s. r' = (Inr x, s) \<Longrightarrow> k x s = k' x s) \<Longrightarrow> and_then_st r k = and_then_st r' k'"
  by (cases r'; cases "fst r'") auto

lemma and_then_Inr_iff [simp]: "and_then r k = Inr y \<longleftrightarrow> (\<exists>x. r = Inr x \<and> k x = Inr y)"
  by (cases r) auto

lemma and_then_Inl_iff:
  "and_then r k = Inl e \<longleftrightarrow> r = Inl e \<or> (\<exists>x. r = Inr x \<and> k x = Inl e)"
  by (cases r) auto

lemma and_then_st_Inr_iff:
  "and_then_st r k = (Inr y, s') \<longleftrightarrow> (\<exists>x s. r = (Inr x, s) \<and> k x s = (Inr y, s'))"
  by (cases r; cases "fst r") auto

lemma map_err_Inr_iff [simp]: "map_err h r = Inr x \<longleftrightarrow> r = Inr x"
  by (cases r) auto

lemma map_err_Inl_iff [simp]: "map_err h r = Inl f \<longleftrightarrow> (\<exists>e. r = Inl e \<and> f = h e)"
  by (cases r) auto

lemma ok_or_Inr_iff [simp]: "ok_or e r = Inr x \<longleftrightarrow> r = Some x"
  by (cases r) auto

lemma ok_or_Inl_iff [simp]: "ok_or e r = Inl f \<longleftrightarrow> r = None \<and> f = e"
  by (cases r) auto

lemma is_ok_iff: "is_ok r \<longleftrightarrow> (\<exists>x. r = Inr x)"
  by (cases r) auto

subsection \<open>Checked arithmetic\<close>

definition checked_add_u32 :: "u32 \<Rightarrow> u32 \<Rightarrow> u32 option" where
  "checked_add_u32 a b = (if unat a + unat b < 2 ^ 32 then Some (a + b) else None)"

definition checked_sub_u32 :: "u32 \<Rightarrow> u32 \<Rightarrow> u32 option" where
  "checked_sub_u32 a b = (if b \<le> a then Some (a - b) else None)"

definition checked_add_usize :: "nat \<Rightarrow> nat \<Rightarrow> nat option" where
  "checked_add_usize a b = (if a + b < 2 ^ 64 then Some (a + b) else None)"

lemma checked_add_u32_Some:
  "checked_add_u32 a b = Some c \<Longrightarrow> c = a + b \<and> unat c = unat a + unat b"
  by (auto simp: checked_add_u32_def unat_word_ariths split: if_splits)


lemma unat_u32_less: "unat (x :: u32) < 4294967296"
  using unsigned_less [of x] by simp

lemma unat_of_nat_u32: "n < 4294967296 \<Longrightarrow> unat (of_nat n :: u32) = n"
  by (simp add: unsigned_of_nat take_bit_nat_eq_self)

lemma sint_u32_small:
  assumes "unat (w :: u32) < 2 ^ 31"
  shows "sint w = int (unat w)"
proof -
  have "int (unat w) < int (2 ^ 31)" using assms by (simp only: of_nat_less_iff)
  then have "uint w < 2 ^ 31" by (simp add: uint_nat del: of_nat_unat)
  moreover have "0 \<le> uint w" by simp
  ultimately have "signed_take_bit 31 (uint w) = uint w"
    by (intro signed_take_bit_int_eq_self) linarith+
  then show ?thesis by (simp add: sint_uint)
qed

lemma sint_negative:
  assumes "2 ^ 31 \<le> unat (w :: u32)" and "w \<noteq> -1"
  shows "sint w < -1"
proof -
  have "2 ^ 31 \<le> uint w" using assms(1) by (simp add: uint_nat nat_le_iff le_nat_iff del: of_nat_unat)
  moreover have "uint w < 2 ^ 32 - 1"
  proof -
    have "uint w \<noteq> uint (-1 :: u32)" using assms(2) by (simp add: word_uint_eq_iff)
    moreover have "uint w < 2 ^ 32" using uint_lt2p [of w] by simp
    moreover have "uint (-1 :: u32) = 2 ^ 32 - 1" by (simp add: unsigned_minus_1_eq_mask mask_eq_exp_minus_1)
    ultimately show ?thesis by linarith
  qed
  moreover have "sint w = (uint w + 2 ^ 31) mod 2 ^ 32 - 2 ^ 31"
    using int_word_sint [of "uint w", where 'a = 32] by simp
  moreover have "(uint w + 2 ^ 31) mod 2 ^ 32 = uint w + 2 ^ 31 - 2 ^ 32"
    using calculation(1,2) by (intro int_mod_pos_eq [where q = 1]) auto
  ultimately show ?thesis by simp
qed

lemma checked_add_u32_one:
  "unat a < 4294967295 \<Longrightarrow> checked_add_u32 a 1 = Some (a + 1) \<and> unat (a + 1) = unat a + 1"
  by (auto simp: checked_add_u32_def unat_word_ariths)

lemma checked_sub_u32_one:
  "a \<noteq> 0 \<Longrightarrow> checked_sub_u32 a 1 = Some (a - 1) \<and> unat (a - 1) = unat a - 1"
  by (auto simp: checked_sub_u32_def word_le_nat_alt unat_minus_one Suc_leI unat_gt_0)

subsection \<open>Byte ranges\<close>

text \<open>
  \<open>bytes_at off n xs\<close> is the range \<open>xs[off..off + n]\<close>, and \<open>put_at off ys xs\<close> is \<open>xs\<close> after
  \<open>ys\<close> has been copied over the range that starts at \<open>off\<close>.
\<close>

definition bytes_at :: "nat \<Rightarrow> nat \<Rightarrow> 'a list \<Rightarrow> 'a list" where
  "bytes_at off n xs = take n (drop off xs)"

definition put_at :: "nat \<Rightarrow> 'a list \<Rightarrow> 'a list \<Rightarrow> 'a list" where
  "put_at off ys xs = take off xs @ ys @ drop (off + length ys) xs"

lemma length_bytes_at [simp]: "off + n \<le> length xs \<Longrightarrow> length (bytes_at off n xs) = n"
  by (simp add: bytes_at_def)

lemma length_put_at [simp]: "off + length ys \<le> length xs \<Longrightarrow> length (put_at off ys xs) = length xs"
  by (simp add: put_at_def)

lemma nth_put_at:
  assumes "off + length ys \<le> length xs" and "i < length xs"
  shows "put_at off ys xs ! i = (if off \<le> i \<and> i < off + length ys then ys ! (i - off) else xs ! i)"
  using assms by (auto simp: put_at_def nth_append min_def)

lemma nth_bytes_at: "off + n \<le> length xs \<Longrightarrow> i < n \<Longrightarrow> bytes_at off n xs ! i = xs ! (off + i)"
  by (simp add: bytes_at_def)

lemma bytes_at_put_at_same:
  "off + length ys \<le> length xs \<Longrightarrow> n = length ys \<Longrightarrow> bytes_at off n (put_at off ys xs) = ys"
  by (simp add: put_at_def bytes_at_def)

lemma bytes_at_put_at_disjoint:
  assumes "off + length ys \<le> length xs" and "o2 + n \<le> length xs"
    and "o2 + n \<le> off \<or> off + length ys \<le> o2"
  shows "bytes_at o2 n (put_at off ys xs) = bytes_at o2 n xs"
  using assms by (intro nth_equalityI) (auto simp: nth_bytes_at nth_put_at)

lemma bytes_at_append_left: "off + n \<le> length xs \<Longrightarrow> bytes_at off n (xs @ ys) = bytes_at off n xs"
  by (simp add: bytes_at_def)

lemma bytes_at_put_at_inside:
  assumes "off + length ys \<le> length xs" and "off \<le> o2" and "o2 + n \<le> off + length ys"
  shows "bytes_at o2 n (put_at off ys xs) = bytes_at (o2 - off) n ys"
  using assms by (intro nth_equalityI) (auto simp: nth_bytes_at nth_put_at)

lemma put_at_same_twice:
  assumes "off + length ys \<le> length xs" and "length zs = length ys"
  shows "put_at off zs (put_at off ys xs) = put_at off zs xs"
  using assms by (intro nth_equalityI) (auto simp: nth_put_at)

lemma put_at_bytes_at [simp]:
  assumes "off + n \<le> length xs"
  shows "put_at off (bytes_at off n xs) xs = xs"
  using assms by (intro nth_equalityI) (auto simp: nth_put_at nth_bytes_at)

lemma bytes_at_zeros: "off + n \<le> m \<Longrightarrow> bytes_at off n (replicate m z) = replicate n z"
  by (simp add: bytes_at_def)

lemma bytes_at_all [simp]: "length xs = n \<Longrightarrow> bytes_at 0 n xs = xs"
  by (simp add: bytes_at_def)

lemma put_at_0 [simp]: "put_at 0 ys xs = ys @ drop (length ys) xs"
  by (simp add: put_at_def)

subsection \<open>Little-endian encodings\<close>

definition to_le_bytes :: "u32 \<Rightarrow> u8 list" where
  "to_le_bytes w = [ucast w, ucast (drop_bit 8 w), ucast (drop_bit 16 w), ucast (drop_bit 24 w)]"

fun from_le_bytes :: "u8 list \<Rightarrow> u32" where
  "from_le_bytes [] = 0"
| "from_le_bytes (b # bs) = ucast b OR push_bit 8 (from_le_bytes bs)"

lemma length_to_le_bytes [simp]: "length (to_le_bytes w) = 4"
  by (simp add: to_le_bytes_def)

lemma not_bit_u8: "8 \<le> n \<Longrightarrow> \<not> bit (b :: u8) n"
  using bit_imp_le_length [of b n] by auto

lemma from_to_le_bytes [simp]: "from_le_bytes (to_le_bytes w) = w"
proof (rule bit_word_eqI)
  fix n
  assume "n < LENGTH(32)"
  then consider "n < 8" | "8 \<le> n \<and> n < 16" | "16 \<le> n \<and> n < 24" | "24 \<le> n \<and> n < 32"
    by fastforce
  then show "bit (from_le_bytes (to_le_bytes w)) n = bit w n"
    by cases (auto simp: to_le_bytes_def bit_simps)
qed

lemma to_from_le_bytes:
  assumes "length bs = 4"
  shows "to_le_bytes (from_le_bytes bs) = bs"
proof -
  obtain a b c d where bs: "bs = [a, b, c, d]"
    using assms by (auto simp: numeral_eq_Suc length_Suc_conv)
  have "ucast (from_le_bytes bs) = a" "ucast (drop_bit 8 (from_le_bytes bs)) = b"
    "ucast (drop_bit 16 (from_le_bytes bs)) = c" "ucast (drop_bit 24 (from_le_bytes bs)) = d"
    by (rule bit_word_eqI; simp add: bs bit_simps not_bit_u8)+
  then show ?thesis by (simp add: to_le_bytes_def bs)
qed

lemma to_le_bytes_inject: "to_le_bytes a = to_le_bytes b \<longleftrightarrow> a = b"
  by (metis from_to_le_bytes)

lemma from_le_bytes_inject:
  "length a = 4 \<Longrightarrow> length b = 4 \<Longrightarrow> from_le_bytes a = from_le_bytes b \<longleftrightarrow> a = b"
  by (metis to_from_le_bytes)

subsection \<open>Three-way comparison\<close>

datatype ordering = Less | Equal | Greater

fun reverse_ordering :: "ordering \<Rightarrow> ordering" where
  "reverse_ordering Less = Greater"
| "reverse_ordering Equal = Equal"
| "reverse_ordering Greater = Less"

definition cmp :: "'a::linorder \<Rightarrow> 'a \<Rightarrow> ordering" where
  "cmp a b = (if a < b then Less else if a = b then Equal else Greater)"

definition cmp_i32 :: "i32 \<Rightarrow> i32 \<Rightarrow> ordering" where
  "cmp_i32 a b = cmp (sint a) (sint b)"

text \<open>
  \<open>f32::total_cmp\<close> of the standard library: both bit patterns are read as \<open>i32\<close>, the bits
  below the sign are flipped where the sign is set, and the results are compared as signed
  integers.
\<close>

definition total_order_key :: "f32 \<Rightarrow> i32" where
  "total_order_key x = x XOR drop_bit 1 (signed_drop_bit 31 x)"

definition total_cmp :: "f32 \<Rightarrow> f32 \<Rightarrow> ordering" where
  "total_cmp a b = cmp_i32 (total_order_key a) (total_order_key b)"

text \<open>The comparison of byte slices is lexicographic on unsigned bytes.\<close>

definition cmp_bytes :: "u8 list \<Rightarrow> u8 list \<Rightarrow> ordering" where
  "cmp_bytes a b = cmp a b"

lemma cmp_Equal_iff [simp]: "cmp a b = Equal \<longleftrightarrow> a = b"
  by (auto simp: cmp_def)

lemma cmp_Less_iff [simp]: "cmp a b = Less \<longleftrightarrow> a < b"
  by (auto simp: cmp_def)

lemma cmp_Greater_iff [simp]: "cmp a b = Greater \<longleftrightarrow> b < a"
  by (auto simp: cmp_def)

lemma reverse_cmp [simp]: "reverse_ordering (cmp a b) = cmp b a"
  by (auto simp: cmp_def)

end
