(* ===== verification/Page_Io.thy ===== *)
theory Page_Io
  imports Redbase_Prelude
begin

section \<open>The device under a page file (trait \<open>PageIo\<close>, struct \<open>DiskPageIo\<close>)\<close>

text \<open>
  An open file is its bytes and a schedule of device faults: each operation consumes one
  entry of the schedule, \<open>None\<close> (or an exhausted schedule) lets it succeed and \<open>Some n\<close>
  makes it fail after \<open>n\<close> bytes have been transferred.  A positioned read fills the caller's
  buffer, so it returns the buffer: after a failure its contents are partly overwritten, as
  the standard library leaves them unspecified.  A write beyond the end fills the gap with
  zeros, as a sparse file reads.
\<close>

datatype io_error = UnexpectedEof | NotFound | AlreadyExists | InvalidData | DeviceFault

record page_io =
  io_bytes :: "u8 list"
  io_faults :: "nat option list"

fun take_fault :: "nat option list \<Rightarrow> nat option \<times> nat option list" where
  "take_fault [] = (None, [])"
| "take_fault (x # xs) = (x, xs)"

definition read_exact_at :: "nat \<Rightarrow> u8 list \<Rightarrow> page_io \<Rightarrow> (io_error + unit) \<times> u8 list \<times> page_io" where
  "read_exact_at off buf io =
     (case take_fault (io_faults io) of
        (Some n, fs) \<Rightarrow>
          (Inl DeviceFault, put_at 0 (bytes_at off (min n (length buf)) (io_bytes io)) buf,
           io\<lparr>io_faults := fs\<rparr>)
      | (None, fs) \<Rightarrow>
          if off + length buf \<le> length (io_bytes io)
          then (Inr (), bytes_at off (length buf) (io_bytes io), io\<lparr>io_faults := fs\<rparr>)
          else (Inl UnexpectedEof, put_at 0 (drop off (io_bytes io)) buf, io\<lparr>io_faults := fs\<rparr>))"

definition zero_extend :: "nat \<Rightarrow> u8 list \<Rightarrow> u8 list" where
  "zero_extend n xs = xs @ replicate (n - length xs) 0"

definition write_all_at :: "nat \<Rightarrow> u8 list \<Rightarrow> page_io \<Rightarrow> (io_error + unit) \<times> page_io" where
  "write_all_at off buf io =
     (case take_fault (io_faults io) of
        (Some n, fs) \<Rightarrow>
          (Inl DeviceFault,
           io\<lparr>io_bytes := put_at off (take n buf) (zero_extend off (io_bytes io)), io_faults := fs\<rparr>)
      | (None, fs) \<Rightarrow>
          (Inr (),
           io\<lparr>io_bytes := put_at off buf (zero_extend off (io_bytes io)), io_faults := fs\<rparr>))"

definition io_set_len :: "nat \<Rightarrow> page_io \<Rightarrow> (io_error + unit) \<times> page_io" where
  "io_set_len n io =
     (case take_fault (io_faults io) of
        (Some _, fs) \<Rightarrow> (Inl DeviceFault, io\<lparr>io_faults := fs\<rparr>)
      | (None, fs) \<Rightarrow>
          (Inr (), io\<lparr>io_bytes := zero_extend n (take n (io_bytes io)), io_faults := fs\<rparr>))"

definition io_len :: "page_io \<Rightarrow> (io_error + nat) \<times> page_io" where
  "io_len io =
     (case take_fault (io_faults io) of
        (Some _, fs) \<Rightarrow> (Inl DeviceFault, io\<lparr>io_faults := fs\<rparr>)
      | (None, fs) \<Rightarrow> (Inr (length (io_bytes io)), io\<lparr>io_faults := fs\<rparr>))"

definition io_sync_all :: "page_io \<Rightarrow> (io_error + unit) \<times> page_io" where
  "io_sync_all io =
     (case take_fault (io_faults io) of
        (Some _, fs) \<Rightarrow> (Inl DeviceFault, io\<lparr>io_faults := fs\<rparr>)
      | (None, fs) \<Rightarrow> (Inr (), io\<lparr>io_faults := fs\<rparr>))"

subsection \<open>A device without faults\<close>

definition healthy :: "page_io \<Rightarrow> bool" where
  "healthy io \<longleftrightarrow> io_faults io = []"

named_theorems device "the operations of a device without faults"

lemma healthy_update [simp]: "healthy (io\<lparr>io_bytes := b\<rparr>) = healthy io"
  by (simp add: healthy_def)

lemma read_exact_at_healthy [device]:
  "healthy io \<Longrightarrow> off + length buf \<le> length (io_bytes io) \<Longrightarrow>
     read_exact_at off buf io = (Inr (), bytes_at off (length buf) (io_bytes io), io)"
  by (simp add: read_exact_at_def healthy_def)

lemma zero_extend_id [simp]: "n \<le> length xs \<Longrightarrow> zero_extend n xs = xs"
  by (simp add: zero_extend_def)

lemma length_zero_extend [simp]: "length (zero_extend n xs) = max n (length xs)"
  by (simp add: zero_extend_def)

lemma bytes_at_zero_extend [simp]:
  "off + n \<le> length xs \<Longrightarrow> bytes_at off n (zero_extend m xs) = bytes_at off n xs"
  by (simp add: zero_extend_def bytes_at_append_left)

lemma write_all_at_healthy [device]:
  "healthy io \<Longrightarrow> off \<le> length (io_bytes io) \<Longrightarrow>
     write_all_at off buf io = (Inr (), io\<lparr>io_bytes := put_at off buf (io_bytes io)\<rparr>)"
  by (simp add: write_all_at_def healthy_def)

lemma io_set_len_healthy [device]:
  "healthy io \<Longrightarrow> length (io_bytes io) \<le> n \<Longrightarrow>
     io_set_len n io = (Inr (), io\<lparr>io_bytes := zero_extend n (io_bytes io)\<rparr>)"
  by (simp add: io_set_len_def healthy_def)

lemma io_len_healthy [device]: "healthy io \<Longrightarrow> io_len io = (Inr (length (io_bytes io)), io)"
  by (simp add: io_len_def healthy_def)

lemma io_sync_all_healthy [device]: "healthy io \<Longrightarrow> io_sync_all io = (Inr (), io)"
  by (simp add: io_sync_all_def healthy_def)

end
