(* ===== verification/Page_File.thy ===== *)
theory Page_File
  imports Page_Io
begin

section \<open>Page files (\<open>src/storage/page/mod.rs\<close>)\<close>

text \<open>
  The file of fixed-size pages: its header with the head of the free list, one cached page,
  and the operations that allocate, read, write, dispose and flush.  Every operation takes
  the file and returns the result with the file it leaves behind, on errors too.
\<close>

subsection \<open>Constants, headers and errors\<close>

definition PAGE_HEADER_SIZE :: nat where
  [size_consts, simp]: "PAGE_HEADER_SIZE = 4"

definition PAGE_DATA_SIZE :: nat where
  [size_consts, simp]: "PAGE_DATA_SIZE = 4092"

definition PAGE_SIZE :: nat where
  [size_consts]: "PAGE_SIZE = PAGE_HEADER_SIZE + PAGE_DATA_SIZE"

definition FILE_HEADER_SIZE :: nat where
  [size_consts]: "FILE_HEADER_SIZE = PAGE_SIZE"

definition FREE_LIST_END :: i32 where
  [size_consts]: "FREE_LIST_END = -1"

definition PAGE_USED :: i32 where
  [size_consts]: "PAGE_USED = -2"

lemma page_sizes [simp]: "PAGE_SIZE = 4096" "FILE_HEADER_SIZE = 4096"
  by (simp_all add: size_consts)

datatype page_store_error =
    PS_Io io_error
  | InvalidPageId u32
  | PageAlreadyFree u32
  | PS_Corrupted string

record file_header =
  fh_first_free_page :: i32
  fh_num_pages :: u32

definition file_header_new :: file_header where
  "file_header_new = \<lparr>fh_first_free_page = FREE_LIST_END, fh_num_pages = 0\<rparr>"

definition file_header_encode :: "file_header \<Rightarrow> u8 list" where
  "file_header_encode h =
     put_at 4 (to_le_bytes (fh_num_pages h))
       (put_at 0 (to_le_bytes (fh_first_free_page h)) (replicate FILE_HEADER_SIZE 0))"

definition file_header_validate :: "file_header \<Rightarrow> page_store_error + unit" where
  "file_header_validate h =
     (if sint (fh_first_free_page h) < sint FREE_LIST_END
      then Inl (PS_Corrupted ''first_free_page is smaller than the free-list sentinel'')
      else if fh_first_free_page h \<noteq> FREE_LIST_END \<and> fh_num_pages h \<le> fh_first_free_page h
      then Inl (PS_Corrupted ''first_free_page points outside the current file'')
      else Inr ())"

definition file_header_decode :: "u8 list \<Rightarrow> page_store_error + file_header" where
  "file_header_decode buf =
     (let h = \<lparr>fh_first_free_page = from_le_bytes (bytes_at 0 4 buf),
               fh_num_pages = from_le_bytes (bytes_at 4 4 buf)\<rparr>
      in and_then (file_header_validate h) (\<lambda>_. Inr h))"

subsection \<open>The page file\<close>

record page_file =
  pf_io :: page_io
  pf_header :: file_header
  pf_header_dirty :: bool
  pf_loaded_page_id :: "u32 option"
  pf_loaded_page_dirty :: bool
  pf_loaded_page :: "u8 list"

abbreviation pf_num_pages :: "page_file \<Rightarrow> u32" where
  "pf_num_pages f \<equiv> fh_num_pages (pf_header f)"

abbreviation pf_first_free_page :: "page_file \<Rightarrow> i32" where
  "pf_first_free_page f \<equiv> fh_first_free_page (pf_header f)"

text \<open>An operation of the device, run on the file's device, its error converted.\<close>

definition on_device :: "(page_io \<Rightarrow> (io_error + 'a) \<times> page_io) \<Rightarrow> page_file \<Rightarrow> (page_store_error + 'a) \<times> page_file" where
  "on_device m f = (case m (pf_io f) of (r, io) \<Rightarrow> (map_err PS_Io r, f\<lparr>pf_io := io\<rparr>))"

definition page_offset :: "u32 \<Rightarrow> page_store_error + nat" where
  "page_offset pid =
     (if 2 ^ 64 \<le> unat pid * PAGE_SIZE then Inl (PS_Corrupted ''page offset overflow'')
      else ok_or (PS_Corrupted ''page offset overflow'')
             (checked_add_usize FILE_HEADER_SIZE (unat pid * PAGE_SIZE)))"

definition current_page_header :: "page_file \<Rightarrow> i32" where
  "current_page_header f = from_le_bytes (bytes_at 0 PAGE_HEADER_SIZE (pf_loaded_page f))"

definition write_current_page_header :: "i32 \<Rightarrow> page_file \<Rightarrow> page_file" where
  "write_current_page_header nxt f =
     f\<lparr>pf_loaded_page := put_at 0 (to_le_bytes nxt) (pf_loaded_page f)\<rparr>"

definition page_data :: "page_file \<Rightarrow> u8 list" where
  "page_data f = drop PAGE_HEADER_SIZE (pf_loaded_page f)"

text \<open>
  The mutable data slice of the cached page, and a write guard's use of it: the caller
  replaces the whole slice (a slice keeps its length, so the caller's data has it too).
\<close>

definition page_guard_store :: "u8 list \<Rightarrow> page_file \<Rightarrow> page_file" where
  "page_guard_store d f = f\<lparr>pf_loaded_page := put_at PAGE_HEADER_SIZE d (pf_loaded_page f)\<rparr>"

definition ensure_page_id_in_range :: "u32 \<Rightarrow> page_file \<Rightarrow> page_store_error + unit" where
  "ensure_page_id_in_range pid f =
     (if pf_num_pages f \<le> pid then Inl (InvalidPageId pid) else Inr ())"

definition ensure_current_page_is_used :: "u32 \<Rightarrow> page_file \<Rightarrow> page_store_error + unit" where
  "ensure_current_page_is_used pid f =
     (if current_page_header f \<noteq> PAGE_USED then Inl (InvalidPageId pid) else Inr ())"

definition flush_loaded_page :: "page_file \<Rightarrow> (page_store_error + unit) \<times> page_file" where
  "flush_loaded_page f =
     (case pf_loaded_page_id f of
        None \<Rightarrow> (Inr (), f)
      | Some pid \<Rightarrow>
          if \<not> pf_loaded_page_dirty f then (Inr (), f)
          else and_then_st (page_offset pid, f) (\<lambda>off f.
               and_then_st (on_device (write_all_at off (pf_loaded_page f)) f) (\<lambda>_ f.
                 (Inr (), f\<lparr>pf_loaded_page_dirty := False\<rparr>))))"

definition flush_header :: "page_file \<Rightarrow> (page_store_error + unit) \<times> page_file" where
  "flush_header f =
     (if \<not> pf_header_dirty f then (Inr (), f)
      else and_then_st (on_device (write_all_at 0 (file_header_encode (pf_header f))) f) (\<lambda>_ f.
             (Inr (), f\<lparr>pf_header_dirty := False\<rparr>)))"

definition page_flush :: "page_file \<Rightarrow> (page_store_error + unit) \<times> page_file" where
  "page_flush f =
     and_then_st (flush_loaded_page f) (\<lambda>_ f.
     and_then_st (flush_header f) (\<lambda>_ f.
     on_device io_sync_all f))"

text \<open>
  The read fills the cached page itself; a failure leaves what was read in it, under the
  identifier of the page cached before.
\<close>

definition load_page :: "u32 \<Rightarrow> page_file \<Rightarrow> (page_store_error + unit) \<times> page_file" where
  "load_page pid f =
     and_then_st (ensure_page_id_in_range pid f, f) (\<lambda>_ f.
       if pf_loaded_page_id f = Some pid then (Inr (), f)
       else and_then_st (flush_loaded_page f) (\<lambda>_ f.
            and_then_st (page_offset pid, f) (\<lambda>off f.
              case read_exact_at off (pf_loaded_page f) (pf_io f) of
                (r, buf, io) \<Rightarrow>
                  and_then_st (map_err PS_Io r, f\<lparr>pf_loaded_page := buf, pf_io := io\<rparr>) (\<lambda>_ f.
                    (Inr (), f\<lparr>pf_loaded_page_id := Some pid, pf_loaded_page_dirty := False\<rparr>)))))"

definition page_create :: "page_io \<Rightarrow> (page_store_error + unit) \<times> page_file" where
  "page_create io =
     (let f = \<lparr>pf_io = io, pf_header = file_header_new, pf_header_dirty = True,
               pf_loaded_page_id = None, pf_loaded_page_dirty = False,
               pf_loaded_page = replicate PAGE_SIZE 0\<rparr>
      in and_then_st (on_device (io_set_len FILE_HEADER_SIZE) f) (\<lambda>_ f.
         page_flush f))"

definition page_open :: "page_io \<Rightarrow> page_store_error + page_file" where
  "page_open io =
     (case io_len io of (r, io) \<Rightarrow>
      and_then (map_err PS_Io r) (\<lambda>len.
        if len < FILE_HEADER_SIZE
        then Inl (PS_Corrupted ''file is smaller than the mandatory file header'')
        else
          (case read_exact_at 0 (replicate FILE_HEADER_SIZE 0) io of (r, header_buf, io) \<Rightarrow>
           and_then (map_err PS_Io r) (\<lambda>_.
           and_then (file_header_decode header_buf) (\<lambda>header.
             if len < FILE_HEADER_SIZE + unat (fh_num_pages header) * PAGE_SIZE
             then Inl (PS_Corrupted ''file is shorter than the number of pages declared in the header'')
             else Inr \<lparr>pf_io = io, pf_header = header, pf_header_dirty = False,
                       pf_loaded_page_id = None, pf_loaded_page_dirty = False,
                       pf_loaded_page = replicate PAGE_SIZE 0\<rparr>)))))"

definition allocate_page :: "page_file \<Rightarrow> (page_store_error + u32) \<times> page_file" where
  "allocate_page f =
     and_then_st
       (if pf_first_free_page f \<noteq> FREE_LIST_END
        then
          (let pid = pf_first_free_page f in
           and_then_st (load_page pid f) (\<lambda>_ f.
             let nxt = current_page_header f;
                 f = f\<lparr>pf_header := (pf_header f)\<lparr>fh_first_free_page := nxt\<rparr>\<rparr>;
                 f = write_current_page_header PAGE_USED f;
                 f = page_guard_store (replicate PAGE_DATA_SIZE 0) f
             in (Inr pid, f)))
        else
          (let pid = pf_num_pages f in
           and_then_st (flush_loaded_page f) (\<lambda>_ f.
           and_then_st (ok_or (PS_Corrupted ''page count overflow'')
                          (checked_add_u32 (pf_num_pages f) 1), f) (\<lambda>num f.
             let f = f\<lparr>pf_header := (pf_header f)\<lparr>fh_num_pages := num\<rparr>\<rparr> in
             and_then_st
               (on_device (io_set_len (FILE_HEADER_SIZE + unat (pf_num_pages f) * PAGE_SIZE)) f) (\<lambda>_ f.
               let f = f\<lparr>pf_loaded_page := replicate PAGE_SIZE 0, pf_loaded_page_id := Some pid,
                         pf_loaded_page_dirty := True\<rparr>
               in (Inr pid, write_current_page_header PAGE_USED f))))))
       (\<lambda>pid f. (Inr pid, f\<lparr>pf_header_dirty := True, pf_loaded_page_dirty := True\<rparr>))"

definition read_page :: "u32 \<Rightarrow> page_file \<Rightarrow> (page_store_error + u8 list) \<times> page_file" where
  "read_page pid f =
     and_then_st (load_page pid f) (\<lambda>_ f.
     and_then_st (ensure_current_page_is_used pid f, f) (\<lambda>_ f.
       (Inr (page_data f), f)))"

definition write_page :: "u32 \<Rightarrow> page_file \<Rightarrow> (page_store_error + unit) \<times> page_file" where
  "write_page pid f =
     and_then_st (load_page pid f) (\<lambda>_ f.
     and_then_st (ensure_current_page_is_used pid f, f) (\<lambda>_ f.
       (Inr (), f\<lparr>pf_loaded_page_dirty := True\<rparr>)))"

definition dispose_page :: "u32 \<Rightarrow> page_file \<Rightarrow> (page_store_error + unit) \<times> page_file" where
  "dispose_page pid f =
     and_then_st (load_page pid f) (\<lambda>_ f.
       if current_page_header f \<noteq> PAGE_USED then (Inl (PageAlreadyFree pid), f)
       else
         (let f = page_guard_store (replicate PAGE_DATA_SIZE 0) f;
              f = write_current_page_header (pf_first_free_page f) f;
              f = f\<lparr>pf_header := (pf_header f)\<lparr>fh_first_free_page := pid\<rparr>\<rparr>
          in (Inr (), f\<lparr>pf_header_dirty := True, pf_loaded_page_dirty := True\<rparr>)))"

text \<open>Dropping a page file flushes it and ignores the outcome.\<close>

definition page_file_drop :: "page_file \<Rightarrow> page_file" where
  "page_file_drop f = snd (page_flush f)"

end
