(* ===== verification/Page_Spec.thy ===== *)
theory Page_Spec
  imports Page_File
begin

section \<open>Page files: layout invariant, free list and refinement\<close>

text \<open>
  The contents of a page are those of the cached copy where the page is the cached one and
  those on the device otherwise.  The layout invariant relates the record to the device, the
  free-list invariant says that the chain through the page headers enumerates the pages not
  in use, and \<open>page_refines\<close> relates a file to an abstract store: a map from page identifiers
  to data, a stack of free identifiers and a page count.
\<close>

definition disk_page :: "page_io \<Rightarrow> u32 \<Rightarrow> u8 list" where
  "disk_page io p = bytes_at (4096 + unat p * 4096) 4096 (io_bytes io)"

definition page_image :: "page_file \<Rightarrow> u32 \<Rightarrow> u8 list" where
  "page_image f p =
     (if pf_loaded_page_id f = Some p then pf_loaded_page f else disk_page (pf_io f) p)"

definition next_free :: "page_file \<Rightarrow> u32 \<Rightarrow> i32" where
  "next_free f p = from_le_bytes (bytes_at 0 4 (page_image f p))"

definition page_content :: "page_file \<Rightarrow> u32 \<Rightarrow> u8 list option" where
  "page_content f p =
     (if p < pf_num_pages f \<and> next_free f p = PAGE_USED then Some (drop 4 (page_image f p)) else None)"

definition pf_layout :: "page_file \<Rightarrow> bool" where
  "pf_layout f \<longleftrightarrow>
     healthy (pf_io f) \<and>
     length (pf_loaded_page f) = 4096 \<and>
     4096 + unat (pf_num_pages f) * 4096 \<le> length (io_bytes (pf_io f)) \<and>
     (\<forall>p. pf_loaded_page_id f = Some p \<longrightarrow> p < pf_num_pages f \<and>
        (pf_loaded_page_dirty f \<or> pf_loaded_page f = disk_page (pf_io f) p)) \<and>
     (\<not> pf_header_dirty f \<longrightarrow>
        bytes_at 0 4096 (io_bytes (pf_io f)) = file_header_encode (pf_header f))"

primrec free_chain :: "(u32 \<Rightarrow> i32) \<Rightarrow> i32 \<Rightarrow> u32 list \<Rightarrow> bool" where
  "free_chain nxt i [] \<longleftrightarrow> i = -1"
| "free_chain nxt i (p # ps) \<longleftrightarrow> i = p \<and> free_chain nxt (nxt p) ps"

definition pf_free :: "page_file \<Rightarrow> u32 list \<Rightarrow> bool" where
  "pf_free f ps \<longleftrightarrow>
     free_chain (next_free f) (pf_first_free_page f) ps \<and> distinct ps \<and>
     (\<forall>p. p \<in> set ps \<longleftrightarrow> p < pf_num_pages f \<and> next_free f p \<noteq> PAGE_USED) \<and>
     (\<forall>p \<in> set ps. unat p < 2 ^ 31)"

definition page_file_ok :: "page_file \<Rightarrow> bool" where
  "page_file_ok f \<longleftrightarrow> pf_layout f \<and> (\<exists>ps. pf_free f ps)"

subsection \<open>Offsets and headers\<close>

lemma page_offset_ok [simp]: "page_offset pid = Inr (4096 + unat pid * 4096)"
  using unat_u32_less [of pid] by (simp add: page_offset_def checked_add_usize_def)

lemma page_slots_disjoint:
  "p \<noteq> q \<Longrightarrow> 4096 + unat p * 4096 + 4096 \<le> 4096 + unat q * 4096 \<or>
     4096 + unat q * 4096 + 4096 \<le> 4096 + unat (p :: u32) * 4096"
  by (cases "unat p" "unat q" rule: linorder_cases) (auto simp: word_unat_eq_iff)

lemma page_slot_inside:
  "p < n \<Longrightarrow> 4096 + unat (n :: u32) * 4096 \<le> len \<Longrightarrow> 4096 + unat p * 4096 + 4096 \<le> len"
  by (auto simp: word_less_nat_alt)

lemma length_disk_page:
  "p < n \<Longrightarrow> 4096 + unat (n :: u32) * 4096 \<le> length (io_bytes io) \<Longrightarrow> length (disk_page io p) = 4096"
  unfolding disk_page_def by (intro length_bytes_at page_slot_inside)

lemma length_file_header_encode [simp]: "length (file_header_encode h) = 4096"
  by (simp add: file_header_encode_def del: put_at_0)

lemma file_header_decode_encode_any:
  "file_header_decode (file_header_encode h) = and_then (file_header_validate h) (\<lambda>_. Inr h)"
proof -
  have "bytes_at 0 4 (file_header_encode h) = to_le_bytes (fh_first_free_page h)"
    "bytes_at 4 4 (file_header_encode h) = to_le_bytes (fh_num_pages h)"
    by (simp_all add: file_header_encode_def bytes_at_put_at_disjoint bytes_at_put_at_same del: put_at_0)
  then show ?thesis by (cases h) (simp add: file_header_decode_def Let_def)
qed

lemma file_header_decode_encode:
  "file_header_validate h = Inr () \<Longrightarrow> file_header_decode (file_header_encode h) = Inr h"
  by (simp add: file_header_decode_encode_any)

subsection \<open>The cached page\<close>

definition same_pages :: "page_file \<Rightarrow> page_file \<Rightarrow> bool" where
  "same_pages f g \<longleftrightarrow>
     pf_header g = pf_header f \<and> pf_header_dirty g = pf_header_dirty f \<and>
     (\<forall>p < pf_num_pages f. page_image g p = page_image f p)"

lemma length_page_image:
  "pf_layout f \<Longrightarrow> p < pf_num_pages f \<Longrightarrow> length (page_image f p) = 4096"
  by (auto simp: page_image_def pf_layout_def length_disk_page)

lemma disk_page_put_page:
  assumes "p < n" "q < n" "4096 + unat n * 4096 \<le> length (io_bytes io)" "length L = 4096"
  shows "disk_page (io\<lparr>io_bytes := put_at (4096 + unat p * 4096) L (io_bytes io)\<rparr>) q =
    (if q = p then L else disk_page io q)"
  using assms page_slot_inside [OF assms(1,3)] page_slot_inside [OF assms(2,3)]
    page_slots_disjoint [of p q]
  by (auto simp: disk_page_def bytes_at_put_at_same bytes_at_put_at_disjoint)

lemma header_put_page:
  assumes "p < n" "4096 + unat (n :: u32) * 4096 \<le> length xs" "length L = 4096"
  shows "bytes_at 0 4096 (put_at (4096 + unat p * 4096) L xs) = bytes_at 0 4096 xs"
  using assms page_slot_inside [OF assms(1,2)] by (intro bytes_at_put_at_disjoint) auto

lemma flush_loaded_page_ok:
  assumes "pf_layout f"
  shows "\<exists>g. flush_loaded_page f = (Inr (), g) \<and> pf_layout g \<and> same_pages f g \<and>
    pf_loaded_page_id g = pf_loaded_page_id f \<and> pf_loaded_page g = pf_loaded_page f \<and>
    (\<forall>p. pf_loaded_page_id g = Some p \<longrightarrow> pf_loaded_page g = disk_page (pf_io g) p \<and>
        \<not> pf_loaded_page_dirty g)"
proof (cases "pf_loaded_page_id f")
  case None
  then show ?thesis using assms by (auto simp: flush_loaded_page_def same_pages_def)
next
  case (Some p)
  show ?thesis
  proof (cases "pf_loaded_page_dirty f")
    case False
    then show ?thesis using assms Some
      by (auto simp: flush_loaded_page_def same_pages_def pf_layout_def)
  next
    case True
    let ?io = "(pf_io f)\<lparr>io_bytes := put_at (4096 + unat p * 4096) (pf_loaded_page f) (io_bytes (pf_io f))\<rparr>"
    let ?g = "f\<lparr>pf_io := ?io, pf_loaded_page_dirty := False\<rparr>"
    from assms Some have lay: "p < pf_num_pages f" "healthy (pf_io f)" "length (pf_loaded_page f) = 4096"
      "4096 + unat (pf_num_pages f) * 4096 \<le> length (io_bytes (pf_io f))"
      by (auto simp: pf_layout_def)
    note inside = page_slot_inside [OF lay(1,4)]
    have run: "flush_loaded_page f = (Inr (), ?g)"
      using Some True lay inside
      by (simp add: flush_loaded_page_def on_device_def write_all_at_healthy)
    have disk: "disk_page ?io q = (if q = p then pf_loaded_page f else disk_page (pf_io f) q)"
      if "q < pf_num_pages f" for q
      using disk_page_put_page [OF lay(1) that lay(4,3)] .
    have "pf_layout ?g"
      using assms Some lay inside disk header_put_page [OF lay(1,4,3)]
      by (auto simp: pf_layout_def simp del: put_at_0)
    moreover have "same_pages f ?g"
      using Some disk by (auto simp: same_pages_def page_image_def)
    ultimately show ?thesis using run Some disk [OF lay(1)] by auto
  qed
qed

lemma load_page_ok:
  assumes "pf_layout f" and "p < pf_num_pages f"
  shows "\<exists>g. load_page p f = (Inr (), g) \<and> pf_layout g \<and> same_pages f g \<and> pf_loaded_page_id g = Some p"
proof (cases "pf_loaded_page_id f = Some p")
  case True
  then show ?thesis using assms
    by (auto simp: load_page_def ensure_page_id_in_range_def same_pages_def)
next
  case False
  obtain g where g: "flush_loaded_page f = (Inr (), g)" "pf_layout g" "same_pages f g"
    "\<forall>q. pf_loaded_page_id g = Some q \<longrightarrow> pf_loaded_page g = disk_page (pf_io g) q"
    using flush_loaded_page_ok [OF assms(1)] by blast
  let ?h = "g\<lparr>pf_loaded_page := disk_page (pf_io g) p, pf_loaded_page_id := Some p,
      pf_loaded_page_dirty := False\<rparr>"
  have lay: "healthy (pf_io g)" "length (pf_loaded_page g) = 4096" "p < pf_num_pages g"
    "4096 + unat (pf_num_pages g) * 4096 \<le> length (io_bytes (pf_io g))"
    using g(2,3) assms(2) by (auto simp: pf_layout_def same_pages_def)
  note inside = page_slot_inside [OF lay(3,4)]
  have "load_page p f = (Inr (), ?h)"
    using False assms(2) g(1) lay inside
    by (simp add: load_page_def ensure_page_id_in_range_def read_exact_at_healthy disk_page_def)
  moreover have "pf_layout ?h"
    using g(2) lay by (auto simp: pf_layout_def length_disk_page)
  moreover have "page_image ?h q = page_image g q" for q
    using g(4) by (auto simp: page_image_def)
  then have "same_pages f ?h"
    using g(3) by (simp add: same_pages_def)
  ultimately show ?thesis by auto
qed

lemma load_page_range:
  "pf_num_pages f \<le> p \<Longrightarrow> load_page p f = (Inl (InvalidPageId p), f)"
  by (simp add: load_page_def ensure_page_id_in_range_def)

text \<open>Writing the cached page changes the image of that page only.\<close>

lemma page_image_set_loaded:
  assumes "pf_loaded_page_id f = Some p"
  shows "page_image (f\<lparr>pf_header := h, pf_header_dirty := hdirty, pf_loaded_page := L, pf_loaded_page_dirty := d\<rparr>) q =
    (if q = p then L else page_image f q)"
  using assms by (simp add: page_image_def)

lemma layout_set_loaded:
  assumes "pf_layout f" and "pf_loaded_page_id f = Some p" and "length L = 4096"
    and "fh_num_pages h = pf_num_pages f" and "\<not> hdirty \<longrightarrow> \<not> pf_header_dirty f \<and> h = pf_header f"
  shows "pf_layout (f\<lparr>pf_header := h, pf_header_dirty := hdirty, pf_loaded_page := L, pf_loaded_page_dirty := True\<rparr>)"
  using assms by (auto simp: pf_layout_def)


lemma same_pages_next_free:
  "same_pages f g \<Longrightarrow> p < pf_num_pages f \<Longrightarrow> next_free g p = next_free f p"
  by (simp add: same_pages_def next_free_def)

lemma same_pages_content: "same_pages f g \<Longrightarrow> page_content g = page_content f"
  by (rule ext) (auto simp: page_content_def next_free_def same_pages_def)

lemma free_chain_cong:
  "(\<And>p. p \<in> set ps \<Longrightarrow> n p = m p) \<Longrightarrow> free_chain n i ps = free_chain m i ps"
  by (induction ps arbitrary: i) auto

lemma same_pages_free: "same_pages f g \<Longrightarrow> pf_free f ps \<Longrightarrow> pf_free g ps"
  using free_chain_cong [of ps "next_free f" "next_free g"]
  by (auto simp: pf_free_def same_pages_next_free) (auto simp: same_pages_def same_pages_next_free)

lemma same_pages_trans: "same_pages f g \<Longrightarrow> same_pages g h \<Longrightarrow> same_pages f h"
  by (auto simp: same_pages_def)

subsection \<open>The abstract page store\<close>

record page_store_spec =
  sp_pages :: "u32 \<Rightarrow> u8 list option"
  sp_free :: "u32 list"
  sp_num :: u32

definition page_refines :: "page_file \<Rightarrow> page_store_spec \<Rightarrow> bool" where
  "page_refines f a \<longleftrightarrow>
     pf_layout f \<and> pf_free f (sp_free a) \<and> page_content f = sp_pages a \<and> pf_num_pages f = sp_num a"

definition sp_empty :: page_store_spec where
  "sp_empty = \<lparr>sp_pages = Map.empty, sp_free = [], sp_num = 0\<rparr>"

definition sp_allocate :: "page_store_spec \<Rightarrow> (page_store_error + u32) \<times> page_store_spec" where
  "sp_allocate a =
     (case sp_free a of
        p # ps \<Rightarrow> (Inr p, a\<lparr>sp_pages := (sp_pages a)(p \<mapsto> replicate 4092 0), sp_free := ps\<rparr>)
      | [] \<Rightarrow>
          if unat (sp_num a) = 2 ^ 32 - 1 then (Inl (PS_Corrupted ''page count overflow''), a)
          else (Inr (sp_num a),
                a\<lparr>sp_pages := (sp_pages a)(sp_num a \<mapsto> replicate 4092 0), sp_num := sp_num a + 1\<rparr>))"

definition sp_read :: "u32 \<Rightarrow> page_store_spec \<Rightarrow> (page_store_error + u8 list) \<times> page_store_spec" where
  "sp_read p a = (case sp_pages a p of None \<Rightarrow> (Inl (InvalidPageId p), a) | Some d \<Rightarrow> (Inr d, a))"

definition sp_store :: "u32 \<Rightarrow> u8 list \<Rightarrow> page_store_spec \<Rightarrow> (page_store_error + unit) \<times> page_store_spec" where
  "sp_store p d a =
     (case sp_pages a p of
        None \<Rightarrow> (Inl (InvalidPageId p), a)
      | Some _ \<Rightarrow> (Inr (), a\<lparr>sp_pages := (sp_pages a)(p \<mapsto> d)\<rparr>))"

definition sp_dispose :: "u32 \<Rightarrow> page_store_spec \<Rightarrow> (page_store_error + unit) \<times> page_store_spec" where
  "sp_dispose p a =
     (if sp_num a \<le> p then (Inl (InvalidPageId p), a)
      else case sp_pages a p of
        None \<Rightarrow> (Inl (PageAlreadyFree p), a)
      | Some _ \<Rightarrow> (Inr (), a\<lparr>sp_pages := (sp_pages a)(p := None), sp_free := p # sp_free a\<rparr>))"

text \<open>A write through the guard of \<open>write_page\<close>: the caller replaces the page data.\<close>

definition store_page :: "u32 \<Rightarrow> u8 list \<Rightarrow> page_file \<Rightarrow> (page_store_error + unit) \<times> page_file" where
  "store_page p d f = and_then_st (write_page p f) (\<lambda>_ f. (Inr (), page_guard_store d f))"

definition simulates :: "('e + 'a) \<times> page_file \<Rightarrow> ('e + 'a) \<times> page_store_spec \<Rightarrow> bool" where
  "simulates r s \<longleftrightarrow> fst r = fst s \<and> page_refines (snd r) (snd s)"

lemma page_refines_same_pages: "page_refines f a \<Longrightarrow> pf_layout g \<Longrightarrow> same_pages f g \<Longrightarrow> page_refines g a"
  by (auto simp: page_refines_def same_pages_free same_pages_content) (simp add: same_pages_def)

lemma page_content_length: "pf_layout f \<Longrightarrow> page_content f p = Some d \<Longrightarrow> length d = 4092"
  by (auto simp: page_content_def length_page_image split: if_splits)

lemma free_chain_Cons_D:
  "pf_free f (p # ps) \<Longrightarrow> pf_first_free_page f = p \<and> p < pf_num_pages f \<and> next_free f p \<noteq> PAGE_USED
     \<and> free_chain (next_free f) (next_free f p) ps"
  by (auto simp: pf_free_def)

lemma pf_free_first:
  assumes "pf_free f ps"
  shows "pf_first_free_page f = FREE_LIST_END \<longleftrightarrow> ps = []"
proof (cases ps)
  case Nil
  then show ?thesis using assms by (simp add: pf_free_def FREE_LIST_END_def)
next
  case (Cons p qs)
  have "unat p < 2 ^ 31" "pf_first_free_page f = p"
    using assms Cons by (auto simp: pf_free_def)
  moreover have "unat (-1 :: u32) = 2 ^ 32 - 1" by (simp add: unsigned_minus_1_eq_mask mask_eq_exp_minus_1)
  ultimately show ?thesis using Cons by (auto simp: FREE_LIST_END_def)
qed

lemma current_page_header_image:
  "pf_loaded_page_id f = Some p \<Longrightarrow> current_page_header f = next_free f p"
  by (simp add: current_page_header_def next_free_def page_image_def)

text \<open>Every load of a page in range leads to a state that refines the same store.\<close>

lemma load_page_refines:
  assumes "page_refines f a" and "p < sp_num a"
  obtains g where "load_page p f = (Inr (), g)" and "page_refines g a"
    and "pf_loaded_page_id g = Some p" and "current_page_header g = next_free g p"
proof -
  have "pf_layout f" "p < pf_num_pages f" using assms by (auto simp: page_refines_def)
  then obtain g where g: "load_page p f = (Inr (), g)" "pf_layout g" "same_pages f g" "pf_loaded_page_id g = Some p"
    using load_page_ok by blast
  then show thesis
    using that page_refines_same_pages [OF assms(1)] current_page_header_image by blast
qed

lemma page_refines_content: "page_refines f a \<Longrightarrow> sp_pages a p = page_content f p"
  by (simp add: page_refines_def)

lemma page_refines_used:
  assumes "page_refines f a" and "p < sp_num a"
  shows "next_free f p = PAGE_USED \<longleftrightarrow> sp_pages a p \<noteq> None"
proof -
  have "p < pf_num_pages f" using assms by (simp add: page_refines_def)
  then have "next_free f p = PAGE_USED \<longleftrightarrow> page_content f p \<noteq> None"
    by (simp add: page_content_def)
  then show ?thesis using page_refines_content [OF assms(1)] by simp
qed

lemma page_refines_image:
  "page_refines f a \<Longrightarrow> sp_pages a p = Some d \<Longrightarrow> p < sp_num a \<and> d = drop 4 (page_image f p)"
  by (auto simp: page_refines_def page_content_def dest!: fun_cong [of _ _ p] split: if_splits)

end
