(* ===== verification/Page_Ops.thy ===== *)
theory Page_Ops
  imports Page_Spec
begin

section \<open>The operations of a page file refine the abstract page store\<close>

subsection \<open>Rewriting the cached page\<close>

lemma current_page_header_write [simp]:
  "length (pf_loaded_page f) = 4096 \<Longrightarrow> current_page_header (write_current_page_header h f) = h"
  by (simp add: current_page_header_def write_current_page_header_def bytes_at_put_at_same del: put_at_0)

lemma rewrite_cached_page:
  assumes "page_refines f a" and "pf_loaded_page_id f = Some p" and "length L = 4096"
    and "fh_num_pages h = pf_num_pages f" and "hdirty \<or> \<not> pf_header_dirty f \<and> h = pf_header f"
  defines "g \<equiv> f\<lparr>pf_header := h, pf_header_dirty := hdirty, pf_loaded_page := L, pf_loaded_page_dirty := True\<rparr>"
  shows "pf_layout g"
    and "next_free g = (next_free f)(p := from_le_bytes (bytes_at 0 4 L))"
    and "page_content g =
      (page_content f)(p := if from_le_bytes (bytes_at 0 4 L) = PAGE_USED then Some (drop 4 L) else None)"
    and "pf_num_pages g = sp_num a" and "pf_first_free_page g = fh_first_free_page h"
proof -
  have pn: "p < pf_num_pages f" using assms(1,2) by (auto simp: page_refines_def pf_layout_def)
  show "pf_layout g"
    unfolding g_def using assms(1-5) by (intro layout_set_loaded) (auto simp: page_refines_def)
  show nf: "next_free g = (next_free f)(p := from_le_bytes (bytes_at 0 4 L))"
    unfolding g_def using assms(2) by (auto simp: next_free_def page_image_set_loaded)
  show "pf_num_pages g = sp_num a" "pf_first_free_page g = fh_first_free_page h"
    using assms(1,4) by (auto simp: g_def page_refines_def)
  show "page_content g =
      (page_content f)(p := if from_le_bytes (bytes_at 0 4 L) = PAGE_USED then Some (drop 4 L) else None)"
  proof (rule ext)
    fix q
    have "page_image g q = (if q = p then L else page_image f q)"
      unfolding g_def using assms(2) by (rule page_image_set_loaded)
    then show "page_content g q = ((page_content f)(p :=
        if from_le_bytes (bytes_at 0 4 L) = PAGE_USED then Some (drop 4 L) else None)) q"
      using nf pn assms(4) by (auto simp: page_content_def g_def)
  qed
qed

lemma cached_layout:
  "page_refines f a \<Longrightarrow> pf_loaded_page_id f = Some p \<Longrightarrow>
     length (pf_loaded_page f) = 4096 \<and> p < sp_num a \<and> page_image f p = pf_loaded_page f"
  by (auto simp: page_refines_def pf_layout_def page_image_def)

lemma page_bytes_data:
  "length L = 4096 \<Longrightarrow> length d = 4092 \<Longrightarrow> drop 4 (put_at 4 d L) = d \<and>
     bytes_at 0 4 (put_at 4 d L) = bytes_at 0 4 L \<and> length (put_at 4 d L) = 4096"
  by (simp add: bytes_at_def put_at_def)

lemma page_bytes_header:
  "length L = 4096 \<Longrightarrow> bytes_at 0 4 (put_at 0 (to_le_bytes h) L) = to_le_bytes h \<and>
     drop 4 (put_at 0 (to_le_bytes h) L) = drop 4 L \<and> length (put_at 0 (to_le_bytes h) L) = 4096"
  by (simp add: bytes_at_def put_at_def)

lemma free_chain_update:
  "p \<notin> set ps \<Longrightarrow> free_chain (n(p := x)) i ps = free_chain n i ps"
  by (rule free_chain_cong) auto

subsection \<open>Reading and writing a used page\<close>

lemma read_page_simulates:
  assumes "page_refines f a"
  shows "simulates (read_page p f) (sp_read p a)"
proof (cases "p < sp_num a")
  case False
  then show ?thesis using assms
    by (auto simp: simulates_def read_page_def sp_read_def load_page_range page_refines_def
        page_content_def split: option.splits dest!: fun_cong [of _ _ p])
next
  case True
  obtain g where g: "load_page p f = (Inr (), g)" "page_refines g a" "pf_loaded_page_id g = Some p"
    "current_page_header g = next_free g p"
    using load_page_refines [OF assms True] .
  then show ?thesis
    using page_refines_used [OF g(2) True] page_refines_image [OF g(2), of p] cached_layout [OF g(2,3)]
    by (auto simp: simulates_def read_page_def sp_read_def ensure_current_page_is_used_def page_data_def
        split: option.splits)
qed

lemma store_page_simulates:
  assumes ref: "page_refines f a" and len: "length d = 4092"
  shows "simulates (store_page p d f) (sp_store p d a)"
proof (cases "p < sp_num a")
  case False
  then show ?thesis using assms
    by (auto simp: simulates_def store_page_def write_page_def sp_store_def load_page_range page_refines_def
        page_content_def split: option.splits dest!: fun_cong [of _ _ p])
next
  case True
  obtain g where g: "load_page p f = (Inr (), g)" "page_refines g a" "pf_loaded_page_id g = Some p"
    "current_page_header g = next_free g p"
    using load_page_refines [OF ref True] .
  note lay = cached_layout [OF g(2,3)]
  note used = page_refines_used [OF g(2) True]
  show ?thesis
  proof (cases "sp_pages a p")
    case None
    then show ?thesis using g used
      by (simp add: simulates_def store_page_def write_page_def sp_store_def ensure_current_page_is_used_def)
  next
    case (Some old)
    let ?L = "put_at 4 d (pf_loaded_page g)"
    let ?h = "g\<lparr>pf_header := pf_header g, pf_header_dirty := pf_header_dirty g,
      pf_loaded_page := ?L, pf_loaded_page_dirty := True\<rparr>"
    have run: "store_page p d f = (Inr (), ?h)"
      using g used Some
      by (simp add: store_page_def write_page_def ensure_current_page_is_used_def page_guard_store_def)
    have hdr: "from_le_bytes (bytes_at 0 4 ?L) = PAGE_USED"
      using used Some g(4) lay len by (simp add: next_free_def page_bytes_data)
    have lenL: "length ?L = 4096" using lay len by simp
    note rw = rewrite_cached_page [OF g(2,3) lenL, of "pf_header g" "pf_header_dirty g"]
    have nf: "next_free ?h = next_free g" and con: "page_content ?h = (page_content g)(p \<mapsto> d)"
      and layout: "pf_layout ?h"
      using rw Some hdr used lay len by (auto simp: page_bytes_data)
    then have "page_refines ?h (a\<lparr>sp_pages := (sp_pages a)(p \<mapsto> d)\<rparr>)"
      using g(2) by (auto simp: page_refines_def pf_free_def)
    then show ?thesis
      using run Some by (simp add: simulates_def sp_store_def)
  qed
qed

subsection \<open>Disposing and allocating\<close>

lemma dispose_page_simulates:
  assumes ref: "page_refines f a" and small: "unat p < 2 ^ 31"
  shows "simulates (dispose_page p f) (sp_dispose p a)"
proof (cases "p < sp_num a")
  case False
  then show ?thesis using ref
    by (auto simp: simulates_def dispose_page_def sp_dispose_def load_page_range page_refines_def not_less)
next
  case True
  obtain g where g: "load_page p f = (Inr (), g)" "page_refines g a" "pf_loaded_page_id g = Some p"
    "current_page_header g = next_free g p"
    using load_page_refines [OF ref True] .
  note lay = cached_layout [OF g(2,3)]
  note used = page_refines_used [OF g(2) True]
  show ?thesis
  proof (cases "sp_pages a p")
    case None
    then show ?thesis using g used True
      by (simp add: simulates_def dispose_page_def sp_dispose_def not_le)
  next
    case (Some old)
    let ?i = "pf_first_free_page g"
    let ?L = "put_at 0 (to_le_bytes ?i) (put_at 4 (replicate 4092 0) (pf_loaded_page g))"
    let ?hd = "(pf_header g)\<lparr>fh_first_free_page := p\<rparr>"
    let ?h = "g\<lparr>pf_header := ?hd, pf_header_dirty := True, pf_loaded_page := ?L, pf_loaded_page_dirty := True\<rparr>"
    have run: "dispose_page p f = (Inr (), ?h)"
      using g used Some
      by (simp add: dispose_page_def page_guard_store_def write_current_page_header_def Let_def)
    have hdr: "from_le_bytes (bytes_at 0 4 ?L) = ?i" and lenL: "length ?L = 4096"
      using lay by (simp_all add: page_bytes_data page_bytes_header del: put_at_0)
    have free: "pf_free g (sp_free a)" using g(2) by (simp add: page_refines_def)
    have i: "?i \<noteq> PAGE_USED"
    proof (cases "sp_free a")
      case Nil
      then show ?thesis using pf_free_first [OF free] by (simp add: size_consts)
    next
      case (Cons q qs)
      then have "unat ?i < 2 ^ 31" using free by (auto simp: pf_free_def)
      then show ?thesis by (auto simp: PAGE_USED_def)
    qed
    note rw = rewrite_cached_page [OF g(2,3) lenL, of ?hd True]
    have nf: "next_free ?h = (next_free g)(p := ?i)" and con: "page_content ?h = (page_content g)(p := None)"
      and layout: "pf_layout ?h" and num: "pf_num_pages ?h = sp_num a" and first: "pf_first_free_page ?h = p"
      using rw hdr i by simp_all
    have p: "p \<notin> set (sp_free a)" using free used Some by (auto simp: pf_free_def)
    have "pf_free ?h (p # sp_free a)"
      using free p nf num first i small True g(2)
      by (auto simp: pf_free_def free_chain_update page_refines_def)
    then have "page_refines ?h (a\<lparr>sp_pages := (sp_pages a)(p := None), sp_free := p # sp_free a\<rparr>)"
      using g(2) layout con num by (simp add: page_refines_def)
    then show ?thesis
      using run Some True by (simp add: simulates_def sp_dispose_def not_le)
  qed
qed

lemma allocate_reuses_free_page:
  assumes ref: "page_refines f a" and free: "sp_free a = p # ps"
  shows "simulates (allocate_page f) (sp_allocate a)"
proof -
  have "pf_first_free_page f = p" "p < sp_num a" "pf_first_free_page f \<noteq> FREE_LIST_END"
    using ref free pf_free_first [of f "p # ps"] by (auto simp: page_refines_def dest: free_chain_Cons_D)
  note first = this
  obtain g where g: "load_page p f = (Inr (), g)" "page_refines g a" "pf_loaded_page_id g = Some p"
    "current_page_header g = next_free g p"
    using load_page_refines [OF ref first(2)] .
  note lay = cached_layout [OF g(2,3)]
  let ?L = "put_at 4 (replicate 4092 0) (put_at 0 (to_le_bytes PAGE_USED) (pf_loaded_page g))"
  let ?hd = "(pf_header g)\<lparr>fh_first_free_page := next_free g p\<rparr>"
  let ?h = "g\<lparr>pf_header := ?hd, pf_header_dirty := True, pf_loaded_page := ?L, pf_loaded_page_dirty := True\<rparr>"
  have run: "allocate_page f = (Inr p, ?h)"
    using g first
    by (simp add: allocate_page_def page_guard_store_def write_current_page_header_def Let_def)
  have hdr: "from_le_bytes (bytes_at 0 4 ?L) = PAGE_USED" and lenL: "length ?L = 4096"
    and data: "drop 4 ?L = replicate 4092 0"
    using lay by (simp_all add: page_bytes_data page_bytes_header del: put_at_0)
  note rw = rewrite_cached_page [OF g(2,3) lenL, of ?hd True]
  have nf: "next_free ?h = (next_free g)(p := PAGE_USED)"
    and con: "page_content ?h = (page_content g)(p \<mapsto> replicate 4092 0)"
    and layout: "pf_layout ?h" and num: "pf_num_pages ?h = sp_num a"
    and fst: "pf_first_free_page ?h = next_free g p"
    using rw hdr data by simp_all
  have gfree: "pf_free g (p # ps)" using g(2) free by (simp add: page_refines_def)
  have "pf_free ?h ps"
    using gfree free_chain_Cons_D [OF gfree] nf num fst g(2)
    by (auto simp: pf_free_def free_chain_update page_refines_def)
  then have "page_refines ?h (a\<lparr>sp_pages := (sp_pages a)(p \<mapsto> replicate 4092 0), sp_free := ps\<rparr>)"
    using g(2) layout con num by (simp add: page_refines_def)
  then show ?thesis using run free by (simp add: simulates_def sp_allocate_def)
qed

lemma disk_page_extend:
  "p < n \<Longrightarrow> 4096 + unat n * 4096 \<le> length (io_bytes io) \<Longrightarrow>
     disk_page (io\<lparr>io_bytes := zero_extend m (io_bytes io)\<rparr>) p = disk_page io p"
  using page_slot_inside [of p n "length (io_bytes io)"] by (simp add: disk_page_def)

lemma less_Suc_word: "unat n < 4294967295 \<Longrightarrow> q < n + 1 \<longleftrightarrow> q < n \<or> q = (n :: u32)"
  using checked_add_u32_one [of n] by (auto simp: word_less_nat_alt word_unat_eq_iff)

lemma allocate_extends_file:
  assumes ref: "page_refines f a" and free: "sp_free a = []"
  shows "simulates (allocate_page f) (sp_allocate a)"
proof -
  have first: "pf_first_free_page f = FREE_LIST_END" and lf: "pf_layout f" and numf: "pf_num_pages f = sp_num a"
    using ref free pf_free_first [of f "[]"] by (auto simp: page_refines_def)
  obtain g where g: "flush_loaded_page f = (Inr (), g)" "pf_layout g" "same_pages f g"
    "\<forall>p. pf_loaded_page_id g = Some p \<longrightarrow> pf_loaded_page g = disk_page (pf_io g) p"
    using flush_loaded_page_ok [OF lf] by blast
  have gref: "page_refines g a" by (rule page_refines_same_pages [OF ref g(2,3)])
  let ?n = "sp_num a"
  show ?thesis
  proof (cases "unat ?n = 4294967295")
    case True
    then show ?thesis using first g(1,3) gref free
      by (simp add: simulates_def allocate_page_def sp_allocate_def checked_add_u32_def page_refines_def Let_def)
  next
    case False
    then have small: "unat ?n < 4294967295" using unat_u32_less [of ?n] by simp
    note add = checked_add_u32_one [OF small]
    let ?len = "4096 + unat (?n + 1) * 4096"
    let ?io = "(pf_io g)\<lparr>io_bytes := zero_extend ?len (take ?len (io_bytes (pf_io g)))\<rparr>"
    let ?L = "put_at 0 (to_le_bytes PAGE_USED) (replicate 4096 0)"
    let ?hd = "(pf_header g)\<lparr>fh_num_pages := ?n + 1\<rparr>"
    let ?h = "g\<lparr>pf_io := ?io, pf_header := ?hd, pf_header_dirty := True, pf_loaded_page_id := Some ?n,
      pf_loaded_page := ?L, pf_loaded_page_dirty := True\<rparr>"
    have gnum: "pf_num_pages g = ?n" and healthy: "healthy (pf_io g)"
      and glen: "4096 + unat ?n * 4096 \<le> length (io_bytes (pf_io g))"
      using gref by (auto simp: page_refines_def pf_layout_def)
    have run: "allocate_page f = (Inr ?n, ?h)"
      using first g(1) numf gnum healthy add
      by (simp add: allocate_page_def on_device_def io_set_len_def healthy_def write_current_page_header_def
          Let_def del: put_at_0)
    have disk: "disk_page ?io q = disk_page (pf_io g) q" if "q < ?n" for q
      using page_slot_inside [OF that glen] page_slot_inside [OF that order_refl] add
      by (simp add: disk_page_def) (simp add: bytes_at_def drop_take min_def)
    have img: "page_image ?h q = (if q = ?n then ?L else page_image g q)" if "q < ?n \<or> q = ?n" for q
      using that disk [of q] g(4) by (auto simp: page_image_def)
    have layout: "pf_layout ?h"
      using g(2) add gnum small by (auto simp: pf_layout_def less_Suc_word simp del: put_at_0)
    have nf: "next_free ?h q = (if q = ?n then PAGE_USED else next_free g q)" if "q < ?n \<or> q = ?n" for q
      using img [OF that] by (simp add: next_free_def page_bytes_header del: put_at_0)
    have con: "page_content ?h = (page_content g)(?n \<mapsto> replicate 4092 0)"
    proof (rule ext)
      fix q
      show "page_content ?h q = ((page_content g)(?n \<mapsto> replicate 4092 0)) q"
        using img [of q] nf [of q] gnum small
        by (auto simp: page_content_def less_Suc_word page_bytes_header simp del: put_at_0)
    qed
    have "pf_free ?h []"
      using gref free nf small gnum by (auto simp: pf_free_def page_refines_def less_Suc_word split: if_splits)
    then have "page_refines ?h (a\<lparr>sp_pages := (sp_pages a)(?n \<mapsto> replicate 4092 0), sp_num := ?n + 1\<rparr>)"
      using gref free layout con by (simp add: page_refines_def)
    then show ?thesis using run free small by (simp add: simulates_def sp_allocate_def)
  qed
qed

lemma allocate_page_simulates: "page_refines f a \<Longrightarrow> simulates (allocate_page f) (sp_allocate a)"
  using allocate_reuses_free_page allocate_extends_file by (cases "sp_free a") auto

subsection \<open>Creating, flushing and reopening\<close>

lemma flush_header_ok:
  assumes "pf_layout f"
  shows "\<exists>g. flush_header f = (Inr (), g) \<and> pf_layout g \<and> \<not> pf_header_dirty g \<and>
    pf_header g = pf_header f \<and> (\<forall>p < pf_num_pages f. page_image g p = page_image f p) \<and>
    (\<forall>p < pf_num_pages f. disk_page (pf_io g) p = disk_page (pf_io f) p) \<and>
    pf_loaded_page_id g = pf_loaded_page_id f \<and> pf_loaded_page g = pf_loaded_page f"
proof (cases "pf_header_dirty f")
  case False
  then show ?thesis using assms by (auto simp: flush_header_def)
next
  case True
  let ?io = "(pf_io f)\<lparr>io_bytes := put_at 0 (file_header_encode (pf_header f)) (io_bytes (pf_io f))\<rparr>"
  let ?g = "f\<lparr>pf_io := ?io, pf_header_dirty := False\<rparr>"
  have lay: "healthy (pf_io f)" "4096 + unat (pf_num_pages f) * 4096 \<le> length (io_bytes (pf_io f))"
    using assms by (auto simp: pf_layout_def)
  have run: "flush_header f = (Inr (), ?g)"
    using True lay by (simp add: flush_header_def on_device_def write_all_at_healthy del: put_at_0)
  have disk: "disk_page ?io p = disk_page (pf_io f) p" if "p < pf_num_pages f" for p
    using page_slot_inside [OF that lay(2)] lay(2) unfolding disk_page_def
    by (simp add: bytes_at_put_at_disjoint del: put_at_0)
  have "pf_layout ?g"
    using assms disk by (auto simp: pf_layout_def bytes_at_put_at_same simp del: put_at_0)
  then show ?thesis using run disk by (auto simp: page_image_def)
qed

text \<open>After a flush the device holds the header and every page.\<close>

definition on_disk :: "page_file \<Rightarrow> bool" where
  "on_disk f \<longleftrightarrow> \<not> pf_header_dirty f \<and>
     (\<forall>p < pf_num_pages f. page_image f p = disk_page (pf_io f) p)"

lemma page_flush_refines:
  assumes "page_refines f a"
  obtains g where "page_flush f = (Inr (), g)" and "page_refines g a" and "on_disk g"
proof -
  have lay: "pf_layout f" using assms by (simp add: page_refines_def)
  obtain g where g: "flush_loaded_page f = (Inr (), g)" "pf_layout g" "same_pages f g"
    "\<forall>p. pf_loaded_page_id g = Some p \<longrightarrow> pf_loaded_page g = disk_page (pf_io g) p"
    using flush_loaded_page_ok [OF lay] by blast
  obtain h where h: "flush_header g = (Inr (), h)" "pf_layout h" "\<not> pf_header_dirty h"
    "pf_header h = pf_header g" "\<forall>p < pf_num_pages g. page_image h p = page_image g p"
    "\<forall>p < pf_num_pages g. disk_page (pf_io h) p = disk_page (pf_io g) p"
    "pf_loaded_page_id h = pf_loaded_page_id g" "pf_loaded_page h = pf_loaded_page g"
    using flush_header_ok [OF g(2)] by blast
  have healthy: "healthy (pf_io h)" using h(2) by (simp add: pf_layout_def)
  have run: "page_flush f = (Inr (), h)"
    using g(1) h(1) healthy by (simp add: page_flush_def on_device_def io_sync_all_healthy)
  have "page_refines g a" by (rule page_refines_same_pages [OF assms g(2,3)])
  then have ref: "page_refines h a"
  proof -
    assume gref: "page_refines g a"
    have nf: "next_free h p = next_free g p" if "p < pf_num_pages g" for p
      using h(5) that by (simp add: next_free_def)
    have "page_content h = page_content g"
      by (rule ext) (use h(4,5) nf in \<open>auto simp: page_content_def\<close>)
    moreover have "pf_free h (sp_free a)"
      using gref nf h(4) free_chain_cong [of "sp_free a" "next_free h" "next_free g"]
      by (auto simp: page_refines_def pf_free_def)
    ultimately show ?thesis using gref h(2,4) by (simp add: page_refines_def)
  qed
  have "on_disk h"
    using h(3-8) g(4) by (auto simp: on_disk_def page_image_def)
  then show thesis using that run ref by blast
qed

lemma page_open_refines:
  assumes ref: "page_refines f a" and disk: "on_disk f"
  obtains g where "page_open (pf_io f) = Inr g" and "page_refines g a" and "on_disk g"
proof -
  let ?io = "pf_io f" and ?h = "pf_header f"
  let ?g = "\<lparr>pf_io = ?io, pf_header = ?h, pf_header_dirty = False, pf_loaded_page_id = None,
    pf_loaded_page_dirty = False, pf_loaded_page = replicate 4096 0\<rparr>"
  have lay: "healthy ?io" "4096 + unat (pf_num_pages f) * 4096 \<le> length (io_bytes ?io)"
    "bytes_at 0 4096 (io_bytes ?io) = file_header_encode ?h"
    using ref disk by (auto simp: page_refines_def pf_layout_def on_disk_def)
  have free: "pf_free f (sp_free a)" using ref by (simp add: page_refines_def)
  have valid: "file_header_validate ?h = Inr ()"
  proof (cases "sp_free a")
    case Nil
    then show ?thesis using pf_free_first [OF free] by (simp add: file_header_validate_def)
  next
    case (Cons p ps)
    then have p: "unat (pf_first_free_page f) < 2 ^ 31" "pf_first_free_page f < pf_num_pages f"
      using free by (auto simp: pf_free_def)
    then show ?thesis using p sint_u32_small [of "pf_first_free_page f"] by (simp del: of_nat_unat add: file_header_validate_def FREE_LIST_END_def not_le)
  qed
  have open_g: "page_open ?io = Inr ?g"
    using lay file_header_decode_encode [OF valid]
    by (simp add: page_open_def io_len_healthy read_exact_at_healthy)
  have img: "page_image ?g p = page_image f p" if "p < pf_num_pages f" for p
    using disk that by (simp add: on_disk_def page_image_def)
  then have "same_pages f ?g"
    using disk by (simp add: same_pages_def on_disk_def)
  moreover have "pf_layout ?g" using lay by (simp add: pf_layout_def)
  ultimately have "page_refines ?g a" using ref by (blast intro: page_refines_same_pages)
  moreover have "on_disk ?g" by (simp add: on_disk_def page_image_def)
  ultimately show thesis using that open_g by blast
qed

lemma page_create_refines:
  obtains f where "page_create \<lparr>io_bytes = [], io_faults = []\<rparr> = (Inr (), f)"
    and "page_refines f sp_empty" and "on_disk f"
proof -
  let ?io = "\<lparr>io_bytes = replicate 4096 0, io_faults = []\<rparr>"
  let ?f = "\<lparr>pf_io = ?io, pf_header = file_header_new, pf_header_dirty = True, pf_loaded_page_id = None,
    pf_loaded_page_dirty = False, pf_loaded_page = replicate 4096 0\<rparr>"
  have "page_refines ?f sp_empty"
    by (auto simp: page_refines_def pf_layout_def pf_free_def file_header_new_def sp_empty_def
        page_content_def healthy_def FREE_LIST_END_def)
  then obtain g where "page_flush ?f = (Inr (), g)" "page_refines g sp_empty" "on_disk g"
    by (rule page_flush_refines)
  then show thesis
    using that [of g] by (simp add: page_create_def on_device_def io_set_len_def zero_extend_def Let_def)
qed

end
