(* ===== verification/Page_Store.thy ===== *)
theory Page_Store
  imports Page_Ops
begin

section \<open>The page store interface\<close>

text \<open>
  What a client of page files relies on, stated over the contents of the pages only: which
  pages exist, what a read returns, what a write, an allocation and a flush leave behind.
  The page file of the previous theories provides it; the buffer pool is its client.
\<close>

locale page_store =
  fixes ok :: "'f \<Rightarrow> bool"
    and content :: "'f \<Rightarrow> u32 \<Rightarrow> u8 list option"
    and read :: "u32 \<Rightarrow> 'f \<Rightarrow> (page_store_error + u8 list) \<times> 'f"
    and store :: "u32 \<Rightarrow> u8 list \<Rightarrow> 'f \<Rightarrow> (page_store_error + unit) \<times> 'f"
    and alloc :: "'f \<Rightarrow> (page_store_error + u32) \<times> 'f"
    and flush :: "'f \<Rightarrow> (page_store_error + unit) \<times> 'f"
    and durable :: "'f \<Rightarrow> bool"
  assumes read_result: "ok f \<Longrightarrow>
      fst (read p f) = (case content f p of None \<Rightarrow> Inl (InvalidPageId p) | Some d \<Rightarrow> Inr d)"
    and read_frame: "ok f \<Longrightarrow> ok (snd (read p f)) \<and> content (snd (read p f)) = content f"
    and store_used: "ok f \<Longrightarrow> length d = 4092 \<Longrightarrow> content f p \<noteq> None \<Longrightarrow>
      \<exists>g. store p d f = (Inr (), g) \<and> ok g \<and> content g = (content f)(p \<mapsto> d)"
    and flush_frame: "ok f \<Longrightarrow> \<exists>g. flush f = (Inr (), g) \<and> ok g \<and> content g = content f \<and> durable g"
    and alloc_fresh: "ok f \<Longrightarrow> alloc f = (Inr p, g) \<Longrightarrow>
      content f p = None \<and> ok g \<and> content g = (content f)(p \<mapsto> replicate 4092 0)"
    and alloc_error: "ok f \<Longrightarrow> alloc f = (Inl e, g) \<Longrightarrow> ok g \<and> content g = content f"
    and content_length: "ok f \<Longrightarrow> content f p = Some d \<Longrightarrow> length d = 4092"
begin

text \<open>A write followed by a flush, as a cache writes back a page.\<close>

lemma write_back:
  assumes "ok f" and "length d = 4092" and "content f p \<noteq> None"
  obtains g where "and_then_st (store p d f) (\<lambda>_. flush) = (Inr (), g)"
    and "ok g" and "content g = (content f)(p \<mapsto> d)"
proof -
  obtain h where h: "store p d f = (Inr (), h)" "ok h" "content h = (content f)(p \<mapsto> d)"
    using store_used [OF assms] by blast
  obtain g where "flush h = (Inr (), g)" "ok g" "content g = content h"
    using flush_frame [OF h(2)] by blast
  then show thesis using that h by simp
qed

text \<open>A read of a used page succeeds; a read of any other page is an error.\<close>

lemma read_used:
  assumes "ok f" and "content f p = Some d"
  obtains g where "read p f = (Inr d, g)" and "ok g" and "content g = content f"
  using read_result [OF assms(1), of p] read_frame [OF assms(1), of p] assms(2) that
  by (cases "read p f") auto

lemma read_unused:
  assumes "ok f" and "content f p = None"
  obtains g where "read p f = (Inl (InvalidPageId p), g)" and "ok g" and "content g = content f"
  using read_result [OF assms(1), of p] read_frame [OF assms(1), of p] assms(2) that
  by (cases "read p f") auto

lemma read_after_write_back:
  assumes "ok f" and "length d = 4092" and "content f p \<noteq> None"
    and "and_then_st (store p d f) (\<lambda>_. flush) = (Inr (), g)"
  shows "fst (read q g) = (if q = p then Inr d else fst (read q f))"
proof -
  obtain h where "and_then_st (store p d f) (\<lambda>_. flush) = (Inr (), h)" "ok h"
    "content h = (content f)(p \<mapsto> d)"
    by (rule write_back [OF assms(1-3)])
  with assms(4) show ?thesis by (simp add: read_result assms(1))
qed

end

subsection \<open>Page files provide the interface\<close>

definition page_file_good :: "page_file \<Rightarrow> bool" where
  "page_file_good f \<longleftrightarrow> (\<exists>a. page_refines f a)"

lemma page_file_good_content:
  assumes "page_file_good f"
  obtains a where "page_refines f a" and "sp_pages a = page_content f"
  using assms by (auto simp: page_file_good_def page_refines_def)

lemma page_refines_good [intro]: "page_refines f a \<Longrightarrow> page_file_good f"
  by (auto simp: page_file_good_def)

lemma page_refines_pages: "page_refines f a \<Longrightarrow> page_content f = sp_pages a"
  by (simp add: page_refines_def)

lemma sp_unused_fresh: "page_refines f a \<Longrightarrow> p \<in> set (sp_free a) \<or> sp_num a \<le> p \<Longrightarrow> sp_pages a p = None"
  by (auto simp: page_refines_content page_content_def) (auto simp: page_refines_def pf_free_def)

lemma read_page_store:
  assumes "page_file_good f"
  shows "fst (read_page p f) = (case page_content f p of None \<Rightarrow> Inl (InvalidPageId p) | Some d \<Rightarrow> Inr d)"
    and "page_file_good (snd (read_page p f)) \<and> page_content (snd (read_page p f)) = page_content f"
proof -
  obtain a where a: "page_refines f a" "sp_pages a = page_content f"
    using assms by (rule page_file_good_content)
  have "fst (read_page p f) = fst (sp_read p a)" "page_refines (snd (read_page p f)) (snd (sp_read p a))"
    using read_page_simulates [OF a(1), of p] by (simp_all add: simulates_def)
  moreover have "snd (sp_read p a) = a" "fst (sp_read p a) =
      (case page_content f p of None \<Rightarrow> Inl (InvalidPageId p) | Some d \<Rightarrow> Inr d)"
    using a(2) by (auto simp: sp_read_def split: option.splits)
  ultimately show "fst (read_page p f) = (case page_content f p of None \<Rightarrow> Inl (InvalidPageId p) | Some d \<Rightarrow> Inr d)"
    and "page_file_good (snd (read_page p f)) \<and> page_content (snd (read_page p f)) = page_content f"
    using a(2) page_refines_pages by auto
qed

lemma store_page_store:
  assumes "page_file_good f" and "length d = 4092" and "page_content f p \<noteq> None"
  shows "\<exists>g. store_page p d f = (Inr (), g) \<and> page_file_good g \<and> page_content g = (page_content f)(p \<mapsto> d)"
proof -
  obtain a where a: "page_refines f a" "sp_pages a = page_content f"
    using assms(1) by (rule page_file_good_content)
  have "simulates (store_page p d f) (sp_store p d a)"
    using a(1) assms(2) by (rule store_page_simulates)
  then show ?thesis
    using a(2) assms(3) page_refines_pages
    by (cases "store_page p d f") (auto simp: simulates_def sp_store_def split: option.splits)
qed

lemma allocate_page_store:
  assumes "page_file_good f" and "allocate_page f = (r, g)"
  shows "case r of
      Inr p \<Rightarrow> page_content f p = None \<and> page_file_good g \<and> page_content g = (page_content f)(p \<mapsto> replicate 4092 0)
    | Inl e \<Rightarrow> page_file_good g \<and> page_content g = page_content f"
proof -
  obtain a where a: "page_refines f a" "sp_pages a = page_content f"
    using assms(1) by (rule page_file_good_content)
  have sim: "r = fst (sp_allocate a)" "page_refines g (snd (sp_allocate a))"
    using allocate_page_simulates [OF a(1)] assms(2) by (simp_all add: simulates_def)
  show ?thesis
    using sim a(2) page_refines_pages [OF sim(2)] sp_unused_fresh [OF a(1)]
    by (auto simp: sp_allocate_def split: list.splits if_splits)
qed

lemma page_flush_store:
  assumes "page_file_good f"
  shows "\<exists>g. page_flush f = (Inr (), g) \<and> page_file_good g \<and> page_content g = page_content f \<and> on_disk g"
proof -
  obtain a where a: "page_refines f a" "sp_pages a = page_content f"
    using assms by (rule page_file_good_content)
  obtain g where "page_flush f = (Inr (), g)" "page_refines g a" "on_disk g"
    using page_flush_refines [OF a(1)] by blast
  then show ?thesis using a(2) page_refines_pages by auto
qed

interpretation ps: page_store page_file_good page_content read_page store_page allocate_page page_flush on_disk
proof unfold_locales
  show "page_content f p = None \<and> page_file_good g \<and> page_content g = (page_content f)(p \<mapsto> replicate 4092 0)"
    if "page_file_good f" "allocate_page f = (Inr p, g)" for f p g
    using allocate_page_store [OF that] by simp
  show "page_file_good g \<and> page_content g = page_content f"
    if "page_file_good f" "allocate_page f = (Inl e, g)" for f e g
    using allocate_page_store [OF that] by simp
  show "length d = 4092" if "page_file_good f" "page_content f p = Some d" for f p d
    using that page_content_length by (auto simp: page_file_good_def page_refines_def)
qed (simp_all add: read_page_store store_page_store page_flush_store)

end
