(* ===== verification/Page_Properties.thy ===== *)
theory Page_Properties
  imports Page_Store
begin

section \<open>Page files: the properties\<close>

text \<open>
  What a caller of \<open>PageFile\<close> can rely on, over whole runs and per operation, and what
  happens at the two edges the code does not guard: page identifiers with the sign bit of an
  \<open>i32\<close> set, and devices that fail in the middle of an operation.
\<close>

subsection \<open>Runs of operations\<close>

text \<open>\<open>P_Reopen\<close> flushes the file, forgets it and opens the bytes it left on the device.\<close>

datatype page_op =
    P_Allocate
  | P_Read u32
  | P_Store u32 "u8 list"
  | P_Dispose u32
  | P_Flush
  | P_Reopen

datatype page_result =
    R_Page "page_store_error + u32"
  | R_Data "page_store_error + u8 list"
  | R_Unit "page_store_error + unit"

definition page_reopen :: "page_file \<Rightarrow> (page_store_error + unit) \<times> page_file" where
  "page_reopen f =
     and_then_st (page_flush f) (\<lambda>_ g.
       case page_open (pf_io g) of Inl e \<Rightarrow> (Inl e, g) | Inr h \<Rightarrow> (Inr (), h))"

fun page_exec :: "page_op \<Rightarrow> page_file \<Rightarrow> page_result \<times> page_file" where
  "page_exec P_Allocate f = (case allocate_page f of (r, g) \<Rightarrow> (R_Page r, g))"
| "page_exec (P_Read p) f = (case read_page p f of (r, g) \<Rightarrow> (R_Data r, g))"
| "page_exec (P_Store p d) f = (case store_page p d f of (r, g) \<Rightarrow> (R_Unit r, g))"
| "page_exec (P_Dispose p) f = (case dispose_page p f of (r, g) \<Rightarrow> (R_Unit r, g))"
| "page_exec P_Flush f = (case page_flush f of (r, g) \<Rightarrow> (R_Unit r, g))"
| "page_exec P_Reopen f = (case page_reopen f of (r, g) \<Rightarrow> (R_Unit r, g))"

fun sp_exec :: "page_op \<Rightarrow> page_store_spec \<Rightarrow> page_result \<times> page_store_spec" where
  "sp_exec P_Allocate a = (case sp_allocate a of (r, b) \<Rightarrow> (R_Page r, b))"
| "sp_exec (P_Read p) a = (case sp_read p a of (r, b) \<Rightarrow> (R_Data r, b))"
| "sp_exec (P_Store p d) a = (case sp_store p d a of (r, b) \<Rightarrow> (R_Unit r, b))"
| "sp_exec (P_Dispose p) a = (case sp_dispose p a of (r, b) \<Rightarrow> (R_Unit r, b))"
| "sp_exec P_Flush a = (R_Unit (Inr ()), a)"
| "sp_exec P_Reopen a = (R_Unit (Inr ()), a)"

fun page_run :: "page_op list \<Rightarrow> page_file \<Rightarrow> page_result list \<times> page_file" where
  "page_run [] f = ([], f)"
| "page_run (x # xs) f =
     (case page_exec x f of (r, g) \<Rightarrow> case page_run xs g of (rs, h) \<Rightarrow> (r # rs, h))"

fun sp_run :: "page_op list \<Rightarrow> page_store_spec \<Rightarrow> page_result list \<times> page_store_spec" where
  "sp_run [] a = ([], a)"
| "sp_run (x # xs) a =
     (case sp_exec x a of (r, b) \<Rightarrow> case sp_run xs b of (rs, c) \<Rightarrow> (r # rs, c))"

text \<open>Stored data fills a page; disposed identifiers are those an \<open>i32\<close> can hold.\<close>

fun page_op_ok :: "page_op \<Rightarrow> bool" where
  "page_op_ok (P_Store p d) = (length d = PAGE_DATA_SIZE)"
| "page_op_ok (P_Dispose p) = (unat p < 2 ^ 31)"
| "page_op_ok _ = True"

lemma page_reopen_refines:
  assumes "page_refines f a"
  obtains g where "page_reopen f = (Inr (), g)" and "page_refines g a" and "on_disk g"
proof -
  obtain g where g: "page_flush f = (Inr (), g)" "page_refines g a" "on_disk g"
    using assms by (rule page_flush_refines)
  obtain h where "page_open (pf_io g) = Inr h" "page_refines h a" "on_disk h"
    using g(2,3) by (rule page_open_refines)
  then show thesis using that g(1) by (simp add: page_reopen_def)
qed

lemma page_exec_simulates:
  assumes ref: "page_refines f a" and ok: "page_op_ok x"
  shows "fst (page_exec x f) = fst (sp_exec x a) \<and> page_refines (snd (page_exec x f)) (snd (sp_exec x a))"
proof (cases x)
  case P_Flush
  obtain g where "page_flush f = (Inr (), g)" "page_refines g a"
    using page_flush_refines [OF ref] by blast
  then show ?thesis using P_Flush by simp
next
  case P_Reopen
  obtain g where "page_reopen f = (Inr (), g)" "page_refines g a"
    using page_reopen_refines [OF ref] by blast
  then show ?thesis using P_Reopen by simp
qed (use ok allocate_page_simulates [OF ref] read_page_simulates [OF ref] store_page_simulates [OF ref]
      dispose_page_simulates [OF ref] in \<open>simp_all add: simulates_def case_prod_beta\<close>)

lemma page_run_simulates:
  "page_refines f a \<Longrightarrow> list_all page_op_ok xs \<Longrightarrow>
     fst (page_run xs f) = fst (sp_run xs a) \<and> page_refines (snd (page_run xs f)) (snd (sp_run xs a))"
proof (induction xs arbitrary: f a)
  case Nil
  then show ?case by simp
next
  case (Cons x xs)
  obtain r g where g: "page_exec x f = (r, g)" by fastforce
  obtain r' b where b: "sp_exec x a = (r', b)" by fastforce
  have step: "r = r'" "page_refines g b"
    using page_exec_simulates [OF Cons.prems(1), of x] Cons.prems(2) g b by simp_all
  show ?case
    using Cons.IH [OF step(2)] Cons.prems(2) step(1) g b by (auto split: prod.splits)
qed

text \<open>A new file, the starting point of the examples.\<close>

definition new_page_file :: page_file where
  "new_page_file = snd (page_create \<lparr>io_bytes = [], io_faults = []\<rparr>)"

lemma new_page_file_refines: "page_refines new_page_file sp_empty"
  and new_page_file_created: "page_create \<lparr>io_bytes = [], io_faults = []\<rparr> = (Inr (), new_page_file)"
  and new_page_file_on_disk: "on_disk new_page_file"
proof -
  obtain f where "page_create \<lparr>io_bytes = [], io_faults = []\<rparr> = (Inr (), f)" "page_refines f sp_empty" "on_disk f"
    by (rule page_create_refines)
  then show "page_refines new_page_file sp_empty"
    "page_create \<lparr>io_bytes = [], io_faults = []\<rparr> = (Inr (), new_page_file)" "on_disk new_page_file"
    by (simp_all add: new_page_file_def)
qed

definition one_page_spec :: page_store_spec where
  "one_page_spec = snd (sp_allocate sp_empty)"

definition one_page_file :: page_file where
  "one_page_file = snd (allocate_page new_page_file)"

lemma one_page_file_refines: "page_refines one_page_file one_page_spec"
  using allocate_page_simulates [OF new_page_file_refines]
  by (simp add: simulates_def one_page_file_def one_page_spec_def)

lemma one_page_spec_eq:
  "one_page_spec = \<lparr>sp_pages = [0 \<mapsto> replicate 4092 0], sp_free = [], sp_num = 1\<rparr>"
  by (simp add: one_page_spec_def sp_allocate_def sp_empty_def)

text \<open>C5: Any sequence of operations on a newly created page file - allocations, reads, writes,
  disposals, flushes, and closing and reopening the file from its bytes - returns exactly the results
  of the abstract store, and ends in a file that represents the abstract store's final state.\<close>

theorem page_file_refines_store:
  assumes "page_create \<lparr>io_bytes = [], io_faults = []\<rparr> = (Inr (), f)" and "list_all page_op_ok xs"
  shows "fst (page_run xs f) = fst (sp_run xs sp_empty) \<and>
    page_refines (snd (page_run xs f)) (snd (sp_run xs sp_empty))"
proof -
  have "f = new_page_file" using assms(1) new_page_file_created by simp
  then show ?thesis using page_run_simulates [OF new_page_file_refines assms(2)] by simp
qed

theorem page_file_refines_store_witness:
  "fst (page_run [P_Allocate, P_Store 0 (replicate 4092 7), P_Reopen, P_Read 0, P_Dispose 0, P_Dispose 0] new_page_file) =
     [R_Page (Inr 0), R_Unit (Inr ()), R_Unit (Inr ()), R_Data (Inr (replicate 4092 7)), R_Unit (Inr ()),
      R_Unit (Inl (PageAlreadyFree 0))]"
  using page_file_refines_store [OF new_page_file_created,
      of "[P_Allocate, P_Store 0 (replicate 4092 7), P_Reopen, P_Read 0, P_Dispose 0, P_Dispose 0]"]
  by (simp add: sp_allocate_def sp_store_def sp_read_def sp_dispose_def sp_empty_def)

subsection \<open>Allocation and disposal\<close>

text \<open>Allocation refines the abstract store: it takes the page disposed of last if there is one
  and extends the file by one page otherwise, hands out a page that was not in use, with all its data
  zero, and changes no other page; when the page count would overflow it is an error that changes nothing.\<close>

theorem allocate_page_correct:
  assumes "page_refines f a"
  shows "simulates (allocate_page f) (sp_allocate a) \<and>
    (case fst (allocate_page f) of
       Inr p \<Rightarrow> page_content f p = None \<and>
         page_content (snd (allocate_page f)) = (page_content f)(p \<mapsto> replicate 4092 0)
     | Inl e \<Rightarrow> page_content (snd (allocate_page f)) = page_content f)"
proof (intro conjI)
  show "simulates (allocate_page f) (sp_allocate a)" by (rule allocate_page_simulates [OF assms])
  show "case fst (allocate_page f) of
       Inr p \<Rightarrow> page_content f p = None \<and>
         page_content (snd (allocate_page f)) = (page_content f)(p \<mapsto> replicate 4092 0)
     | Inl e \<Rightarrow> page_content (snd (allocate_page f)) = page_content f"
    using allocate_page_store [OF page_refines_good [OF assms], of "fst (allocate_page f)" "snd (allocate_page f)"]
    by (auto split: sum.splits)
qed

theorem allocate_page_correct_witness:
  "fst (allocate_page one_page_file) = Inr 1 \<and>
     page_content (snd (allocate_page one_page_file)) = (page_content one_page_file)(1 \<mapsto> replicate 4092 0)"
proof -
  have "fst (allocate_page one_page_file) = Inr 1"
    using allocate_page_correct [OF one_page_file_refines]
    by (simp add: simulates_def sp_allocate_def one_page_spec_eq)
  then show ?thesis using allocate_page_correct [OF one_page_file_refines] by simp
qed

text \<open>Disposing of a page in use makes it unreadable, a second disposal of it is the error
  \<open>PageAlreadyFree\<close>, and the next allocation hands out this very page with zeroed data.\<close>

theorem dispose_page_correct:
  assumes ref: "page_refines f a" and used: "page_content f p \<noteq> None" and small: "unat p < 2 ^ 31"
  defines "g \<equiv> snd (dispose_page p f)"
  shows "fst (dispose_page p f) = Inr () \<and> page_content g = (page_content f)(p := None) \<and>
    fst (read_page p g) = Inl (InvalidPageId p) \<and>
    fst (dispose_page p g) = Inl (PageAlreadyFree p) \<and>
    fst (allocate_page g) = Inr p \<and>
    page_content (snd (allocate_page g)) = (page_content f)(p \<mapsto> replicate 4092 0)"
proof -
  let ?b = "a\<lparr>sp_pages := (sp_pages a)(p := None), sp_free := p # sp_free a\<rparr>"
  have pages: "sp_pages a = page_content f" using ref by (simp add: page_refines_def)
  obtain d where d: "sp_pages a p = Some d" using used pages by auto
  have lt: "p < sp_num a" using page_refines_image [OF ref d] by simp
  have spec: "sp_dispose p a = (Inr (), ?b)" using d lt by (simp add: sp_dispose_def)
  have disp: "fst (dispose_page p f) = Inr ()" "page_refines g ?b"
    using dispose_page_simulates [OF ref small] spec by (simp_all add: simulates_def g_def)
  have "simulates (allocate_page g) (sp_allocate ?b)" by (rule allocate_page_simulates [OF disp(2)])
  then have alloc: "fst (allocate_page g) = Inr p"
    "page_content (snd (allocate_page g)) = (sp_pages a)(p \<mapsto> replicate 4092 0)"
    by (simp_all add: simulates_def sp_allocate_def page_refines_def)
  have "fst (read_page p g) = Inl (InvalidPageId p)"
    using read_page_simulates [OF disp(2), of p] by (simp add: simulates_def sp_read_def)
  moreover have "fst (dispose_page p g) = Inl (PageAlreadyFree p)"
    using dispose_page_simulates [OF disp(2) small] lt by (simp add: simulates_def sp_dispose_def)
  moreover have "page_content g = (page_content f)(p := None)"
    using disp(2) pages by (simp add: page_refines_def)
  ultimately show ?thesis using disp(1) alloc pages by simp
qed

theorem dispose_page_correct_witness:
  "fst (dispose_page 0 one_page_file) = Inr () \<and>
     fst (allocate_page (snd (dispose_page 0 one_page_file))) = Inr 0"
proof -
  have "page_content one_page_file = sp_pages one_page_spec"
    by (rule page_refines_pages [OF one_page_file_refines])
  then have "page_content one_page_file 0 \<noteq> None" by (simp add: one_page_spec_eq)
  then show ?thesis using dispose_page_correct [OF one_page_file_refines, of 0] by simp
qed

subsection \<open>Headers and reopening\<close>

text \<open>The file header survives encoding: decoding the 4096 bytes that \<open>encode\<close> writes gives back
  the header exactly if it is valid, and the validation error otherwise.\<close>

theorem file_header_round_trip:
  "file_header_decode (file_header_encode h) = and_then (file_header_validate h) (\<lambda>_. Inr h) \<and>
     length (file_header_encode h) = PAGE_SIZE"
  by (simp add: file_header_decode_encode_any length_file_header_encode)

text \<open>C20: A flushed file can be opened again from the bytes on the device: opening succeeds and every
  page reads as it did before, with the same free list, so that the next allocations agree too.\<close>

theorem flush_then_open:
  assumes "page_refines f a"
  shows "\<exists>g h. page_flush f = (Inr (), g) \<and> page_open (pf_io g) = Inr h \<and>
    page_content h = page_content f \<and> fst (allocate_page h) = fst (allocate_page f)"
proof -
  obtain g where g: "page_flush f = (Inr (), g)" "page_refines g a" "on_disk g"
    using assms by (rule page_flush_refines)
  obtain h where h: "page_open (pf_io g) = Inr h" "page_refines h a"
    using g(2,3) by (rule page_open_refines)
  have "fst (allocate_page h) = fst (allocate_page f)"
    using allocate_page_simulates [OF h(2)] allocate_page_simulates [OF assms] by (simp add: simulates_def)
  moreover have "page_content h = page_content f" using h(2) assms by (simp add: page_refines_def)
  ultimately show ?thesis using g(1) h(1) by blast
qed

theorem flush_then_open_witness:
  "\<exists>g h. page_flush one_page_file = (Inr (), g) \<and> page_open (pf_io g) = Inr h \<and>
     page_content h = page_content one_page_file"
  using flush_then_open [OF one_page_file_refines] by blast



subsection \<open>Unguarded edges\<close>

text \<open>C22: A page identifier that does not fit a non-negative \<open>i32\<close> can be disposed of, but the head of
  the free list it becomes is negative: the header that is then written is refused when the file is
  opened again.\<close>

theorem dispose_high_page_unreadable:
  assumes "dispose_page p f = (Inr (), g)" and "2 ^ 31 \<le> unat p" and "p \<noteq> -1"
  shows "file_header_decode (file_header_encode (pf_header g)) =
    Inl (PS_Corrupted ''first_free_page is smaller than the free-list sentinel'')"
proof -
  have "fh_first_free_page (pf_header g) = p"
    using assms(1) by (auto simp: dispose_page_def and_then_st_Inr_iff Let_def split: if_splits)
  moreover have "sint p < sint FREE_LIST_END"
    using sint_negative [OF assms(2,3)] by (simp add: FREE_LIST_END_def)
  ultimately show ?thesis by (simp add: file_header_decode_encode_any file_header_validate_def)
qed

theorem dispose_high_page_unreadable_witness:
  "file_header_decode (file_header_encode (pf_header (snd (dispose_page 0x80000000
     \<lparr>pf_io = \<lparr>io_bytes = [], io_faults = []\<rparr>,
      pf_header = \<lparr>fh_first_free_page = -1, fh_num_pages = 0x80000001\<rparr>, pf_header_dirty = False,
      pf_loaded_page_id = Some 0x80000000, pf_loaded_page_dirty = False,
      pf_loaded_page = to_le_bytes PAGE_USED @ replicate 4092 0\<rparr>)))) =
    Inl (PS_Corrupted ''first_free_page is smaller than the free-list sentinel'')"
proof -
  define f where "f = \<lparr>pf_io = \<lparr>io_bytes = [], io_faults = []\<rparr>,
      pf_header = \<lparr>fh_first_free_page = -1, fh_num_pages = 0x80000001\<rparr>, pf_header_dirty = False,
      pf_loaded_page_id = Some 0x80000000, pf_loaded_page_dirty = False,
      pf_loaded_page = to_le_bytes PAGE_USED @ replicate 4092 0\<rparr>"
  have "load_page 0x80000000 f = (Inr (), f)"
    by (simp add: load_page_def ensure_page_id_in_range_def f_def)
  moreover have "current_page_header f = PAGE_USED"
    by (simp add: current_page_header_def f_def bytes_at_def)
  ultimately have "fst (dispose_page 0x80000000 f) = Inr ()"
    by (simp add: dispose_page_def Let_def)
  then have "dispose_page 0x80000000 f = (Inr (), snd (dispose_page 0x80000000 f))"
    by (cases "dispose_page 0x80000000 f") simp
  from dispose_high_page_unreadable [OF this] show ?thesis by (simp add: f_def)
qed



end
