(* ===== verification/Buffer_Pool.thy ===== *)
theory Buffer_Pool
  imports Page_Store
begin

section \<open>The buffer pool (\<open>src/storage/buffer/mod.rs\<close>)\<close>

text \<open>
  The pool's state under its mutex: the registered files, the page table, the frames with
  the intrusive doubly linked list of recency, and the vector of free frames.  Each method
  of the pool holds the mutex from start to end, so it is one function of the state.  A
  guard is the index of the frame it pins; the frame's shared data cell is the frame's
  \<open>fr_data\<close> field, which a write guard replaces.  A lock is poisoned only after a panic of
  its holder, which the model has no state for.
\<close>

subsection \<open>State\<close>

datatype buffer_pool_error =
    BP_PageStore page_store_error
  | UnknownFile u32
  | FileHasPinnedPages u32
  | NoFrameAvailable
  | BP_Corrupted string
  | LockPoisoned string
  | BP_Diverges \<comment> \<open>not a value of the source: the search for a victim does not end\<close>

record buffer_key =
  bk_file_id :: u32
  bk_page_id :: u32

record frame =
  fr_key :: "buffer_key option"
  fr_data :: "u8 list"
  fr_dirty :: bool
  fr_pin_count :: u32
  fr_prev :: "nat option"
  fr_next :: "nat option"

definition frame_new :: frame where
  "frame_new = \<lparr>fr_key = None, fr_data = replicate PAGE_DATA_SIZE 0, fr_dirty = False,
     fr_pin_count = 0, fr_prev = None, fr_next = None\<rparr>"

record buffer_pool =
  bp_files :: "u32 \<Rightarrow> page_file option"
  bp_next_file_id :: u32
  bp_page_table :: "buffer_key \<Rightarrow> nat option"
  bp_frames :: "frame list"
  bp_free_list :: "nat list"
  bp_mru_head :: "nat option"
  bp_lru_tail :: "nat option"

definition pool_new :: "nat \<Rightarrow> buffer_pool" where
  "pool_new capacity = \<lparr>bp_files = Map.empty, bp_next_file_id = 0, bp_page_table = Map.empty,
     bp_frames = replicate capacity frame_new, bp_free_list = rev [0..<capacity],
     bp_mru_head = None, bp_lru_tail = None\<rparr>"

definition frame_at :: "buffer_pool \<Rightarrow> nat \<Rightarrow> frame" where
  "frame_at s i = bp_frames s ! i"

definition update_frame :: "nat \<Rightarrow> (frame \<Rightarrow> frame) \<Rightarrow> buffer_pool \<Rightarrow> buffer_pool" where
  "update_frame i g s = s\<lparr>bp_frames := (bp_frames s)[i := g (bp_frames s ! i)]\<rparr>"

subsection \<open>The recency list\<close>

definition link_head :: "nat \<Rightarrow> buffer_pool \<Rightarrow> buffer_pool" where
  "link_head i s =
     (let s = update_frame i (\<lambda>f. f\<lparr>fr_prev := None, fr_next := bp_mru_head s\<rparr>) s;
          s = (case bp_mru_head s of
                 Some old_head \<Rightarrow> update_frame old_head (\<lambda>f. f\<lparr>fr_prev := Some i\<rparr>) s
               | None \<Rightarrow> s\<lparr>bp_lru_tail := Some i\<rparr>)
      in s\<lparr>bp_mru_head := Some i\<rparr>)"

definition unlink :: "nat \<Rightarrow> buffer_pool \<Rightarrow> buffer_pool" where
  "unlink i s =
     (let prev = fr_prev (frame_at s i);
          nxt = fr_next (frame_at s i);
          s = (case prev of
                 Some prev_id \<Rightarrow> update_frame prev_id (\<lambda>f. f\<lparr>fr_next := nxt\<rparr>) s
               | None \<Rightarrow> if bp_mru_head s = Some i then s\<lparr>bp_mru_head := nxt\<rparr> else s);
          s = (case nxt of
                 Some next_id \<Rightarrow> update_frame next_id (\<lambda>f. f\<lparr>fr_prev := prev\<rparr>) s
               | None \<Rightarrow> if bp_lru_tail s = Some i then s\<lparr>bp_lru_tail := prev\<rparr> else s)
      in update_frame i (\<lambda>f. f\<lparr>fr_prev := None, fr_next := None\<rparr>) s)"

definition touch :: "nat \<Rightarrow> buffer_pool \<Rightarrow> buffer_pool" where
  "touch i s = link_head i (unlink i s)"

definition pin_frame :: "nat \<Rightarrow> buffer_pool \<Rightarrow> buffer_pool" where
  "pin_frame i s = touch i (update_frame i (\<lambda>f. f\<lparr>fr_pin_count := fr_pin_count f + 1\<rparr>) s)"

definition unpin_frame :: "nat \<Rightarrow> buffer_pool \<Rightarrow> buffer_pool" where
  "unpin_frame i s =
     (if fr_pin_count (frame_at s i) = 0 then s
      else let s = update_frame i (\<lambda>f. f\<lparr>fr_pin_count := fr_pin_count f - 1\<rparr>) s
           in if fr_pin_count (frame_at s i) = 0 then touch i s else s)"

subsection \<open>Frames and files\<close>

definition register_file :: "page_file \<Rightarrow> buffer_pool \<Rightarrow> (buffer_pool_error + u32) \<times> buffer_pool" where
  "register_file file s =
     (let file_id = bp_next_file_id s in
      and_then_st (ok_or (BP_Corrupted ''file id overflow'') (checked_add_u32 file_id 1), s) (\<lambda>next s.
        (Inr file_id, s\<lparr>bp_next_file_id := next, bp_files := (bp_files s)(file_id \<mapsto> file)\<rparr>)))"

text \<open>An operation on a registered file, which is left in the map with its new state.\<close>

definition on_file :: "u32 \<Rightarrow> (page_file \<Rightarrow> (page_store_error + 'a) \<times> page_file) \<Rightarrow> buffer_pool \<Rightarrow>
    (buffer_pool_error + 'a) \<times> buffer_pool" where
  "on_file fid m s =
     (case bp_files s fid of
        None \<Rightarrow> (Inl (UnknownFile fid), s)
      | Some file \<Rightarrow>
          (case m file of (r, file') \<Rightarrow>
             (map_err BP_PageStore r, s\<lparr>bp_files := (bp_files s)(fid \<mapsto> file')\<rparr>)))"

definition allocate_page_id :: "u32 \<Rightarrow> buffer_pool \<Rightarrow> (buffer_pool_error + u32) \<times> buffer_pool" where
  "allocate_page_id fid s = on_file fid allocate_page s"

definition read_page_data :: "buffer_key \<Rightarrow> buffer_pool \<Rightarrow> (buffer_pool_error + u8 list) \<times> buffer_pool" where
  "read_page_data key s = on_file (bk_file_id key) (read_page (bk_page_id key)) s"

definition flush_frame_if_dirty :: "nat \<Rightarrow> buffer_pool \<Rightarrow> (buffer_pool_error + unit) \<times> buffer_pool" where
  "flush_frame_if_dirty i s =
     (if \<not> fr_dirty (frame_at s i) then (Inr (), s)
      else and_then_st (ok_or (BP_Corrupted ''dirty frame missing key'') (fr_key (frame_at s i)), s) (\<lambda>key s.
           let data = fr_data (frame_at s i) in
           and_then_st
             (on_file (bk_file_id key)
                (\<lambda>file. and_then_st (store_page (bk_page_id key) data file) (\<lambda>_. page_flush)) s) (\<lambda>_ s.
             (Inr (), update_frame i (\<lambda>f. f\<lparr>fr_dirty := False\<rparr>) s))))"

definition recycle_frame :: "nat \<Rightarrow> buffer_pool \<Rightarrow> (buffer_pool_error + unit) \<times> buffer_pool" where
  "recycle_frame i s =
     (if fr_pin_count (frame_at s i) \<noteq> 0
      then (Inl (BP_Corrupted ''attempted to recycle a pinned frame''), s)
      else
        let key = fr_key (frame_at s i);
            s = update_frame i (\<lambda>f. f\<lparr>fr_key := None\<rparr>) s;
            s = (case key of
                   Some k \<Rightarrow> s\<lparr>bp_page_table := (bp_page_table s)(k := None)\<rparr>
                 | None \<Rightarrow> s);
            s = update_frame i (\<lambda>f. f\<lparr>fr_dirty := False\<rparr>) s
        in (Inr (), unlink i s))"

definition evict_frame :: "nat \<Rightarrow> buffer_pool \<Rightarrow> (buffer_pool_error + unit) \<times> buffer_pool" where
  "evict_frame i s =
     (if fr_pin_count (frame_at s i) \<noteq> 0
      then (Inl (BP_Corrupted ''attempted to evict a pinned frame''), s)
      else and_then_st (recycle_frame i s) (\<lambda>_ s.
           (Inr (), s\<lparr>bp_free_list := bp_free_list s @ [i]\<rparr>)))"

text \<open>
  The walk from the least recently used frame towards the most recently used one, up to the
  first frame that nothing pins.  The fuel bounds the walk: \<open>None\<close> is a walk that has not
  ended, \<open>Some None\<close> one that has found every frame pinned.
\<close>

fun find_victim :: "nat \<Rightarrow> frame list \<Rightarrow> nat option \<Rightarrow> nat option option" where
  "find_victim fuel fs None = Some None"
| "find_victim 0 fs (Some i) = None"
| "find_victim (Suc fuel) fs (Some i) =
     (if fr_pin_count (fs ! i) = 0 then Some (Some i) else find_victim fuel fs (fr_prev (fs ! i)))"

definition acquire_frame :: "buffer_pool \<Rightarrow> (buffer_pool_error + nat) \<times> buffer_pool" where
  "acquire_frame s =
     (if bp_free_list s \<noteq> []
      then (let i = last (bp_free_list s);
                s = s\<lparr>bp_free_list := butlast (bp_free_list s)\<rparr>
            in (Inr i, link_head i s))
      else
        (case find_victim (length (bp_frames s)) (bp_frames s) (bp_lru_tail s) of
           None \<Rightarrow> (Inl BP_Diverges, s)
         | Some None \<Rightarrow> (Inl NoFrameAvailable, s)
         | Some (Some i) \<Rightarrow>
             and_then_st (flush_frame_if_dirty i s) (\<lambda>_ s.
             and_then_st (recycle_frame i s) (\<lambda>_ s.
               (Inr i, touch i s)))))"

definition install_frame :: "nat \<Rightarrow> buffer_key \<Rightarrow> u8 list \<Rightarrow> bool \<Rightarrow> buffer_pool \<Rightarrow>
    (buffer_pool_error + unit) \<times> buffer_pool" where
  "install_frame i key data dirty s =
     (if bp_page_table s key \<noteq> None then (Inl (BP_Corrupted ''page installed twice''), s)
      else
        let s = update_frame i (\<lambda>f. f\<lparr>fr_data := data\<rparr>) s;
            s = update_frame i (\<lambda>f. f\<lparr>fr_key := Some key, fr_dirty := dirty, fr_pin_count := 1\<rparr>) s;
            s = s\<lparr>bp_page_table := (bp_page_table s)(key \<mapsto> i)\<rparr>
        in (Inr (), touch i s))"

text \<open>The loops of \<open>force_file\<close> and \<open>flush_file\<close> over the matching frames.\<close>

fun flush_frames :: "nat list \<Rightarrow> buffer_pool \<Rightarrow> (buffer_pool_error + unit) \<times> buffer_pool" where
  "flush_frames [] s = (Inr (), s)"
| "flush_frames (i # is) s = and_then_st (flush_frame_if_dirty i s) (\<lambda>_. flush_frames is)"

fun flush_and_evict_frames :: "nat list \<Rightarrow> buffer_pool \<Rightarrow> (buffer_pool_error + unit) \<times> buffer_pool" where
  "flush_and_evict_frames [] s = (Inr (), s)"
| "flush_and_evict_frames (i # is) s =
     and_then_st (flush_frame_if_dirty i s) (\<lambda>_ s.
     and_then_st (evict_frame i s) (\<lambda>_. flush_and_evict_frames is))"

definition frames_of :: "u32 \<Rightarrow> u32 option \<Rightarrow> buffer_pool \<Rightarrow> nat list" where
  "frames_of fid page s =
     [i \<leftarrow> [0..<length (bp_frames s)].
        case fr_key (frame_at s i) of
          None \<Rightarrow> False
        | Some key \<Rightarrow> bk_file_id key = fid \<and> (page = None \<or> page = Some (bk_page_id key))]"

definition flush_registered :: "u32 \<Rightarrow> buffer_pool \<Rightarrow> (buffer_pool_error + unit) \<times> buffer_pool" where
  "flush_registered fid s =
     (case bp_files s fid of None \<Rightarrow> (Inr (), s) | Some _ \<Rightarrow> on_file fid page_flush s)"

definition force_file :: "u32 \<Rightarrow> u32 option \<Rightarrow> buffer_pool \<Rightarrow> (buffer_pool_error + unit) \<times> buffer_pool" where
  "force_file fid page s =
     (if bp_files s fid = None then (Inl (UnknownFile fid), s)
      else and_then_st (flush_frames (frames_of fid page s) s) (\<lambda>_. flush_registered fid))"

definition flush_file :: "u32 \<Rightarrow> buffer_pool \<Rightarrow> (buffer_pool_error + unit) \<times> buffer_pool" where
  "flush_file fid s =
     (if bp_files s fid = None then (Inl (UnknownFile fid), s)
      else if \<exists>f \<in> set (bp_frames s).
          (case fr_key f of None \<Rightarrow> False | Some key \<Rightarrow> bk_file_id key = fid) \<and> 0 < fr_pin_count f
      then (Inl (FileHasPinnedPages fid), s)
      else and_then_st (flush_and_evict_frames (frames_of fid None s) s) (\<lambda>_. flush_registered fid))"

definition remove_file :: "u32 \<Rightarrow> buffer_pool \<Rightarrow> (buffer_pool_error + page_file) \<times> buffer_pool" where
  "remove_file fid s =
     and_then_st (flush_file fid s) (\<lambda>_ s.
       (ok_or (UnknownFile fid) (bp_files s fid), s\<lparr>bp_files := (bp_files s)(fid := None)\<rparr>))"

subsection \<open>Guards\<close>

definition get_page :: "u32 \<Rightarrow> u32 \<Rightarrow> buffer_pool \<Rightarrow> (buffer_pool_error + nat) \<times> buffer_pool" where
  "get_page fid pid s =
     (let key = \<lparr>bk_file_id = fid, bk_page_id = pid\<rparr> in
      case bp_page_table s key of
        Some i \<Rightarrow> (Inr i, pin_frame i s)
      | None \<Rightarrow>
          and_then_st (acquire_frame s) (\<lambda>i s.
          and_then_st (read_page_data key s) (\<lambda>data s.
          and_then_st (install_frame i key data False s) (\<lambda>_ s.
            (Inr i, s)))))"

definition get_page_mut :: "u32 \<Rightarrow> u32 \<Rightarrow> buffer_pool \<Rightarrow> (buffer_pool_error + nat) \<times> buffer_pool" where
  "get_page_mut fid pid s =
     (let key = \<lparr>bk_file_id = fid, bk_page_id = pid\<rparr> in
      case bp_page_table s key of
        Some i \<Rightarrow> (Inr i, update_frame i (\<lambda>f. f\<lparr>fr_dirty := True\<rparr>) (pin_frame i s))
      | None \<Rightarrow>
          and_then_st (acquire_frame s) (\<lambda>i s.
          and_then_st (read_page_data key s) (\<lambda>data s.
          and_then_st (install_frame i key data True s) (\<lambda>_ s.
            (Inr i, s)))))"

definition pool_allocate_page :: "u32 \<Rightarrow> buffer_pool \<Rightarrow> (buffer_pool_error + nat \<times> u32) \<times> buffer_pool" where
  "pool_allocate_page fid s =
     and_then_st (acquire_frame s) (\<lambda>i s.
     and_then_st (allocate_page_id fid s) (\<lambda>pid s.
     and_then_st (install_frame i \<lparr>bk_file_id = fid, bk_page_id = pid\<rparr> (replicate PAGE_DATA_SIZE 0) True s) (\<lambda>_ s.
       (Inr (i, pid), s))))"

definition guard_read :: "nat \<Rightarrow> buffer_pool \<Rightarrow> u8 list" where
  "guard_read i s = fr_data (frame_at s i)"

definition guard_write :: "nat \<Rightarrow> u8 list \<Rightarrow> buffer_pool \<Rightarrow> buffer_pool" where
  "guard_write i data s = update_frame i (\<lambda>f. f\<lparr>fr_data := data\<rparr>) s"

definition guard_drop :: "nat \<Rightarrow> buffer_pool \<Rightarrow> buffer_pool" where
  "guard_drop i s = unpin_frame i s"

end
