(* ===== verification/Buffer_Lru.thy ===== *)
theory Buffer_Lru
  imports Buffer_Pool
begin

section \<open>The recency list of the buffer pool\<close>

text \<open>
  The intrusive doubly linked list through the frames is related to the sequence of frame
  indices it stands for, most recently used first.  Unlinking removes an index, linking puts
  one in front, touching moves one to the front, and nothing else of the pool changes.
\<close>

subsection \<open>Segments of a doubly linked list\<close>

definition first_or :: "nat list \<Rightarrow> nat option \<Rightarrow> nat option" where
  "first_or xs n = (case xs of [] \<Rightarrow> n | x # _ \<Rightarrow> Some x)"

definition last_or :: "nat option \<Rightarrow> nat list \<Rightarrow> nat option" where
  "last_or p xs = (if xs = [] then p else Some (last xs))"

lemma first_or_simps [simp]: "first_or [] n = n" "first_or (x # xs) n = Some x"
  by (simp_all add: first_or_def)

lemma last_or_simps [simp]: "last_or p [] = p" "last_or p (x # xs) = last_or (Some x) xs"
  "last_or p (xs @ ys) = last_or (last_or p xs) ys"
  by (simp_all add: last_or_def)

lemma first_or_mem: "first_or xs None = Some x \<Longrightarrow> x \<in> set xs"
  by (cases xs) auto

lemma last_or_mem: "last_or None xs = Some x \<Longrightarrow> x \<in> set xs"
  by (auto simp: last_or_def split: if_splits)

lemma first_or_append [simp]: "first_or (xs @ ys) n = first_or xs (first_or ys n)"
  by (cases xs) auto

text \<open>
  \<open>links pv nx p xs n\<close>: the indices \<open>xs\<close> are linked in order, the predecessor of the first is
  \<open>p\<close> and the successor of the last is \<open>n\<close>.
\<close>

fun links :: "(nat \<Rightarrow> nat option) \<Rightarrow> (nat \<Rightarrow> nat option) \<Rightarrow> nat option \<Rightarrow> nat list \<Rightarrow> nat option \<Rightarrow> bool" where
  "links pv nx p [] n \<longleftrightarrow> True"
| "links pv nx p (x # xs) n \<longleftrightarrow> pv x = p \<and> nx x = first_or xs n \<and> links pv nx (Some x) xs n"

lemma links_append [simp]:
  "links pv nx p (xs @ ys) n \<longleftrightarrow> links pv nx p xs (first_or ys n) \<and> links pv nx (last_or p xs) ys n"
  by (induction xs arbitrary: p) auto

lemma links_cong:
  "(\<And>x. x \<in> set xs \<Longrightarrow> pv x = pv' x \<and> nx x = nx' x) \<Longrightarrow> links pv nx p xs n = links pv' nx' p xs n"
  by (induction xs arbitrary: p) auto

lemma links_upd_other [simp]:
  "i \<notin> set xs \<Longrightarrow> links (pv(i := a)) nx p xs n = links pv nx p xs n"
  "i \<notin> set xs \<Longrightarrow> links pv (nx(i := a)) p xs n = links pv nx p xs n"
  by (auto intro!: links_cong)

lemma links_new_first:
  "links pv nx p (x # xs) n \<Longrightarrow> x \<notin> set xs \<Longrightarrow> links (pv(x := q)) nx q (x # xs) n"
  by simp

lemma links_new_last:
  "links pv nx p (xs @ [x]) n \<Longrightarrow> x \<notin> set xs \<Longrightarrow> links pv (nx(x := m)) p (xs @ [x]) m"
  by simp

lemma links_last_prev: "links pv nx p (xs @ [x]) n \<Longrightarrow> pv x = last_or p xs"
  by simp

subsection \<open>The list of the pool\<close>

definition prev_of :: "buffer_pool \<Rightarrow> nat \<Rightarrow> nat option" where
  "prev_of s i = fr_prev (frame_at s i)"

definition next_of :: "buffer_pool \<Rightarrow> nat \<Rightarrow> nat option" where
  "next_of s i = fr_next (frame_at s i)"

definition lru_list :: "buffer_pool \<Rightarrow> nat list \<Rightarrow> bool" where
  "lru_list s xs \<longleftrightarrow>
     distinct xs \<and> set xs \<subseteq> {..<length (bp_frames s)} \<and>
     bp_mru_head s = first_or xs None \<and> bp_lru_tail s = last_or None xs \<and>
     links (prev_of s) (next_of s) None xs None"

text \<open>What the list operations leave alone.\<close>

definition frame_core :: "frame \<Rightarrow> buffer_key option \<times> u8 list \<times> bool \<times> u32" where
  "frame_core f = (fr_key f, fr_data f, fr_dirty f, fr_pin_count f)"

definition same_core :: "buffer_pool \<Rightarrow> buffer_pool \<Rightarrow> bool" where
  "same_core s t \<longleftrightarrow>
     length (bp_frames t) = length (bp_frames s) \<and>
     (\<forall>i. frame_core (frame_at t i) = frame_core (frame_at s i)) \<and>
     bp_files t = bp_files s \<and> bp_next_file_id t = bp_next_file_id s \<and>
     bp_page_table t = bp_page_table s \<and> bp_free_list t = bp_free_list s"

lemma same_core_refl [simp]: "same_core s s"
  by (simp add: same_core_def)

lemma same_core_trans: "same_core s t \<Longrightarrow> same_core t u \<Longrightarrow> same_core s u"
  by (simp add: same_core_def)

lemma frame_at_update:
  "i < length (bp_frames s) \<Longrightarrow> frame_at (update_frame i g s) j = (if j = i then g (frame_at s i) else frame_at s j)"
  by (auto simp: frame_at_def update_frame_def)

lemma update_frame_fields [simp]:
  "length (bp_frames (update_frame i g s)) = length (bp_frames s)"
  "bp_files (update_frame i g s) = bp_files s"
  "bp_next_file_id (update_frame i g s) = bp_next_file_id s"
  "bp_page_table (update_frame i g s) = bp_page_table s"
  "bp_free_list (update_frame i g s) = bp_free_list s"
  "bp_mru_head (update_frame i g s) = bp_mru_head s"
  "bp_lru_tail (update_frame i g s) = bp_lru_tail s"
  by (simp_all add: update_frame_def)

lemma frame_at_fields [simp]:
  "frame_at (s\<lparr>bp_mru_head := h\<rparr>) i = frame_at s i"
  "frame_at (s\<lparr>bp_lru_tail := h\<rparr>) i = frame_at s i"
  "frame_at (s\<lparr>bp_files := fl\<rparr>) i = frame_at s i"
  "frame_at (s\<lparr>bp_page_table := pt\<rparr>) i = frame_at s i"
  "frame_at (s\<lparr>bp_free_list := fr\<rparr>) i = frame_at s i"
  "frame_at (s\<lparr>bp_next_file_id := n\<rparr>) i = frame_at s i"
  by (simp_all add: frame_at_def)

lemma prev_next_fields [simp]:
  "prev_of (s\<lparr>bp_files := fl\<rparr>) = prev_of s" "next_of (s\<lparr>bp_files := fl\<rparr>) = next_of s"
  "prev_of (s\<lparr>bp_page_table := pt\<rparr>) = prev_of s" "next_of (s\<lparr>bp_page_table := pt\<rparr>) = next_of s"
  "prev_of (s\<lparr>bp_free_list := fr\<rparr>) = prev_of s" "next_of (s\<lparr>bp_free_list := fr\<rparr>) = next_of s"
  "prev_of (s\<lparr>bp_next_file_id := n\<rparr>) = prev_of s" "next_of (s\<lparr>bp_next_file_id := n\<rparr>) = next_of s"
  by (simp_all add: prev_of_def next_of_def fun_eq_iff)

lemma same_core_link_head:
  assumes "i < length (bp_frames s)" and "\<forall>h. bp_mru_head s = Some h \<longrightarrow> h < length (bp_frames s)"
  shows "same_core s (link_head i s)"
  using assms
  by (auto simp: same_core_def link_head_def Let_def frame_at_update frame_core_def split: option.splits)

lemma lru_list_bounds:
  assumes "lru_list s xs"
  shows "\<forall>h. bp_mru_head s = Some h \<longrightarrow> h < length (bp_frames s)"
  using assms by (cases xs) (auto simp: lru_list_def)

lemma link_head_list:
  assumes "lru_list s xs" and "i < length (bp_frames s)" and "i \<notin> set xs"
  shows "lru_list (link_head i s) (i # xs)"
proof (cases xs)
  case Nil
  then show ?thesis using assms
    by (auto simp: lru_list_def link_head_def Let_def prev_of_def next_of_def frame_at_update)
next
  case (Cons h ys)
  have h: "h < length (bp_frames s)" "h \<noteq> i" using assms Cons by (auto simp: lru_list_def)
  have pv: "prev_of (link_head i s) = (prev_of s)(i := None, h := Some i)"
    and nx: "next_of (link_head i s) = (next_of s)(i := Some h)"
    using assms Cons h
    by (auto simp: fun_eq_iff prev_of_def next_of_def link_head_def Let_def frame_at_update lru_list_def)
  have fields: "bp_mru_head (link_head i s) = Some i" "bp_lru_tail (link_head i s) = bp_lru_tail s"
    "length (bp_frames (link_head i s)) = length (bp_frames s)"
    using assms Cons by (auto simp: link_head_def Let_def lru_list_def)
  show ?thesis
    unfolding lru_list_def pv nx fields
    using assms Cons h by (auto simp: lru_list_def)
qed

lemma unlink_pointers:
  assumes "lru_list s (xs @ i # ys)"
  defines "p \<equiv> last_or None xs" and "n \<equiv> first_or ys None"
  shows "prev_of (unlink i s) =
      (\<lambda>j. if j = i then None else if n = Some j then p else prev_of s j)"
    and "next_of (unlink i s) =
      (\<lambda>j. if j = i then None else if p = Some j then n else next_of s j)"
    and "bp_mru_head (unlink i s) = (if xs = [] then n else bp_mru_head s)"
    and "bp_lru_tail (unlink i s) = (if ys = [] then p else bp_lru_tail s)"
    and "same_core s (unlink i s)"
proof -
  have i: "i < length (bp_frames s)" and head: "bp_mru_head s = first_or xs (Some i)"
    and tail: "bp_lru_tail s = last_or (Some i) ys"
    and pi: "fr_prev (frame_at s i) = p" and ni: "fr_next (frame_at s i) = n"
    and dist: "distinct (xs @ i # ys)" and inb: "set (xs @ i # ys) \<subseteq> {..<length (bp_frames s)}"
    using assms(1) unfolding p_def n_def by (simp_all add: lru_list_def prev_of_def next_of_def)
  have pe: "p = None \<longleftrightarrow> xs = []" and pm: "\<forall>j. p = Some j \<longrightarrow> j \<in> set xs"
    by (simp_all add: p_def last_or_def)
  have ne: "n = None \<longleftrightarrow> ys = []" and nm: "\<forall>j. n = Some j \<longrightarrow> j \<in> set ys"
    by (simp_all add: n_def first_or_def split: list.splits)
  have pb: "\<forall>j. p = Some j \<longrightarrow> j < length (bp_frames s) \<and> j \<noteq> i \<and> n \<noteq> Some j"
    using pm nm dist inb by auto
  have nb: "\<forall>j. n = Some j \<longrightarrow> j < length (bp_frames s) \<and> j \<noteq> i"
    using nm dist inb by auto
  show "prev_of (unlink i s) = (\<lambda>j. if j = i then None else if n = Some j then p else prev_of s j)"
    "next_of (unlink i s) = (\<lambda>j. if j = i then None else if p = Some j then n else next_of s j)"
    using i pi ni pb nb
    by (auto simp: fun_eq_iff prev_of_def next_of_def unlink_def Let_def frame_at_update split: option.splits)
  show "bp_mru_head (unlink i s) = (if xs = [] then n else bp_mru_head s)"
    "bp_lru_tail (unlink i s) = (if ys = [] then p else bp_lru_tail s)"
    using pi ni head tail pe ne
    by (auto simp: unlink_def Let_def split: option.splits)
  show "same_core s (unlink i s)"
    using i pi ni pb nb
    by (auto simp: same_core_def unlink_def Let_def frame_at_update frame_core_def split: option.splits)
qed

lemma unlink_list:
  assumes "lru_list s (xs @ i # ys)"
  shows "lru_list (unlink i s) (xs @ ys)"
proof -
  note ptr = unlink_pointers [OF assms]
  have len: "length (bp_frames (unlink i s)) = length (bp_frames s)"
    using ptr(5) by (simp add: same_core_def)
  have dist: "distinct (xs @ i # ys)" and lk: "links (prev_of s) (next_of s) None xs (Some i)"
    "links (prev_of s) (next_of s) (Some i) ys None"
    and head: "bp_mru_head s = first_or xs (Some i)" and tail: "bp_lru_tail s = last_or (Some i) ys"
    using assms by (auto simp: lru_list_def)
  have lx: "links (prev_of (unlink i s)) (next_of (unlink i s)) None xs (first_or ys None)"
  proof (cases xs rule: rev_cases)
    case (snoc as a)
    have "links (prev_of (unlink i s)) (next_of (unlink i s)) None as (Some a) =
        links (prev_of s) (next_of s) None as (Some a)"
      unfolding ptr using dist snoc by (intro links_cong) (auto simp: first_or_def split: list.splits)
    then show ?thesis using lk dist snoc ptr by (auto simp: first_or_def split: list.splits)
  qed simp
  have ly: "links (prev_of (unlink i s)) (next_of (unlink i s)) (last_or None xs) ys None"
  proof (cases ys)
    case (Cons b bs)
    have "links (prev_of (unlink i s)) (next_of (unlink i s)) (Some b) bs None =
        links (prev_of s) (next_of s) (Some b) bs None"
      unfolding ptr using dist Cons by (intro links_cong) (auto dest: last_or_mem)
    then show ?thesis using lk dist Cons ptr by (auto simp: last_or_def)
  qed simp
  have ends: "bp_mru_head (unlink i s) = first_or (xs @ ys) None"
    "bp_lru_tail (unlink i s) = last_or None (xs @ ys)"
    using ptr(3,4) head tail by (auto simp: first_or_def last_or_def split: list.splits)
  show ?thesis
    using assms dist lx ly ends len by (auto simp: lru_list_def)
qed

text \<open>An index that is not linked: unlinking it changes nothing.\<close>

definition unlinked :: "buffer_pool \<Rightarrow> nat \<Rightarrow> bool" where
  "unlinked s i \<longleftrightarrow> prev_of s i = None \<and> next_of s i = None"

lemma unlink_unlinked:
  assumes "lru_list s xs" and "i \<notin> set xs" and "i < length (bp_frames s)" and "unlinked s i"
  shows "unlink i s = s"
proof -
  have "bp_mru_head s \<noteq> Some i" "bp_lru_tail s \<noteq> Some i"
    using assms(1,2) by (auto simp: lru_list_def dest: first_or_mem last_or_mem)
  moreover have "fr_prev (frame_at s i) = None" "fr_next (frame_at s i) = None"
    using assms(4) by (auto simp: unlinked_def prev_of_def next_of_def)
  moreover have "(frame_at s i)\<lparr>fr_prev := None, fr_next := None\<rparr> = frame_at s i"
    using calculation(3,4) by (cases "frame_at s i") simp
  then have "update_frame i (\<lambda>f. f\<lparr>fr_prev := None, fr_next := None\<rparr>) s = s"
    by (simp only: update_frame_def frame_at_def) simp
  ultimately show ?thesis
    by (simp add: unlink_def Let_def)
qed

lemma unlink_makes_unlinked: "lru_list s (xs @ i # ys) \<Longrightarrow> unlinked (unlink i s) i"
  by (simp add: unlinked_def unlink_pointers)

lemma touch_linked:
  assumes "lru_list s xs" and "i \<in> set xs"
  shows "lru_list (touch i s) (i # remove1 i xs)" and "same_core s (touch i s)"
proof -
  obtain as bs where xs: "xs = as @ i # bs" "i \<notin> set as" "i \<notin> set bs"
    using assms split_list [OF assms(2)] by (auto simp: lru_list_def)
  have l: "lru_list (unlink i s) (as @ bs)" and c: "same_core s (unlink i s)"
    using unlink_list unlink_pointers(5) assms(1) xs(1) by blast+
  have i: "i < length (bp_frames (unlink i s))"
    using assms c by (auto simp: lru_list_def same_core_def)
  show "lru_list (touch i s) (i # remove1 i xs)"
    unfolding touch_def using link_head_list [OF l i] xs by (simp add: remove1_append)
  show "same_core s (touch i s)"
    unfolding touch_def
    by (rule same_core_trans [OF c same_core_link_head [OF i lru_list_bounds [OF l]]])
qed

lemma touch_unlinked:
  assumes "lru_list s xs" and "i \<notin> set xs" and "i < length (bp_frames s)" and "unlinked s i"
  shows "lru_list (touch i s) (i # xs)" and "same_core s (touch i s)"
  unfolding touch_def unlink_unlinked [OF assms]
  using link_head_list assms same_core_link_head lru_list_bounds by blast+

text \<open>The pointers of an index outside the list are not written by a list operation.\<close>

lemma link_head_unlinked:
  assumes "lru_list s xs" and "i < length (bp_frames s)" and "j \<noteq> i" and "unlinked s j" and "j \<notin> set xs"
  shows "unlinked (link_head i s) j"
  using assms
  by (cases xs) (auto simp: lru_list_def unlinked_def link_head_def Let_def prev_of_def next_of_def frame_at_update)

lemma unlink_keeps_unlinked:
  assumes "lru_list s (xs @ i # ys)" and "unlinked s j" and "j \<notin> set (xs @ i # ys)"
  shows "unlinked (unlink i s) j"
  using assms(2,3) unlink_pointers(1,2) [OF assms(1)]
  by (auto simp: unlinked_def first_or_def last_or_def split: list.splits)

lemma touch_keeps_unlinked:
  assumes "lru_list s xs" and "i \<in> set xs" and "unlinked s j" and "j \<notin> set xs"
  shows "unlinked (touch i s) j"
proof -
  obtain as bs where xs: "xs = as @ i # bs"
    using split_list [OF assms(2)] by blast
  have l: "lru_list (unlink i s) (as @ bs)" and u: "unlinked (unlink i s) j"
    and i: "i < length (bp_frames (unlink i s))"
    using unlink_list unlink_keeps_unlinked unlink_pointers(5) assms xs
    by (auto simp: lru_list_def same_core_def)
  show ?thesis
    unfolding touch_def using link_head_unlinked [OF l i _ u] assms xs by auto
qed

subsection \<open>The search for a victim\<close>

text \<open>
  The walk goes through the list from its end, so with as much fuel as there are frames it
  ends, and it finds the last index that is not pinned.
\<close>

definition pinned_at :: "buffer_pool \<Rightarrow> nat \<Rightarrow> bool" where
  "pinned_at s i \<longleftrightarrow> fr_pin_count (frame_at s i) \<noteq> 0"

lemma find_victim_list:
  "links (prev_of s) (next_of s) None xs n \<Longrightarrow> length xs \<le> fuel \<Longrightarrow>
     find_victim fuel (bp_frames s) (last_or None xs) =
       Some (find (\<lambda>i. \<not> pinned_at s i) (rev xs))"
proof (induction xs arbitrary: fuel n rule: rev_induct)
  case Nil
  then show ?case by (cases fuel) auto
next
  case (snoc x xs)
  obtain k where k: "fuel = Suc k" "length xs \<le> k" using snoc.prems(2) by (cases fuel) auto
  have "fr_prev (bp_frames s ! x) = last_or None xs"
    using snoc.prems(1) by (simp add: prev_of_def frame_at_def)
  moreover have "links (prev_of s) (next_of s) None xs (Some x)"
    using snoc.prems(1) by simp
  ultimately show ?case
    using k snoc.IH [of "Some x" k] by (simp add: pinned_at_def frame_at_def)
qed

lemma lru_list_length: "lru_list s xs \<Longrightarrow> length xs \<le> length (bp_frames s)"
  unfolding lru_list_def
  by (metis card_lessThan card_mono distinct_card finite_lessThan)

lemma find_victim_ends:
  assumes "lru_list s xs"
  shows "find_victim (length (bp_frames s)) (bp_frames s) (bp_lru_tail s) =
    Some (find (\<lambda>i. \<not> pinned_at s i) (rev xs))"
  using assms find_victim_list [of s xs None "length (bp_frames s)"] lru_list_length [OF assms]
  by (auto simp: lru_list_def)

end
