(* ===== verification/Buffer_Spec.thy ===== *)
theory Buffer_Spec
  imports Buffer_Lru
begin

section \<open>The buffer pool: invariant and transparency\<close>

text \<open>
  What a client sees of the pool is its view: the contents of every page of every registered
  file, taken from the frame where the page is cached and from the file otherwise.  The
  invariant has two parts: \<open>pool_lists\<close> on the recency list and the free list, which together
  enumerate the frames, and \<open>pool_core\<close> on the page table, the frames and the files.
\<close>

definition file_content :: "buffer_pool \<Rightarrow> buffer_key \<Rightarrow> u8 list option" where
  "file_content s k =
     (case bp_files s (bk_file_id k) of None \<Rightarrow> None | Some f \<Rightarrow> page_content f (bk_page_id k))"

definition pool_view :: "buffer_pool \<Rightarrow> buffer_key \<Rightarrow> u8 list option" where
  "pool_view s k =
     (case bp_page_table s k of Some i \<Rightarrow> Some (fr_data (frame_at s i)) | None \<Rightarrow> file_content s k)"

text \<open>\<open>loose\<close> holds the frames in transit between the two lists.\<close>

definition pool_lists :: "buffer_pool \<Rightarrow> nat list \<Rightarrow> nat set \<Rightarrow> bool" where
  "pool_lists s xs loose \<longleftrightarrow>
     lru_list s xs \<and> distinct (bp_free_list s) \<and>
     set (bp_free_list s) \<inter> set xs = {} \<and> loose \<inter> (set (bp_free_list s) \<union> set xs) = {} \<and>
     set (bp_free_list s) \<union> set xs \<union> loose = {..<length (bp_frames s)} \<and>
     (\<forall>i \<in> set (bp_free_list s) \<union> loose. unlinked s i)"

definition pool_core :: "buffer_pool \<Rightarrow> bool" where
  "pool_core s \<longleftrightarrow>
     (\<forall>i < length (bp_frames s). length (fr_data (frame_at s i)) = 4092) \<and>
     (\<forall>i < length (bp_frames s). fr_key (frame_at s i) = None \<longrightarrow>
        \<not> fr_dirty (frame_at s i) \<and> fr_pin_count (frame_at s i) = 0) \<and>
     (\<forall>i \<in> set (bp_free_list s). fr_key (frame_at s i) = None) \<and>
     (\<forall>k i. bp_page_table s k = Some i \<longleftrightarrow>
        i < length (bp_frames s) \<and> fr_key (frame_at s i) = Some k) \<and>
     (\<forall>k i. bp_page_table s k = Some i \<longrightarrow> file_content s k \<noteq> None \<and>
        (fr_dirty (frame_at s i) \<or> file_content s k = Some (fr_data (frame_at s i)))) \<and>
     (\<forall>fid f. bp_files s fid = Some f \<longrightarrow> page_file_good f \<and> fid < bp_next_file_id s)"

definition pool_ok :: "buffer_pool \<Rightarrow> bool" where
  "pool_ok s \<longleftrightarrow> pool_core s \<and> (\<exists>xs. pool_lists s xs {})"

subsection \<open>States that agree\<close>

lemma same_core_frame:
  assumes "same_core s t"
  shows "fr_key (frame_at t i) = fr_key (frame_at s i)" "fr_data (frame_at t i) = fr_data (frame_at s i)"
    "fr_dirty (frame_at t i) = fr_dirty (frame_at s i)"
    "fr_pin_count (frame_at t i) = fr_pin_count (frame_at s i)"
  using assms by (simp_all add: same_core_def frame_core_def)

lemma same_core_fields:
  assumes "same_core s t"
  shows "length (bp_frames t) = length (bp_frames s)" "bp_files t = bp_files s"
    "bp_next_file_id t = bp_next_file_id s" "bp_page_table t = bp_page_table s"
    "bp_free_list t = bp_free_list s"
  using assms by (simp_all add: same_core_def)

lemma same_core_content: "same_core s t \<Longrightarrow> file_content t = file_content s"
  by (auto simp: file_content_def same_core_fields fun_eq_iff)

lemma same_core_view: "same_core s t \<Longrightarrow> pool_view t = pool_view s"
  by (auto simp: pool_view_def same_core_fields same_core_frame same_core_content fun_eq_iff split: option.splits)

lemma same_core_core:
  assumes "same_core s t" and "pool_core s"
  shows "pool_core t"
  using assms(2)
  unfolding pool_core_def same_core_fields [OF assms(1)] same_core_frame [OF assms(1)]
    same_core_content [OF assms(1)] .

text \<open>The lists do not depend on the keys, the data, the flags, the page table or the files.\<close>

definition same_lists :: "buffer_pool \<Rightarrow> buffer_pool \<Rightarrow> bool" where
  "same_lists s t \<longleftrightarrow>
     length (bp_frames t) = length (bp_frames s) \<and> prev_of t = prev_of s \<and> next_of t = next_of s \<and>
     bp_mru_head t = bp_mru_head s \<and> bp_lru_tail t = bp_lru_tail s \<and> bp_free_list t = bp_free_list s"

lemma same_lists_refl [simp]: "same_lists s s"
  by (simp add: same_lists_def)

lemma same_lists_trans: "same_lists s t \<Longrightarrow> same_lists t u \<Longrightarrow> same_lists s u"
  by (simp add: same_lists_def)

lemma same_lists_lists: "same_lists s t \<Longrightarrow> pool_lists s xs L \<Longrightarrow> pool_lists t xs L"
  by (simp add: same_lists_def pool_lists_def lru_list_def unlinked_def)

lemma update_frame_same_lists:
  assumes "\<And>f. fr_prev (g f) = fr_prev f \<and> fr_next (g f) = fr_next f"
  shows "same_lists s (update_frame i g s)"
proof (cases "i < length (bp_frames s)")
  case True
  then show ?thesis
    using assms by (auto simp: same_lists_def prev_of_def next_of_def fun_eq_iff frame_at_update)
next
  case False
  then show ?thesis
    by (simp add: same_lists_def update_frame_def prev_of_def next_of_def frame_at_def fun_eq_iff
        list_update_beyond)
qed

lemma same_lists_fields [simp]:
  "same_lists s (t\<lparr>bp_files := fl\<rparr>) = same_lists s t"
  "same_lists s (t\<lparr>bp_page_table := pt\<rparr>) = same_lists s t"
  "same_lists s (t\<lparr>bp_next_file_id := n\<rparr>) = same_lists s t"
  by (simp_all add: same_lists_def)

subsection \<open>List operations and the invariant\<close>

lemma pool_lists_member: "pool_lists s xs L \<Longrightarrow> i \<in> set xs \<Longrightarrow> i < length (bp_frames s)"
  by (auto simp: pool_lists_def)

lemma touch_pool_lists:
  assumes "pool_lists s xs L" and "i \<in> set xs"
  shows "pool_lists (touch i s) (i # remove1 i xs) L" and "same_core s (touch i s)"
proof -
  have l: "lru_list s xs" using assms(1) by (simp add: pool_lists_def)
  show c: "same_core s (touch i s)" using touch_linked [OF l assms(2)] by simp
  have "set (i # remove1 i xs) = set xs"
    using assms l by (auto simp: lru_list_def)
  then show "pool_lists (touch i s) (i # remove1 i xs) L"
    using touch_linked(1) [OF l assms(2)] assms same_core_fields [OF c] touch_keeps_unlinked [OF l assms(2)]
    unfolding pool_lists_def by (metis Int_iff Un_iff disjoint_iff)
qed

lemma touch_loose:
  assumes "pool_lists s xs {i}"
  shows "pool_lists (touch i s) (i # xs) {}" and "same_core s (touch i s)"
proof -
  have pre: "lru_list s xs" "i \<notin> set xs" "i < length (bp_frames s)" "unlinked s i"
    using assms by (auto simp: pool_lists_def)
  show c: "same_core s (touch i s)" using touch_unlinked [OF pre] by simp
  have "unlinked (touch i s) j" if "j \<in> set (bp_free_list s)" for j
    unfolding touch_def unlink_unlinked [OF pre]
    using that assms by (intro link_head_unlinked [OF pre(1,3)]) (auto simp: pool_lists_def)
  then show "pool_lists (touch i s) (i # xs) {}"
    using assms touch_unlinked(1) [OF pre] same_core_fields [OF c] by (auto simp: pool_lists_def)
qed

lemma link_head_loose:
  assumes "pool_lists s xs {i}"
  shows "pool_lists (link_head i s) (i # xs) {}" and "same_core s (link_head i s)"
proof -
  have "unlink i s = s"
    using assms by (intro unlink_unlinked [of s xs]) (auto simp: pool_lists_def)
  then show "pool_lists (link_head i s) (i # xs) {}" "same_core s (link_head i s)"
    using touch_loose [OF assms] by (simp_all add: touch_def)
qed

lemma unlink_pool_lists:
  assumes "pool_lists s (xs @ i # ys) {}"
  shows "pool_lists (unlink i s) (xs @ ys) {i}" and "same_core s (unlink i s)"
proof -
  have l: "lru_list s (xs @ i # ys)" using assms by (simp add: pool_lists_def)
  show c: "same_core s (unlink i s)" using unlink_pointers(5) [OF l] .
  have "distinct (xs @ i # ys)" using l by (simp add: lru_list_def)
  moreover have "unlinked (unlink i s) j" if "j = i \<or> j \<in> set (bp_free_list s)" for j
    using that unlink_keeps_unlinked [OF l] unlink_makes_unlinked [OF l] assms by (auto simp: pool_lists_def)
  ultimately show "pool_lists (unlink i s) (xs @ ys) {i}"
    using assms unlink_list [OF l] same_core_fields [OF c] by (auto simp: pool_lists_def)
qed

lemma pop_free_lists:
  assumes "pool_lists s xs {}" and "bp_free_list s = fs @ [i]"
  shows "pool_lists (s\<lparr>bp_free_list := fs\<rparr>) xs {i}"
  using assms by (auto simp: pool_lists_def lru_list_def unlinked_def)

lemma push_free_lists:
  assumes "pool_lists s xs {i}"
  shows "pool_lists (s\<lparr>bp_free_list := bp_free_list s @ [i]\<rparr>) xs {}"
  using assms by (auto simp: pool_lists_def lru_list_def unlinked_def)

lemma pool_core_shrink_free:
  assumes "pool_core s" and "set fs \<subseteq> set (bp_free_list s)"
  shows "pool_core (s\<lparr>bp_free_list := fs\<rparr>)"
  using assms by (auto simp: pool_core_def file_content_def)

subsection \<open>Operations on the files\<close>

text \<open>A file operation that keeps the contents keeps everything the pool relies on.\<close>

definition same_contents :: "buffer_pool \<Rightarrow> buffer_pool \<Rightarrow> bool" where
  "same_contents s t \<longleftrightarrow>
     bp_frames t = bp_frames s \<and> bp_page_table t = bp_page_table s \<and> bp_free_list t = bp_free_list s \<and>
     bp_mru_head t = bp_mru_head s \<and> bp_lru_tail t = bp_lru_tail s \<and>
     bp_next_file_id t = bp_next_file_id s \<and> dom (bp_files t) = dom (bp_files s) \<and>
     file_content t = file_content s \<and> (\<forall>fid f. bp_files t fid = Some f \<longrightarrow> page_file_good f)"

lemma same_contents_frame_at: "same_contents s t \<Longrightarrow> frame_at t = frame_at s"
  by (auto simp: same_contents_def frame_at_def)

lemma same_contents_lists: "same_contents s t \<Longrightarrow> same_lists s t"
  by (auto simp: same_contents_def same_lists_def prev_of_def next_of_def frame_at_def)

lemma same_contents_core: "same_contents s t \<Longrightarrow> pool_core s \<Longrightarrow> pool_core t"
  using same_contents_frame_at [of s t]
  by (auto simp: pool_core_def same_contents_def dom_def set_eq_iff)

lemma same_contents_view: "same_contents s t \<Longrightarrow> pool_view t = pool_view s"
  using same_contents_frame_at [of s t]
  by (auto simp: pool_view_def same_contents_def fun_eq_iff split: option.splits)

lemma file_content_update:
  "bp_files s fid = Some f \<Longrightarrow>
     file_content (s\<lparr>bp_files := (bp_files s)(fid \<mapsto> g)\<rparr>) =
       (\<lambda>k. if bk_file_id k = fid then page_content g (bk_page_id k) else file_content s k)"
  by (auto simp: file_content_def fun_eq_iff)

lemma same_contents_file:
  assumes "pool_core s" and "bp_files s fid = Some f" and "page_file_good g" and "page_content g = page_content f"
  shows "same_contents s (s\<lparr>bp_files := (bp_files s)(fid \<mapsto> g)\<rparr>)"
  using assms file_content_update [OF assms(2), of g]
  by (auto simp: same_contents_def pool_core_def fun_eq_iff file_content_def dom_def)

lemma read_page_data_ok:
  assumes "pool_core s"
  obtains t where "same_contents s t" and "read_page_data k s =
    (case file_content s k of
       Some d \<Rightarrow> (Inr d, t)
     | None \<Rightarrow> (Inl (if bp_files s (bk_file_id k) = None then UnknownFile (bk_file_id k)
                     else BP_PageStore (InvalidPageId (bk_page_id k))), t))"
proof (cases "bp_files s (bk_file_id k)")
  case None
  moreover have "same_contents s s" using assms by (auto simp: same_contents_def pool_core_def)
  ultimately show thesis
    by (intro that [of s]) (simp_all add: read_page_data_def on_file_def file_content_def)
next
  case (Some f)
  have good: "page_file_good f" using assms Some by (auto simp: pool_core_def)
  let ?g = "snd (read_page (bk_page_id k) f)"
  have "same_contents s (s\<lparr>bp_files := (bp_files s)(bk_file_id k \<mapsto> ?g)\<rparr>)"
    using same_contents_file [OF assms Some] ps.read_frame [OF good] by blast
  then show thesis
    using Some ps.read_result [OF good, of "bk_page_id k"]
    by (intro that) (auto simp: read_page_data_def on_file_def file_content_def split: prod.splits option.splits)
qed

end
