(* ===== verification/Buffer_Ops.thy ===== *)
theory Buffer_Ops
  imports Buffer_Spec
begin

section \<open>The operations of the buffer pool\<close>

text \<open>
  The building blocks of the pool keep its invariant: writing a frame back, recycling it, taking
  a frame for a new page and putting the page into it.
\<close>

subsection \<open>Writing back a frame\<close>

text \<open>\<open>flushed i s t\<close>: \<open>t\<close> is \<open>s\<close> with frame \<open>i\<close> written back to its file.\<close>

definition flushed :: "nat \<Rightarrow> buffer_pool \<Rightarrow> buffer_pool \<Rightarrow> bool" where
  "flushed i s t \<longleftrightarrow>
     pool_core t \<and> same_lists s t \<and> pool_view t = pool_view s \<and>
     bp_page_table t = bp_page_table s \<and> dom (bp_files t) = dom (bp_files s) \<and>
     frame_at t = (frame_at s)(i := (frame_at s i)\<lparr>fr_dirty := False\<rparr>) \<and>
     (\<forall>k. file_content t k \<noteq> file_content s k \<longrightarrow> fr_key (frame_at s i) = Some k)"

lemma pool_coreD:
  assumes "pool_core s"
  shows "i < length (bp_frames s) \<Longrightarrow> length (fr_data (frame_at s i)) = 4092"
    and "i < length (bp_frames s) \<Longrightarrow> fr_key (frame_at s i) = None \<Longrightarrow>
           \<not> fr_dirty (frame_at s i) \<and> fr_pin_count (frame_at s i) = 0"
    and "i \<in> set (bp_free_list s) \<Longrightarrow> fr_key (frame_at s i) = None"
    and "bp_page_table s k = Some i \<longleftrightarrow> i < length (bp_frames s) \<and> fr_key (frame_at s i) = Some k"
    and "bp_page_table s k = Some i \<Longrightarrow> file_content s k \<noteq> None \<and>
           (fr_dirty (frame_at s i) \<or> file_content s k = Some (fr_data (frame_at s i)))"
    and "bp_files s fid = Some f \<Longrightarrow> page_file_good f \<and> fid < bp_next_file_id s"
  using assms unfolding pool_core_def by blast+

lemma pool_coreI:
  assumes "\<And>i. i < length (bp_frames s) \<Longrightarrow> length (fr_data (frame_at s i)) = 4092"
    and "\<And>i. i < length (bp_frames s) \<Longrightarrow> fr_key (frame_at s i) = None \<Longrightarrow>
           \<not> fr_dirty (frame_at s i) \<and> fr_pin_count (frame_at s i) = 0"
    and "\<And>i. i \<in> set (bp_free_list s) \<Longrightarrow> fr_key (frame_at s i) = None"
    and "\<And>k i. bp_page_table s k = Some i \<longleftrightarrow> i < length (bp_frames s) \<and> fr_key (frame_at s i) = Some k"
    and "\<And>k i. bp_page_table s k = Some i \<Longrightarrow> file_content s k \<noteq> None \<and>
           (fr_dirty (frame_at s i) \<or> file_content s k = Some (fr_data (frame_at s i)))"
    and "\<And>fid f. bp_files s fid = Some f \<Longrightarrow> page_file_good f \<and> fid < bp_next_file_id s"
  shows "pool_core s"
  using assms unfolding pool_core_def by blast

lemma pool_core_key_unique:
  assumes "pool_core s" and "fr_key (frame_at s i) = Some k" and "fr_key (frame_at s j) = Some k"
    and "i < length (bp_frames s)" and "j < length (bp_frames s)"
  shows "i = j"
  using assms pool_coreD(4) [OF assms(1), of k] by (metis option.inject)

lemma file_content_free [simp]: "file_content (s\<lparr>bp_free_list := fr\<rparr>) = file_content s"
  by (simp add: file_content_def fun_eq_iff)

lemma set_clean:
  assumes "pool_core s" and "i < length (bp_frames s)" and "fr_key (frame_at s i) = Some k"
    and "bp_files s (bk_file_id k) = Some f" and "page_file_good g"
    and "page_content g = (page_content f)(bk_page_id k \<mapsto> fr_data (frame_at s i))"
  defines "t \<equiv> update_frame i (\<lambda>f. f\<lparr>fr_dirty := False\<rparr>) (s\<lparr>bp_files := (bp_files s)(bk_file_id k \<mapsto> g)\<rparr>)"
  shows "flushed i s t"
proof -
  have tbl: "bp_page_table s k = Some i" using pool_coreD(4) [OF assms(1)] assms(2,3) by simp
  have fa: "frame_at t = (frame_at s)(i := (frame_at s i)\<lparr>fr_dirty := False\<rparr>)"
    using assms(2) by (auto simp: t_def frame_at_update fun_eq_iff)
  have fc: "file_content t = (file_content s)(k \<mapsto> fr_data (frame_at s i))"
    using assms(4,6) by (auto simp: t_def file_content_def fun_eq_iff)
  have flds: "bp_page_table t = bp_page_table s" "bp_free_list t = bp_free_list s"
    "length (bp_frames t) = length (bp_frames s)" "bp_next_file_id t = bp_next_file_id s"
    "bp_files t = (bp_files s)(bk_file_id k \<mapsto> g)"
    by (simp_all add: t_def)
  note D = pool_coreD [OF assms(1)]
  have "pool_core t"
  proof (rule pool_coreI)
    show "bp_page_table t k' = Some j \<longleftrightarrow> j < length (bp_frames t) \<and> fr_key (frame_at t j) = Some k'" for k' j
      using D(4) by (simp add: fa flds)
    show "file_content t k' \<noteq> None \<and>
        (fr_dirty (frame_at t j) \<or> file_content t k' = Some (fr_data (frame_at t j)))"
      if "bp_page_table t k' = Some j" for k' j
      using that tbl D(4) [of k' j] D(5) [of k' j] assms(3) by (cases "j = i") (auto simp: fa fc flds)
    show "page_file_good f' \<and> fid < bp_next_file_id t" if "bp_files t fid = Some f'" for fid f'
      using that D(6) [of fid] assms(4,5) by (auto simp: flds split: if_splits)
  qed (use D(1-3) in \<open>auto simp: fa flds split: if_splits\<close>)
  moreover have "same_lists s t"
    unfolding t_def
    by (rule same_lists_trans [of s "s\<lparr>bp_files := (bp_files s)(bk_file_id k \<mapsto> g)\<rparr>"])
      (auto intro: update_frame_same_lists)
  moreover have "pool_view t = pool_view s"
    using tbl by (auto simp: pool_view_def fa fc flds fun_eq_iff split: option.splits)
  ultimately show ?thesis
    using fa fc flds assms(3,4) by (auto simp: flushed_def dom_def)
qed

lemma flush_frame_ok:
  assumes "pool_core s" and "i < length (bp_frames s)"
  obtains t where "flush_frame_if_dirty i s = (Inr (), t)" and "flushed i s t"
proof (cases "fr_dirty (frame_at s i)")
  case False
  moreover have "(frame_at s i)\<lparr>fr_dirty := False\<rparr> = frame_at s i"
    using False by (cases "frame_at s i") simp
  ultimately show thesis using assms by (intro that [of s]) (auto simp: flush_frame_if_dirty_def flushed_def)
next
  case True
  obtain k where k: "fr_key (frame_at s i) = Some k"
    using pool_coreD(2) [OF assms] True by (cases "fr_key (frame_at s i)") auto
  have content: "file_content s k \<noteq> None"
    using pool_coreD(4,5) [OF assms(1)] assms(2) k by blast
  then obtain f where f: "bp_files s (bk_file_id k) = Some f" "page_content f (bk_page_id k) \<noteq> None"
    by (auto simp: file_content_def split: option.splits)
  have good: "page_file_good f" using pool_coreD(6) [OF assms(1) f(1)] by simp
  obtain g where g: "and_then_st (store_page (bk_page_id k) (fr_data (frame_at s i)) f) (\<lambda>_. page_flush) = (Inr (), g)"
    "page_file_good g" "page_content g = (page_content f)(bk_page_id k \<mapsto> fr_data (frame_at s i))"
    using ps.write_back [OF good pool_coreD(1) [OF assms] f(2)] by blast
  have "flush_frame_if_dirty i s =
      (Inr (), update_frame i (\<lambda>f. f\<lparr>fr_dirty := False\<rparr>) (s\<lparr>bp_files := (bp_files s)(bk_file_id k \<mapsto> g)\<rparr>))"
    using True k f(1) g(1) by (simp add: flush_frame_if_dirty_def on_file_def Let_def)
  then show thesis using that set_clean [OF assms k f(1) g(2,3)] by blast
qed

subsection \<open>Recycling and acquiring a frame\<close>

lemma recycle_frame_ok:
  assumes core: "pool_core s" and lists: "pool_lists s (xs @ i # ys) {}"
    and pin: "fr_pin_count (frame_at s i) = 0" and clean: "\<not> fr_dirty (frame_at s i)"
  obtains t where "recycle_frame i s = (Inr (), t)" and "pool_core t" and "pool_lists t (xs @ ys) {i}"
    and "pool_view t = pool_view s" and "fr_key (frame_at t i) = None" and "bp_files t = bp_files s"
    and "bp_free_list t = bp_free_list s"
    and "\<And>k j. bp_page_table t k = Some j \<Longrightarrow> bp_page_table s k = Some j \<and> frame_core (frame_at t j) = frame_core (frame_at s j)"
    and "\<And>k. fr_key (frame_at s i) = Some k \<Longrightarrow> bp_page_table t k = None"
    and "\<And>j. j \<noteq> i \<Longrightarrow> frame_core (frame_at t j) = frame_core (frame_at s j)"
    and "length (bp_frames t) = length (bp_frames s)"
proof -
  have i: "i < length (bp_frames s)" using lists by (auto simp: pool_lists_def)
  define pt where "pt = (case fr_key (frame_at s i) of
      Some k \<Rightarrow> (bp_page_table s)(k := None) | None \<Rightarrow> bp_page_table s)"
  define u where "u = update_frame i (\<lambda>f. f\<lparr>fr_key := None, fr_dirty := False\<rparr>) (s\<lparr>bp_page_table := pt\<rparr>)"
  have run: "recycle_frame i s = (Inr (), unlink i u)"
    using pin i
    by (auto simp: recycle_frame_def u_def pt_def Let_def update_frame_def split: option.splits)
  have fa: "frame_at u = (frame_at s)(i := (frame_at s i)\<lparr>fr_key := None, fr_dirty := False\<rparr>)"
    using i by (auto simp: u_def frame_at_update fun_eq_iff)
  have flds: "bp_page_table u = pt" "bp_files u = bp_files s" "bp_free_list u = bp_free_list s"
    "length (bp_frames u) = length (bp_frames s)" "bp_next_file_id u = bp_next_file_id s"
    "file_content u = file_content s"
    by (simp_all add: u_def file_content_def fun_eq_iff)
  have key: "bp_page_table s k = Some i \<longleftrightarrow> fr_key (frame_at s i) = Some k" for k
    using pool_coreD(4) [OF core] i by simp
  have pt: "pt k = (if fr_key (frame_at s i) = Some k then None else bp_page_table s k)" for k
    by (auto simp: pt_def split: option.splits)
  have uniq: "j = i" if "j < length (bp_frames s)" "fr_key (frame_at s j) = Some k"
      "fr_key (frame_at s i) = Some k" for j k
    using pool_core_key_unique [OF core that(2,3,1) i] .
  have core_u: "pool_core u"
    using core pin key uniq unfolding pool_core_def fa flds pt by (auto split: if_splits)
  have view: "pool_view u = pool_view s"
  proof (rule ext)
    fix k
    show "pool_view u k = pool_view s k"
    proof (cases "fr_key (frame_at s i) = Some k")
      case True
      then have "bp_page_table s k = Some i" using key by simp
      then show ?thesis
        using clean pool_coreD(5) [OF core] True by (auto simp: pool_view_def flds pt)
    next
      case False
      then show ?thesis
        using key [of k] by (auto simp: pool_view_def fa flds pt split: option.splits)
    qed
  qed
  have sl: "same_lists s u"
    unfolding u_def
    by (rule same_lists_trans [of s "s\<lparr>bp_page_table := pt\<rparr>"]) (auto intro: update_frame_same_lists)
  note un = unlink_pool_lists [OF same_lists_lists [OF sl lists]]
  note eq = same_core_fields [OF un(2)] same_core_frame [OF un(2)]
  have j: "frame_core (frame_at (unlink i u) j) = frame_core (frame_at s j)" if "j \<noteq> i" for j
    using that un(2) fa by (simp add: same_core_def)
  show thesis
  proof (rule that [OF run])
    show "bp_page_table s k = Some j \<and> frame_core (frame_at (unlink i u) j) = frame_core (frame_at s j)"
      if "bp_page_table (unlink i u) k = Some j" for k j
      using that j [of j] key pt eq flds by (auto split: if_splits)
  qed (use same_core_core [OF un(2) core_u] un(1) same_core_view [OF un(2)] view fa eq flds pt j in auto)
qed

lemma find_first_victim:
  assumes "find P (rev xs) = Some i"
  obtains as bs where "xs = as @ i # bs" and "\<forall>j \<in> set bs. \<not> P j" and "P i"
proof -
  obtain n where n: "n < length xs" "P (rev xs ! n)" "i = rev xs ! n" "\<forall>j<n. \<not> P (rev xs ! j)"
    using assms by (auto simp: find_Some_iff)
  have "rev xs = take n (rev xs) @ i # drop (Suc n) (rev xs)"
    using n by (simp add: id_take_nth_drop)
  then have "xs = rev (drop (Suc n) (rev xs)) @ i # rev (take n (rev xs))"
    by (metis rev_append rev_rev_ident rev.simps(2) append.assoc append_Cons append_Nil)
  moreover have "\<forall>j \<in> set (rev (take n (rev xs))). \<not> P j"
    using n by (auto simp: in_set_conv_nth)
  ultimately show thesis using that n by blast
qed

text \<open>
  A frame is acquired from the free list, or by evicting the least recently used frame that
  nothing pins; the only failure is that every frame is pinned, and it changes nothing.
\<close>

definition pool_pins :: "buffer_pool \<Rightarrow> buffer_key \<Rightarrow> nat" where
  "pool_pins s k =
     (case bp_page_table s k of None \<Rightarrow> 0 | Some i \<Rightarrow> unat (fr_pin_count (frame_at s i)))"

definition acquired :: "nat \<Rightarrow> buffer_pool \<Rightarrow> buffer_pool \<Rightarrow> bool" where
  "acquired i s t \<longleftrightarrow>
     pool_core t \<and> (\<exists>xs. pool_lists t xs {} \<and> i \<in> set xs) \<and> pool_view t = pool_view s \<and>
     fr_key (frame_at t i) = None \<and> dom (bp_files t) = dom (bp_files s) \<and>
     length (bp_frames t) = length (bp_frames s) \<and>
     (\<forall>k j. bp_page_table t k = Some j \<longrightarrow> bp_page_table s k = Some j) \<and>
     (\<forall>k j. bp_page_table s k = Some j \<longrightarrow> pinned_at s j \<longrightarrow> bp_page_table t k = Some j) \<and>
     pool_pins t = pool_pins s"

lemma pinned_count: "pinned_at s j \<longleftrightarrow> 0 < unat (fr_pin_count (frame_at s j))"
  by (simp add: pinned_at_def unat_gt_0)

lemma unpinned_count: "\<not> pinned_at s j \<Longrightarrow> unat (fr_pin_count (frame_at s j)) = 0"
  by (simp add: pinned_at_def)

lemma pool_free_list_fields [simp]:
  "pool_view (s\<lparr>bp_free_list := fr\<rparr>) = pool_view s"
  "pool_pins (s\<lparr>bp_free_list := fr\<rparr>) = pool_pins s"
  by (auto simp: pool_view_def pool_pins_def fun_eq_iff split: option.splits)

lemma pool_pins_kept:
  assumes "\<And>k j. bp_page_table t k = Some j \<Longrightarrow>
      bp_page_table s k = Some j \<and> fr_pin_count (frame_at t j) = fr_pin_count (frame_at s j)"
    and "\<And>k j. bp_page_table s k = Some j \<Longrightarrow> pinned_at s j \<Longrightarrow> bp_page_table t k = Some j"
  shows "pool_pins t = pool_pins s"
proof (rule ext)
  fix k
  show "pool_pins t k = pool_pins s k"
    using assms [of k] by (cases "bp_page_table s k"; cases "bp_page_table t k")
      (auto simp: pool_pins_def intro: unpinned_count)
qed

lemma acquire_frame_free:
  assumes core: "pool_core s" and lists: "pool_lists s xs {}" and free: "bp_free_list s = fs @ [i]"
  shows "acquire_frame s = (Inr i, link_head i (s\<lparr>bp_free_list := fs\<rparr>))"
    and "acquired i s (link_head i (s\<lparr>bp_free_list := fs\<rparr>))"
proof -
  let ?u = "s\<lparr>bp_free_list := fs\<rparr>"
  show "acquire_frame s = (Inr i, link_head i ?u)" using free by (simp add: acquire_frame_def Let_def)
  note lk = link_head_loose [OF pop_free_lists [OF lists free]]
  have "pool_core ?u" using pool_core_shrink_free [OF core, of fs] free by auto
  moreover have "fr_key (frame_at s i) = None" "fr_pin_count (frame_at s i) = 0"
    using core lists free pool_coreD(2,3) [OF core, of i] by (auto simp: pool_lists_def)
  moreover have "pool_view ?u = pool_view s"
    by (simp add: pool_view_def fun_eq_iff split: option.splits)
  ultimately show "acquired i s (link_head i ?u)"
    using lk same_core_core [OF lk(2)] same_core_view [OF lk(2)] same_core_fields [OF lk(2)]
      same_core_frame [OF lk(2)]
    by (auto simp: acquired_def intro!: exI [of _ "i # xs"] pool_pins_kept)
qed

lemma acquire_frame_evict:
  assumes core: "pool_core s" and lists: "pool_lists s xs {}" and free: "bp_free_list s = []"
    and victim: "find (\<lambda>i. \<not> pinned_at s i) (rev xs) = Some i"
  obtains t where "acquire_frame s = (Inr i, t)" and "acquired i s t"
    and "\<And>k. fr_key (frame_at s i) = Some k \<Longrightarrow> bp_page_table t k = None"
proof -
  obtain as bs where xs: "xs = as @ i # bs" "\<not> pinned_at s i"
    using find_first_victim [OF victim] by metis
  have i: "i < length (bp_frames s)" using lists xs by (auto simp: pool_lists_def)
  have fv: "find_victim (length (bp_frames s)) (bp_frames s) (bp_lru_tail s) = Some (Some i)"
    using find_victim_ends [of s xs] lists victim by (simp add: pool_lists_def)
  obtain u where u: "flush_frame_if_dirty i s = (Inr (), u)" "flushed i s u"
    using flush_frame_ok [OF core i] .
  have lu: "pool_lists u (as @ i # bs) {}" and cu: "pool_core u" "pool_view u = pool_view s"
    and fu: "frame_at u = (frame_at s)(i := (frame_at s i)\<lparr>fr_dirty := False\<rparr>)"
    using u(2) lists xs(1) same_lists_lists by (auto simp: flushed_def)
  have pre: "fr_pin_count (frame_at u i) = 0" "\<not> fr_dirty (frame_at u i)"
    using xs(2) fu by (simp_all add: pinned_at_def)
  obtain v where v: "recycle_frame i u = (Inr (), v)" "pool_core v" "pool_lists v (as @ bs) {i}"
    "pool_view v = pool_view u" "fr_key (frame_at v i) = None" "bp_files v = bp_files u"
    "\<And>k j. bp_page_table v k = Some j \<Longrightarrow> bp_page_table u k = Some j"
    "\<And>k. fr_key (frame_at u i) = Some k \<Longrightarrow> bp_page_table v k = None"
    "\<And>j. j \<noteq> i \<Longrightarrow> frame_core (frame_at v j) = frame_core (frame_at u j)"
    "length (bp_frames v) = length (bp_frames u)"
    by (rule recycle_frame_ok [OF cu(1) lu pre]) blast
  note tl = touch_loose [OF v(3)]
  have run: "acquire_frame s = (Inr i, touch i v)"
    using free fv u(1) v(1) by (simp add: acquire_frame_def)
  have other: "frame_core (frame_at (touch i v) j) = frame_core (frame_at s j)" if "j \<noteq> i" for j
    using that v(9) fu tl(2) by (simp add: same_core_def)
  note eq = same_core_fields [OF tl(2)] same_core_frame [OF tl(2)]
  have core_t: "pool_core (touch i v)" using same_core_core [OF tl(2) v(2)] .
  have len: "length (bp_frames (touch i v)) = length (bp_frames s)"
    using eq(1) v(10) u(2) by (simp add: flushed_def same_lists_def)
  have keyi: "fr_key (frame_at (touch i v) i) = None" using eq(6) v(5) by simp
  have tbl: "bp_page_table s k = Some j" "j \<noteq> i" if "bp_page_table (touch i v) k = Some j" for k j
  proof -
    show "bp_page_table s k = Some j" using that v(7) u(2) eq(4) by (simp add: flushed_def)
    show "j \<noteq> i" using pool_coreD(4) [OF core_t, of k j] that keyi by auto
  qed
  have pinned: "bp_page_table (touch i v) k = Some j" if "bp_page_table s k = Some j" "pinned_at s j" for k j
  proof -
    have "j < length (bp_frames s)" "fr_key (frame_at s j) = Some k"
      using pool_coreD(4) [OF core, of k j] that(1) by simp_all
    moreover have "j \<noteq> i" using that(2) xs(2) by auto
    ultimately show ?thesis
      using pool_coreD(4) [OF core_t, of k j] other [of j] len by (simp add: frame_core_def)
  qed
  have pins: "pool_pins (touch i v) = pool_pins s"
  proof (rule pool_pins_kept)
    show "bp_page_table s k = Some j \<and>
        fr_pin_count (frame_at (touch i v) j) = fr_pin_count (frame_at s j)"
      if "bp_page_table (touch i v) k = Some j" for k j
      using tbl [OF that] other [of j] by (simp add: frame_core_def)
  qed (rule pinned)
  have "acquired i s (touch i v)"
    unfolding acquired_def
  proof (intro conjI allI impI)
    show "\<exists>xs. pool_lists (touch i v) xs {} \<and> i \<in> set xs"
      using tl(1) by (intro exI [of _ "i # as @ bs"]) simp
    show "pool_view (touch i v) = pool_view s"
      using same_core_view [OF tl(2)] v(4) cu(2) by simp
    show "dom (bp_files (touch i v)) = dom (bp_files s)"
      using eq(2) v(6) u(2) by (simp add: flushed_def)
    show "bp_page_table s k = Some j" if "bp_page_table (touch i v) k = Some j" for k j
      using tbl [OF that] by simp
  qed (use core_t pins pinned keyi len in simp_all)
  then show thesis
    using that run v(8) fu same_core_fields [OF tl(2)] by simp
qed

lemma acquire_frame_cases:
  assumes "pool_ok s"
  obtains (acquired) i t where "acquire_frame s = (Inr i, t)" and "acquired i s t"
  | (full) "acquire_frame s = (Inl NoFrameAvailable, s)" and "\<forall>i < length (bp_frames s). pinned_at s i"
proof -
  obtain xs where xs: "pool_core s" "pool_lists s xs {}" using assms by (auto simp: pool_ok_def)
  show thesis
  proof (cases "bp_free_list s" rule: rev_cases)
    case (snoc fs i)
    then show thesis using acquire_frame_free [OF xs] acquired by blast
  next
    case Nil
    show thesis
    proof (cases "find (\<lambda>i. \<not> pinned_at s i) (rev xs)")
      case None
      have "find_victim (length (bp_frames s)) (bp_frames s) (bp_lru_tail s) = Some None"
        using find_victim_ends [of s xs] xs(2) None by (simp add: pool_lists_def)
      moreover have "set xs = {..<length (bp_frames s)}"
        using xs(2) Nil by (simp add: pool_lists_def)
      then have "\<forall>i < length (bp_frames s). pinned_at s i"
        using None by (auto simp: find_None_iff)
      ultimately show thesis using full Nil by (simp add: acquire_frame_def)
    next
      case (Some i)
      then show thesis using acquire_frame_evict [OF xs Nil Some] acquired by blast
    qed
  qed
qed

end
