(* ===== verification/Buffer_Guards.thy ===== *)
theory Buffer_Guards
  imports Buffer_Ops
begin

section \<open>Guards: pinning, reading, writing and dropping pages\<close>

text \<open>
  The abstract state of a pool is its view and the number of pins of each page.  A guard on
  page \<open>k\<close> is the frame \<open>i\<close> with \<open>bp_page_table s k = Some i\<close>; as long as the page has a pin,
  no operation moves it.
\<close>

definition keeps_pinned :: "buffer_pool \<Rightarrow> buffer_pool \<Rightarrow> bool" where
  "keeps_pinned s t \<longleftrightarrow>
     dom (bp_files t) = dom (bp_files s) \<and> length (bp_frames t) = length (bp_frames s) \<and>
     (\<forall>k j. bp_page_table s k = Some j \<longrightarrow> pinned_at s j \<longrightarrow> bp_page_table t k = Some j)"

lemma keeps_pinned_refl [simp]: "keeps_pinned s s"
  by (simp add: keeps_pinned_def)

lemma same_core_pins: "same_core s t \<Longrightarrow> pool_pins t = pool_pins s"
  by (auto simp: pool_pins_def same_core_fields same_core_frame fun_eq_iff split: option.splits)

lemma same_contents_pins: "same_contents s t \<Longrightarrow> pool_pins t = pool_pins s"
  using same_contents_frame_at [of s t] by (auto simp: pool_pins_def same_contents_def fun_eq_iff split: option.splits)

subsection \<open>Changing one frame\<close>

text \<open>
  Frame \<open>i\<close>, cached under key \<open>k\<close>, gets new data, a new dirty flag or a new pin count, and is
  moved to the front of the recency list.
\<close>

lemma change_cached_frame:
  assumes core: "pool_core s" and tbl: "bp_page_table s k = Some i"
    and key: "fr_key (g (frame_at s i)) = Some k" and len: "length (fr_data (g (frame_at s i))) = 4092"
    and dirty: "fr_dirty (g (frame_at s i)) \<or> file_content s k = Some (fr_data (g (frame_at s i)))"
  shows "pool_core (update_frame i g s)"
    and "pool_view (update_frame i g s) = (pool_view s)(k \<mapsto> fr_data (g (frame_at s i)))"
    and "pool_pins (update_frame i g s) = (pool_pins s)(k := unat (fr_pin_count (g (frame_at s i))))"
proof -
  note D = pool_coreD [OF core]
  have i: "i < length (bp_frames s)" using D(4) tbl by blast
  have fa: "frame_at (update_frame i g s) = (frame_at s)(i := g (frame_at s i))"
    using i by (auto simp: frame_at_update fun_eq_iff)
  have fc: "file_content (update_frame i g s) = file_content s"
    by (simp add: file_content_def fun_eq_iff)
  have uniq: "j = i \<longleftrightarrow> k' = k" if "bp_page_table s k' = Some j" for k' j
    using that tbl D(4) [of k' j] D(4) [of k i] by auto
  have free: "i \<notin> set (bp_free_list s)" using D(3) [of i] D(4) [of k i] tbl by auto
  show "pool_core (update_frame i g s)"
  proof (rule pool_coreI)
    show "bp_page_table (update_frame i g s) k' = Some j \<longleftrightarrow>
        j < length (bp_frames (update_frame i g s)) \<and> fr_key (frame_at (update_frame i g s) j) = Some k'" for k' j
      using D(4) [of k' j] D(4) [of k i] tbl key by (auto simp: fa)
    show "file_content (update_frame i g s) k' \<noteq> None \<and> (fr_dirty (frame_at (update_frame i g s) j) \<or>
        file_content (update_frame i g s) k' = Some (fr_data (frame_at (update_frame i g s) j)))"
      if "bp_page_table (update_frame i g s) k' = Some j" for k' j
      using that uniq [of k' j] D(5) [of k' j] dirty by (auto simp: fa fc)
  qed (use D(1-3,6) len key i free in \<open>auto simp: fa split: if_splits\<close>)
  show "pool_view (update_frame i g s) = (pool_view s)(k \<mapsto> fr_data (g (frame_at s i)))"
    using uniq tbl by (auto simp: pool_view_def fa fc fun_eq_iff split: option.splits)
  show "pool_pins (update_frame i g s) = (pool_pins s)(k := unat (fr_pin_count (g (frame_at s i))))"
    using uniq tbl by (auto simp: pool_pins_def fa fun_eq_iff split: option.splits)
qed

lemma cached_in_list:
  assumes "pool_core s" and "pool_lists s xs {}" and "bp_page_table s k = Some i"
  shows "i \<in> set xs"
proof -
  have "i < length (bp_frames s)" "fr_key (frame_at s i) = Some k"
    using pool_coreD(4) [OF assms(1)] assms(3) by simp_all
  then show ?thesis using assms(2) pool_coreD(3) [OF assms(1), of i] by (auto simp: pool_lists_def)
qed

lemma change_and_touch:
  assumes "pool_ok s" and "bp_page_table s k = Some i"
    and "\<And>f. fr_prev (g f) = fr_prev f \<and> fr_next (g f) = fr_next f"
    and "pool_core (update_frame i g s)"
  shows "pool_ok (update_frame i g s)" and "pool_ok (touch i (update_frame i g s))"
    and "same_core (update_frame i g s) (touch i (update_frame i g s))"
proof -
  obtain xs where xs: "pool_core s" "pool_lists s xs {}" using assms(1) by (auto simp: pool_ok_def)
  have l: "pool_lists (update_frame i g s) xs {}"
    using same_lists_lists [OF update_frame_same_lists xs(2)] assms(3) .
  have "i \<in> set xs" using cached_in_list [OF xs assms(2)] .
  note tp = touch_pool_lists [OF l this]
  show "pool_ok (update_frame i g s)" using l assms(4) by (auto simp: pool_ok_def)
  show "same_core (update_frame i g s) (touch i (update_frame i g s))" by (rule tp(2))
  show "pool_ok (touch i (update_frame i g s))"
    using tp same_core_core [OF tp(2) assms(4)] by (auto simp: pool_ok_def)
qed

subsection \<open>Pinning and unpinning\<close>

lemma pool_view_cached: "bp_page_table s k = Some i \<Longrightarrow> pool_view s k = Some (guard_read i s)"
  by (simp add: pool_view_def guard_read_def)

lemma pool_pins_cached: "bp_page_table s k = Some i \<Longrightarrow> pool_pins s k = unat (fr_pin_count (frame_at s i))"
  by (simp add: pool_pins_def)

lemma pin_frame_ok:
  assumes ok: "pool_ok s" and tbl: "bp_page_table s k = Some i" and few: "pool_pins s k < 4294967295"
  shows "pool_ok (pin_frame i s)" and "pool_view (pin_frame i s) = pool_view s"
    and "pool_pins (pin_frame i s) = (pool_pins s)(k := Suc (pool_pins s k))"
    and "bp_page_table (pin_frame i s) = bp_page_table s" and "keeps_pinned s (pin_frame i s)"
proof -
  let ?g = "\<lambda>f. f\<lparr>fr_pin_count := fr_pin_count f + 1\<rparr>"
  have core: "pool_core s" using ok by (simp add: pool_ok_def)
  note D = pool_coreD [OF core]
  have i: "i < length (bp_frames s)" "fr_key (frame_at s i) = Some k" using D(4) tbl by simp_all
  have plus: "unat (fr_pin_count (frame_at s i) + 1) = Suc (pool_pins s k)"
    using checked_add_u32_one [of "fr_pin_count (frame_at s i)"] few pool_pins_cached [OF tbl] by simp
  note ch = change_cached_frame [OF core tbl, of ?g]
  have core': "pool_core (update_frame i ?g s)"
    using ch(1) i D(1) [OF i(1)] D(5) [OF tbl] by simp
  note ct = change_and_touch [OF ok tbl _ core']
  show "pool_ok (pin_frame i s)" using ct(2) by (simp add: pin_frame_def)
  show "pool_view (pin_frame i s) = pool_view s"
    using same_core_view [OF ct(3)] ch(2) i D(1) [OF i(1)] D(5) [OF tbl] pool_view_cached [OF tbl]
    by (simp add: pin_frame_def guard_read_def fun_upd_idem)
  show "pool_pins (pin_frame i s) = (pool_pins s)(k := Suc (pool_pins s k))"
    using same_core_pins [OF ct(3)] ch(3) i D(1) [OF i(1)] D(5) [OF tbl] plus by (simp add: pin_frame_def)
  show "bp_page_table (pin_frame i s) = bp_page_table s" "keeps_pinned s (pin_frame i s)"
    using same_core_fields [OF ct(3)] by (simp_all add: pin_frame_def keeps_pinned_def)
qed

lemma guard_drop_ok:
  assumes ok: "pool_ok s" and tbl: "bp_page_table s k = Some i"
  shows "pool_ok (guard_drop i s)" and "pool_view (guard_drop i s) = pool_view s"
    and "pool_pins (guard_drop i s) = (pool_pins s)(k := pool_pins s k - 1)"
    and "bp_page_table (guard_drop i s) = bp_page_table s"
    and "keeps_pinned s (guard_drop i s)"
proof -
  let ?g = "\<lambda>f. f\<lparr>fr_pin_count := fr_pin_count f - 1\<rparr>"
  have core: "pool_core s" using ok by (simp add: pool_ok_def)
  note D = pool_coreD [OF core]
  have i: "i < length (bp_frames s)" "fr_key (frame_at s i) = Some k" using D(4) tbl by simp_all
  note ch = change_cached_frame [OF core tbl, of ?g]
  have core': "pool_core (update_frame i ?g s)"
    using ch(1) i D(1) [OF i(1)] D(5) [OF tbl] by simp
  note ct = change_and_touch [OF ok tbl _ core']
  have "pool_ok (guard_drop i s) \<and> pool_view (guard_drop i s) = pool_view s \<and>
    pool_pins (guard_drop i s) = (pool_pins s)(k := pool_pins s k - 1) \<and>
    bp_page_table (guard_drop i s) = bp_page_table s \<and> keeps_pinned s (guard_drop i s)"
  proof (cases "fr_pin_count (frame_at s i) = 0")
    case True
    then show ?thesis
      using ok pool_pins_cached [OF tbl] by (simp add: guard_drop_def unpin_frame_def fun_upd_idem)
  next
    case False
    then have minus: "unat (fr_pin_count (frame_at s i) - 1) = pool_pins s k - 1"
      using checked_sub_u32_one pool_pins_cached [OF tbl] by simp
    have "pool_view (update_frame i ?g s) = pool_view s"
      "pool_pins (update_frame i ?g s) = (pool_pins s)(k := pool_pins s k - 1)"
      using ch i D(1) [OF i(1)] D(5) [OF tbl] minus pool_view_cached [OF tbl]
      by (simp_all add: guard_read_def fun_upd_idem)
    then show ?thesis
      using False ct same_core_view [OF ct(3)] same_core_pins [OF ct(3)] same_core_fields [OF ct(3)]
      by (auto simp: guard_drop_def unpin_frame_def Let_def keeps_pinned_def)
  qed
  then show "pool_ok (guard_drop i s)" "pool_view (guard_drop i s) = pool_view s"
    "pool_pins (guard_drop i s) = (pool_pins s)(k := pool_pins s k - 1)"
    "bp_page_table (guard_drop i s) = bp_page_table s" "keeps_pinned s (guard_drop i s)"
    by simp_all
qed

text \<open>A write guard's frame is dirty, so the write reaches the file when the frame leaves the pool.\<close>

lemma guard_write_ok:
  assumes ok: "pool_ok s" and tbl: "bp_page_table s k = Some i" and dirty: "fr_dirty (frame_at s i)"
    and len: "length d = 4092"
  shows "pool_ok (guard_write i d s)" and "pool_view (guard_write i d s) = (pool_view s)(k \<mapsto> d)"
    and "pool_pins (guard_write i d s) = pool_pins s"
    and "bp_page_table (guard_write i d s) = bp_page_table s"
    and "keeps_pinned s (guard_write i d s)" and "guard_read i (guard_write i d s) = d"
proof -
  let ?g = "\<lambda>f. f\<lparr>fr_data := d\<rparr>"
  have core: "pool_core s" using ok by (simp add: pool_ok_def)
  have i: "i < length (bp_frames s)" "fr_key (frame_at s i) = Some k"
    using pool_coreD(4) [OF core] tbl by simp_all
  note ch = change_cached_frame [OF core tbl, of ?g]
  have core': "pool_core (update_frame i ?g s)" using ch(1) i len dirty by simp
  note ct = change_and_touch [OF ok tbl _ core']
  show "pool_ok (guard_write i d s)" using ct(1) by (simp add: guard_write_def)
  show "pool_view (guard_write i d s) = (pool_view s)(k \<mapsto> d)"
    "pool_pins (guard_write i d s) = pool_pins s"
    using ch(2,3) i len dirty pool_pins_cached [OF tbl] by (simp_all add: guard_write_def fun_upd_idem)
  show "bp_page_table (guard_write i d s) = bp_page_table s" "keeps_pinned s (guard_write i d s)"
    by (simp_all add: guard_write_def keeps_pinned_def)
  show "guard_read i (guard_write i d s) = d"
    using i by (simp add: guard_write_def guard_read_def frame_at_update)
qed

subsection \<open>Installing a page\<close>

lemma install_frame_ok:
  assumes core: "pool_core s" and lists: "pool_lists s xs {}" and i: "i \<in> set xs"
    and nokey: "fr_key (frame_at s i) = None" and new: "bp_page_table s k = None"
    and exists: "file_content s k \<noteq> None" and len: "length d = 4092"
    and clean: "dirty \<or> file_content s k = Some d"
  obtains t where "install_frame i k d dirty s = (Inr (), t)" and "pool_ok t"
    and "pool_view t = (pool_view s)(k \<mapsto> d)" and "pool_pins t = (pool_pins s)(k := 1)"
    and "bp_page_table t = (bp_page_table s)(k \<mapsto> i)" and "keeps_pinned s t"
    and "fr_dirty (frame_at t i) = dirty" and "guard_read i t = d"
proof -
  note D = pool_coreD [OF core]
  let ?g = "\<lambda>f. f\<lparr>fr_data := d, fr_key := Some k, fr_dirty := dirty, fr_pin_count := 1\<rparr>"
  define u where "u = (update_frame i ?g s)\<lparr>bp_page_table := (bp_page_table s)(k \<mapsto> i)\<rparr>"
  have il: "i < length (bp_frames s)" and nf: "i \<notin> set (bp_free_list s)"
    using lists i by (auto simp: pool_lists_def)
  have run: "install_frame i k d dirty s = (Inr (), touch i u)"
    using new il by (simp add: install_frame_def u_def Let_def update_frame_def)
  have fa: "frame_at u = (frame_at s)(i := ?g (frame_at s i))"
    using il by (auto simp: u_def frame_at_update fun_eq_iff)
  have flds: "bp_page_table u = (bp_page_table s)(k \<mapsto> i)" "bp_files u = bp_files s"
    "bp_free_list u = bp_free_list s" "length (bp_frames u) = length (bp_frames s)"
    "bp_next_file_id u = bp_next_file_id s" "file_content u = file_content s"
    by (simp_all add: u_def file_content_def fun_eq_iff)
  have ni: "j \<noteq> i" if "bp_page_table s k' = Some j" for k' j
    using D(4) [of k' j] nokey that by auto
  have core_u: "pool_core u"
  proof (rule pool_coreI)
    show "bp_page_table u k' = Some j \<longleftrightarrow> j < length (bp_frames u) \<and> fr_key (frame_at u j) = Some k'" for k' j
      using D(4) [of k' j] ni [of k' j] new il by (auto simp: fa flds)
    show "file_content u k' \<noteq> None \<and>
        (fr_dirty (frame_at u j) \<or> file_content u k' = Some (fr_data (frame_at u j)))"
      if "bp_page_table u k' = Some j" for k' j
      using that D(5) [of k' j] ni [of k' j] exists clean by (auto simp: fa flds split: if_splits)
  qed (use D(1-3,6) len nf in \<open>auto simp: fa flds split: if_splits\<close>)
  have "same_lists s u"
    unfolding u_def by (auto intro: update_frame_same_lists)
  note tp = touch_pool_lists [OF same_lists_lists [OF this lists] i]
  note eq = same_core_fields [OF tp(2)] same_core_frame [OF tp(2)]
  show thesis
  proof (rule that [OF run])
    show "pool_ok (touch i u)" using tp same_core_core [OF tp(2) core_u] by (auto simp: pool_ok_def)
    show "pool_view (touch i u) = (pool_view s)(k \<mapsto> d)"
      using same_core_view [OF tp(2)] ni by (auto simp: pool_view_def fa flds fun_eq_iff split: option.splits)
    show "pool_pins (touch i u) = (pool_pins s)(k := 1)"
      using same_core_pins [OF tp(2)] ni by (auto simp: pool_pins_def fa flds fun_eq_iff split: option.splits)
    show "bp_page_table (touch i u) = (bp_page_table s)(k \<mapsto> i)" using eq flds by simp
    show "keeps_pinned s (touch i u)" using eq flds new by (auto simp: keeps_pinned_def)
    show "fr_dirty (frame_at (touch i u) i) = dirty" "guard_read i (touch i u) = d"
      using eq fa by (simp_all add: guard_read_def)
  qed
qed

end
