(* ===== verification/Buffer_Client.thy ===== *)
theory Buffer_Client
  imports Buffer_Guards
begin

section \<open>Fetching, allocating, forcing and flushing pages\<close>

text \<open>
  A read guard, a write guard and an allocated page from fetching to release, as one step each
  of a client that uses one guard at a time: what the step returns and what it leaves in view.
\<close>

definition guard_on :: "buffer_key \<Rightarrow> nat \<Rightarrow> buffer_pool \<Rightarrow> buffer_pool \<Rightarrow> bool" where
  "guard_on k i s t \<longleftrightarrow>
     pool_ok t \<and> bp_page_table t k = Some i \<and>
     pool_pins t = (pool_pins s)(k := Suc (pool_pins s k)) \<and> keeps_pinned s t"

definition same_pool :: "buffer_pool \<Rightarrow> buffer_pool \<Rightarrow> bool" where
  "same_pool s t \<longleftrightarrow>
     pool_ok t \<and> pool_view t = pool_view s \<and> pool_pins t = pool_pins s \<and> keeps_pinned s t"

lemma same_pool_refl: "pool_ok s \<Longrightarrow> same_pool s s"
  by (simp add: same_pool_def)

lemma keeps_pinned_trans:
  assumes "keeps_pinned s t" and "keeps_pinned t u" and "pool_pins t = pool_pins s"
  shows "keeps_pinned s u"
proof -
  have "bp_page_table u k = Some j" if "bp_page_table s k = Some j" "pinned_at s j" for k j
  proof -
    have t: "bp_page_table t k = Some j" using assms(1) that by (simp add: keeps_pinned_def)
    have "pool_pins t k = pool_pins s k" using assms(3) by simp
    then have "pinned_at t j" using t that by (simp add: pool_pins_def pinned_count)
    then show ?thesis using assms(2) t by (simp add: keeps_pinned_def)
  qed
  then show ?thesis using assms(1,2) by (simp add: keeps_pinned_def)
qed

lemma same_pool_trans: "same_pool s t \<Longrightarrow> same_pool t u \<Longrightarrow> same_pool s u"
  by (auto simp: same_pool_def intro: keeps_pinned_trans)

lemma acquired_same_pool: "acquired i s t \<Longrightarrow> same_pool s t"
  unfolding acquired_def same_pool_def pool_ok_def keeps_pinned_def by blast

lemma same_contents_same_pool:
  assumes "same_contents s t" and "pool_ok s"
  shows "same_pool s t"
proof -
  obtain xs where "pool_core s" "pool_lists s xs {}" using assms(2) by (auto simp: pool_ok_def)
  then have "pool_ok t"
    using same_contents_core [OF assms(1)] same_lists_lists [OF same_contents_lists [OF assms(1)]]
    by (auto simp: pool_ok_def)
  moreover have "keeps_pinned s t" using assms(1) by (simp add: same_contents_def keeps_pinned_def)
  ultimately show ?thesis
    using same_contents_view [OF assms(1)] same_contents_pins [OF assms(1)] by (simp add: same_pool_def)
qed

subsection \<open>Fetching a page that is not cached\<close>

lemma file_content_length:
  assumes "pool_core s" and "file_content s k = Some d"
  shows "length d = 4092"
proof -
  obtain f where f: "bp_files s (bk_file_id k) = Some f" "page_content f (bk_page_id k) = Some d"
    using assms(2) by (auto simp: file_content_def split: option.splits)
  then show ?thesis using pool_coreD(6) [OF assms(1) f(1)] ps.content_length by blast
qed

lemma pool_view_length:
  assumes "pool_core s" and "pool_view s k = Some d"
  shows "length d = 4092"
proof (cases "bp_page_table s k")
  case None
  then show ?thesis using assms file_content_length by (simp add: pool_view_def)
next
  case (Some i)
  then show ?thesis
    using assms pool_coreD(4) [OF assms(1), of k i] pool_coreD(1) [OF assms(1), of i]
    by (auto simp: pool_view_def)
qed

abbreviation fetch_page :: "buffer_key \<Rightarrow> bool \<Rightarrow> buffer_pool \<Rightarrow> (buffer_pool_error + nat) \<times> buffer_pool" where
  "fetch_page k dirty s \<equiv>
     and_then_st (acquire_frame s) (\<lambda>i s.
     and_then_st (read_page_data k s) (\<lambda>data s.
     and_then_st (install_frame i k data dirty s) (\<lambda>_ s. (Inr i, s))))"

definition missing_page :: "buffer_key \<Rightarrow> buffer_pool \<Rightarrow> buffer_pool_error" where
  "missing_page k s =
     (if bp_files s (bk_file_id k) = None then UnknownFile (bk_file_id k)
      else BP_PageStore (InvalidPageId (bk_page_id k)))"

lemma missing_page_dom: "dom (bp_files t) = dom (bp_files s) \<Longrightarrow> missing_page k t = missing_page k s"
  using domIff [of "bk_file_id k" "bp_files t"] domIff [of "bk_file_id k" "bp_files s"]
  by (auto simp: missing_page_def)

lemma fetch_page_cases:
  assumes ok: "pool_ok s" and new: "bp_page_table s k = None"
  obtains (fetched) i t d where "fetch_page k dirty s = (Inr i, t)" and "pool_view s k = Some d"
      and "pool_view t = pool_view s" and "guard_on k i s t" and "guard_read i t = d"
      and "fr_dirty (frame_at t i) = dirty"
  | (missing) t where "fetch_page k dirty s = (Inl (missing_page k s), t)" and "pool_view s k = None"
      and "same_pool s t"
  | (full) "fetch_page k dirty s = (Inl NoFrameAvailable, s)"
      and "\<forall>i < length (bp_frames s). pinned_at s i"
  using ok
proof (cases rule: acquire_frame_cases)
  case full
  then show thesis using that(3) by simp
next
  case (acquired i t)
  have core: "pool_core t" using acquired(2) by (simp add: acquired_def)
  have same: "same_pool s t" using acquired_same_pool [OF acquired(2)] .
  obtain xs where xs: "pool_lists t xs {}" "i \<in> set xs" and nokey: "fr_key (frame_at t i) = None"
    using acquired(2) by (auto simp: acquired_def)
  have newt: "bp_page_table t k = None"
  proof (rule ccontr)
    assume "bp_page_table t k \<noteq> None"
    then obtain j where "bp_page_table t k = Some j" by blast
    then have "bp_page_table s k = Some j" using acquired(2) unfolding acquired_def by blast
    then show False using new by simp
  qed
  have "pool_view t k = file_content t k" using newt by (simp add: pool_view_def)
  then have view: "pool_view s k = file_content t k" using same by (simp add: same_pool_def)
  have dom: "dom (bp_files t) = dom (bp_files s)" using acquired(2) by (simp add: acquired_def)
  obtain u where u: "same_contents t u" and read: "read_page_data k t =
      (case file_content t k of Some d \<Rightarrow> (Inr d, u) | None \<Rightarrow> (Inl (missing_page k t), u))"
    using read_page_data_ok [OF core, of k] unfolding missing_page_def by blast
  have oku: "pool_ok t" using same by (simp add: same_pool_def)
  note su = same_contents_same_pool [OF u oku]
  show thesis
  proof (cases "file_content t k")
    case None
    show thesis
      by (rule that(2) [of u])
        (use acquired(1) read None view missing_page_dom [OF dom, of k] same_pool_trans [OF same su] in simp_all)
  next
    case (Some d)
    have core_u: "pool_core u" "pool_lists u xs {}" "fr_key (frame_at u i) = None"
      "bp_page_table u k = None" "file_content u k = Some d"
      using same_contents_core [OF u core] same_lists_lists [OF same_contents_lists [OF u] xs(1)]
        same_contents_frame_at [OF u] nokey newt u Some by (auto simp: same_contents_def)
    have "length d = 4092" using file_content_length [OF core Some] .
    then obtain v where v: "install_frame i k d dirty u = (Inr (), v)" "pool_ok v"
      "pool_view v = (pool_view u)(k \<mapsto> d)" "pool_pins v = (pool_pins u)(k := 1)"
      "bp_page_table v = (bp_page_table u)(k \<mapsto> i)" "keeps_pinned u v"
      "fr_dirty (frame_at v i) = dirty" "guard_read i v = d"
      using install_frame_ok [OF core_u(1,2) xs(2) core_u(3,4), of d dirty] core_u(5) by auto
    have st: "same_pool s u" by (rule same_pool_trans [OF same su])
    have pins: "pool_pins s k = 0" using new by (simp add: pool_pins_def)
    have kp: "keeps_pinned s v"
    proof -
      have "pool_pins u = pool_pins s" using st by (simp add: same_pool_def)
      then show ?thesis using st v(6) keeps_pinned_trans by (auto simp: same_pool_def)
    qed
    show thesis
    proof (rule that(1) [of i v d])
      show "pool_view v = pool_view s"
        using v(3) st view Some by (auto simp: same_pool_def)
      show "guard_on k i s v" using v st pins kp by (simp add: guard_on_def same_pool_def)
    qed (use acquired(1) read Some v view in simp_all)
  qed
qed

subsection \<open>Reading and writing guards\<close>

lemma get_page_cases:
  assumes ok: "pool_ok s" and few: "pool_pins s \<lparr>bk_file_id = fid, bk_page_id = pid\<rparr> < 4294967295"
  defines "k \<equiv> \<lparr>bk_file_id = fid, bk_page_id = pid\<rparr>"
  obtains (got) i t where "get_page fid pid s = (Inr i, t)" and "pool_view s k = Some (guard_read i t)"
      and "pool_view t = pool_view s" and "guard_on k i s t"
  | (missing) t where "get_page fid pid s = (Inl (missing_page k s), t)" and "pool_view s k = None"
      and "same_pool s t"
  | (full) "get_page fid pid s = (Inl NoFrameAvailable, s)"
      and "\<forall>i < length (bp_frames s). pinned_at s i"
proof (cases "bp_page_table s k")
  case (Some i)
  note pin = pin_frame_ok [OF ok Some few [folded k_def]]
  show thesis
    using Some pin pool_view_cached [of "pin_frame i s" k i]
    by (intro got [of i "pin_frame i s"]) (simp_all add: get_page_def k_def guard_on_def)
next
  case None
  have run: "get_page fid pid s = fetch_page k False s"
    using None by (simp add: get_page_def k_def Let_def)
  show thesis
    by (rule fetch_page_cases [OF ok None, of False]) (use got missing full run in auto)
qed

lemma get_page_mut_cases:
  assumes ok: "pool_ok s" and few: "pool_pins s \<lparr>bk_file_id = fid, bk_page_id = pid\<rparr> < 4294967295"
  defines "k \<equiv> \<lparr>bk_file_id = fid, bk_page_id = pid\<rparr>"
  obtains (got) i t where "get_page_mut fid pid s = (Inr i, t)" and "pool_view s k = Some (guard_read i t)"
      and "pool_view t = pool_view s" and "guard_on k i s t" and "fr_dirty (frame_at t i)"
  | (missing) t where "get_page_mut fid pid s = (Inl (missing_page k s), t)" and "pool_view s k = None"
      and "same_pool s t"
  | (full) "get_page_mut fid pid s = (Inl NoFrameAvailable, s)"
      and "\<forall>i < length (bp_frames s). pinned_at s i"
proof (cases "bp_page_table s k")
  case (Some i)
  note pin = pin_frame_ok [OF ok Some few [folded k_def]]
  let ?p = "pin_frame i s" and ?g = "\<lambda>f. f\<lparr>fr_dirty := True\<rparr>"
  have tbl: "bp_page_table ?p k = Some i" using Some pin by simp
  have core: "pool_core ?p" using pin(1) by (simp add: pool_ok_def)
  have i: "i < length (bp_frames ?p)" "fr_key (frame_at ?p i) = Some k" "length (fr_data (frame_at ?p i)) = 4092"
    using pool_coreD(4) [OF core] tbl pool_coreD(1) [OF core] by simp_all
  note ch = change_cached_frame [OF core tbl, of ?g]
  have core': "pool_core (update_frame i ?g ?p)" using ch(1) i by simp
  note ct = change_and_touch [OF pin(1) tbl _ core']
  show thesis
  proof (rule got [of i "update_frame i ?g ?p"])
    show "get_page_mut fid pid s = (Inr i, update_frame i ?g ?p)"
      using Some by (simp add: get_page_mut_def k_def)
    show "pool_view s k = Some (guard_read i (update_frame i ?g ?p))"
      using pool_view_cached [OF tbl] pin(2) i by (simp add: guard_read_def frame_at_update)
    show "pool_view (update_frame i ?g ?p) = pool_view s"
      using ch(2) i pin(2) pool_view_cached [OF tbl] by (simp add: guard_read_def fun_upd_idem)
    show "guard_on k i s (update_frame i ?g ?p)"
      using ch(3) i ct(1) pin tbl pool_pins_cached [OF tbl]
      by (simp add: guard_on_def keeps_pinned_def fun_upd_idem)
    show "fr_dirty (frame_at (update_frame i ?g ?p) i)" using i by (simp add: frame_at_update)
  qed
next
  case None
  have run: "get_page_mut fid pid s = fetch_page k True s"
    using None by (simp add: get_page_mut_def k_def Let_def)
  show thesis
    by (rule fetch_page_cases [OF ok None, of True]) (use got missing full run in auto)
qed

subsection \<open>Allocating a page\<close>

lemma allocate_page_id_cases:
  assumes core: "pool_core s"
  obtains (allocated) p g f where "allocate_page_id fid s = (Inr p, s\<lparr>bp_files := (bp_files s)(fid \<mapsto> g)\<rparr>)"
      and "bp_files s fid = Some f" and "page_content f p = None" and "page_file_good g"
      and "page_content g = (page_content f)(p \<mapsto> replicate 4092 0)"
  | (failed) e t where "allocate_page_id fid s = (Inl e, t)" and "same_contents s t"
      and "e = UnknownFile fid \<and> bp_files s fid = None \<or> (\<exists>e'. e = BP_PageStore e')"
proof (cases "bp_files s fid")
  case None
  moreover have "same_contents s s" using core by (auto simp: same_contents_def pool_core_def)
  ultimately show thesis by (intro failed [of "UnknownFile fid" s]) (auto simp: allocate_page_id_def on_file_def)
next
  case (Some f)
  have good: "page_file_good f" using pool_coreD(6) [OF core Some] by simp
  obtain r g where rg: "allocate_page f = (r, g)" by fastforce
  show thesis
  proof (cases r)
    case (Inl e)
    then have "page_file_good g" "page_content g = page_content f"
      using ps.alloc_error [OF good] rg by auto
    then have "same_contents s (s\<lparr>bp_files := (bp_files s)(fid \<mapsto> g)\<rparr>)"
      using same_contents_file [OF core Some] by blast
    then show thesis
      using Some rg Inl by (intro failed) (auto simp: allocate_page_id_def on_file_def)
  next
    case (Inr p)
    then have "page_content f p = None" "page_file_good g"
      "page_content g = (page_content f)(p \<mapsto> replicate 4092 0)"
      using ps.alloc_fresh [OF good] rg by auto
    then show thesis
      using Some rg Inr by (intro allocated) (auto simp: allocate_page_id_def on_file_def)
  qed
qed

lemma pool_allocate_page_cases:
  assumes ok: "pool_ok s"
  obtains (allocated) i p t where "pool_allocate_page fid s = (Inr (i, p), t)"
      and "pool_view s \<lparr>bk_file_id = fid, bk_page_id = p\<rparr> = None"
      and "pool_view t = (pool_view s)(\<lparr>bk_file_id = fid, bk_page_id = p\<rparr> \<mapsto> replicate 4092 0)"
      and "guard_on \<lparr>bk_file_id = fid, bk_page_id = p\<rparr> i s t" and "fr_dirty (frame_at t i)"
      and "guard_read i t = replicate 4092 0"
  | (failed) e t where "pool_allocate_page fid s = (Inl e, t)" and "same_pool s t"
      and "e = UnknownFile fid \<and> bp_files s fid = None \<or> (\<exists>e'. e = BP_PageStore e')"
  | (full) "pool_allocate_page fid s = (Inl NoFrameAvailable, s)"
      and "\<forall>i < length (bp_frames s). pinned_at s i"
  using ok
proof (cases rule: acquire_frame_cases)
  case full
  then show thesis using that(3) by (simp add: pool_allocate_page_def)
next
  case (acquired i t)
  have core: "pool_core t" and dom: "dom (bp_files t) = dom (bp_files s)"
    using acquired(2) by (simp_all add: acquired_def)
  have same: "same_pool s t" using acquired_same_pool [OF acquired(2)] .
  have okt: "pool_ok t" using same by (simp add: same_pool_def)
  obtain xs where xs: "pool_lists t xs {}" "i \<in> set xs" and nokey: "fr_key (frame_at t i) = None"
    using acquired(2) by (auto simp: acquired_def)
  show thesis
    using core
  proof (cases rule: allocate_page_id_cases [where fid = fid])
    case (failed e u)
    then show thesis
      using acquired(1) same_pool_trans [OF same same_contents_same_pool [OF failed(2) okt]] dom domIff
      by (intro that(2) [of e u]) (auto simp: pool_allocate_page_def)
  next
    case (allocated p g f)
    define k where "k = \<lparr>bk_file_id = fid, bk_page_id = p\<rparr>"
    define u where "u = t\<lparr>bp_files := (bp_files t)(fid \<mapsto> g)\<rparr>"
    note D = pool_coreD [OF core]
    have fct: "file_content t k = None" using allocated(2,3) by (simp add: file_content_def k_def)
    have newt: "bp_page_table t k = None" using D(5) [of k] fct by (cases "bp_page_table t k") auto
    have fc: "file_content u = (file_content t)(k \<mapsto> replicate 4092 0)"
      using allocated(2,5) by (auto simp: u_def file_content_def fun_eq_iff k_def)
    have fa: "frame_at u = frame_at t" by (auto simp: u_def frame_at_def)
    have flds: "bp_page_table u = bp_page_table t" "bp_frames u = bp_frames t" "bp_free_list u = bp_free_list t"
      "bp_next_file_id u = bp_next_file_id t" "dom (bp_files u) = dom (bp_files t)"
      using allocated(2) by (auto simp: u_def)
    have core_u: "pool_core u"
    proof (rule pool_coreI)
      show "file_content u k' \<noteq> None \<and>
          (fr_dirty (frame_at u j) \<or> file_content u k' = Some (fr_data (frame_at u j)))"
        if "bp_page_table u k' = Some j" for k' j
        using that D(5) [of k' j] newt by (auto simp: fa flds fc)
      show "page_file_good f' \<and> fid' < bp_next_file_id u" if "bp_files u fid' = Some f'" for fid' f'
        using that allocated(2,4) D(6) [of fid'] D(6) [of fid f] by (auto simp: u_def split: if_splits)
    qed (use D in \<open>simp_all add: fa flds\<close>)
    have lists: "pool_lists u xs {}"
      using same_lists_lists [OF _ xs(1)] by (simp add: u_def)
    have pre: "fr_key (frame_at u i) = None" "bp_page_table u k = None" "file_content u k \<noteq> None"
      using nokey newt by (simp_all add: fa flds fc)
    obtain v where v: "install_frame i k (replicate 4092 0) True u = (Inr (), v)" "pool_ok v"
      "pool_view v = (pool_view u)(k \<mapsto> replicate 4092 0)" "pool_pins v = (pool_pins u)(k := 1)"
      "bp_page_table v = (bp_page_table u)(k \<mapsto> i)" "keeps_pinned u v"
      "fr_dirty (frame_at v i) = True" "guard_read i v = replicate 4092 0"
      using install_frame_ok [OF core_u lists xs(2) pre, of "replicate 4092 0" True] by auto
    have view: "pool_view u = (pool_view t)(k \<mapsto> replicate 4092 0)"
      using newt by (auto simp: pool_view_def fa flds fc fun_eq_iff split: option.splits)
    have pins: "pool_pins u = pool_pins t"
      by (auto simp: pool_pins_def fa flds fun_eq_iff split: option.splits)
    have pinsk: "pool_pins t k = 0" using newt by (simp add: pool_pins_def)
    have "keeps_pinned t u" using flds by (simp add: keeps_pinned_def)
    then have kp: "keeps_pinned s v"
      using same v(6) pins keeps_pinned_trans by (metis same_pool_def)
    show thesis
    proof (rule that(1) [of i p v])
      show "pool_allocate_page fid s = (Inr (i, p), v)"
        using acquired(1) allocated(1) v(1) by (simp add: pool_allocate_page_def k_def u_def)
      have "pool_view t k = None" using newt fct by (simp add: pool_view_def)
      then show "pool_view s \<lparr>bk_file_id = fid, bk_page_id = p\<rparr> = None"
        using same by (simp add: same_pool_def k_def)
      show "pool_view v = (pool_view s)(\<lparr>bk_file_id = fid, bk_page_id = p\<rparr> \<mapsto> replicate 4092 0)"
        using v(3) view same by (simp add: same_pool_def k_def)
      show "guard_on \<lparr>bk_file_id = fid, bk_page_id = p\<rparr> i s v"
        using v pins pinsk same kp by (simp add: guard_on_def same_pool_def k_def)
    qed (use v in simp_all)
  qed
qed

lemma register_file_ok:
  assumes ok: "pool_ok s" and good: "page_file_good f" and room: "unat (bp_next_file_id s) < 4294967295"
  defines "fid \<equiv> bp_next_file_id s"
  obtains t where "register_file f s = (Inr fid, t)" and "pool_ok t" and "bp_files s fid = None"
    and "bp_files t = (bp_files s)(fid \<mapsto> f)" and "pool_pins t = pool_pins s"
    and "pool_view t = (\<lambda>k. if bk_file_id k = fid then page_content f (bk_page_id k) else pool_view s k)"
    and "bp_frames t = bp_frames s"
proof -
  let ?t = "s\<lparr>bp_next_file_id := fid + 1, bp_files := (bp_files s)(fid \<mapsto> f)\<rparr>"
  obtain xs where core: "pool_core s" and lists: "pool_lists s xs {}" using ok by (auto simp: pool_ok_def)
  note D = pool_coreD [OF core]
  have plus: "checked_add_u32 fid 1 = Some (fid + 1)" "unat (fid + 1) = unat fid + 1"
    using checked_add_u32_one room by (auto simp: fid_def)
  have new: "bp_files s fid = None"
  proof (rule ccontr)
    assume "bp_files s fid \<noteq> None"
    then show False using D(6) [of fid] by (auto simp: fid_def)
  qed
  have nokey: "bk_file_id k \<noteq> fid" if "bp_page_table s k = Some i" for k i
    using D(5) [OF that] new by (auto simp: file_content_def)
  have fa: "frame_at ?t = frame_at s" by (auto simp: frame_at_def)
  have fc: "file_content ?t = (\<lambda>k. if bk_file_id k = fid then page_content f (bk_page_id k) else file_content s k)"
    by (auto simp: file_content_def fun_eq_iff)
  have "pool_core ?t"
  proof (rule pool_coreI)
    show "file_content ?t k \<noteq> None \<and> (fr_dirty (frame_at ?t i) \<or> file_content ?t k = Some (fr_data (frame_at ?t i)))"
      if "bp_page_table ?t k = Some i" for k i
      using that D(5) [of k i] nokey [of k i] by (auto simp: fa fc)
    show "page_file_good f' \<and> fid' < bp_next_file_id ?t" if "bp_files ?t fid' = Some f'" for fid' f'
    proof (cases "fid' = fid")
      case True
      then show ?thesis using that good plus by (simp add: word_less_nat_alt)
    next
      case False
      then have "page_file_good f' \<and> fid' < fid" using that D(6) [of fid' f'] by (simp add: fid_def)
      then show ?thesis using plus by (simp add: word_less_nat_alt)
    qed
  qed (use D in \<open>simp_all add: fa\<close>)
  moreover have "pool_lists ?t xs {}" using same_lists_lists [OF _ lists] by simp
  ultimately have "pool_ok ?t" by (auto simp: pool_ok_def)
  moreover have "register_file f s = (Inr fid, ?t)"
    using plus by (simp add: register_file_def fid_def Let_def)
  moreover have "pool_view ?t = (\<lambda>k. if bk_file_id k = fid then page_content f (bk_page_id k) else pool_view s k)"
    using nokey by (auto simp: pool_view_def fa fc fun_eq_iff split: option.splits)
  moreover have "pool_pins ?t = pool_pins s"
    by (auto simp: pool_pins_def fa fun_eq_iff split: option.splits)
  ultimately show thesis using that new by simp
qed

lemma pool_new_ok: "pool_ok (pool_new n)" and pool_new_view: "pool_view (pool_new n) = Map.empty"
  and pool_new_pins: "pool_pins (pool_new n) = (\<lambda>_. 0)"
proof -
  have "pool_core (pool_new n)"
    by (rule pool_coreI) (auto simp: pool_new_def frame_at_def frame_new_def file_content_def)
  moreover have "pool_lists (pool_new n) [] {}"
    by (auto simp: pool_lists_def lru_list_def pool_new_def unlinked_def prev_of_def next_of_def
        frame_at_def frame_new_def)
  ultimately show "pool_ok (pool_new n)" by (auto simp: pool_ok_def)
  show "pool_view (pool_new n) = Map.empty" "pool_pins (pool_new n) = (\<lambda>_. 0)"
    by (auto simp: pool_view_def pool_new_def file_content_def pool_pins_def)
qed

end
