(* ===== verification/Buffer_Flush.thy ===== *)
theory Buffer_Flush
  imports Buffer_Client
begin

section \<open>Forcing, flushing and removing files\<close>

text \<open>
  Writing frames back: \<open>force_file\<close> and \<open>flush_file\<close> on a file whose pages nobody pins, the
  errors on one that has pins, and what the file holds after it.
\<close>

lemma flushed_same_pool:
  assumes "flushed i s t" and "pool_ok s"
  shows "same_pool s t"
proof -
  obtain xs where xs: "pool_lists s xs {}" using assms(2) by (auto simp: pool_ok_def)
  have "pool_pins t = pool_pins s"
    using assms(1) by (auto simp: flushed_def pool_pins_def fun_eq_iff split: option.splits)
  moreover have "pool_ok t"
    using assms(1) same_lists_lists [OF _ xs] by (auto simp: flushed_def pool_ok_def)
  ultimately show ?thesis
    using assms(1) by (simp add: same_pool_def flushed_def keeps_pinned_def same_lists_def)
qed

text \<open>\<open>cleaned s t\<close>: \<open>t\<close> is \<open>s\<close> with some frames written back.\<close>

definition cleaned :: "buffer_pool \<Rightarrow> buffer_pool \<Rightarrow> bool" where
  "cleaned s t \<longleftrightarrow> bp_page_table t = bp_page_table s \<and>
     (\<forall>j. fr_key (frame_at t j) = fr_key (frame_at s j) \<and>
        fr_pin_count (frame_at t j) = fr_pin_count (frame_at s j) \<and>
        (fr_dirty (frame_at t j) \<longrightarrow> fr_dirty (frame_at s j)))"

lemma flushed_cleaned: "flushed i s t \<Longrightarrow> cleaned s t \<and> \<not> fr_dirty (frame_at t i)"
  by (simp add: flushed_def cleaned_def)

lemma flush_frames_ok:
  assumes "pool_ok s" and "\<forall>i \<in> set is. i < length (bp_frames s)"
  shows "\<exists>t. flush_frames is s = (Inr (), t) \<and> same_pool s t \<and> cleaned s t \<and>
    (\<forall>i \<in> set is. \<not> fr_dirty (frame_at t i))"
  using assms
proof (induction "is" arbitrary: s)
  case Nil
  then show ?case by (auto simp: same_pool_refl cleaned_def)
next
  case (Cons i "is")
  obtain t where t: "flush_frame_if_dirty i s = (Inr (), t)" "flushed i s t"
    using flush_frame_ok [of s i] Cons.prems by (auto simp: pool_ok_def)
  note st = flushed_same_pool [OF t(2) Cons.prems(1)]
  have "pool_ok t" "\<forall>i \<in> set is. i < length (bp_frames t)"
    using st Cons.prems(2) by (auto simp: same_pool_def keeps_pinned_def)
  then obtain u where u: "flush_frames is t = (Inr (), u)" "same_pool t u" "cleaned t u"
    "\<forall>i \<in> set is. \<not> fr_dirty (frame_at u i)"
    using Cons.IH by blast
  have "cleaned s u" using flushed_cleaned [OF t(2)] u(3) by (simp add: cleaned_def)
  moreover have "\<not> fr_dirty (frame_at u i)" using flushed_cleaned [OF t(2)] u(3) by (auto simp: cleaned_def)
  ultimately show ?case using t(1) u same_pool_trans [OF st u(2)] by auto
qed

lemma flush_registered_ok:
  assumes core: "pool_core s" and reg: "bp_files s fid \<noteq> None"
  obtains t f where "flush_registered fid s = (Inr (), t)" and "same_contents s t"
    and "bp_files t fid = Some f" and "on_disk f"
proof -
  obtain f where f: "bp_files s fid = Some f" using reg by blast
  obtain g where g: "page_flush f = (Inr (), g)" "page_file_good g" "page_content g = page_content f" "on_disk g"
    using ps.flush_frame pool_coreD(6) [OF core f] by blast
  show thesis
    using f g same_contents_file [OF core f g(2,3)]
    by (intro that [of "s\<lparr>bp_files := (bp_files s)(fid \<mapsto> g)\<rparr>" g])
      (simp_all add: flush_registered_def on_file_def)
qed

lemma frames_of_mem:
  "i \<in> set (frames_of fid page s) \<longleftrightarrow> i < length (bp_frames s) \<and>
     (\<exists>k. fr_key (frame_at s i) = Some k \<and> bk_file_id k = fid \<and> (page = None \<or> page = Some (bk_page_id k)))"
  by (auto simp: frames_of_def split: option.splits)

lemma distinct_frames_of: "distinct (frames_of fid page s)"
  by (simp add: frames_of_def)

lemma force_file_ok:
  assumes ok: "pool_ok s" and reg: "bp_files s fid \<noteq> None"
  obtains t f where "force_file fid page s = (Inr (), t)" and "same_pool s t" and "bp_files t fid = Some f"
    and "on_disk f" and "page_file_good f"
    and "\<And>p. page = None \<or> page = Some p \<Longrightarrow> page_content f p = pool_view s \<lparr>bk_file_id = fid, bk_page_id = p\<rparr>"
proof -
  have "\<forall>i \<in> set (frames_of fid page s). i < length (bp_frames s)" by (simp add: frames_of_mem)
  then obtain t where t: "flush_frames (frames_of fid page s) s = (Inr (), t)" "same_pool s t" "cleaned s t"
    "\<forall>i \<in> set (frames_of fid page s). \<not> fr_dirty (frame_at t i)"
    using flush_frames_ok [OF ok] by blast
  have okt: "pool_ok t" "pool_core t" using t(2) by (simp_all add: same_pool_def pool_ok_def)
  have "bp_files t fid \<noteq> None"
    using reg t(2) domIff [of fid "bp_files t"] domIff [of fid "bp_files s"]
    by (auto simp: same_pool_def keeps_pinned_def)
  then obtain u f where u: "flush_registered fid t = (Inr (), u)" "same_contents t u"
    "bp_files u fid = Some f" "on_disk f"
    using flush_registered_ok [OF okt(2)] by blast
  have core_u: "pool_core u" using same_contents_core [OF u(2) okt(2)] .
  show thesis
  proof (rule that [of u f])
    show "force_file fid page s = (Inr (), u)" using reg t(1) u(1) by (auto simp: force_file_def)
    show "same_pool s u" using same_pool_trans [OF t(2) same_contents_same_pool [OF u(2) okt(1)]] .
    show "page_content f p = pool_view s \<lparr>bk_file_id = fid, bk_page_id = p\<rparr>"
      if p: "page = None \<or> page = Some p" for p
    proof -
      let ?k = "\<lparr>bk_file_id = fid, bk_page_id = p\<rparr>"
      have "page_content f p = file_content t ?k"
        using u(2,3) by (auto simp: same_contents_def file_content_def fun_eq_iff dest!: spec [of _ ?k])
      also have "file_content t ?k = pool_view t ?k"
      proof (cases "bp_page_table t ?k")
        case None
        then show ?thesis by (simp add: pool_view_def)
      next
        case (Some i)
        then have i: "i < length (bp_frames t)" "fr_key (frame_at t i) = Some ?k"
          using pool_coreD(4) [OF okt(2)] by simp_all
        then have "i \<in> set (frames_of fid page s)"
          using p t(2,3) by (auto simp: frames_of_mem cleaned_def same_pool_def keeps_pinned_def)
        then show ?thesis using t(4) pool_coreD(5) [OF okt(2) Some] Some by (auto simp: pool_view_def)
      qed
      finally show ?thesis using t(2) by (simp add: same_pool_def)
    qed
  qed (use u pool_coreD(6) [OF core_u u(3)] in simp_all)
qed

subsection \<open>Flushing and evicting\<close>

lemma evict_step:
  assumes ok: "pool_ok s" and tbl: "bp_page_table s k = Some i" and pin: "fr_pin_count (frame_at s i) = 0"
  obtains t where "and_then_st (flush_frame_if_dirty i s) (\<lambda>_ s. evict_frame i s) = (Inr (), t)"
    and "same_pool s t" and "\<And>k'. bp_page_table t k' = (if k' = k then None else bp_page_table s k')"
    and "\<And>j. j \<noteq> i \<Longrightarrow> fr_key (frame_at t j) = fr_key (frame_at s j) \<and>
      fr_pin_count (frame_at t j) = fr_pin_count (frame_at s j)"
proof -
  obtain xs where core: "pool_core s" and lists: "pool_lists s xs {}" using ok by (auto simp: pool_ok_def)
  have i: "i < length (bp_frames s)" "fr_key (frame_at s i) = Some k"
    using pool_coreD(4) [OF core] tbl by simp_all
  obtain as bs where xs: "xs = as @ i # bs"
    using cached_in_list [OF core lists tbl] split_list by fast
  obtain u where u: "flush_frame_if_dirty i s = (Inr (), u)" "flushed i s u"
    using flush_frame_ok [OF core i(1)] .
  note cl = flushed_cleaned [OF u(2)]
  have su: "same_pool s u" using flushed_same_pool [OF u(2) ok] .
  have lu: "pool_lists u (as @ i # bs) {}" and cu: "pool_core u"
    using u(2) lists xs same_lists_lists by (auto simp: flushed_def)
  have pre: "fr_pin_count (frame_at u i) = 0" "\<not> fr_dirty (frame_at u i)" "fr_key (frame_at u i) = Some k"
    using pin cl i by (simp_all add: cleaned_def)
  obtain v where v: "recycle_frame i u = (Inr (), v)" "pool_core v" "pool_lists v (as @ bs) {i}"
    "pool_view v = pool_view u" "fr_key (frame_at v i) = None" "bp_files v = bp_files u"
    "\<And>k j. bp_page_table v k = Some j \<Longrightarrow> bp_page_table u k = Some j \<and> frame_core (frame_at v j) = frame_core (frame_at u j)"
    "bp_page_table v k = None"
    "\<And>j. j \<noteq> i \<Longrightarrow> frame_core (frame_at v j) = frame_core (frame_at u j)"
    "length (bp_frames v) = length (bp_frames u)"
    by (rule recycle_frame_ok [OF cu lu pre(1,2)]) (use pre(3) in blast)
  let ?w = "v\<lparr>bp_free_list := bp_free_list v @ [i]\<rparr>"
  have core_w: "pool_core ?w"
    using v(2,5) by (auto simp: pool_core_def)
  have ok_w: "pool_ok ?w" using core_w push_free_lists [OF v(3)] by (auto simp: pool_ok_def)
  have other: "fr_key (frame_at v j) = fr_key (frame_at s j) \<and>
      fr_pin_count (frame_at v j) = fr_pin_count (frame_at s j)" if "j \<noteq> i" for j
    using v(9) [OF that] cl by (simp add: frame_core_def cleaned_def)
  have tblv: "bp_page_table v k' = (if k' = k then None else bp_page_table s k')" for k'
  proof (cases "k' = k")
    case False
    have "bp_page_table v k' = Some j \<longleftrightarrow> bp_page_table s k' = Some j" for j
    proof (cases "j = i")
      case True
      then show ?thesis using False v(5) pool_coreD(4) [OF v(2), of k' i] pool_coreD(4) [OF core, of k' i] i by auto
    next
      case False
      then show ?thesis
        using other [OF False] v(10) su pool_coreD(4) [OF v(2), of k' j] pool_coreD(4) [OF core, of k' j]
        by (auto simp: same_pool_def keeps_pinned_def)
    qed
    then show ?thesis using False by (metis not_Some_eq)
  qed (use v(8) in simp)
  have pins: "pool_pins v = pool_pins s"
  proof (rule ext)
    fix k'
    show "pool_pins v k' = pool_pins s k'"
    proof (cases "k' = k")
      case True
      then show ?thesis using tbl pin tblv by (simp add: pool_pins_def)
    next
      case False
      have "j \<noteq> i" if "bp_page_table s k' = Some j" for j
        using that False i pool_coreD(4) [OF core, of k' j] by auto
      then show ?thesis using tblv [of k'] other False by (auto simp: pool_pins_def split: option.splits)
    qed
  qed
  have kp: "keeps_pinned s ?w"
    using v(6,10) su tblv tbl pin by (auto simp: keeps_pinned_def same_pool_def pinned_at_def)
  have "pool_view ?w = pool_view s" "pool_pins ?w = pool_pins s"
    using v(4) su pins by (simp_all add: same_pool_def)
  then have "same_pool s ?w" using ok_w kp by (simp add: same_pool_def)
  then show thesis
    using u(1) v(1) pre(1) tblv other by (intro that [of ?w]) (simp_all add: evict_frame_def)
qed

lemma flush_and_evict_frames_ok:
  assumes "pool_ok s" and "distinct is"
    and "\<forall>i \<in> set is. \<exists>k. bp_page_table s k = Some i \<and> fr_pin_count (frame_at s i) = 0"
  shows "\<exists>t. flush_and_evict_frames is s = (Inr (), t) \<and> same_pool s t \<and>
    (\<forall>k. bp_page_table t k = (case bp_page_table s k of None \<Rightarrow> None | Some i \<Rightarrow> if i \<in> set is then None else Some i))"
  using assms
proof (induction "is" arbitrary: s)
  case Nil
  then show ?case by (auto simp: same_pool_refl split: option.splits)
next
  case (Cons i "is")
  obtain k where k: "bp_page_table s k = Some i" "fr_pin_count (frame_at s i) = 0"
    using Cons.prems(3) by auto
  have core: "pool_core s" using Cons.prems(1) by (simp add: pool_ok_def)
  obtain t where t: "and_then_st (flush_frame_if_dirty i s) (\<lambda>_ s. evict_frame i s) = (Inr (), t)"
    "same_pool s t" "\<And>k'. bp_page_table t k' = (if k' = k then None else bp_page_table s k')"
    "\<And>j. j \<noteq> i \<Longrightarrow> fr_key (frame_at t j) = fr_key (frame_at s j) \<and>
      fr_pin_count (frame_at t j) = fr_pin_count (frame_at s j)"
    by (rule evict_step [OF Cons.prems(1) k]) blast
  have uniq: "k' = k \<longleftrightarrow> j = i" if "bp_page_table s k' = Some j" for k' j
    using that k(1) pool_coreD(4) [OF core, of k' j] pool_coreD(4) [OF core, of k i] by auto
  have "\<exists>k'. bp_page_table t k' = Some j \<and> fr_pin_count (frame_at t j) = 0" if "j \<in> set is" for j
  proof -
    have "j \<noteq> i" using that Cons.prems(2) by auto
    moreover obtain k' where "bp_page_table s k' = Some j" "fr_pin_count (frame_at s j) = 0"
      using Cons.prems(3) \<open>j \<in> set is\<close> by auto
    ultimately show ?thesis using t(3) t(4) [of j] uniq [of k' j] by auto
  qed
  then obtain u where u: "flush_and_evict_frames is t = (Inr (), u)" "same_pool t u"
    "\<forall>k. bp_page_table u k = (case bp_page_table t k of None \<Rightarrow> None | Some i \<Rightarrow> if i \<in> set is then None else Some i)"
    using Cons.IH [of t] t(2) Cons.prems(2) by (auto simp: same_pool_def)
  obtain r where r: "flush_frame_if_dirty i s = (Inr (), r)" "evict_frame i r = (Inr (), t)"
    using t(1) by (auto simp: and_then_st_Inr_iff)
  have "bp_page_table u k' = (case bp_page_table s k' of None \<Rightarrow> None | Some j \<Rightarrow> if j \<in> set (i # is) then None else Some j)" for k'
    using u(3) t(3) [of k'] uniq [of k'] by (auto split: option.splits)
  then show ?case using r u(1) same_pool_trans [OF t(2) u(2)] by auto
qed

text \<open>A file with a pinned page cannot be flushed, and the attempt changes nothing.\<close>

lemma flush_file_pinned:
  assumes "pool_ok s" and "bp_files s fid \<noteq> None" and "pool_pins s \<lparr>bk_file_id = fid, bk_page_id = p\<rparr> \<noteq> 0"
  shows "flush_file fid s = (Inl (FileHasPinnedPages fid), s)"
proof -
  let ?k = "\<lparr>bk_file_id = fid, bk_page_id = p\<rparr>"
  obtain i where i: "bp_page_table s ?k = Some i" "unat (fr_pin_count (frame_at s i)) \<noteq> 0"
    using assms(3) by (auto simp: pool_pins_def split: option.splits)
  then have "i < length (bp_frames s)" "fr_key (frame_at s i) = Some ?k"
    using assms(1) pool_coreD(4) by (auto simp: pool_ok_def)
  then have "frame_at s i \<in> set (bp_frames s)" "0 < fr_pin_count (frame_at s i)"
    using i(2) by (auto simp: frame_at_def word_less_nat_alt)
  then show ?thesis
    using assms(2) \<open>fr_key (frame_at s i) = Some ?k\<close> by (auto simp: flush_file_def intro!: bexI [of _ "frame_at s i"])
qed

lemma flush_file_ok:
  assumes ok: "pool_ok s" and reg: "bp_files s fid \<noteq> None"
    and unpinned: "\<And>p. pool_pins s \<lparr>bk_file_id = fid, bk_page_id = p\<rparr> = 0"
  obtains t f where "flush_file fid s = (Inr (), t)" and "same_pool s t" and "bp_files t fid = Some f"
    and "on_disk f" and "page_file_good f"
    and "\<And>p. page_content f p = pool_view s \<lparr>bk_file_id = fid, bk_page_id = p\<rparr>"
    and "\<And>p. bp_page_table t \<lparr>bk_file_id = fid, bk_page_id = p\<rparr> = None"
proof -
  have core: "pool_core s" using ok by (simp add: pool_ok_def)
  have zero: "fr_pin_count (frame_at s i) = 0"
    if "i < length (bp_frames s)" "fr_key (frame_at s i) = Some k" "bk_file_id k = fid" for i k
  proof -
    have "bp_page_table s k = Some i" using that pool_coreD(4) [OF core] by simp
    moreover have "k = \<lparr>bk_file_id = fid, bk_page_id = bk_page_id k\<rparr>" using that(3) by simp
    ultimately have "unat (fr_pin_count (frame_at s i)) = 0"
      using unpinned [of "bk_page_id k"] by (simp add: pool_pins_def)
    then show ?thesis by (simp add: unsigned_eq_0_iff)
  qed
  have nopin: "\<not> (\<exists>f \<in> set (bp_frames s).
      (case fr_key f of None \<Rightarrow> False | Some key \<Rightarrow> bk_file_id key = fid) \<and> 0 < fr_pin_count f)"
    using zero by (fastforce simp: in_set_conv_nth frame_at_def split: option.splits)
  let ?is = "frames_of fid None s"
  have "\<forall>i \<in> set ?is. \<exists>k. bp_page_table s k = Some i \<and> fr_pin_count (frame_at s i) = 0"
    using zero pool_coreD(4) [OF core] by (auto simp: frames_of_mem)
  then obtain t where t: "flush_and_evict_frames ?is s = (Inr (), t)" "same_pool s t"
    "\<forall>k. bp_page_table t k = (case bp_page_table s k of None \<Rightarrow> None | Some i \<Rightarrow> if i \<in> set ?is then None else Some i)"
    using flush_and_evict_frames_ok [OF ok distinct_frames_of] by blast
  have okt: "pool_ok t" "pool_core t" using t(2) by (simp_all add: same_pool_def pool_ok_def)
  have gone: "bp_page_table t \<lparr>bk_file_id = fid, bk_page_id = p\<rparr> = None" for p
    using t(3) pool_coreD(4) [OF core] by (auto simp: frames_of_mem split: option.splits)
  have "bp_files t fid \<noteq> None"
    using reg t(2) domIff [of fid "bp_files t"] domIff [of fid "bp_files s"]
    by (auto simp: same_pool_def keeps_pinned_def)
  then obtain u f where u: "flush_registered fid t = (Inr (), u)" "same_contents t u"
    "bp_files u fid = Some f" "on_disk f"
    using flush_registered_ok [OF okt(2)] by blast
  have core_u: "pool_core u" using same_contents_core [OF u(2) okt(2)] .
  show thesis
  proof (rule that [of u f])
    show "flush_file fid s = (Inr (), u)" using reg nopin t(1) u(1) by (auto simp: flush_file_def)
    show su: "same_pool s u" using same_pool_trans [OF t(2) same_contents_same_pool [OF u(2) okt(1)]] .
    show none: "bp_page_table u \<lparr>bk_file_id = fid, bk_page_id = p\<rparr> = None" for p
      using gone u(2) by (simp add: same_contents_def)
    show "page_content f p = pool_view s \<lparr>bk_file_id = fid, bk_page_id = p\<rparr>" for p
    proof -
      have "pool_view u \<lparr>bk_file_id = fid, bk_page_id = p\<rparr> = page_content f p"
        using none u(3) by (simp add: pool_view_def file_content_def)
      then show ?thesis using su by (simp add: same_pool_def)
    qed
  qed (use u pool_coreD(6) [OF core_u u(3)] in simp_all)
qed

end
