(* ===== verification/Buffer_Properties.thy ===== *)
theory Buffer_Properties
  imports Buffer_Flush Page_Properties
begin

section \<open>The buffer pool: the properties\<close>

text \<open>
  The pool is transparent: whatever it evicts and writes back, a client that reads and writes
  through guards sees one map from (file, page) to data.  The invariant holds in every state
  that the pool's operations reach.
\<close>

subsection \<open>Removing a file\<close>

lemma remove_file_ok:
  assumes ok: "pool_ok s" and reg: "bp_files s fid \<noteq> None"
    and unpinned: "\<And>p. pool_pins s \<lparr>bk_file_id = fid, bk_page_id = p\<rparr> = 0"
  obtains t f where "remove_file fid s = (Inr f, t)" and "pool_ok t" and "on_disk f" and "page_file_good f"
    and "\<And>p. page_content f p = pool_view s \<lparr>bk_file_id = fid, bk_page_id = p\<rparr>"
    and "pool_view t = (\<lambda>k. if bk_file_id k = fid then None else pool_view s k)"
    and "pool_pins t = pool_pins s" and "bp_files t fid = None"
proof -
  obtain u f where u: "flush_file fid s = (Inr (), u)" "same_pool s u" "bp_files u fid = Some f"
    "on_disk f" "page_file_good f"
    "\<And>p. page_content f p = pool_view s \<lparr>bk_file_id = fid, bk_page_id = p\<rparr>"
    "\<And>p. bp_page_table u \<lparr>bk_file_id = fid, bk_page_id = p\<rparr> = None"
    using flush_file_ok [OF ok reg unpinned] by blast
  define t where "t = u\<lparr>bp_files := (bp_files u)(fid := None)\<rparr>"
  have nokey: "bk_file_id k \<noteq> fid" if "bp_page_table u k = Some i" for k i
    using that u(7) [of "bk_page_id k"] by (cases k) auto
  obtain xs where core: "pool_core u" and lists: "pool_lists u xs {}"
    using u(2) by (auto simp: same_pool_def pool_ok_def)
  note D = pool_coreD [OF core]
  have fa: "frame_at t = frame_at u" by (auto simp: t_def frame_at_def)
  have fc: "file_content t = (\<lambda>k. if bk_file_id k = fid then None else file_content u k)"
    by (auto simp: t_def file_content_def fun_eq_iff)
  have "pool_core t"
  proof (rule pool_coreI)
    show "file_content t k \<noteq> None \<and> (fr_dirty (frame_at t i) \<or> file_content t k = Some (fr_data (frame_at t i)))"
      if "bp_page_table t k = Some i" for k i
      using that D(5) [of k i] nokey [of k i] by (auto simp: fa fc) (auto simp: t_def)
    show "page_file_good f' \<and> fid' < bp_next_file_id t" if "bp_files t fid' = Some f'" for fid' f'
      using that D(6) [of fid' f'] by (auto simp: t_def split: if_splits)
  qed (use D in \<open>simp_all add: fa\<close>, simp_all add: t_def D)
  moreover have "pool_lists t xs {}" using same_lists_lists [OF _ lists] by (simp add: t_def)
  ultimately have okt: "pool_ok t" by (auto simp: pool_ok_def)
  have tbl: "bp_page_table t = bp_page_table u" by (simp add: t_def)
  have view: "pool_view t = (\<lambda>k. if bk_file_id k = fid then None else pool_view u k)"
  proof (rule ext)
    fix k
    show "pool_view t k = (if bk_file_id k = fid then None else pool_view u k)"
      using nokey [of k] tbl by (cases "bp_page_table u k") (auto simp: pool_view_def fa fc)
  qed
  have pins: "pool_pins t = pool_pins s"
  proof -
    have "pool_pins t = pool_pins u" unfolding pool_pins_def fa tbl ..
    then show ?thesis using u(2) by (simp add: same_pool_def)
  qed
  have run: "remove_file fid s = (Inr f, t)" using u(1,3) by (simp add: remove_file_def t_def)
  have sv: "pool_view u = pool_view s" using u(2) by (simp add: same_pool_def)
  have "pool_view t = (\<lambda>k. if bk_file_id k = fid then None else pool_view s k)" unfolding view sv ..
  then show thesis by (rule that [OF run okt u(4,5,6) _ pins]) (simp add: t_def)
qed

subsection \<open>Reachable states\<close>

abbreviation page_key :: "u32 \<Rightarrow> u32 \<Rightarrow> buffer_key" where
  "page_key fid pid \<equiv> \<lparr>bk_file_id = fid, bk_page_id = pid\<rparr>"

text \<open>
  The steps of the pool: each call of a client with the state it leaves, errors included.  A
  page has fewer than \<open>2 ^ 32 - 1\<close> guards when another is taken (the counter is a \<open>u32\<close>), a
  guard writes a whole page of a dirty frame (which \<open>get_page_mut\<close> and \<open>allocate_page\<close> make
  it), and a registered file is one that \<open>PageFile\<close>'s operations produce.
\<close>

inductive pool_step :: "buffer_pool \<Rightarrow> buffer_pool \<Rightarrow> bool" where
  step_register: "page_file_good f \<Longrightarrow> pool_step s (snd (register_file f s))"
| step_get: "pool_pins s (page_key fid pid) < 4294967295 \<Longrightarrow> pool_step s (snd (get_page fid pid s))"
| step_get_mut: "pool_pins s (page_key fid pid) < 4294967295 \<Longrightarrow> pool_step s (snd (get_page_mut fid pid s))"
| step_allocate: "pool_step s (snd (pool_allocate_page fid s))"
| step_write: "bp_page_table s k = Some i \<Longrightarrow> fr_dirty (frame_at s i) \<Longrightarrow> length d = PAGE_DATA_SIZE \<Longrightarrow>
    pool_step s (guard_write i d s)"
| step_drop: "bp_page_table s k = Some i \<Longrightarrow> pool_step s (guard_drop i s)"
| step_force: "pool_step s (snd (force_file fid page s))"
| step_flush: "pool_step s (snd (flush_file fid s))"
| step_remove: "pool_step s (snd (remove_file fid s))"

inductive pool_reachable :: "buffer_pool \<Rightarrow> bool" where
  reachable_new: "pool_reachable (pool_new n)"
| reachable_step: "pool_reachable s \<Longrightarrow> pool_step s t \<Longrightarrow> pool_reachable t"

lemma flush_file_keeps_ok: "pool_ok s \<Longrightarrow> pool_ok (snd (flush_file fid s))"
proof -
  assume ok: "pool_ok s"
  consider "bp_files s fid = None"
    | p where "bp_files s fid \<noteq> None" "pool_pins s (page_key fid p) \<noteq> 0"
    | "bp_files s fid \<noteq> None" "\<And>p. pool_pins s (page_key fid p) = 0" by blast
  then show ?thesis
  proof cases
    case 1
    then show ?thesis using ok by (simp add: flush_file_def)
  next
    case 2
    then show ?thesis using ok flush_file_pinned [OF ok 2] by simp
  next
    case 3
    then show ?thesis by (rule flush_file_ok [OF ok]) (simp add: same_pool_def)
  qed
qed

lemma remove_file_keeps_ok: "pool_ok s \<Longrightarrow> pool_ok (snd (remove_file fid s))"
proof -
  assume ok: "pool_ok s"
  consider "bp_files s fid = None"
    | p where "bp_files s fid \<noteq> None" "pool_pins s (page_key fid p) \<noteq> 0"
    | "bp_files s fid \<noteq> None" "\<And>p. pool_pins s (page_key fid p) = 0" by blast
  then show ?thesis
  proof cases
    case 1
    then show ?thesis using ok by (simp add: remove_file_def flush_file_def)
  next
    case 2
    then show ?thesis using ok flush_file_pinned [OF ok 2] by (simp add: remove_file_def)
  next
    case 3
    then show ?thesis by (rule remove_file_ok [OF ok]) simp
  qed
qed

lemma register_file_keeps_ok:
  assumes "pool_ok s" and "page_file_good f"
  shows "pool_ok (snd (register_file f s))"
proof (cases "unat (bp_next_file_id s) < 4294967295")
  case True
  then show ?thesis by (rule register_file_ok [OF assms]) simp
next
  case False
  then have "checked_add_u32 (bp_next_file_id s) 1 = None" by (simp add: checked_add_u32_def)
  then show ?thesis using assms(1) by (simp add: register_file_def)
qed

lemma pool_step_ok:
  assumes "pool_step s t" and ok: "pool_ok s"
  shows "pool_ok t"
  using assms(1)
proof (cases rule: pool_step.cases)
  case (step_register f)
  then show ?thesis using register_file_keeps_ok [OF ok] by simp
next
  case (step_get fid pid)
  show ?thesis
    unfolding step_get(1) by (cases rule: get_page_cases [OF ok step_get(2)]) (simp_all add: guard_on_def same_pool_def ok)
next
  case (step_get_mut fid pid)
  show ?thesis
    unfolding step_get_mut(1) by (cases rule: get_page_mut_cases [OF ok step_get_mut(2)]) (simp_all add: guard_on_def same_pool_def ok)
next
  case (step_allocate fid)
  show ?thesis
    unfolding step_allocate(1) by (cases rule: pool_allocate_page_cases [OF ok, of fid]) (simp_all add: guard_on_def same_pool_def ok)
next
  case (step_write k i d)
  then show ?thesis using guard_write_ok(1) [OF ok] by simp
next
  case (step_drop k i)
  then show ?thesis using guard_drop_ok(1) [OF ok] by simp
next
  case (step_force fid page)
  show ?thesis
  proof (cases "bp_files s fid = None")
    case True
    then show ?thesis using step_force ok by (simp add: force_file_def)
  next
    case False
    then show ?thesis using step_force by (auto simp: same_pool_def intro: force_file_ok [OF ok False, of page])
  qed
next
  case (step_flush fid)
  then show ?thesis using flush_file_keeps_ok [OF ok] by simp
next
  case (step_remove fid)
  then show ?thesis using remove_file_keeps_ok [OF ok] by simp
qed

lemma pool_reachable_is_ok: "pool_reachable s \<Longrightarrow> pool_ok s"
  by (induction rule: pool_reachable.induct) (auto simp: pool_new_ok intro: pool_step_ok)

text \<open>A pool with one file of one page, for the examples.\<close>

definition small_pool :: "nat \<Rightarrow> buffer_pool" where
  "small_pool n = snd (register_file one_page_file (pool_new n))"

lemma small_pool_ok: "pool_ok (small_pool n)"
  and small_pool_view: "pool_view (small_pool n) = [page_key 0 0 \<mapsto> replicate 4092 0]"
  and small_pool_pins: "pool_pins (small_pool n) = (\<lambda>_. 0)"
  and small_pool_files: "bp_files (small_pool n) = [0 \<mapsto> one_page_file]"
  and small_pool_frames: "bp_frames (small_pool n) = replicate n frame_new"
  and small_pool_reachable: "pool_reachable (small_pool n)"
proof -
  have good: "page_file_good one_page_file" using one_page_file_refines by blast
  have "unat (bp_next_file_id (pool_new n)) < 4294967295" by (simp add: pool_new_def)
  note reg = register_file_ok [OF pool_new_ok good this]
  have content: "page_content one_page_file = [0 \<mapsto> replicate 4092 0]"
    using page_refines_pages [OF one_page_file_refines] by (simp add: one_page_spec_eq)
  show "pool_ok (small_pool n)" "pool_pins (small_pool n) = (\<lambda>_. 0)"
    by (rule reg; simp add: small_pool_def pool_new_pins)+
  show "bp_files (small_pool n) = [0 \<mapsto> one_page_file]" "bp_frames (small_pool n) = replicate n frame_new"
    by (rule reg; simp add: small_pool_def; simp add: pool_new_def)+
  show "pool_view (small_pool n) = [page_key 0 0 \<mapsto> replicate 4092 0]"
  proof (rule reg)
    fix t
    assume t: "register_file one_page_file (pool_new n) = (Inr (bp_next_file_id (pool_new n)), t)"
      and v: "pool_view t = (\<lambda>k. if bk_file_id k = bp_next_file_id (pool_new n)
        then page_content one_page_file (bk_page_id k) else pool_view (pool_new n) k)"
    have "pool_view t k = [page_key 0 0 \<mapsto> replicate 4092 0] k" for k
      unfolding v by (cases k) (simp add: content pool_new_view, simp add: pool_new_def)
    then show ?thesis using t by (simp add: small_pool_def fun_eq_iff)
  qed
  show "pool_reachable (small_pool n)"
    unfolding small_pool_def by (rule reachable_step [OF reachable_new step_register [OF good]])
qed

text \<open>The same pool with its page cached and pinned, and after the pin has been given back.\<close>

definition cached_pool :: buffer_pool where
  "cached_pool = snd (get_page 0 0 (small_pool 1))"

lemma cached_pool_ok: "pool_ok cached_pool"
  and cached_pool_table: "bp_page_table cached_pool (page_key 0 0) = Some 0"
  and cached_pool_pins: "pool_pins cached_pool = (\<lambda>_. 0)(page_key 0 0 := 1)"
  and cached_pool_frames: "length (bp_frames cached_pool) = 1"
  and cached_pool_files: "bp_files cached_pool 0 \<noteq> None"
proof -
  have full: "\<not> (\<forall>i < length (bp_frames (small_pool 1)). pinned_at (small_pool 1) i)"
    by (simp add: small_pool_frames pinned_at_def frame_at_def frame_new_def)
  have few: "pool_pins (small_pool 1) (page_key 0 0) < 4294967295" by (simp add: small_pool_pins)
  obtain i where g: "guard_on (page_key 0 0) i (small_pool 1) cached_pool"
  proof (cases rule: get_page_cases [OF small_pool_ok few])
    case (1 i t)
    then show thesis using that by (simp add: cached_pool_def)
  next
    case (2 t)
    then show thesis by (simp add: small_pool_view)
  next
    case 3
    then show thesis using full by blast
  qed
  then have g: "pool_ok cached_pool" "bp_page_table cached_pool (page_key 0 0) = Some i"
    "pool_pins cached_pool = (pool_pins (small_pool 1))(page_key 0 0 := Suc (pool_pins (small_pool 1) (page_key 0 0)))"
    "keeps_pinned (small_pool 1) cached_pool"
    unfolding guard_on_def by blast+
  show ok: "pool_ok cached_pool" by (rule g(1))
  show "pool_pins cached_pool = (\<lambda>_. 0)(page_key 0 0 := 1)"
    unfolding g(3) small_pool_pins by (rule ext) simp
  show len: "length (bp_frames cached_pool) = 1"
    using g(4) unfolding keeps_pinned_def small_pool_frames by simp
  note tbl = g(2)
  have "i < length (bp_frames cached_pool)"
    using pool_coreD(4) [of cached_pool "page_key 0 0" i] ok tbl unfolding pool_ok_def by blast
  then have "i = 0" using len by simp
  then show "bp_page_table cached_pool (page_key 0 0) = Some 0" using tbl by simp
  have "dom (bp_files cached_pool) = {0}" using g(4) unfolding keeps_pinned_def small_pool_files by simp
  then show "bp_files cached_pool 0 \<noteq> None" by auto
qed

lemma distinct_singleton_list: "distinct xs \<Longrightarrow> set xs = {x} \<Longrightarrow> xs = [x]"
  by (cases xs; cases "tl xs") auto

lemma singleton_split: "(0::nat) \<in> X \<Longrightarrow> F \<inter> X = {} \<Longrightarrow> F \<union> X = {..<1} \<Longrightarrow> X = {0} \<and> F = {}"
proof -
  assume mem: "0 \<in> X" and dis: "F \<inter> X = {}" and all: "F \<union> X = {..<1}"
  have "x = 0" if "x \<in> F \<union> X" for x using that unfolding all by simp
  then have zero: "\<And>x. x \<in> F \<Longrightarrow> x = 0" "\<And>x. x \<in> X \<Longrightarrow> x = 0" by blast+
  have "x \<notin> F" for x using zero(1) [of x] mem dis by blast
  moreover have "X = {0}" using zero(2) mem by blast
  ultimately show ?thesis by blast
qed

definition released_pool :: buffer_pool where
  "released_pool = guard_drop 0 cached_pool"

lemma released_pool_core: "pool_core released_pool"
  and released_pool_lists: "pool_lists released_pool [0] {}"
  and released_pool_free: "bp_free_list released_pool = []"
  and released_pool_count: "fr_pin_count (frame_at released_pool 0) = 0"
proof -
  note dr = guard_drop_ok [OF cached_pool_ok cached_pool_table, folded released_pool_def]
  show core: "pool_core released_pool" using dr(1) by (simp add: pool_ok_def)
  obtain xs where xs: "pool_lists released_pool xs {}" using dr(1) by (auto simp: pool_ok_def)
  have tbl: "bp_page_table released_pool (page_key 0 0) = Some 0" using dr(4) cached_pool_table by simp
  have len: "length (bp_frames released_pool) = 1" using dr(5) cached_pool_frames by (simp add: keeps_pinned_def)
  have mem: "0 \<in> set xs" by (rule cached_in_list [OF core xs tbl])
  have dist: "distinct xs" using xs unfolding pool_lists_def lru_list_def by blast
  have part: "set (bp_free_list released_pool) \<union> set xs = {..<1}"
    "set (bp_free_list released_pool) \<inter> set xs = {}"
    using xs unfolding pool_lists_def len by blast+
  have sets: "set xs = {0}" "set (bp_free_list released_pool) = {}"
    using singleton_split [OF mem part(2)] part(1) by auto
  show "bp_free_list released_pool = []" using sets(2) by simp
  show "pool_lists released_pool [0] {}" using xs distinct_singleton_list [OF dist sets(1)] by simp
  have "pool_pins released_pool (page_key 0 0) = 0" using dr(3) cached_pool_pins by simp
  then show "fr_pin_count (frame_at released_pool 0) = 0"
    using tbl by (simp add: pool_pins_def unsigned_eq_0_iff)
qed

subsection \<open>The properties\<close>



text \<open>C24: Fetching a page for reading is transparent: the guard reads exactly the page's contents in the
  client's view, whether the page was cached or had to be read in, nothing in the view changes although
  another page may have been evicted and written back, the page gets one pin more and no other
  pinned page moves.  The only errors are a page that does not exist and a pool whose frames are all pinned.\<close>

theorem get_page_transparent:
  assumes "pool_ok s" and "pool_pins s (page_key fid pid) < 4294967295"
  shows "case get_page fid pid s of
      (Inr i, t) \<Rightarrow> pool_view s (page_key fid pid) = Some (guard_read i t) \<and> pool_view t = pool_view s \<and>
        guard_on (page_key fid pid) i s t
    | (Inl e, t) \<Rightarrow> same_pool s t \<and>
        (e = missing_page (page_key fid pid) s \<and> pool_view s (page_key fid pid) = None \<or>
         e = NoFrameAvailable \<and> (\<forall>i < length (bp_frames s). pinned_at s i))"
  by (cases rule: get_page_cases [OF assms]) (simp_all add: same_pool_refl assms)

theorem get_page_transparent_witness:
  "\<exists>i t. get_page 0 0 (small_pool 1) = (Inr i, t) \<and> guard_read i t = replicate 4092 0"
proof -
  have full: "\<not> (\<forall>i < length (bp_frames (small_pool 1)). pinned_at (small_pool 1) i)"
    by (simp add: small_pool_frames pinned_at_def frame_at_def frame_new_def)
  have "pool_pins (small_pool 1) (page_key 0 0) < 4294967295" by (simp add: small_pool_pins)
  from get_page_transparent [OF small_pool_ok this] full show ?thesis
    by (auto simp: small_pool_view split: prod.splits sum.splits)
qed

text \<open>C25: Read, modify, write: fetching a page with \<open>get_page_mut\<close>, storing new data through the guard and
  dropping it changes the client's view at this page to the new data and nowhere else, and gives back the
  pin it took.\<close>

theorem write_guard_updates_page:
  assumes "pool_ok s" and "pool_pins s (page_key fid pid) < 4294967295"
    and "get_page_mut fid pid s = (Inr i, t)" and "length d = PAGE_DATA_SIZE"
  shows "pool_ok (guard_drop i (guard_write i d t)) \<and>
    pool_view (guard_drop i (guard_write i d t)) = (pool_view s)(page_key fid pid \<mapsto> d) \<and>
    pool_pins (guard_drop i (guard_write i d t)) = pool_pins s \<and> guard_read i (guard_write i d t) = d"
proof -
  have t: "pool_view t = pool_view s" "guard_on (page_key fid pid) i s t" "fr_dirty (frame_at t i)"
    by (cases rule: get_page_mut_cases [OF assms(1,2)]; use assms(3) in simp)+
  then have ok: "pool_ok t" and tbl: "bp_page_table t (page_key fid pid) = Some i"
    and pins: "pool_pins t = (pool_pins s)(page_key fid pid := Suc (pool_pins s (page_key fid pid)))"
    by (simp_all add: guard_on_def)
  have len: "length d = 4092" using assms(4) by simp
  note w = guard_write_ok [OF ok tbl t(3) len]
  have "bp_page_table (guard_write i d t) (page_key fid pid) = Some i" using w(4) tbl by simp
  note dr = guard_drop_ok [OF w(1) this]
  show ?thesis using w dr t(1) pins by simp
qed

theorem write_guard_updates_page_witness:
  "\<exists>i t. get_page_mut 0 0 (small_pool 1) = (Inr i, t) \<and>
     pool_view (guard_drop i (guard_write i (replicate 4092 9) t)) = [page_key 0 0 \<mapsto> replicate 4092 9]"
proof -
  have full: "\<not> (\<forall>i < length (bp_frames (small_pool 1)). pinned_at (small_pool 1) i)"
    by (simp add: small_pool_frames pinned_at_def frame_at_def frame_new_def)
  have few: "pool_pins (small_pool 1) (page_key 0 0) < 4294967295" by (simp add: small_pool_pins)
  obtain i t where it: "get_page_mut 0 0 (small_pool 1) = (Inr i, t)"
    by (cases rule: get_page_mut_cases [OF small_pool_ok few]) (use full in \<open>auto simp: small_pool_view\<close>)
  from write_guard_updates_page [OF small_pool_ok few it, of "replicate 4092 9"] it show ?thesis
    by (simp add: small_pool_view)
qed

text \<open>Allocating a page through the pool hands out a page that the client could not see before, pinned
  and with all its data zero; every other page keeps its contents.  The errors leave the view as it was.\<close>

theorem pool_allocate_fresh:
  assumes "pool_ok s"
  shows "case pool_allocate_page fid s of
      (Inr (i, p), t) \<Rightarrow> pool_view s (page_key fid p) = None \<and>
        pool_view t = (pool_view s)(page_key fid p \<mapsto> replicate PAGE_DATA_SIZE 0) \<and>
        guard_on (page_key fid p) i s t \<and> guard_read i t = replicate PAGE_DATA_SIZE 0
    | (Inl e, t) \<Rightarrow> same_pool s t \<and>
        (e = UnknownFile fid \<and> bp_files s fid = None \<or> (\<exists>e'. e = BP_PageStore e') \<or>
         e = NoFrameAvailable \<and> (\<forall>i < length (bp_frames s). pinned_at s i))"
  by (cases rule: pool_allocate_page_cases [OF assms, of fid]) (auto simp: same_pool_refl assms)

theorem pool_allocate_fresh_witness:
  "case pool_allocate_page 0 (small_pool 1) of
      (Inr (i, p), t) \<Rightarrow> p \<noteq> 0 \<and> pool_view t (page_key 0 p) = Some (replicate 4092 0) | (Inl e, t) \<Rightarrow> True"
  using pool_allocate_fresh [OF small_pool_ok [of 1], of 0]
  by (cases "pool_allocate_page 0 (small_pool 1)"; cases "fst (pool_allocate_page 0 (small_pool 1))")
    (auto simp: small_pool_view split: if_splits)



text \<open>C27: Flushing a file none of whose pages is pinned succeeds, evicts its pages without changing what
  clients see, and makes it durable: opening the bytes then on the device gives a file with exactly the
  contents that the client saw in the pool.\<close>

theorem flush_file_durable:
  assumes "pool_ok s" and "bp_files s fid \<noteq> None" and "\<forall>p. pool_pins s (page_key fid p) = 0"
  shows "\<exists>t f g. flush_file fid s = (Inr (), t) \<and> same_pool s t \<and> bp_files t fid = Some f \<and>
    page_open (pf_io f) = Inr g \<and> (\<forall>p. page_content g p = pool_view s (page_key fid p))"
proof -
  obtain t f where t: "flush_file fid s = (Inr (), t)" "same_pool s t" "bp_files t fid = Some f"
    "on_disk f" "page_file_good f" "\<And>p. page_content f p = pool_view s (page_key fid p)"
    using flush_file_ok [OF assms(1,2)] assms(3) by metis
  obtain a where a: "page_refines f a" "sp_pages a = page_content f"
    using t(5) by (rule page_file_good_content)
  obtain g where g: "page_open (pf_io f) = Inr g" "page_refines g a"
    using page_open_refines [OF a(1) t(4)] .
  have "page_content g = page_content f" using g(2) a(2) by (simp add: page_refines_def)
  then show ?thesis using t g(1) by auto
qed

theorem flush_file_durable_witness:
  "\<exists>t f g. flush_file 0 (small_pool 1) = (Inr (), t) \<and> bp_files t 0 = Some f \<and> page_open (pf_io f) = Inr g \<and>
     page_content g 0 = Some (replicate 4092 0)"
  using flush_file_durable [OF small_pool_ok [of 1], of 0]
  by (auto simp: small_pool_files small_pool_pins small_pool_view)

text \<open>A file with a pinned page can be neither flushed nor removed: both are the error
  \<open>FileHasPinnedPages\<close> and leave the pool exactly as it was; so a guard never outlives its page.\<close>

theorem pinned_file_not_flushed:
  assumes "pool_ok s" and "bp_files s fid \<noteq> None" and "pool_pins s (page_key fid p) \<noteq> 0"
  shows "flush_file fid s = (Inl (FileHasPinnedPages fid), s) \<and>
    remove_file fid s = (Inl (FileHasPinnedPages fid), s)"
  using flush_file_pinned [OF assms] by (simp add: remove_file_def)

theorem pinned_file_not_flushed_witness:
  "remove_file 0 cached_pool = (Inl (FileHasPinnedPages 0), cached_pool)"
  using pinned_file_not_flushed [OF cached_pool_ok cached_pool_files, of 0] cached_pool_pins by simp

text \<open>C28: Forcing a page while a write guard on it is held forgets later writes: \<open>force_file\<close> clears the
  dirty flag, storing through the guard does not set it again, and so a write-back of the frame does
  nothing and the file keeps the old data although the guard has written new data.\<close>

theorem force_file_loses_later_writes:
  assumes ok: "pool_ok s" and tbl: "bp_page_table s (page_key fid p) = Some i" and reg: "bp_files s fid \<noteq> None"
  shows "\<exists>t. force_file fid (Some p) s = (Inr (), t) \<and>
    (\<forall>d. flush_frame_if_dirty i (guard_write i d t) = (Inr (), guard_write i d t) \<and>
         file_content (guard_write i d t) (page_key fid p) = pool_view s (page_key fid p) \<and>
         guard_read i (guard_write i d t) = d)"
proof -
  obtain u where u: "flush_frames (frames_of fid (Some p) s) s = (Inr (), u)" "same_pool s u" "cleaned s u"
    "\<forall>j \<in> set (frames_of fid (Some p) s). \<not> fr_dirty (frame_at u j)"
    using flush_frames_ok [OF ok, of "frames_of fid (Some p) s"] frames_of_mem by auto
  have core: "pool_core s" "pool_core u" using ok u(2) by (auto simp: same_pool_def pool_ok_def)
  have i: "i < length (bp_frames s)" "fr_key (frame_at s i) = Some (page_key fid p)"
    using pool_coreD(4) [OF core(1)] tbl by auto
  have clean: "\<not> fr_dirty (frame_at u i)" using u(4) i by (simp add: frames_of_mem)
  have "dom (bp_files u) = dom (bp_files s)" using u(2) by (simp add: same_pool_def keeps_pinned_def)
  then have "bp_files u fid \<noteq> None" using reg by (metis domIff)
  then obtain t where t: "flush_registered fid u = (Inr (), t)" "same_contents u t"
    using flush_registered_ok [OF core(2)] by metis
  have run: "force_file fid (Some p) s = (Inr (), t)" using reg u(1) t(1) by (simp add: force_file_def)
  have fr: "frame_at t = frame_at u" "bp_frames t = bp_frames u"
    using same_contents_frame_at [OF t(2)] t(2) by (simp_all add: same_contents_def)
  have il: "i < length (bp_frames t)" using i(1) u(2) fr(2) by (simp add: same_pool_def keeps_pinned_def)
  have tblu: "bp_page_table u (page_key fid p) = Some i" using u(3) tbl by (simp add: cleaned_def)
  have "file_content u (page_key fid p) = Some (fr_data (frame_at u i))"
    using pool_coreD(5) [OF core(2) tblu] clean by simp
  also have "\<dots> = pool_view u (page_key fid p)" using tblu by (simp add: pool_view_def)
  finally have content: "file_content t (page_key fid p) = pool_view s (page_key fid p)"
    using t(2) u(2) by (simp add: same_contents_def same_pool_def)
  have "file_content (guard_write i d t) = file_content t" for d
    by (auto simp: guard_write_def file_content_def update_frame_def fun_eq_iff)
  then show ?thesis
    using run clean content il fr
    by (auto simp: flush_frame_if_dirty_def guard_write_def guard_read_def frame_at_update)
qed

theorem force_file_loses_later_writes_witness:
  "\<exists>t. force_file 0 (Some 0) cached_pool = (Inr (), t) \<and>
     flush_frame_if_dirty 0 (guard_write 0 (replicate 4092 1) t) = (Inr (), guard_write 0 (replicate 4092 1) t)"
  using force_file_loses_later_writes [OF cached_pool_ok cached_pool_table cached_pool_files] by blast

end
