(* ===== verification/Buffer_Shared.thy ===== *)
theory Buffer_Shared
  imports Buffer_Properties "HOL-Library.Multiset"
begin

section \<open>The pool behind its lock\<close>

text \<open>
  \<open>BufferPool\<close> is a handle that any number of threads may clone: the state is behind a mutex,
  and each method holds the lock from start to end, so that a run of several threads is a
  sequence of calls.  The guards that the threads hold outlive the calls; they refer to a frame
  by its number and keep it pinned; the data they share with it is the frame's.  A lock is poisoned when a thread panics while it holds the
  lock; the methods then refuse, and a guard that is dropped leaves its pin.
\<close>

record shared_pool =
  sp_state :: buffer_pool
  sp_poisoned :: bool

record buffer_read_guard =
  rg_frame_id :: nat
  rg_file_id :: u32
  rg_page_id :: u32

record buffer_write_guard =
  wg_frame_id :: nat
  wg_file_id :: u32
  wg_page_id :: u32

definition shared_new :: "nat \<Rightarrow> shared_pool" where
  "shared_new capacity = \<lparr>sp_state = pool_new capacity, sp_poisoned = False\<rparr>"

definition lock_state :: "shared_pool \<Rightarrow> buffer_pool_error + buffer_pool" where
  "lock_state s = (if sp_poisoned s then Inl (LockPoisoned ''buffer pool state'') else Inr (sp_state s))"

text \<open>A method: the lock is taken, and released at the end of the call.\<close>

definition locked :: "(buffer_pool \<Rightarrow> (buffer_pool_error + 'a) \<times> buffer_pool) \<Rightarrow> shared_pool \<Rightarrow>
    (buffer_pool_error + 'a) \<times> shared_pool" where
  "locked m s =
     (case lock_state s of
        Inl e \<Rightarrow> (Inl e, s)
      | Inr p \<Rightarrow> (case m p of (r, p) \<Rightarrow> (r, s\<lparr>sp_state := p\<rparr>)))"

definition shared_register_file :: "page_file \<Rightarrow> shared_pool \<Rightarrow> (buffer_pool_error + u32) \<times> shared_pool" where
  "shared_register_file f = locked (register_file f)"

definition shared_get_page :: "u32 \<Rightarrow> u32 \<Rightarrow> shared_pool \<Rightarrow> (buffer_pool_error + buffer_read_guard) \<times> shared_pool" where
  "shared_get_page fid pid s =
     and_then_st (locked (get_page fid pid) s) (\<lambda>i s.
       (Inr \<lparr>rg_frame_id = i, rg_file_id = fid, rg_page_id = pid\<rparr>, s))"

definition shared_get_page_mut :: "u32 \<Rightarrow> u32 \<Rightarrow> shared_pool \<Rightarrow> (buffer_pool_error + buffer_write_guard) \<times> shared_pool" where
  "shared_get_page_mut fid pid s =
     and_then_st (locked (get_page_mut fid pid) s) (\<lambda>i s.
       (Inr \<lparr>wg_frame_id = i, wg_file_id = fid, wg_page_id = pid\<rparr>, s))"

definition shared_allocate_page :: "u32 \<Rightarrow> shared_pool \<Rightarrow> (buffer_pool_error + buffer_write_guard) \<times> shared_pool" where
  "shared_allocate_page fid s =
     and_then_st (locked (pool_allocate_page fid) s) (\<lambda>(i, pid) s.
       (Inr \<lparr>wg_frame_id = i, wg_file_id = fid, wg_page_id = pid\<rparr>, s))"

definition shared_force_file :: "u32 \<Rightarrow> u32 option \<Rightarrow> shared_pool \<Rightarrow> (buffer_pool_error + unit) \<times> shared_pool" where
  "shared_force_file fid page = locked (force_file fid page)"

definition shared_flush_file :: "u32 \<Rightarrow> shared_pool \<Rightarrow> (buffer_pool_error + unit) \<times> shared_pool" where
  "shared_flush_file fid = locked (flush_file fid)"

definition shared_remove_file :: "u32 \<Rightarrow> shared_pool \<Rightarrow> (buffer_pool_error + page_file) \<times> shared_pool" where
  "shared_remove_file fid = locked (remove_file fid)"

definition read_guard_read :: "buffer_read_guard \<Rightarrow> shared_pool \<Rightarrow> u8 list" where
  "read_guard_read g s = guard_read (rg_frame_id g) (sp_state s)"

definition write_guard_read :: "buffer_write_guard \<Rightarrow> shared_pool \<Rightarrow> u8 list" where
  "write_guard_read g s = guard_read (wg_frame_id g) (sp_state s)"

definition write_guard_write :: "buffer_write_guard \<Rightarrow> u8 list \<Rightarrow> shared_pool \<Rightarrow> shared_pool" where
  "write_guard_write g d s = s\<lparr>sp_state := guard_write (wg_frame_id g) d (sp_state s)\<rparr>"

definition read_guard_drop :: "buffer_read_guard \<Rightarrow> shared_pool \<Rightarrow> shared_pool" where
  "read_guard_drop g s = (case lock_state s of Inl _ \<Rightarrow> s | Inr p \<Rightarrow> s\<lparr>sp_state := unpin_frame (rg_frame_id g) p\<rparr>)"

definition write_guard_drop :: "buffer_write_guard \<Rightarrow> shared_pool \<Rightarrow> shared_pool" where
  "write_guard_drop g s = (case lock_state s of Inl _ \<Rightarrow> s | Inr p \<Rightarrow> s\<lparr>sp_state := unpin_frame (wg_frame_id g) p\<rparr>)"

subsection \<open>Threads\<close>

text \<open>The guards in the hands of the threads, each with the number of its thread.\<close>

datatype live_guard = Reading buffer_read_guard | Writing buffer_write_guard

primrec guard_frame :: "live_guard \<Rightarrow> nat" where
  "guard_frame (Reading g) = rg_frame_id g"
| "guard_frame (Writing g) = wg_frame_id g"

primrec guard_key :: "live_guard \<Rightarrow> buffer_key" where
  "guard_key (Reading g) = page_key (rg_file_id g) (rg_page_id g)"
| "guard_key (Writing g) = page_key (wg_file_id g) (wg_page_id g)"

record pool_system =
  sy_pool :: shared_pool
  sy_guards :: "(nat \<times> live_guard) multiset"

text \<open>What a call adds to the guards of its thread.\<close>

definition new_guards :: "nat \<Rightarrow> ('a \<Rightarrow> live_guard) \<Rightarrow> 'e + 'a \<Rightarrow> (nat \<times> live_guard) multiset" where
  "new_guards th mk r = (case r of Inl _ \<Rightarrow> {#} | Inr g \<Rightarrow> {#(th, mk g)#})"

text \<open>
  A step is one call of one thread.  There are fewer than \<open>2 ^ 32 - 1\<close> guards when a page is
  fetched (the counter of pins is a \<open>u32\<close>), a registered file is one that \<open>PageFile\<close>'s operations
  produce, and a write guard writes while its frame is dirty, that is, not after a \<open>force_file\<close>.
\<close>

inductive thread_step :: "pool_system \<Rightarrow> pool_system \<Rightarrow> bool" where
  th_register: "page_file_good f \<Longrightarrow> shared_register_file f (sy_pool y) = (r, s) \<Longrightarrow> thread_step y (y\<lparr>sy_pool := s\<rparr>)"
| th_get: "size (sy_guards y) < 4294967295 \<Longrightarrow> shared_get_page fid pid (sy_pool y) = (r, s) \<Longrightarrow>
    thread_step y \<lparr>sy_pool = s, sy_guards = new_guards th Reading r + sy_guards y\<rparr>"
| th_get_mut: "size (sy_guards y) < 4294967295 \<Longrightarrow> shared_get_page_mut fid pid (sy_pool y) = (r, s) \<Longrightarrow>
    thread_step y \<lparr>sy_pool = s, sy_guards = new_guards th Writing r + sy_guards y\<rparr>"
| th_allocate: "shared_allocate_page fid (sy_pool y) = (r, s) \<Longrightarrow>
    thread_step y \<lparr>sy_pool = s, sy_guards = new_guards th Writing r + sy_guards y\<rparr>"
| th_write: "(th, Writing g) \<in># sy_guards y \<Longrightarrow> fr_dirty (frame_at (sp_state (sy_pool y)) (wg_frame_id g)) \<Longrightarrow>
    length d = PAGE_DATA_SIZE \<Longrightarrow> thread_step y (y\<lparr>sy_pool := write_guard_write g d (sy_pool y)\<rparr>)"
| th_drop_read: "(th, Reading g) \<in># sy_guards y \<Longrightarrow>
    thread_step y \<lparr>sy_pool = read_guard_drop g (sy_pool y), sy_guards = sy_guards y - {#(th, Reading g)#}\<rparr>"
| th_drop_write: "(th, Writing g) \<in># sy_guards y \<Longrightarrow>
    thread_step y \<lparr>sy_pool = write_guard_drop g (sy_pool y), sy_guards = sy_guards y - {#(th, Writing g)#}\<rparr>"
| th_force: "shared_force_file fid page (sy_pool y) = (r, s) \<Longrightarrow> thread_step y (y\<lparr>sy_pool := s\<rparr>)"
| th_flush: "shared_flush_file fid (sy_pool y) = (r, s) \<Longrightarrow> thread_step y (y\<lparr>sy_pool := s\<rparr>)"
| th_remove: "shared_remove_file fid (sy_pool y) = (r, s) \<Longrightarrow> thread_step y (y\<lparr>sy_pool := s\<rparr>)"

inductive threads_reach :: "pool_system \<Rightarrow> bool" where
  threads_start: "threads_reach \<lparr>sy_pool = shared_new n, sy_guards = {#}\<rparr>"
| threads_step: "threads_reach y \<Longrightarrow> thread_step y z \<Longrightarrow> threads_reach z"

subsection \<open>Every guard's frame stays its page's\<close>

definition held_on :: "(nat \<times> live_guard) multiset \<Rightarrow> buffer_key \<Rightarrow> nat" where
  "held_on gs k = size (filter_mset (\<lambda>x. guard_key (snd x) = k) gs)"

definition guards_held :: "buffer_pool \<Rightarrow> (nat \<times> live_guard) multiset \<Rightarrow> bool" where
  "guards_held s gs \<longleftrightarrow> pool_ok s \<and> pool_pins s = held_on gs \<and>
     (\<forall>x \<in># gs. bp_page_table s (guard_key (snd x)) = Some (guard_frame (snd x)))"

lemma guards_heldD:
  assumes "guards_held s gs"
  shows "pool_ok s" and "pool_pins s = held_on gs"
    and "x \<in># gs \<Longrightarrow> bp_page_table s (guard_key (snd x)) = Some (guard_frame (snd x))"
    and "x \<in># gs \<Longrightarrow> pinned_at s (guard_frame (snd x))"
proof -
  show ok: "pool_ok s" and pins: "pool_pins s = held_on gs" using assms by (simp_all add: guards_held_def)
  show tbl: "bp_page_table s (guard_key (snd x)) = Some (guard_frame (snd x))" if "x \<in># gs"
    using assms that by (simp add: guards_held_def)
  show "pinned_at s (guard_frame (snd x))" if x: "x \<in># gs"
  proof -
    have "x \<in># filter_mset (\<lambda>y. guard_key (snd y) = guard_key (snd x)) gs" using x by simp
    then have "held_on gs (guard_key (snd x)) \<noteq> 0" unfolding held_on_def by (metis empty_iff set_mset_empty size_eq_0_iff_empty)
    then show ?thesis using pool_pins_cached [OF tbl [OF x]] pins by (auto simp: pinned_at_def)
  qed
qed

lemma keeps_held:
  assumes "guards_held s gs" and "keeps_pinned s t" and "x \<in># gs"
  shows "bp_page_table t (guard_key (snd x)) = Some (guard_frame (snd x))"
  using guards_heldD(3,4) [OF assms(1,3)] assms(2) by (simp add: keeps_pinned_def)

lemma held_on_add: "held_on (add_mset x gs) = (held_on gs)(guard_key (snd x) := Suc (held_on gs (guard_key (snd x))))"
  by (auto simp: held_on_def fun_eq_iff)

lemma held_acquire:
  assumes "guards_held s gs" and "guard_on (guard_key g) (guard_frame g) s t"
  shows "guards_held t (add_mset (th, g) gs)"
  using assms keeps_held [OF assms(1)] guards_heldD(2) [OF assms(1)]
  by (auto simp: guards_held_def guard_on_def held_on_add)

lemma held_same: "guards_held s gs \<Longrightarrow> same_pool s t \<Longrightarrow> guards_held t gs"
  using keeps_held by (auto simp: guards_held_def same_pool_def)

lemma held_drop:
  assumes h: "guards_held s gs" and x: "x \<in># gs"
  shows "guards_held (guard_drop (guard_frame (snd x)) s) (gs - {#x#})"
proof -
  note d = guard_drop_ok [OF guards_heldD(1) [OF h] guards_heldD(3) [OF h x]]
  have gs: "gs = add_mset x (gs - {#x#})" using x by simp
  have "held_on gs = (held_on (gs - {#x#}))(guard_key (snd x) := Suc (held_on (gs - {#x#}) (guard_key (snd x))))"
    using arg_cong [OF gs, of held_on] unfolding held_on_add .
  then have "pool_pins (guard_drop (guard_frame (snd x)) s) = held_on (gs - {#x#})"
    using d(3) guards_heldD(2) [OF h] by simp
  then show ?thesis using d(1,4) guards_heldD(3) [OF h] by (auto simp: guards_held_def dest: in_diffD)
qed

lemma held_write:
  assumes h: "guards_held s gs" and x: "x \<in># gs" and "fr_dirty (frame_at s (guard_frame (snd x)))" and "length d = PAGE_DATA_SIZE"
  shows "guards_held (guard_write (guard_frame (snd x)) d s) gs"
  using guard_write_ok(1,3,4) [OF guards_heldD(1) [OF h] guards_heldD(3) [OF h x] assms(3)] assms(4) h
  by (auto simp: guards_held_def)

lemma held_few: "guards_held s gs \<Longrightarrow> size gs < n \<Longrightarrow> pool_pins s k < n"
  using le_less_trans [OF size_filter_mset_lesseq [of "\<lambda>x. guard_key (snd x) = k" gs], of n]
  by (simp add: guards_heldD(2) held_on_def)

lemma held_register:
  assumes h: "guards_held s gs" and good: "page_file_good f"
  shows "guards_held (snd (register_file f s)) gs"
proof -
  have "pool_ok (snd (register_file f s))" by (rule register_file_keeps_ok [OF guards_heldD(1) [OF h] good])
  moreover have "bp_page_table (snd (register_file f s)) = bp_page_table s" "bp_frames (snd (register_file f s)) = bp_frames s"
    by (cases "checked_add_u32 (bp_next_file_id s) 1"; simp add: register_file_def Let_def)+
  ultimately show ?thesis using h by (simp add: guards_held_def pool_pins_def [abs_def] frame_at_def cong: option.case_cong)
qed

lemma held_force:
  assumes h: "guards_held s gs"
  shows "guards_held (snd (force_file fid page s)) gs"
proof (cases "bp_files s fid = None")
  case False
  show ?thesis
    by (rule force_file_ok [OF guards_heldD(1) [OF h] False, of page]) (use held_same [OF h] in simp)
qed (use h in \<open>simp add: force_file_def\<close>)

text \<open>A file is flushed whole only while no guard is on it.\<close>

lemma flush_file_result:
  assumes ok: "pool_ok s"
  obtains (error) e where "flush_file fid s = (Inl e, s)"
    | (flushed) t where "flush_file fid s = (Inr (), t)" and "same_pool s t" and "\<And>p. pool_pins s (page_key fid p) = 0"
proof -
  consider "bp_files s fid = None"
    | p where "bp_files s fid \<noteq> None" "pool_pins s (page_key fid p) \<noteq> 0"
    | "bp_files s fid \<noteq> None" "\<And>p. pool_pins s (page_key fid p) = 0" by blast
  then show thesis
  proof cases
    case 1
    then show thesis using error by (simp add: flush_file_def)
  next
    case (2 p)
    then show thesis using error flush_file_pinned [OF ok] by blast
  next
    case 3
    show thesis by (rule flush_file_ok [OF ok 3]) (use flushed 3 in blast)
  qed
qed

lemma held_flush: "guards_held s gs \<Longrightarrow> guards_held (snd (flush_file fid s)) gs"
  by (cases rule: flush_file_result [OF guards_heldD(1), of s gs fid]) (simp_all add: held_same)

lemma held_remove:
  assumes h: "guards_held s gs"
  shows "guards_held (snd (remove_file fid s)) gs"
  using guards_heldD(1) [OF h]
proof (cases rule: flush_file_result [where fid = fid])
  case (error e)
  then show ?thesis using h by (simp add: remove_file_def)
next
  case (flushed t)
  let ?u = "t\<lparr>bp_files := (bp_files t)(fid := None)\<rparr>"
  have "snd (remove_file fid s) = ?u" using flushed(1) by (simp add: remove_file_def)
  moreover have "pool_ok (snd (remove_file fid s))" by (rule remove_file_keeps_ok [OF guards_heldD(1) [OF h]])
  moreover have "bp_page_table ?u = bp_page_table t" "pool_pins ?u = pool_pins t"
    by (simp_all add: pool_pins_def [abs_def] frame_at_def cong: option.case_cong)
  ultimately show ?thesis using held_same [OF h flushed(2)] by (simp add: guards_held_def)
qed

subsection \<open>Runs of threads\<close>

lemma locked_open: "\<not> sp_poisoned s \<Longrightarrow> locked m s = (fst (m (sp_state s)), s\<lparr>sp_state := snd (m (sp_state s))\<rparr>)"
  by (simp add: locked_def lock_state_def case_prod_beta)

lemmas shared_calls = shared_register_file_def shared_get_page_def shared_get_page_mut_def shared_allocate_page_def
  shared_force_file_def shared_flush_file_def shared_remove_file_def

definition system_ok :: "pool_system \<Rightarrow> bool" where
  "system_ok y \<longleftrightarrow> \<not> sp_poisoned (sy_pool y) \<and> guards_held (sp_state (sy_pool y)) (sy_guards y)"

lemma thread_step_ok:
  assumes "thread_step y z" and ok: "system_ok y"
  shows "system_ok z"
proof -
  let ?s = "sp_state (sy_pool y)" and ?gs = "sy_guards y"
  have open_: "\<not> sp_poisoned (sy_pool y)" and h: "guards_held ?s ?gs" using ok by (simp_all add: system_ok_def)
  note run = locked_open [OF open_]
  from assms(1) show ?thesis
  proof (cases rule: thread_step.cases)
    case (th_register f r s)
    then show ?thesis using held_register [OF h] open_ by (auto simp: shared_calls run system_ok_def)
  next
    case (th_get fid pid r s th)
    show ?thesis
      using guards_heldD(1) [OF h] held_few [OF h th_get(2)]
    proof (cases rule: get_page_cases [where fid = fid and pid = pid])
      case (got i t)
      then show ?thesis
        using th_get(1,3) held_acquire [OF h, of "Reading \<lparr>rg_frame_id = i, rg_file_id = fid, rg_page_id = pid\<rparr>" t] open_
        by (auto simp: shared_calls run system_ok_def new_guards_def)
    next
      case (missing t)
      then show ?thesis using th_get(1,3) held_same [OF h] open_ by (auto simp: shared_calls run system_ok_def new_guards_def)
    next
      case full
      then show ?thesis using th_get(1,3) h open_ by (auto simp: shared_calls run system_ok_def new_guards_def)
    qed
  next
    case (th_get_mut fid pid r s th)
    show ?thesis
      using guards_heldD(1) [OF h] held_few [OF h th_get_mut(2)]
    proof (cases rule: get_page_mut_cases [where fid = fid and pid = pid])
      case (got i t)
      then show ?thesis
        using th_get_mut(1,3) held_acquire [OF h, of "Writing \<lparr>wg_frame_id = i, wg_file_id = fid, wg_page_id = pid\<rparr>" t] open_
        by (auto simp: shared_calls run system_ok_def new_guards_def)
    next
      case (missing t)
      then show ?thesis using th_get_mut(1,3) held_same [OF h] open_ by (auto simp: shared_calls run system_ok_def new_guards_def)
    next
      case full
      then show ?thesis using th_get_mut(1,3) h open_ by (auto simp: shared_calls run system_ok_def new_guards_def)
    qed
  next
    case (th_allocate fid r s th)
    show ?thesis
      using guards_heldD(1) [OF h]
    proof (cases rule: pool_allocate_page_cases [where fid = fid])
      case (allocated i p t)
      then show ?thesis
        using th_allocate held_acquire [OF h, of "Writing \<lparr>wg_frame_id = i, wg_file_id = fid, wg_page_id = p\<rparr>" t] open_
        by (auto simp: shared_calls run system_ok_def new_guards_def)
    next
      case (failed e t)
      then show ?thesis using th_allocate held_same [OF h] open_ by (auto simp: shared_calls run system_ok_def new_guards_def)
    next
      case full
      then show ?thesis using th_allocate h open_ by (auto simp: shared_calls run system_ok_def new_guards_def)
    qed
  next
    case (th_write th g d)
    then show ?thesis using held_write [OF h th_write(2)] open_ by (simp add: system_ok_def write_guard_write_def)
  next
    case (th_drop_read th g)
    then show ?thesis
      using held_drop [OF h th_drop_read(2)] open_ by (simp add: system_ok_def read_guard_drop_def lock_state_def guard_drop_def)
  next
    case (th_drop_write th g)
    then show ?thesis
      using held_drop [OF h th_drop_write(2)] open_ by (simp add: system_ok_def write_guard_drop_def lock_state_def guard_drop_def)
  next
    case (th_force fid page r s)
    then show ?thesis using held_force [OF h] open_ by (auto simp: shared_calls run system_ok_def)
  next
    case (th_flush fid r s)
    then show ?thesis using held_flush [OF h] open_ by (auto simp: shared_calls run system_ok_def)
  next
    case (th_remove fid r s)
    then show ?thesis using held_remove [OF h] open_ by (auto simp: shared_calls run system_ok_def)
  qed
qed

lemma threads_reach_ok: "threads_reach y \<Longrightarrow> system_ok y"
proof (induction rule: threads_reach.induct)
  case (threads_start n)
  then show ?case
    by (simp add: system_ok_def shared_new_def guards_held_def pool_new_ok pool_new_pins held_on_def fun_eq_iff)
qed (rule thread_step_ok)

text \<open>A poisoned lock: every method refuses and changes nothing, and a guard that is dropped keeps its pin.\<close>

lemma poisoned_refuses:
  assumes "sp_poisoned s"
  shows "locked m s = (Inl (LockPoisoned ''buffer pool state''), s)" and "read_guard_drop g s = s" and "write_guard_drop g' s = s"
  using assms by (simp_all add: locked_def lock_state_def read_guard_drop_def write_guard_drop_def)



end
