(* ===== verification/Page_Cache.thy ===== *)
theory Page_Cache
  imports Buffer_Properties
begin

section \<open>The page cache interface\<close>

text \<open>
  What the record layer relies on when it works through guards one page at a time: a fetched
  guard shows the page, what is stored through a write guard is the page's new contents, and
  after the guard is released the cache is idle again.  The buffer pool provides it, and its
  page counts per file change by allocation only.
\<close>

locale page_cache =
  fixes idle :: "'s \<Rightarrow> bool"
    and view :: "'s \<Rightarrow> 'k \<Rightarrow> u8 list option"
    and get :: "'k \<Rightarrow> 's \<Rightarrow> ('e + 'g) \<times> 's"
    and get_mut :: "'k \<Rightarrow> 's \<Rightarrow> ('e + 'g) \<times> 's"
    and data :: "'g \<Rightarrow> 's \<Rightarrow> u8 list"
    and put :: "'g \<Rightarrow> u8 list \<Rightarrow> 's \<Rightarrow> 's"
    and release :: "'g \<Rightarrow> 's \<Rightarrow> 's"
  assumes get_used: "idle s \<Longrightarrow> view s k = Some d \<Longrightarrow>
      \<exists>g t. get k s = (Inr g, t) \<and> data g t = d \<and> idle (release g t) \<and> view (release g t) = view s"
    and get_missing: "idle s \<Longrightarrow> view s k = None \<Longrightarrow> \<exists>e t. get k s = (Inl e, t) \<and> idle t \<and> view t = view s"
    and get_mut_used: "idle s \<Longrightarrow> view s k = Some d \<Longrightarrow>
      \<exists>g t. get_mut k s = (Inr g, t) \<and> data g t = d \<and>
        (\<forall>d'. length d' = 4092 \<longrightarrow>
           idle (release g (put g d' t)) \<and> view (release g (put g d' t)) = (view s)(k \<mapsto> d'))"
    and get_mut_missing: "idle s \<Longrightarrow> view s k = None \<Longrightarrow>
      \<exists>e t. get_mut k s = (Inl e, t) \<and> idle t \<and> view t = view s"
    and view_length: "idle s \<Longrightarrow> view s k = Some d \<Longrightarrow> length d = 4092"
begin

text \<open>One visit to a page: fetch, compute on the data, release.\<close>

definition visit :: "'k \<Rightarrow> (u8 list \<Rightarrow> 'a) \<Rightarrow> 's \<Rightarrow> ('e + 'a) \<times> 's" where
  "visit k f s = (case get k s of (Inl e, t) \<Rightarrow> (Inl e, t) | (Inr g, t) \<Rightarrow> (Inr (f (data g t)), release g t))"

definition visit_mut :: "'k \<Rightarrow> (u8 list \<Rightarrow> 'a \<times> u8 list) \<Rightarrow> 's \<Rightarrow> ('e + 'a) \<times> 's" where
  "visit_mut k f s = (case get_mut k s of
     (Inl e, t) \<Rightarrow> (Inl e, t)
   | (Inr g, t) \<Rightarrow> (case f (data g t) of (x, d) \<Rightarrow> (Inr x, release g (put g d t))))"

lemma visit_used:
  assumes "idle s" and "view s k = Some d"
  obtains t where "visit k f s = (Inr (f d), t)" and "idle t" and "view t = view s"
proof -
  obtain g t where "get k s = (Inr g, t)" "data g t = d" "idle (release g t)" "view (release g t) = view s"
    using get_used [OF assms] by blast
  then show thesis by (intro that [of "release g t"]) (simp_all add: visit_def)
qed

lemma visit_mut_used:
  assumes "idle s" and "view s k = Some d" and "f d = (x, d')" and "length d' = 4092"
  obtains t where "visit_mut k f s = (Inr x, t)" and "idle t" and "view t = (view s)(k \<mapsto> d')"
proof -
  obtain g t where "get_mut k s = (Inr g, t)" "data g t = d"
    "idle (release g (put g d' t))" "view (release g (put g d' t)) = (view s)(k \<mapsto> d')"
    using get_mut_used [OF assms(1,2)] assms(4) by blast
  then show thesis using assms(3) by (intro that [of "release g (put g d' t)"]) (simp_all add: visit_mut_def)
qed

text \<open>A visit sees what the last writing visit to its page left there.\<close>

lemma visit_after_visit_mut:
  assumes "idle s" and "view s k = Some d" and "f d = (x, d')" and "length d' = 4092"
    and "visit_mut k f s = (Inr x, t)"
  shows "fst (visit k h t) = Inr (h d')"
proof -
  obtain t' where "visit_mut k f s = (Inr x, t')" "idle t'" "view t' = (view s)(k \<mapsto> d')"
    by (rule visit_mut_used [where f = f, OF assms(1,2,3,4)])
  then have "idle t" "view t k = Some d'" using assms(5) by simp_all
  then obtain u where "visit k h t = (Inr (h d'), u)" by (rule visit_used)
  then show ?thesis by simp
qed

end

subsection \<open>Page counts\<close>

lemma num_pages_device [simp]: "pf_num_pages (snd (on_device m f)) = pf_num_pages f"
  by (simp add: on_device_def split: prod.splits)

lemma and_then_st_keeps:
  assumes "P (snd r)" and "\<And>x s. P s \<Longrightarrow> P (snd (k x s))"
  shows "P (snd (and_then_st r k))"
  using assms by (cases r; cases "fst r") auto

lemma num_pages_flush_loaded [simp]: "pf_num_pages (snd (flush_loaded_page f)) = pf_num_pages f"
  by (auto simp: flush_loaded_page_def split: option.splits
      intro!: and_then_st_keeps [where P = "\<lambda>g. pf_num_pages g = pf_num_pages f"])

lemma num_pages_flush_header [simp]: "pf_num_pages (snd (flush_header f)) = pf_num_pages f"
  by (auto simp: flush_header_def intro!: and_then_st_keeps [where P = "\<lambda>g. pf_num_pages g = pf_num_pages f"])

lemma num_pages_flush [simp]: "pf_num_pages (snd (page_flush f)) = pf_num_pages f"
  unfolding page_flush_def
  by (intro and_then_st_keeps [where P = "\<lambda>g. pf_num_pages g = pf_num_pages f"]) auto

lemma num_pages_load [simp]: "pf_num_pages (snd (load_page p f)) = pf_num_pages f"
  by (auto simp: load_page_def split: prod.splits
      intro!: and_then_st_keeps [where P = "\<lambda>g. pf_num_pages g = pf_num_pages f"])

lemma num_pages_read [simp]: "pf_num_pages (snd (read_page p f)) = pf_num_pages f"
  unfolding read_page_def
  by (intro and_then_st_keeps [where P = "\<lambda>g. pf_num_pages g = pf_num_pages f"]) auto

lemma num_pages_store [simp]: "pf_num_pages (snd (store_page p d f)) = pf_num_pages f"
  unfolding store_page_def write_page_def page_guard_store_def
  by (intro and_then_st_keeps [where P = "\<lambda>g. pf_num_pages g = pf_num_pages f"]) auto

definition pool_counts :: "buffer_pool \<Rightarrow> u32 \<Rightarrow> u32 option" where
  "pool_counts s fid = map_option (\<lambda>f. pf_num_pages f) (bp_files s fid)"

lemma pool_counts_fields [simp]:
  "pool_counts (s\<lparr>bp_page_table := a\<rparr>) = pool_counts s"
  "pool_counts (s\<lparr>bp_free_list := b\<rparr>) = pool_counts s"
  "pool_counts (s\<lparr>bp_frames := c\<rparr>) = pool_counts s"
  "pool_counts (s\<lparr>bp_mru_head := h\<rparr>) = pool_counts s"
  "pool_counts (s\<lparr>bp_lru_tail := h\<rparr>) = pool_counts s"
  "pool_counts (update_frame i g s) = pool_counts s"
  by (simp_all add: pool_counts_def update_frame_def fun_eq_iff)

lemma pool_counts_lists [simp]:
  "pool_counts (link_head i s) = pool_counts s" "pool_counts (unlink i s) = pool_counts s"
  "pool_counts (touch i s) = pool_counts s" "pool_counts (pin_frame i s) = pool_counts s"
proof -
  show lh: "pool_counts (link_head i s) = pool_counts s" for s
    by (simp add: link_head_def Let_def split: option.split)
  show ul: "pool_counts (unlink i s) = pool_counts s" for s
    by (simp add: unlink_def Let_def split: option.split)
  show "pool_counts (touch i s) = pool_counts s" "pool_counts (pin_frame i s) = pool_counts s"
    by (simp_all add: touch_def pin_frame_def lh ul)
qed

lemma pool_counts_guard [simp]:
  "pool_counts (guard_drop i s) = pool_counts s" "pool_counts (guard_write i d s) = pool_counts s"
  by (simp_all add: guard_drop_def unpin_frame_def guard_write_def Let_def)

lemma pool_counts_on_file:
  assumes "\<And>f. pf_num_pages (snd (m f)) = pf_num_pages f"
  shows "pool_counts (snd (on_file fid m s)) = pool_counts s"
proof (cases "bp_files s fid")
  case (Some f)
  then show ?thesis
    using assms [of f] by (cases "m f") (simp add: on_file_def pool_counts_def fun_eq_iff)
qed (simp add: on_file_def)

lemma pool_counts_flush_frame: "pool_counts (snd (flush_frame_if_dirty i s)) = pool_counts s"
proof -
  have "pf_num_pages (snd (and_then_st (store_page p d f) (\<lambda>_. page_flush))) = pf_num_pages f" for p d f
    by (rule and_then_st_keeps [where P = "\<lambda>g. pf_num_pages g = pf_num_pages f"]) auto
  then show ?thesis
    unfolding flush_frame_if_dirty_def Let_def
    by (auto intro!: and_then_st_keeps [where P = "\<lambda>t. pool_counts t = pool_counts s"] simp: pool_counts_on_file)
qed

lemma pool_counts_recycle: "pool_counts (snd (recycle_frame i s)) = pool_counts s"
  by (simp add: recycle_frame_def Let_def split: option.split)

lemma pool_counts_acquire: "pool_counts (snd (acquire_frame s)) = pool_counts s"
  by (auto simp: acquire_frame_def Let_def pool_counts_flush_frame pool_counts_recycle
      intro!: and_then_st_keeps [where P = "\<lambda>t. pool_counts t = pool_counts s"] split: option.split)

lemma pool_counts_install: "pool_counts (snd (install_frame i k d b s)) = pool_counts s"
  by (simp add: install_frame_def Let_def)

lemma pool_counts_read: "pool_counts (snd (read_page_data k s)) = pool_counts s"
  by (simp add: read_page_data_def pool_counts_on_file)

lemma pool_counts_get: "pool_counts (snd (get_page fid pid s)) = pool_counts s"
  and pool_counts_get_mut: "pool_counts (snd (get_page_mut fid pid s)) = pool_counts s"
  by (auto simp: get_page_def get_page_mut_def Let_def pool_counts_acquire pool_counts_read pool_counts_install
      intro!: and_then_st_keeps [where P = "\<lambda>t. pool_counts t = pool_counts s"] split: option.split)

lemma pool_counts_flush_frames: "pool_counts (snd (flush_frames is s)) = pool_counts s"
proof (induction "is" arbitrary: s)
  case (Cons i "is")
  then show ?case
    by (auto simp: pool_counts_flush_frame intro!: and_then_st_keeps [where P = "\<lambda>t. pool_counts t = pool_counts s"])
qed simp

lemma pool_counts_force: "pool_counts (snd (force_file fid page s)) = pool_counts s"
proof -
  have "pool_counts (snd (flush_registered fid t)) = pool_counts t" for t
    by (simp add: flush_registered_def pool_counts_on_file split: option.split)
  then show ?thesis
    by (auto simp: force_file_def pool_counts_flush_frames
        intro!: and_then_st_keeps [where P = "\<lambda>t. pool_counts t = pool_counts s"])
qed

subsection \<open>The idle pool\<close>

text \<open>No page is pinned, there is a frame to work with, and file \<open>fid\<close> has \<open>m fid\<close> pages.\<close>

definition pool_idle :: "(u32 \<Rightarrow> u32 option) \<Rightarrow> buffer_pool \<Rightarrow> bool" where
  "pool_idle m s \<longleftrightarrow>
     pool_ok s \<and> pool_pins s = (\<lambda>_. 0) \<and> 0 < length (bp_frames s) \<and> pool_counts s = m"

lemma pool_idle_not_full:
  assumes "pool_idle m s"
  shows "\<not> (\<forall>i < length (bp_frames s). pinned_at s i)"
proof -
  have core: "pool_core s" and len: "0 < length (bp_frames s)" and pins: "pool_pins s = (\<lambda>_. 0)"
    using assms by (auto simp: pool_idle_def pool_ok_def)
  have "\<not> pinned_at s 0"
  proof (cases "fr_key (frame_at s 0)")
    case None
    then show ?thesis using pool_coreD(2) [OF core len] by (simp add: pinned_at_def)
  next
    case (Some k)
    then have "bp_page_table s k = Some 0" using pool_coreD(4) [OF core, of k 0] len by simp
    then show ?thesis using fun_cong [OF pins, of k] by (simp add: pool_pins_def pinned_count)
  qed
  then show ?thesis using len by blast
qed

lemma pool_idle_few: "pool_idle m s \<Longrightarrow> pool_pins s k < 4294967295"
  by (simp add: pool_idle_def)

lemma same_pool_idle:
  assumes "same_pool s t" and "pool_idle m s" and "pool_counts t = pool_counts s"
  shows "pool_idle m t \<and> pool_view t = pool_view s"
  using assms by (simp add: same_pool_def pool_idle_def keeps_pinned_def)

text \<open>Releasing the only guard makes the pool idle again.\<close>

lemma guard_on_release:
  assumes idle: "pool_idle m s" and g: "guard_on k i s t" and counts: "pool_counts t = m'"
  shows "pool_idle m' (guard_drop i t) \<and> pool_view (guard_drop i t) = pool_view t"
    and "fr_dirty (frame_at t i) \<Longrightarrow> length d = 4092 \<Longrightarrow>
      pool_idle m' (guard_drop i (guard_write i d t)) \<and>
      pool_view (guard_drop i (guard_write i d t)) = (pool_view t)(k \<mapsto> d)"
proof -
  have ok: "pool_ok t" and tbl: "bp_page_table t k = Some i"
    and pins: "pool_pins t = (pool_pins s)(k := Suc (pool_pins s k))"
    and kp: "length (bp_frames t) = length (bp_frames s)"
    using g by (simp_all add: guard_on_def keeps_pinned_def)
  have zero: "pool_pins s = (\<lambda>_. 0)" and len: "0 < length (bp_frames s)"
    using idle by (simp_all add: pool_idle_def)
  have upd: "(\<lambda>_. 0)(k := 0) = (\<lambda>_. (0 :: nat))" by auto
  note dr = guard_drop_ok [OF ok tbl]
  show "pool_idle m' (guard_drop i t) \<and> pool_view (guard_drop i t) = pool_view t"
    using dr counts kp len by (simp add: pool_idle_def pins zero keeps_pinned_def upd)
  assume dirty: "fr_dirty (frame_at t i)" and d: "length d = 4092"
  note w = guard_write_ok [OF ok tbl dirty d]
  have tblw: "bp_page_table (guard_write i d t) k = Some i" using w(4) tbl by simp
  note dw = guard_drop_ok [OF w(1) tblw]
  show "pool_idle m' (guard_drop i (guard_write i d t)) \<and>
      pool_view (guard_drop i (guard_write i d t)) = (pool_view t)(k \<mapsto> d)"
    using dw w counts kp len by (simp add: pool_idle_def pins zero keeps_pinned_def upd)
qed

definition get_key :: "buffer_key \<Rightarrow> buffer_pool \<Rightarrow> (buffer_pool_error + nat) \<times> buffer_pool" where
  "get_key k = get_page (bk_file_id k) (bk_page_id k)"

definition get_key_mut :: "buffer_key \<Rightarrow> buffer_pool \<Rightarrow> (buffer_pool_error + nat) \<times> buffer_pool" where
  "get_key_mut k = get_page_mut (bk_file_id k) (bk_page_id k)"

lemma page_key_eq: "page_key (bk_file_id k) (bk_page_id k) = k"
  by (cases k) simp

lemma get_key_idle:
  assumes idle: "pool_idle m s"
  shows "case pool_view s k of
      Some d \<Rightarrow> \<exists>i t. get_key k s = (Inr i, t) \<and> guard_read i t = d \<and> pool_idle m (guard_drop i t) \<and>
        pool_view (guard_drop i t) = pool_view s
    | None \<Rightarrow> \<exists>e t. get_key k s = (Inl e, t) \<and> pool_idle m t \<and> pool_view t = pool_view s"
proof -
  obtain fid pid where k: "k = page_key fid pid" by (cases k) simp
  then have run: "get_page fid pid s = get_key k s" by (simp add: get_key_def)
  have ok: "pool_ok s" and cnt: "pool_counts s = m" using idle by (simp_all add: pool_idle_def)
  have counts: "pool_counts t = m" if "get_key k s = (r, t)" for r t
    using pool_counts_get [of fid pid s] that cnt by (simp add: run)
  show ?thesis
  proof (rule get_page_cases [OF ok pool_idle_few [OF idle], of fid pid, unfolded run, folded k])
    fix i t
    assume h: "get_key k s = (Inr i, t)" "pool_view s k = Some (guard_read i t)"
      "pool_view t = pool_view s" "guard_on k i s t"
    then show ?thesis using guard_on_release(1) [OF idle h(4) counts [OF h(1)]] by simp
  next
    fix t
    assume h: "get_key k s = (Inl (missing_page k s), t)" "pool_view s k = None" "same_pool s t"
    then show ?thesis using same_pool_idle [OF h(3) idle] counts [OF h(1)] cnt by simp
  next
    assume "\<forall>i<length (bp_frames s). pinned_at s i"
    then show ?thesis using pool_idle_not_full [OF idle] by blast
  qed
qed

lemma get_key_mut_idle:
  assumes idle: "pool_idle m s"
  shows "case pool_view s k of
      Some d \<Rightarrow> \<exists>i t. get_key_mut k s = (Inr i, t) \<and> guard_read i t = d \<and>
        (\<forall>d'. length d' = 4092 \<longrightarrow> pool_idle m (guard_drop i (guard_write i d' t)) \<and>
          pool_view (guard_drop i (guard_write i d' t)) = (pool_view s)(k \<mapsto> d'))
    | None \<Rightarrow> \<exists>e t. get_key_mut k s = (Inl e, t) \<and> pool_idle m t \<and> pool_view t = pool_view s"
proof -
  obtain fid pid where k: "k = page_key fid pid" by (cases k) simp
  then have run: "get_page_mut fid pid s = get_key_mut k s" by (simp add: get_key_mut_def)
  have ok: "pool_ok s" and cnt: "pool_counts s = m" using idle by (simp_all add: pool_idle_def)
  have counts: "pool_counts t = m" if "get_key_mut k s = (r, t)" for r t
    using pool_counts_get_mut [of fid pid s] that cnt by (simp add: run)
  show ?thesis
  proof (rule get_page_mut_cases [OF ok pool_idle_few [OF idle], of fid pid, unfolded run, folded k])
    fix i t
    assume h: "get_key_mut k s = (Inr i, t)" "pool_view s k = Some (guard_read i t)"
      "pool_view t = pool_view s" "guard_on k i s t" "fr_dirty (frame_at t i)"
    then show ?thesis using guard_on_release(2) [OF idle h(4) counts [OF h(1)] h(5)] by simp
  next
    fix t
    assume h: "get_key_mut k s = (Inl (missing_page k s), t)" "pool_view s k = None" "same_pool s t"
    then show ?thesis using same_pool_idle [OF h(3) idle] counts [OF h(1)] cnt by simp
  next
    assume "\<forall>i<length (bp_frames s). pinned_at s i"
    then show ?thesis using pool_idle_not_full [OF idle] by blast
  qed
qed

lemma pool_idle_view_length: "pool_idle m s \<Longrightarrow> pool_view s k = Some d \<Longrightarrow> length d = 4092"
  by (auto simp: pool_idle_def pool_ok_def intro: pool_view_length)

interpretation pc: page_cache "pool_idle m" pool_view get_key get_key_mut guard_read guard_write guard_drop
  for m
proof unfold_locales
  fix s k d
  assume h: "pool_idle m s" "pool_view s k = Some d"
  show "\<exists>g t. get_key k s = (Inr g, t) \<and> guard_read g t = d \<and> pool_idle m (guard_drop g t) \<and>
      pool_view (guard_drop g t) = pool_view s"
    using get_key_idle [OF h(1), of k] h(2) by simp
  show "\<exists>g t. get_key_mut k s = (Inr g, t) \<and> guard_read g t = d \<and>
      (\<forall>d'. length d' = 4092 \<longrightarrow> pool_idle m (guard_drop g (guard_write g d' t)) \<and>
        pool_view (guard_drop g (guard_write g d' t)) = (pool_view s)(k \<mapsto> d'))"
    using get_key_mut_idle [OF h(1), of k] h(2) by simp
  show "length d = 4092" using h by (rule pool_idle_view_length)
next
  fix s k
  assume h: "pool_idle m s" "pool_view s k = None"
  show "\<exists>e t. get_key k s = (Inl e, t) \<and> pool_idle m t \<and> pool_view t = pool_view s"
    using get_key_idle [OF h(1), of k] h(2) by simp
  show "\<exists>e t. get_key_mut k s = (Inl e, t) \<and> pool_idle m t \<and> pool_view t = pool_view s"
    using get_key_mut_idle [OF h(1), of k] h(2) by simp
qed

subsection \<open>Allocating in a file without free pages\<close>

lemma allocate_dense:
  assumes good: "page_file_good f" and dense: "\<forall>p. page_content f p \<noteq> None \<longleftrightarrow> p < pf_num_pages f"
    and room: "unat (pf_num_pages f) < 4294967295"
  obtains g where "allocate_page f = (Inr (pf_num_pages f), g)" and "pf_num_pages g = pf_num_pages f + 1"
proof -
  obtain a where ref: "page_refines f a" using good by (auto simp: page_file_good_def)
  have num: "pf_num_pages f = sp_num a" using ref by (simp add: page_refines_def)
  have free: "pf_free f (sp_free a)" using ref by (simp add: page_refines_def)
  have "p \<notin> set (sp_free a)" for p
  proof
    assume "p \<in> set (sp_free a)"
    then have "p < pf_num_pages f" "next_free f p \<noteq> PAGE_USED" using free by (auto simp: pf_free_def)
    then show False using dense [rule_format, of p] by (simp add: page_content_def)
  qed
  then have nofree: "sp_free a = []" by (cases "sp_free a") auto
  have "sp_allocate a = (Inr (sp_num a), a\<lparr>sp_pages := (sp_pages a)(sp_num a \<mapsto> replicate 4092 0), sp_num := sp_num a + 1\<rparr>)"
    using nofree room num by (simp add: sp_allocate_def)
  then have "fst (allocate_page f) = Inr (sp_num a)" "pf_num_pages (snd (allocate_page f)) = sp_num a + 1"
    using allocate_page_simulates [OF ref] by (simp_all add: simulates_def page_refines_def)
  then show thesis using that [of "snd (allocate_page f)"] num by (cases "allocate_page f") simp
qed

lemma pool_view_exists_iff: "pool_core s \<Longrightarrow> pool_view s k \<noteq> None \<longleftrightarrow> file_content s k \<noteq> None"
  using pool_coreD(5) [of s k] by (cases "bp_page_table s k") (auto simp: pool_view_def)

lemma pool_allocate_dense:
  assumes idle: "pool_idle m s" and cnt: "m fid = Some n" and room: "unat n < 4294967295"
    and dense: "\<forall>p. pool_view s (page_key fid p) \<noteq> None \<longleftrightarrow> p < n"
  obtains i t where "pool_allocate_page fid s = (Inr (i, n), t)" and "guard_read i t = replicate 4092 0"
    and "pool_view t = (pool_view s)(page_key fid n \<mapsto> replicate 4092 0)"
    and "guard_on (page_key fid n) i s t" and "fr_dirty (frame_at t i)"
    and "pool_counts t = m(fid \<mapsto> n + 1)"
proof -
  have ok: "pool_ok s" and counts: "pool_counts s = m" using idle by (simp_all add: pool_idle_def)
  obtain j t where acq: "acquire_frame s = (Inr j, t)" "acquired j s t"
    using acquire_frame_cases [OF ok] pool_idle_not_full [OF idle] by metis
  have core: "pool_core t" and view: "pool_view t = pool_view s" using acq(2) by (simp_all add: acquired_def)
  have ct: "pool_counts t = m" using pool_counts_acquire [of s] acq(1) counts by simp
  then obtain f where f: "bp_files t fid = Some f" "pf_num_pages f = n"
    using cnt fun_cong [OF ct, of fid] by (auto simp: pool_counts_def)
  have good: "page_file_good f" using pool_coreD(6) [OF core f(1)] by simp
  have "page_content f p \<noteq> None \<longleftrightarrow> p < pf_num_pages f" for p
    using pool_view_exists_iff [OF core, of "page_key fid p"] dense f view by (simp add: file_content_def)
  then obtain g where g: "allocate_page f = (Inr n, g)" "pf_num_pages g = n + 1"
    using allocate_dense [OF good] room f(2) by blast
  define u where "u = t\<lparr>bp_files := (bp_files t)(fid \<mapsto> g)\<rparr>"
  have al: "allocate_page_id fid t = (Inr n, u)"
    using f g(1) by (simp add: allocate_page_id_def on_file_def u_def)
  have cu: "pool_counts u = m(fid \<mapsto> n + 1)"
    using g(2) ct by (auto simp: u_def pool_counts_def fun_eq_iff)
  have run: "pool_allocate_page fid s =
      and_then_st (install_frame j (page_key fid n) (replicate 4092 0) True u) (\<lambda>_ s. (Inr (j, n), s))"
    using acq(1) al by (simp add: pool_allocate_page_def)
  have cv: "pool_counts v = m(fid \<mapsto> n + 1)" if "pool_allocate_page fid s = (Inr x, v)" for x v
    using pool_counts_install [of j "page_key fid n" "replicate 4092 0" True u] cu that
    by (auto simp: run and_then_st_Inr_iff)
  have errs: "e = BP_Corrupted ''page installed twice''" if "pool_allocate_page fid s = (Inl e, v)" for e v
    using that by (auto simp: run install_frame_def Let_def split: if_splits)
  show thesis
  proof (rule pool_allocate_page_cases [OF ok, of fid])
    fix i p v
    assume h: "pool_allocate_page fid s = (Inr (i, p), v)"
      "pool_view v = (pool_view s)(page_key fid p \<mapsto> replicate 4092 0)"
      "guard_on (page_key fid p) i s v" "fr_dirty (frame_at v i)" "guard_read i v = replicate 4092 0"
    have "p = n" using h(1) by (auto simp: run and_then_st_Inr_iff)
    then show thesis using that h cv [OF h(1)] by simp
  next
    fix e v
    assume "pool_allocate_page fid s = (Inl e, v)"
      "e = UnknownFile fid \<and> bp_files s fid = None \<or> (\<exists>e'. e = BP_PageStore e')"
    then show thesis using errs by auto
  next
    assume "\<forall>i<length (bp_frames s). pinned_at s i"
    then show thesis using pool_idle_not_full [OF idle] by blast
  qed
qed

end
