(* ===== verification/Record_Predicate.thy ===== *)
theory Record_Predicate
  imports Page_Cache
begin

section \<open>Record identifiers, errors and scan predicates (\<open>src/storage/record/mod.rs\<close>)\<close>

text \<open>
  The part of the record layer that does not touch pages: identifiers, the error type, and
  the three kinds of predicates a scan evaluates on the bytes of a record.  A predicate is
  validated against the record's length before every evaluation, as the source does.
\<close>

subsection \<open>Identifiers and errors\<close>

record rid =
  rid_page_id :: u32
  rid_slot_id :: u32

record db_record =
  rec_rid :: rid
  rec_data :: "u8 list"

datatype record_error =
    RE_PageStore page_store_error
  | RE_BufferPool buffer_pool_error
  | InvalidRecordSize nat
  | RecordTooLarge nat
  | InvalidPredicate string
  | PredicateOutOfBounds nat nat nat
  | InvalidRid rid
  | EmptySlot rid
  | SizeMismatch nat nat
  | RE_Corrupted string
  | RE_Diverges \<comment> \<open>not a value of the source: a scan that does not end\<close>

subsection \<open>Fields and values\<close>

datatype scan_comp_op = Op_NoOp | Op_Eq | Op_Ne | Op_Lt | Op_Gt | Op_Le | Op_Ge

datatype scan_field_type = Field_Int32 | Field_Float32 | Field_Bytes

datatype scan_value = SV_Int32 i32 | SV_Float32 f32 | SV_Bytes "u8 list"

record scan_field_ref =
  sf_offset :: nat
  sf_length :: nat
  sf_type :: scan_field_type

definition sf_int32 :: "nat \<Rightarrow> scan_field_ref" where
  "sf_int32 off = \<lparr>sf_offset = off, sf_length = 4, sf_type = Field_Int32\<rparr>"

definition sf_float32 :: "nat \<Rightarrow> scan_field_ref" where
  "sf_float32 off = \<lparr>sf_offset = off, sf_length = 4, sf_type = Field_Float32\<rparr>"

definition sf_bytes :: "nat \<Rightarrow> nat \<Rightarrow> scan_field_ref" where
  "sf_bytes off len = \<lparr>sf_offset = off, sf_length = len, sf_type = Field_Bytes\<rparr>"

definition validate_field :: "scan_field_ref \<Rightarrow> nat \<Rightarrow> record_error + unit" where
  "validate_field fr record_size =
     and_then (ok_or (InvalidPredicate ''field offset overflows'')
                 (checked_add_usize (sf_offset fr) (sf_length fr))) (\<lambda>fin.
       if record_size < fin then Inl (PredicateOutOfBounds (sf_offset fr) (sf_length fr) record_size)
       else case sf_type fr of
         Field_Int32 \<Rightarrow> if sf_length fr = 4 then Inr ()
           else Inl (InvalidPredicate ''int32 fields must be exactly 4 bytes wide'')
       | Field_Float32 \<Rightarrow> if sf_length fr = 4 then Inr ()
           else Inl (InvalidPredicate ''float32 fields must be exactly 4 bytes wide'')
       | Field_Bytes \<Rightarrow> if sf_length fr = 0
           then Inl (InvalidPredicate ''byte fields must span at least one byte'') else Inr ())"

definition field_bytes :: "u8 list \<Rightarrow> scan_field_ref \<Rightarrow> record_error + u8 list" where
  "field_bytes rec fr =
     and_then (validate_field fr (length rec)) (\<lambda>_. Inr (bytes_at (sf_offset fr) (sf_length fr) rec))"

definition validate_value_against_field :: "scan_field_ref \<Rightarrow> scan_value \<Rightarrow> record_error + unit" where
  "validate_value_against_field fr v =
     (case sf_type fr of
        Field_Int32 \<Rightarrow>
          (case v of SV_Int32 _ \<Rightarrow> if sf_length fr = 4 then Inr ()
               else Inl (InvalidPredicate ''int32 clauses must compare against a 4-byte Int32 value'')
             | _ \<Rightarrow> Inl (InvalidPredicate ''int32 clauses must compare against a 4-byte Int32 value''))
      | Field_Float32 \<Rightarrow>
          (case v of SV_Float32 _ \<Rightarrow> if sf_length fr = 4 then Inr ()
               else Inl (InvalidPredicate ''float32 clauses must compare against a 4-byte Float32 value'')
             | _ \<Rightarrow> Inl (InvalidPredicate ''float32 clauses must compare against a 4-byte Float32 value''))
      | Field_Bytes \<Rightarrow>
          (case v of SV_Bytes bs \<Rightarrow> if length bs = sf_length fr then Inr ()
               else Inl (InvalidPredicate ''byte clause value length must match the declared field length'')
             | _ \<Rightarrow> Inl (InvalidPredicate ''byte clause value length must match the declared field length'')))"

subsection \<open>Comparisons\<close>

fun compare_ordering :: "ordering \<Rightarrow> scan_comp_op \<Rightarrow> bool" where
  "compare_ordering ord Op_NoOp = True"
| "compare_ordering ord Op_Eq = (ord = Equal)"
| "compare_ordering ord Op_Ne = (ord \<noteq> Equal)"
| "compare_ordering ord Op_Lt = (ord = Less)"
| "compare_ordering ord Op_Gt = (ord = Greater)"
| "compare_ordering ord Op_Le = (ord \<noteq> Greater)"
| "compare_ordering ord Op_Ge = (ord \<noteq> Less)"

fun compare_field_to_value :: "u8 list \<Rightarrow> scan_field_type \<Rightarrow> scan_value \<Rightarrow> record_error + ordering" where
  "compare_field_to_value field Field_Int32 (SV_Int32 rhs) = Inr (cmp_i32 (from_le_bytes field) rhs)"
| "compare_field_to_value field Field_Float32 (SV_Float32 rhs) = Inr (total_cmp (from_le_bytes field) rhs)"
| "compare_field_to_value field Field_Bytes (SV_Bytes rhs) = Inr (cmp_bytes field rhs)"
| "compare_field_to_value field _ _ =
     Inl (InvalidPredicate ''predicate field type does not match the right-hand value type'')"

fun compare_fields :: "u8 list \<Rightarrow> scan_field_type \<Rightarrow> u8 list \<Rightarrow> record_error + ordering" where
  "compare_fields lhs Field_Int32 rhs = Inr (cmp_i32 (from_le_bytes lhs) (from_le_bytes rhs))"
| "compare_fields lhs Field_Float32 rhs = Inr (total_cmp (from_le_bytes lhs) (from_le_bytes rhs))"
| "compare_fields lhs Field_Bytes rhs = Inr (cmp_bytes lhs rhs)"

subsection \<open>Single predicates\<close>

record scan_predicate =
  sp_offset :: nat
  sp_length :: nat
  sp_type :: scan_field_type
  sp_op :: scan_comp_op
  sp_value :: "scan_value option"

definition predicate_always_true :: scan_predicate where
  "predicate_always_true =
     \<lparr>sp_offset = 0, sp_length = 0, sp_type = Field_Bytes, sp_op = Op_NoOp, sp_value = None\<rparr>"

definition predicate_int32 :: "nat \<Rightarrow> scan_comp_op \<Rightarrow> i32 \<Rightarrow> scan_predicate" where
  "predicate_int32 off cop v =
     \<lparr>sp_offset = off, sp_length = 4, sp_type = Field_Int32, sp_op = cop, sp_value = Some (SV_Int32 v)\<rparr>"

definition predicate_float32 :: "nat \<Rightarrow> scan_comp_op \<Rightarrow> f32 \<Rightarrow> scan_predicate" where
  "predicate_float32 off cop v =
     \<lparr>sp_offset = off, sp_length = 4, sp_type = Field_Float32, sp_op = cop, sp_value = Some (SV_Float32 v)\<rparr>"

definition predicate_bytes :: "nat \<Rightarrow> nat \<Rightarrow> scan_comp_op \<Rightarrow> u8 list \<Rightarrow> scan_predicate" where
  "predicate_bytes off len cop v =
     \<lparr>sp_offset = off, sp_length = len, sp_type = Field_Bytes, sp_op = cop, sp_value = Some (SV_Bytes v)\<rparr>"

definition predicate_validate :: "scan_predicate \<Rightarrow> nat \<Rightarrow> record_error + unit" where
  "predicate_validate p record_size =
     (if sp_op p = Op_NoOp then Inr ()
      else and_then (ok_or (InvalidPredicate ''predicate offset overflows'')
                       (checked_add_usize (sp_offset p) (sp_length p))) (\<lambda>fin.
        if record_size < fin then Inl (PredicateOutOfBounds (sp_offset p) (sp_length p) record_size)
        else case sp_type p of
          Field_Int32 \<Rightarrow>
            (case sp_value p of
               None \<Rightarrow> Inl (InvalidPredicate ''non-NO_OP predicates require a right-hand value'')
             | Some v \<Rightarrow> if sp_length p = 4 \<and> (\<exists>i. v = SV_Int32 i) then Inr ()
                 else Inl (InvalidPredicate ''int32 predicates must use a 4-byte Int32 value''))
        | Field_Float32 \<Rightarrow>
            (case sp_value p of
               None \<Rightarrow> Inl (InvalidPredicate ''non-NO_OP predicates require a right-hand value'')
             | Some v \<Rightarrow> if sp_length p = 4 \<and> (\<exists>x. v = SV_Float32 x) then Inr ()
                 else Inl (InvalidPredicate ''float32 predicates must use a 4-byte Float32 value''))
        | Field_Bytes \<Rightarrow>
            if sp_length p = 0 then Inl (InvalidPredicate ''byte predicates must compare at least one byte'')
            else
            (case sp_value p of
               None \<Rightarrow> Inl (InvalidPredicate ''non-NO_OP predicates require a right-hand value'')
             | Some v \<Rightarrow> if (\<exists>bs. v = SV_Bytes bs \<and> length bs = sp_length p) then Inr ()
                 else Inl (InvalidPredicate
                   ''byte predicate value length must match the declared field length''))))"

definition predicate_matches :: "scan_predicate \<Rightarrow> u8 list \<Rightarrow> record_error + bool" where
  "predicate_matches p rec =
     and_then (predicate_validate p (length rec)) (\<lambda>_.
       if sp_op p = Op_NoOp then Inr True
       else
         and_then (ok_or (InvalidPredicate ''non-NO_OP predicates require a right-hand value'') (sp_value p)) (\<lambda>v.
         and_then (compare_field_to_value (bytes_at (sp_offset p) (sp_length p) rec) (sp_type p) v) (\<lambda>ord.
           Inr (compare_ordering ord (sp_op p)))))"

subsection \<open>Clauses, conjunctions and logic trees\<close>

datatype scan_rhs = Rhs_Value scan_value | Rhs_Field scan_field_ref

record predicate_clause =
  pc_lhs :: scan_field_ref
  pc_op :: scan_comp_op
  pc_rhs :: scan_rhs

definition clause_validate :: "predicate_clause \<Rightarrow> nat \<Rightarrow> record_error + unit" where
  "clause_validate c record_size =
     (if pc_op c = Op_NoOp then Inr ()
      else and_then (validate_field (pc_lhs c) record_size) (\<lambda>_.
        case pc_rhs c of
          Rhs_Value v \<Rightarrow> validate_value_against_field (pc_lhs c) v
        | Rhs_Field rhs \<Rightarrow>
            and_then (validate_field rhs record_size) (\<lambda>_.
              if sf_type (pc_lhs c) \<noteq> sf_type rhs \<or> sf_length (pc_lhs c) \<noteq> sf_length rhs
              then Inl (InvalidPredicate ''field-to-field comparisons require matching types and lengths'')
              else Inr ())))"

definition clause_matches :: "predicate_clause \<Rightarrow> u8 list \<Rightarrow> record_error + bool" where
  "clause_matches c rec =
     and_then (clause_validate c (length rec)) (\<lambda>_.
       if pc_op c = Op_NoOp then Inr True
       else
         and_then (field_bytes rec (pc_lhs c)) (\<lambda>lhs.
         and_then (case pc_rhs c of
             Rhs_Value v \<Rightarrow> compare_field_to_value lhs (sf_type (pc_lhs c)) v
           | Rhs_Field rhs \<Rightarrow> and_then (field_bytes rec rhs) (\<lambda>rhs_bytes.
               compare_fields lhs (sf_type (pc_lhs c)) rhs_bytes)) (\<lambda>ord.
           Inr (compare_ordering ord (pc_op c)))))"

text \<open>A compound predicate is the list of its clauses.\<close>

definition compound_and :: "predicate_clause list \<Rightarrow> record_error + predicate_clause list" where
  "compound_and cs =
     (if cs = [] then Inl (InvalidPredicate ''compound predicates must contain at least one clause'') else Inr cs)"

fun compound_validate :: "predicate_clause list \<Rightarrow> nat \<Rightarrow> record_error + unit" where
  "compound_validate [] n = Inr ()"
| "compound_validate (c # cs) n = and_then (clause_validate c n) (\<lambda>_. compound_validate cs n)"

fun compound_loop :: "predicate_clause list \<Rightarrow> u8 list \<Rightarrow> record_error + bool" where
  "compound_loop [] rec = Inr True"
| "compound_loop (c # cs) rec =
     and_then (clause_matches c rec) (\<lambda>b. if b then compound_loop cs rec else Inr False)"

definition compound_matches :: "predicate_clause list \<Rightarrow> u8 list \<Rightarrow> record_error + bool" where
  "compound_matches cs rec = and_then (compound_validate cs (length rec)) (\<lambda>_. compound_loop cs rec)"

datatype logic_filter =
    LF_Clause predicate_clause
  | LF_All "predicate_clause list"
  | LF_And "logic_filter list"
  | LF_Or "logic_filter list"
  | LF_Not logic_filter

definition logic_and :: "logic_filter list \<Rightarrow> record_error + logic_filter" where
  "logic_and cs =
     (if cs = [] then Inl (InvalidPredicate ''logic AND nodes must contain at least one child'') else Inr (LF_And cs))"

definition logic_or :: "logic_filter list \<Rightarrow> record_error + logic_filter" where
  "logic_or cs =
     (if cs = [] then Inl (InvalidPredicate ''logic OR nodes must contain at least one child'') else Inr (LF_Or cs))"

fun logic_validate :: "logic_filter \<Rightarrow> nat \<Rightarrow> record_error + unit"
  and logic_validate_all :: "logic_filter list \<Rightarrow> nat \<Rightarrow> record_error + unit" where
  "logic_validate (LF_Clause c) n = clause_validate c n"
| "logic_validate (LF_All cs) n = compound_validate cs n"
| "logic_validate (LF_And fs) n =
     (if fs = [] then Inl (InvalidPredicate ''logic AND nodes must contain at least one child'')
      else logic_validate_all fs n)"
| "logic_validate (LF_Or fs) n =
     (if fs = [] then Inl (InvalidPredicate ''logic OR nodes must contain at least one child'')
      else logic_validate_all fs n)"
| "logic_validate (LF_Not f) n = logic_validate f n"
| "logic_validate_all [] n = Inr ()"
| "logic_validate_all (f # fs) n = and_then (logic_validate f n) (\<lambda>_. logic_validate_all fs n)"

fun logic_matches :: "logic_filter \<Rightarrow> u8 list \<Rightarrow> record_error + bool"
  and logic_matches_all :: "logic_filter list \<Rightarrow> u8 list \<Rightarrow> record_error + bool"
  and logic_matches_any :: "logic_filter list \<Rightarrow> u8 list \<Rightarrow> record_error + bool" where
  "logic_matches (LF_Clause c) rec =
     and_then (logic_validate (LF_Clause c) (length rec)) (\<lambda>_. clause_matches c rec)"
| "logic_matches (LF_All cs) rec =
     and_then (logic_validate (LF_All cs) (length rec)) (\<lambda>_. compound_matches cs rec)"
| "logic_matches (LF_And fs) rec =
     and_then (logic_validate (LF_And fs) (length rec)) (\<lambda>_. logic_matches_all fs rec)"
| "logic_matches (LF_Or fs) rec =
     and_then (logic_validate (LF_Or fs) (length rec)) (\<lambda>_. logic_matches_any fs rec)"
| "logic_matches (LF_Not f) rec =
     and_then (logic_validate (LF_Not f) (length rec)) (\<lambda>_.
       and_then (logic_matches f rec) (\<lambda>b. Inr (\<not> b)))"
| "logic_matches_all [] rec = Inr True"
| "logic_matches_all (f # fs) rec =
     and_then (logic_matches f rec) (\<lambda>b. if b then logic_matches_all fs rec else Inr False)"
| "logic_matches_any [] rec = Inr False"
| "logic_matches_any (f # fs) rec =
     and_then (logic_matches f rec) (\<lambda>b. if b then Inr True else logic_matches_any fs rec)"

subsection \<open>What predicates mean\<close>

definition field_value :: "scan_field_ref \<Rightarrow> u8 list \<Rightarrow> scan_value" where
  "field_value fr rec =
     (let bs = bytes_at (sf_offset fr) (sf_length fr) rec in
      case sf_type fr of
        Field_Int32 \<Rightarrow> SV_Int32 (from_le_bytes bs)
      | Field_Float32 \<Rightarrow> SV_Float32 (from_le_bytes bs)
      | Field_Bytes \<Rightarrow> SV_Bytes bs)"

fun value_ordering :: "scan_value \<Rightarrow> scan_value \<Rightarrow> ordering" where
  "value_ordering (SV_Int32 a) (SV_Int32 b) = cmp_i32 a b"
| "value_ordering (SV_Float32 a) (SV_Float32 b) = total_cmp a b"
| "value_ordering (SV_Bytes a) (SV_Bytes b) = cmp_bytes a b"
| "value_ordering _ _ = Equal"

definition clause_holds :: "predicate_clause \<Rightarrow> u8 list \<Rightarrow> bool" where
  "clause_holds c rec = compare_ordering
     (value_ordering (field_value (pc_lhs c) rec)
        (case pc_rhs c of Rhs_Value v \<Rightarrow> v | Rhs_Field fr \<Rightarrow> field_value fr rec)) (pc_op c)"

primrec logic_holds :: "logic_filter \<Rightarrow> u8 list \<Rightarrow> bool" where
  "logic_holds (LF_Clause c) rec = clause_holds c rec"
| "logic_holds (LF_All cs) rec = list_all (\<lambda>c. clause_holds c rec) cs"
| "logic_holds (LF_And fs) rec = list_all (\<lambda>b. b) (map (\<lambda>f. logic_holds f rec) fs)"
| "logic_holds (LF_Or fs) rec = list_ex (\<lambda>b. b) (map (\<lambda>f. logic_holds f rec) fs)"
| "logic_holds (LF_Not f) rec = (\<not> logic_holds f rec)"

lemma compare_value_ordering:
  "validate_value_against_field fr v = Inr () \<Longrightarrow>
     compare_field_to_value (bytes_at (sf_offset fr) (sf_length fr) rec) (sf_type fr) v =
       Inr (value_ordering (field_value fr rec) v)"
  by (cases "sf_type fr"; cases v)
    (auto simp: validate_value_against_field_def field_value_def Let_def)

lemma compare_fields_ordering:
  "sf_type fr = sf_type fr' \<Longrightarrow> sf_length fr = sf_length fr' \<Longrightarrow>
     compare_fields (bytes_at (sf_offset fr) (sf_length fr') rec) (sf_type fr') (bytes_at (sf_offset fr') (sf_length fr') rec) =
       Inr (value_ordering (field_value fr rec) (field_value fr' rec))"
  by (cases "sf_type fr'") (auto simp: field_value_def Let_def)

lemma clause_matches_holds:
  "clause_validate c (length rec) = Inr () \<Longrightarrow> clause_matches c rec = Inr (clause_holds c rec)"
  by (cases "pc_rhs c")
    (auto simp: clause_matches_def clause_validate_def clause_holds_def field_bytes_def
      compare_value_ordering compare_fields_ordering split: if_splits)

lemma compound_matches_holds:
  "compound_validate cs (length rec) = Inr () \<Longrightarrow>
     compound_matches cs rec = Inr (list_all (\<lambda>c. clause_holds c rec) cs)"
proof -
  assume v: "compound_validate cs (length rec) = Inr ()"
  then have "compound_loop cs rec = Inr (list_all (\<lambda>c. clause_holds c rec) cs)"
    by (induction cs) (auto simp: clause_matches_holds)
  with v show ?thesis by (simp add: compound_matches_def)
qed

lemma logic_matches_holds:
  "logic_validate f (length rec) = Inr () \<Longrightarrow> logic_matches f rec = Inr (logic_holds f rec)"
  "logic_validate_all fs (length rec) = Inr () \<Longrightarrow>
     logic_matches_all fs rec = Inr (list_all (\<lambda>f. logic_holds f rec) fs)"
  "logic_validate_all fs (length rec) = Inr () \<Longrightarrow>
     logic_matches_any fs rec = Inr (list_ex (\<lambda>f. logic_holds f rec) fs)"
  by (induction f rec and fs rec and fs rec rule: logic_matches_logic_matches_all_logic_matches_any.induct)
    (auto simp: clause_matches_holds compound_matches_holds list_all_iff list_ex_iff split: if_splits)



lemma predicate_validate_parts:
  assumes op: "sp_op p \<noteq> Op_NoOp" and v: "sp_value p = Some v" and valid: "predicate_validate p n = Inr ()"
  defines "fr \<equiv> \<lparr>sf_offset = sp_offset p, sf_length = sp_length p, sf_type = sp_type p\<rparr>"
  shows "validate_field fr n = Inr () \<and> validate_value_against_field fr v = Inr ()"
proof -
  obtain fin where fin: "checked_add_usize (sp_offset p) (sp_length p) = Some fin" "fin \<le> n"
    using op valid by (simp add: predicate_validate_def not_less split: if_splits)
  note parts = valid [unfolded predicate_validate_def v] op fin
  show ?thesis
  proof (cases "sp_type p")
    case Field_Int32
    then show ?thesis
      using parts by (simp add: fr_def validate_field_def validate_value_against_field_def split: if_splits)
  next
    case Field_Float32
    then show ?thesis
      using parts by (simp add: fr_def validate_field_def validate_value_against_field_def split: if_splits)
  next
    case Field_Bytes
    then show ?thesis
      using parts by (simp add: fr_def validate_field_def validate_value_against_field_def split: if_splits)
  qed
qed

text \<open>C30: The single predicates agree with the clauses: on a field that validates, a predicate with a
  right-hand value evaluates to the same result as the clause over the same field, operator and value.\<close>

theorem predicate_agrees_with_clause:
  assumes "sp_op p \<noteq> Op_NoOp" and "sp_value p = Some v" and "predicate_validate p (length rec) = Inr ()"
  shows "predicate_matches p rec = clause_matches
    \<lparr>pc_lhs = \<lparr>sf_offset = sp_offset p, sf_length = sp_length p, sf_type = sp_type p\<rparr>,
     pc_op = sp_op p, pc_rhs = Rhs_Value v\<rparr> rec"
proof -
  let ?c = "\<lparr>pc_lhs = \<lparr>sf_offset = sp_offset p, sf_length = sp_length p, sf_type = sp_type p\<rparr>,
     pc_op = sp_op p, pc_rhs = Rhs_Value v\<rparr>"
  have valid: "validate_field (pc_lhs ?c) (length rec) = Inr ()"
    "validate_value_against_field (pc_lhs ?c) v = Inr ()"
    using predicate_validate_parts [OF assms] by simp_all
  have "predicate_matches p rec =
      and_then (compare_field_to_value (bytes_at (sp_offset p) (sp_length p) rec) (sp_type p) v)
        (\<lambda>ord. Inr (compare_ordering ord (sp_op p)))"
    using assms by (simp add: predicate_matches_def)
  moreover have "clause_matches ?c rec =
      and_then (compare_field_to_value (bytes_at (sp_offset p) (sp_length p) rec) (sp_type p) v)
        (\<lambda>ord. Inr (compare_ordering ord (sp_op p)))"
    using assms(1) valid by (simp add: clause_matches_def clause_validate_def field_bytes_def)
  ultimately show ?thesis by simp
qed

theorem predicate_agrees_with_clause_witness:
  "predicate_matches (predicate_int32 0 Op_Ge 5) [7, 0, 0, 0] =
     clause_matches \<lparr>pc_lhs = sf_int32 0, pc_op = Op_Ge, pc_rhs = Rhs_Value (SV_Int32 5)\<rparr> [7, 0, 0, 0]"
proof -
  have "predicate_validate (predicate_int32 0 Op_Ge 5) (length [7, 0, 0, 0 :: u8]) = Inr ()"
    by (simp add: predicate_int32_def predicate_validate_def checked_add_usize_def)
  from predicate_agrees_with_clause [OF _ _ this, of "SV_Int32 5"] show ?thesis
    by (simp add: predicate_int32_def sf_int32_def)
qed

end
