(* ===== verification/Record_Layout.thy ===== *)
theory Record_Layout
  imports Record_Predicate
begin

section \<open>Headers and page layout of record files (\<open>src/storage/record/mod.rs\<close>)\<close>

text \<open>
  A record file keeps a header of sixteen bytes in page 0.  Every other page starts with a
  header of twelve bytes, then a bitmap with a bit per slot (set when the slot is free), then
  the slots.  The functions here work on the 4092 data bytes of one page.
\<close>

subsection \<open>Constants and the number of slots\<close>

definition RECORD_FILE_HEADER_SIZE :: nat where
  [size_consts, simp]: "RECORD_FILE_HEADER_SIZE = 16"

definition RECORD_PAGE_HEADER_SIZE :: nat where
  [size_consts, simp]: "RECORD_PAGE_HEADER_SIZE = 12"

definition RECORD_PAGE_LIST_END :: i32 where
  [size_consts, simp]: "RECORD_PAGE_LIST_END = -1"

definition RECORD_PAGE_FULL :: i32 where
  [size_consts, simp]: "RECORD_PAGE_FULL = -2"

definition HEADER_PAGE_ID :: u32 where
  [size_consts, simp]: "HEADER_PAGE_ID = 0"

definition bitmap_bytes :: "nat \<Rightarrow> nat" where
  "bitmap_bytes num_slots = (num_slots + 7) div 8"

fun slots_loop :: "nat \<Rightarrow> nat \<Rightarrow> record_error + nat" where
  "slots_loop record_size 0 = Inl (RecordTooLarge record_size)"
| "slots_loop record_size (Suc n) =
     (if RECORD_PAGE_HEADER_SIZE + bitmap_bytes (Suc n) + Suc n * record_size \<le> PAGE_DATA_SIZE
      then Inr (Suc n) else slots_loop record_size n)"

definition compute_slots_per_page :: "nat \<Rightarrow> record_error + nat" where
  "compute_slots_per_page record_size =
     (if record_size = 0 then Inl (InvalidRecordSize record_size)
      else slots_loop record_size (PAGE_DATA_SIZE div record_size))"

text \<open>What a page with \<open>n\<close> slots of \<open>size\<close> bytes takes.\<close>

definition slots_fit :: "nat \<Rightarrow> nat \<Rightarrow> bool" where
  "slots_fit rs n \<longleftrightarrow> 12 + bitmap_bytes n + n * rs \<le> 4092"

lemma bitmap_bytes_mono: "m \<le> n \<Longrightarrow> bitmap_bytes m \<le> bitmap_bytes n"
  by (simp add: bitmap_bytes_def div_le_mono)

lemma slots_fit_mono: "slots_fit rs n \<Longrightarrow> m \<le> n \<Longrightarrow> slots_fit rs m"
  using bitmap_bytes_mono [of m n] mult_le_mono1 [of m n rs] unfolding slots_fit_def by linarith

lemma slots_loop_result:
  "case slots_loop rs k of
     Inr n \<Rightarrow> 0 < n \<and> n \<le> k \<and> slots_fit rs n \<and> (\<forall>m. n < m \<longrightarrow> m \<le> k \<longrightarrow> \<not> slots_fit rs m)
   | Inl e \<Rightarrow> e = RecordTooLarge rs \<and> (\<forall>m. 0 < m \<longrightarrow> m \<le> k \<longrightarrow> \<not> slots_fit rs m)"
proof (induction k)
  case 0
  then show ?case by simp
next
  case (Suc k)
  show ?case
  proof (cases "slots_fit rs (Suc k)")
    case True
    then show ?thesis by (simp add: slots_fit_def)
  next
    case False
    then have "slots_loop rs (Suc k) = slots_loop rs k" by (simp add: slots_fit_def)
    then show ?thesis using Suc False by (auto simp: le_Suc_eq split: sum.splits)
  qed
qed

lemma slots_fit_div: "0 < rs \<Longrightarrow> slots_fit rs n \<Longrightarrow> n \<le> 4092 div rs"
  by (simp add: slots_fit_def less_eq_div_iff_mult_less_eq)

lemma compute_slots_result:
  assumes "0 < rs"
  shows "case compute_slots_per_page rs of
      Inr n \<Rightarrow> 0 < n \<and> slots_fit rs n \<and> (\<forall>m. n < m \<longrightarrow> \<not> slots_fit rs m)
    | Inl e \<Rightarrow> e = RecordTooLarge rs \<and> (\<forall>m. 0 < m \<longrightarrow> \<not> slots_fit rs m)"
proof -
  have small: "m \<le> 4092 div rs" if "slots_fit rs m" for m using slots_fit_div [OF assms that] .
  have run: "compute_slots_per_page rs = slots_loop rs (4092 div rs)"
    using assms by (simp add: compute_slots_per_page_def)
  show ?thesis
  proof (cases "slots_loop rs (4092 div rs)")
    case (Inl e)
    then show ?thesis using slots_loop_result [of rs "4092 div rs"] small by (simp add: run) blast
  next
    case (Inr n)
    then show ?thesis using slots_loop_result [of rs "4092 div rs"] small by (simp add: run) blast
  qed
qed

lemma compute_slots_Inr:
  assumes "compute_slots_per_page rs = Inr n"
  shows "0 < rs" and "0 < n" and "slots_fit rs n" and "n \<le> 4092" and "rs \<le> 4092"
proof -
  show rs: "0 < rs" using assms by (auto simp: compute_slots_per_page_def split: if_splits)
  show "0 < n" and fit: "slots_fit rs n" using compute_slots_result [OF rs] assms by simp_all
  have "n * rs \<le> 4092" using fit by (simp add: slots_fit_def)
  moreover have "n \<le> n * rs" "rs \<le> n * rs" using rs \<open>0 < n\<close> by simp_all
  ultimately show "n \<le> 4092" "rs \<le> 4092" by linarith+
qed

subsection \<open>The file header\<close>

record record_file_header =
  rh_record_size :: u32
  rh_slots_per_page :: u32
  rh_first_free_page :: i32
  rh_num_pages :: u32

definition record_header_new :: "nat \<Rightarrow> record_error + record_file_header" where
  "record_header_new record_size =
     (if record_size = 0 then Inl (InvalidRecordSize record_size)
      else and_then (compute_slots_per_page record_size) (\<lambda>slots.
        Inr \<lparr>rh_record_size = of_nat record_size, rh_slots_per_page = of_nat slots,
             rh_first_free_page = RECORD_PAGE_LIST_END, rh_num_pages = 0\<rparr>))"

definition record_header_encode :: "record_file_header \<Rightarrow> u8 list" where
  "record_header_encode h =
     to_le_bytes (rh_record_size h) @ to_le_bytes (rh_slots_per_page h) @
     to_le_bytes (rh_first_free_page h) @ to_le_bytes (rh_num_pages h)"

definition record_header_validate :: "record_file_header \<Rightarrow> record_error + unit" where
  "record_header_validate h =
     (if unat (rh_record_size h) = 0 then Inl (RE_Corrupted ''record size must be greater than zero'')
      else and_then (compute_slots_per_page (unat (rh_record_size h))) (\<lambda>expected_slots.
        if unat (rh_slots_per_page h) \<noteq> expected_slots
        then Inl (RE_Corrupted ''stored slots_per_page does not match record size'')
        else if sint (rh_first_free_page h) < sint RECORD_PAGE_LIST_END
        then Inl (RE_Corrupted ''first_free_page is smaller than the free-list sentinel'')
        else if rh_first_free_page h \<noteq> RECORD_PAGE_LIST_END \<and> rh_num_pages h < rh_first_free_page h
        then Inl (RE_Corrupted ''first_free_page points outside the data-page range'')
        else Inr ()))"

definition record_header_decode :: "u8 list \<Rightarrow> record_error + record_file_header" where
  "record_header_decode buf =
     (if length buf < RECORD_FILE_HEADER_SIZE then Inl (RE_Corrupted ''header page is too short'')
      else
        let h = \<lparr>rh_record_size = from_le_bytes (bytes_at 0 4 buf),
                 rh_slots_per_page = from_le_bytes (bytes_at 4 4 buf),
                 rh_first_free_page = from_le_bytes (bytes_at 8 4 buf),
                 rh_num_pages = from_le_bytes (bytes_at 12 4 buf)\<rparr>
        in and_then (record_header_validate h) (\<lambda>_. Inr h))"

lemma bytes_at_append:
  "bytes_at off n (xs @ ys) =
     (if off + n \<le> length xs then bytes_at off n xs
      else if length xs \<le> off then bytes_at (off - length xs) n ys
      else drop off xs @ take (n - (length xs - off)) ys)"
  by (auto simp: bytes_at_def)

lemma length_record_header_encode [simp]: "length (record_header_encode h) = 16"
  by (simp add: record_header_encode_def)

lemma record_header_decode_encode:
  "record_header_decode (record_header_encode h) = and_then (record_header_validate h) (\<lambda>_. Inr h)"
  by (cases h) (simp add: record_header_decode_def record_header_encode_def bytes_at_append Let_def)

subsection \<open>The page header\<close>

record record_page_header =
  rp_next_free_page :: i32
  rp_num_slots :: u32
  rp_num_free_slots :: u32

definition page_header_new :: "nat \<Rightarrow> record_page_header" where
  "page_header_new num_slots =
     \<lparr>rp_next_free_page = RECORD_PAGE_LIST_END, rp_num_slots = of_nat num_slots,
      rp_num_free_slots = of_nat num_slots\<rparr>"

definition page_header_bytes :: "record_page_header \<Rightarrow> u8 list" where
  "page_header_bytes h =
     to_le_bytes (rp_next_free_page h) @ to_le_bytes (rp_num_slots h) @ to_le_bytes (rp_num_free_slots h)"

definition page_header_encode :: "record_page_header \<Rightarrow> u8 list \<Rightarrow> u8 list" where
  "page_header_encode h buf = put_at 0 (page_header_bytes h) buf"

definition page_header_decode :: "u8 list \<Rightarrow> record_error + record_page_header" where
  "page_header_decode buf =
     (if length buf < RECORD_PAGE_HEADER_SIZE then Inl (RE_Corrupted ''record page header is too short'')
      else Inr \<lparr>rp_next_free_page = from_le_bytes (bytes_at 0 4 buf),
                rp_num_slots = from_le_bytes (bytes_at 4 4 buf),
                rp_num_free_slots = from_le_bytes (bytes_at 8 4 buf)\<rparr>)"

definition page_header_validate :: "record_page_header \<Rightarrow> nat \<Rightarrow> record_error + unit" where
  "page_header_validate h expected_slots =
     (if unat (rp_num_slots h) \<noteq> expected_slots then Inl (RE_Corrupted ''record page slot count mismatch'')
      else if unat (rp_num_slots h) < unat (rp_num_free_slots h)
      then Inl (RE_Corrupted ''record page free-slot count exceeds total slots'')
      else if sint (rp_next_free_page h) < sint RECORD_PAGE_FULL
      then Inl (RE_Corrupted ''record page next_free_page is invalid'')
      else Inr ())"

definition read_page_header :: "nat \<Rightarrow> u8 list \<Rightarrow> record_error + record_page_header" where
  "read_page_header slots_per_page bytes =
     and_then (page_header_decode (bytes_at 0 RECORD_PAGE_HEADER_SIZE bytes)) (\<lambda>h.
     and_then (page_header_validate h slots_per_page) (\<lambda>_. Inr h))"

subsection \<open>The bitmap of free slots\<close>

definition slot_is_free :: "u8 list \<Rightarrow> nat \<Rightarrow> bool" where
  "slot_is_free bitmap slot_index \<longleftrightarrow> bitmap ! (slot_index div 8) AND push_bit (slot_index mod 8) 1 \<noteq> 0"

definition set_slot_free :: "u8 list \<Rightarrow> nat \<Rightarrow> bool \<Rightarrow> u8 list" where
  "set_slot_free bitmap slot_index is_free =
     (let byte_index = slot_index div 8; bit_mask = push_bit (slot_index mod 8) 1 in
      if is_free then bitmap[byte_index := bitmap ! byte_index OR bit_mask]
      else bitmap[byte_index := bitmap ! byte_index AND NOT bit_mask])"

definition find_first_free_slot :: "u8 list \<Rightarrow> nat \<Rightarrow> nat option" where
  "find_first_free_slot bitmap num_slots = find (slot_is_free bitmap) [0..<num_slots]"

definition page_bitmap :: "nat \<Rightarrow> u8 list \<Rightarrow> u8 list" where
  "page_bitmap num_slots bytes = bytes_at RECORD_PAGE_HEADER_SIZE (bitmap_bytes num_slots) bytes"

lemma slot_is_free_bit: "slot_is_free bm i \<longleftrightarrow> bit (bm ! (i div 8)) (i mod 8)"
  by (simp add: slot_is_free_def push_bit_of_1 and_exp_eq_0_iff_not_bit)

lemma length_set_slot_free [simp]: "length (set_slot_free bm i b) = length bm"
  by (simp add: set_slot_free_def Let_def)

lemma div_mod_eq_iff: "i div 8 = j div 8 \<and> i mod 8 = j mod 8 \<longleftrightarrow> i = (j :: nat)"
  by (metis div_mult_mod_eq)

lemma slot_is_free_set:
  assumes "i div 8 < length bm"
  shows "slot_is_free (set_slot_free bm i b) j = (if j = i then b else slot_is_free bm j)"
proof (cases "j div 8 = i div 8")
  case True
  then have "j mod 8 = i mod 8 \<longleftrightarrow> j = i" using div_mod_eq_iff [of j i] by blast
  moreover have "i mod 8 < LENGTH(8)" "j mod 8 < LENGTH(8)" by simp_all
  ultimately show ?thesis
    using assms True by (auto simp: slot_is_free_bit set_slot_free_def Let_def bit_simps push_bit_of_1)
next
  case False
  then show ?thesis by (auto simp: slot_is_free_bit set_slot_free_def Let_def)
qed

lemma slot_byte_inside: "i < n \<Longrightarrow> i div 8 < bitmap_bytes n"
  by (simp add: bitmap_bytes_def)

lemma find_first_free_Some:
  "find_first_free_slot bm n = Some i \<Longrightarrow> i < n \<and> slot_is_free bm i"
  by (auto simp: find_first_free_slot_def find_Some_iff)

lemma find_first_free_None:
  "find_first_free_slot bm n = None \<longleftrightarrow> (\<forall>i < n. \<not> slot_is_free bm i)"
  by (auto simp: find_first_free_slot_def find_None_iff)

text \<open>The free slots, and how setting one bit changes their number.\<close>

definition free_slots :: "u8 list \<Rightarrow> nat \<Rightarrow> nat set" where
  "free_slots bm n = {i. i < n \<and> slot_is_free bm i}"

lemma finite_free_slots [simp]: "finite (free_slots bm n)"
  by (simp add: free_slots_def)

lemma free_slots_set:
  assumes "i < n" and "length bm = bitmap_bytes n"
  shows "free_slots (set_slot_free bm i True) n = insert i (free_slots bm n)"
    and "free_slots (set_slot_free bm i False) n = free_slots bm n - {i}"
  using assms slot_byte_inside [OF assms(1)] by (auto simp: free_slots_def slot_is_free_set)

lemma card_free_slots_le: "card (free_slots bm n) \<le> n"
proof -
  have "free_slots bm n \<subseteq> {..<n}" by (auto simp: free_slots_def)
  then show ?thesis using card_mono [of "{..<n}"] by fastforce
qed

end
