(* ===== verification/Record_Page.thy ===== *)
theory Record_Page
  imports Record_Layout
begin

section \<open>One page of records\<close>

text \<open>
  The three regions of a page - header, bitmap and slots - do not overlap, so that changing
  one leaves the others alone.  \<open>page_slot\<close> is what a slot holds, \<open>data_page_ok\<close> the
  invariant of a data page, and the last lemmas are the effect on both of filling and of
  clearing a slot.
\<close>

subsection \<open>Regions\<close>

definition slot_start :: "nat \<Rightarrow> nat \<Rightarrow> nat \<Rightarrow> nat" where
  "slot_start n rs i = RECORD_PAGE_HEADER_SIZE + bitmap_bytes n + i * rs"

definition page_hdr :: "u8 list \<Rightarrow> record_page_header" where
  "page_hdr bytes = \<lparr>rp_next_free_page = from_le_bytes (bytes_at 0 4 bytes),
     rp_num_slots = from_le_bytes (bytes_at 4 4 bytes),
     rp_num_free_slots = from_le_bytes (bytes_at 8 4 bytes)\<rparr>"

definition slot_bytes :: "nat \<Rightarrow> nat \<Rightarrow> nat \<Rightarrow> u8 list \<Rightarrow> u8 list" where
  "slot_bytes n rs i bytes = bytes_at (slot_start n rs i) rs bytes"

definition page_slot :: "nat \<Rightarrow> nat \<Rightarrow> u8 list \<Rightarrow> nat \<Rightarrow> u8 list option" where
  "page_slot n rs bytes i =
     (if i < n \<and> \<not> slot_is_free (page_bitmap n bytes) i then Some (slot_bytes n rs i bytes) else None)"

definition put_bitmap :: "u8 list \<Rightarrow> u8 list \<Rightarrow> u8 list" where
  "put_bitmap bm bytes = put_at RECORD_PAGE_HEADER_SIZE bm bytes"

lemma slot_end:
  assumes "slots_fit rs n" and "i < n"
  shows "slot_start n rs i + rs \<le> 4092"
proof -
  have "Suc i * rs \<le> n * rs" using assms(2) by (intro mult_le_mono1) simp
  then show ?thesis using assms(1) by (simp add: slot_start_def slots_fit_def)
qed

lemma slot_disjoint:
  assumes "i \<noteq> j"
  shows "slot_start n rs i + rs \<le> slot_start n rs j \<or> slot_start n rs j + rs \<le> slot_start n rs i"
proof (cases "i < j")
  case True
  then have "Suc i * rs \<le> j * rs" by (intro mult_le_mono1) simp
  then show ?thesis by (simp add: slot_start_def)
next
  case False
  then have "Suc j * rs \<le> i * rs" using assms by (intro mult_le_mono1) simp
  then show ?thesis by (simp add: slot_start_def)
qed

lemma length_page_header_bytes [simp]: "length (page_header_bytes h) = 12"
  by (simp add: page_header_bytes_def)

lemma page_bitmap_fits: "slots_fit rs n \<Longrightarrow> 12 + bitmap_bytes n \<le> 4092"
  by (simp add: slots_fit_def)

lemma length_page_bitmap:
  "slots_fit rs n \<Longrightarrow> length bytes = 4092 \<Longrightarrow> length (page_bitmap n bytes) = bitmap_bytes n"
  using page_bitmap_fits [of rs n] by (simp add: page_bitmap_def)

lemma length_slot_bytes:
  "slots_fit rs n \<Longrightarrow> i < n \<Longrightarrow> length bytes = 4092 \<Longrightarrow> length (slot_bytes n rs i bytes) = rs"
  using slot_end [of rs n i] by (simp add: slot_bytes_def)

text \<open>Writing the header.\<close>

lemma page_hdr_encode:
  assumes "length bytes = 4092"
  shows "page_hdr (page_header_encode h bytes) = h" and "length (page_header_encode h bytes) = 4092"
proof -
  have at: "bytes_at k 4 (page_header_encode h bytes) = bytes_at k 4 (page_header_bytes h)" if "k + 4 \<le> 12" for k
    unfolding page_header_encode_def
    using bytes_at_put_at_inside [of 0 "page_header_bytes h" bytes k 4] that assms by simp
  show "page_hdr (page_header_encode h bytes) = h"
    by (simp add: page_hdr_def at) (simp add: page_header_bytes_def bytes_at_append)
  show "length (page_header_encode h bytes) = 4092"
    using assms by (simp add: page_header_encode_def del: put_at_0)
qed

lemma header_keeps:
  assumes "length bytes = 4092" and "slots_fit rs n"
  shows "page_bitmap n (page_header_encode h bytes) = page_bitmap n bytes"
    and "i < n \<Longrightarrow> slot_bytes n rs i (page_header_encode h bytes) = slot_bytes n rs i bytes"
proof -
  show "page_bitmap n (page_header_encode h bytes) = page_bitmap n bytes"
    unfolding page_bitmap_def page_header_encode_def
    using assms page_bitmap_fits by (intro bytes_at_put_at_disjoint) simp_all
  assume "i < n"
  then show "slot_bytes n rs i (page_header_encode h bytes) = slot_bytes n rs i bytes"
    unfolding slot_bytes_def page_header_encode_def
    using assms slot_end [of rs n i] by (intro bytes_at_put_at_disjoint) (simp_all add: slot_start_def)
qed

text \<open>Writing the bitmap.\<close>

lemma bitmap_put:
  assumes "length bytes = 4092" and "slots_fit rs n" and "length bm = bitmap_bytes n"
  shows "page_bitmap n (put_bitmap bm bytes) = bm" and "page_hdr (put_bitmap bm bytes) = page_hdr bytes"
    and "length (put_bitmap bm bytes) = 4092"
    and "i < n \<Longrightarrow> slot_bytes n rs i (put_bitmap bm bytes) = slot_bytes n rs i bytes"
proof -
  have fit: "12 + length bm \<le> length bytes" using assms page_bitmap_fits by simp
  show "page_bitmap n (put_bitmap bm bytes) = bm"
    unfolding page_bitmap_def put_bitmap_def using fit assms(3) by (intro bytes_at_put_at_same) simp_all
  have "bytes_at k 4 (put_bitmap bm bytes) = bytes_at k 4 bytes" if "k + 4 \<le> 12" for k
    unfolding put_bitmap_def using fit that by (intro bytes_at_put_at_disjoint) simp_all
  then show "page_hdr (put_bitmap bm bytes) = page_hdr bytes" by (simp add: page_hdr_def)
  show "length (put_bitmap bm bytes) = 4092" using fit assms(1) by (simp add: put_bitmap_def)
  assume "i < n"
  then show "slot_bytes n rs i (put_bitmap bm bytes) = slot_bytes n rs i bytes"
    unfolding slot_bytes_def put_bitmap_def
    using assms slot_end [of rs n i] fit by (intro bytes_at_put_at_disjoint) (simp_all add: slot_start_def)
qed

text \<open>Writing a slot.\<close>

lemma slot_put:
  assumes "length bytes = 4092" and "slots_fit rs n" and "i < n" and "length d = rs"
  shows "page_bitmap n (put_at (slot_start n rs i) d bytes) = page_bitmap n bytes"
    and "page_hdr (put_at (slot_start n rs i) d bytes) = page_hdr bytes"
    and "length (put_at (slot_start n rs i) d bytes) = 4092"
    and "j < n \<Longrightarrow> slot_bytes n rs j (put_at (slot_start n rs i) d bytes) = (if j = i then d else slot_bytes n rs j bytes)"
proof -
  have fit: "slot_start n rs i + length d \<le> length bytes" using assms slot_end [of rs n i] by simp
  show "page_bitmap n (put_at (slot_start n rs i) d bytes) = page_bitmap n bytes"
    unfolding page_bitmap_def
    using fit page_bitmap_fits [OF assms(2)] assms(1) by (intro bytes_at_put_at_disjoint) (simp_all add: slot_start_def)
  have "bytes_at k 4 (put_at (slot_start n rs i) d bytes) = bytes_at k 4 bytes" if "k + 4 \<le> 12" for k
    using fit that assms(1) by (intro bytes_at_put_at_disjoint) (simp_all add: slot_start_def)
  then show "page_hdr (put_at (slot_start n rs i) d bytes) = page_hdr bytes" by (simp add: page_hdr_def)
  show "length (put_at (slot_start n rs i) d bytes) = 4092" using fit assms(1) by simp
  assume j: "j < n"
  show "slot_bytes n rs j (put_at (slot_start n rs i) d bytes) = (if j = i then d else slot_bytes n rs j bytes)"
  proof (cases "j = i")
    case True
    then show ?thesis using fit assms(4) by (simp add: slot_bytes_def bytes_at_put_at_same)
  next
    case False
    then show ?thesis
      unfolding slot_bytes_def
      using fit slot_end [OF assms(2) j] assms slot_disjoint [of i j n rs]
      by (subst bytes_at_put_at_disjoint) auto
  qed
qed

subsection \<open>The invariant of a data page\<close>

definition data_page_ok :: "nat \<Rightarrow> u8 list \<Rightarrow> bool" where
  "data_page_ok n bytes \<longleftrightarrow>
     length bytes = 4092 \<and> unat (rp_num_slots (page_hdr bytes)) = n \<and>
     unat (rp_num_free_slots (page_hdr bytes)) = card (free_slots (page_bitmap n bytes) n) \<and>
     sint RECORD_PAGE_FULL \<le> sint (rp_next_free_page (page_hdr bytes)) \<and>
     (rp_next_free_page (page_hdr bytes) = RECORD_PAGE_FULL \<longleftrightarrow> rp_num_free_slots (page_hdr bytes) = 0)"

lemma page_header_decode_hdr:
  "length bytes = 4092 \<Longrightarrow> page_header_decode (bytes_at 0 12 bytes) = Inr (page_hdr bytes)"
  by (simp add: page_header_decode_def page_hdr_def bytes_at_def min_def drop_take)

lemma read_page_header_ok:
  "data_page_ok n bytes \<Longrightarrow> read_page_header n bytes = Inr (page_hdr bytes) \<and>
     page_header_validate (page_hdr bytes) n = Inr ()"
  using card_free_slots_le [of "page_bitmap n bytes" n]
  by (auto simp: read_page_header_def data_page_ok_def page_header_decode_hdr page_header_validate_def)

lemma page_full_iff:
  "data_page_ok n bytes \<Longrightarrow> rp_num_free_slots (page_hdr bytes) = 0 \<longleftrightarrow> free_slots (page_bitmap n bytes) n = {}"
proof -
  have "rp_num_free_slots (page_hdr bytes) = 0 \<longleftrightarrow> unat (rp_num_free_slots (page_hdr bytes)) = 0"
    by (simp add: unsigned_eq_0_iff)
  then show "data_page_ok n bytes \<Longrightarrow> ?thesis" by (simp add: data_page_ok_def)
qed

text \<open>Filling a free slot.\<close>

lemma fill_slot:
  assumes ok: "data_page_ok n bytes" and fit: "slots_fit rs n" and i: "i < n" "slot_is_free (page_bitmap n bytes) i"
    and d: "length d = rs" and small: "n \<le> 4092"
  defines "h \<equiv> (page_hdr bytes)\<lparr>rp_num_free_slots := rp_num_free_slots (page_hdr bytes) - 1\<rparr>"
  defines "h' \<equiv> (if rp_num_free_slots h = 0 then h\<lparr>rp_next_free_page := RECORD_PAGE_FULL\<rparr> else h)"
  defines "b \<equiv> page_header_encode h' (put_at (slot_start n rs i) d
      (put_bitmap (set_slot_free (page_bitmap n bytes) i False) bytes))"
  shows "data_page_ok n b" and "page_slot n rs b = (page_slot n rs bytes)(i \<mapsto> d)"
    and "page_hdr b = h'" and "checked_sub_u32 (rp_num_free_slots (page_hdr bytes)) 1 = Some (rp_num_free_slots h)"
    and "rp_num_free_slots h = 0 \<longleftrightarrow> free_slots (page_bitmap n b) n = {}"
proof -
  let ?bm = "page_bitmap n bytes" and ?bm' = "set_slot_free (page_bitmap n bytes) i False"
  have len: "length bytes = 4092" using ok by (simp add: data_page_ok_def)
  have lbm: "length ?bm = bitmap_bytes n" using fit len by (rule length_page_bitmap)
  have lbm': "length ?bm' = bitmap_bytes n" using lbm by simp
  note bp = bitmap_put [OF len fit lbm']
  note sp = slot_put [OF bp(3) fit i(1) d]
  note hk = header_keeps [OF sp(3) fit]
  have bmap: "page_bitmap n b = ?bm'" by (simp add: b_def hk(1) sp(1) bp(1))
  have len_b: "length b = 4092" and hdr: "page_hdr b = h'" by (simp_all add: b_def page_hdr_encode sp(3))
  show "page_hdr b = h'" by (rule hdr)
  have free: "free_slots ?bm' n = free_slots ?bm n - {i}" by (rule free_slots_set(2) [OF i(1) lbm])
  have mem: "i \<in> free_slots ?bm n" using i by (simp add: free_slots_def)
  then have pos: "card (free_slots ?bm n) \<noteq> 0" by (auto simp: card_eq_0_iff)
  have cnt: "unat (rp_num_free_slots (page_hdr bytes)) = card (free_slots ?bm n)"
    using ok by (simp add: data_page_ok_def)
  then have nz: "rp_num_free_slots (page_hdr bytes) \<noteq> 0" using pos by auto
  show sub: "checked_sub_u32 (rp_num_free_slots (page_hdr bytes)) 1 = Some (rp_num_free_slots h)"
    using checked_sub_u32_one [OF nz] by (simp add: h_def)
  have cnt': "unat (rp_num_free_slots h) = card (free_slots ?bm' n)"
    using checked_sub_u32_one [OF nz] cnt free mem by (simp add: h_def)
  show empty: "rp_num_free_slots h = 0 \<longleftrightarrow> free_slots (page_bitmap n b) n = {}"
    using cnt' bmap unsigned_eq_0_iff [of "rp_num_free_slots h", where 'a = nat] by simp
  have next_nf: "rp_next_free_page (page_hdr bytes) \<noteq> RECORD_PAGE_FULL"
    using ok nz by (simp add: data_page_ok_def)
  show "data_page_ok n b"
    using ok len_b hdr cnt' bmap next_nf by (auto simp: data_page_ok_def h'_def h_def)
  have slots: "slot_bytes n rs j b = (if j = i then d else slot_bytes n rs j bytes)" if "j < n" for j
    using that by (simp add: b_def hk(2) sp(4) bp(4))
  have bits: "slot_is_free ?bm' j = (if j = i then False else slot_is_free ?bm j)" for j
    using slot_byte_inside [OF i(1)] lbm by (simp add: slot_is_free_set)
  show "page_slot n rs b = (page_slot n rs bytes)(i \<mapsto> d)"
    using i(1) by (auto simp: page_slot_def bmap bits slots fun_eq_iff)
qed

text \<open>Clearing a used slot.\<close>

lemma clear_slot:
  assumes ok: "data_page_ok n bytes" and fit: "slots_fit rs n"
    and i: "i < n" "\<not> slot_is_free (page_bitmap n bytes) i" and small: "n \<le> 4092"
    and nxt: "sint RECORD_PAGE_FULL < sint first"
  defines "h \<equiv> (page_hdr bytes)\<lparr>rp_num_free_slots := rp_num_free_slots (page_hdr bytes) + 1\<rparr>"
  defines "h' \<equiv> (if rp_num_free_slots (page_hdr bytes) = 0 then h\<lparr>rp_next_free_page := first\<rparr> else h)"
  defines "b \<equiv> page_header_encode h' (put_at (slot_start n rs i) (replicate rs 0)
      (put_bitmap (set_slot_free (page_bitmap n bytes) i True) bytes))"
  shows "data_page_ok n b" and "page_slot n rs b = (page_slot n rs bytes)(i := None)"
    and "page_hdr b = h'" and "checked_add_u32 (rp_num_free_slots (page_hdr bytes)) 1 = Some (rp_num_free_slots h)"
    and "free_slots (page_bitmap n b) n \<noteq> {}"
proof -
  let ?bm = "page_bitmap n bytes" and ?bm' = "set_slot_free (page_bitmap n bytes) i True"
  have len: "length bytes = 4092" using ok by (simp add: data_page_ok_def)
  have lbm: "length ?bm = bitmap_bytes n" using fit len by (rule length_page_bitmap)
  have lbm': "length ?bm' = bitmap_bytes n" using lbm by simp
  note bp = bitmap_put [OF len fit lbm']
  note sp = slot_put [OF bp(3) fit i(1), of "replicate rs 0"]
  note hk = header_keeps [OF sp(3) fit]
  have bmap: "page_bitmap n b = ?bm'" by (simp add: b_def hk(1) sp(1) bp(1))
  have len_b: "length b = 4092" and hdr: "page_hdr b = h'" by (simp_all add: b_def page_hdr_encode sp(3))
  show "page_hdr b = h'" by (rule hdr)
  have free: "free_slots ?bm' n = insert i (free_slots ?bm n)" by (rule free_slots_set(1) [OF i(1) lbm])
  have mem: "i \<notin> free_slots ?bm n" using i by (simp add: free_slots_def)
  have cnt: "unat (rp_num_free_slots (page_hdr bytes)) = card (free_slots ?bm n)"
    using ok by (simp add: data_page_ok_def)
  then have room: "unat (rp_num_free_slots (page_hdr bytes)) < 4294967295"
    using card_free_slots_le [of ?bm n] small by simp
  show add: "checked_add_u32 (rp_num_free_slots (page_hdr bytes)) 1 = Some (rp_num_free_slots h)"
    using checked_add_u32_one [OF room] by (simp add: h_def)
  have cnt': "unat (rp_num_free_slots h) = card (free_slots ?bm' n)"
    using checked_add_u32_one [OF room] cnt free mem by (simp add: h_def)
  show nonempty: "free_slots (page_bitmap n b) n \<noteq> {}" using bmap free by simp
  have nz: "rp_num_free_slots h \<noteq> 0" using cnt' free mem by (auto simp: card_insert_if)
  show "data_page_ok n b"
  proof -
    have "first \<noteq> RECORD_PAGE_FULL" using nxt by auto
    then show ?thesis
      using ok len_b hdr cnt' bmap nz less_imp_le [OF nxt] by (auto simp: data_page_ok_def h'_def h_def)
  qed
  have slots: "slot_bytes n rs j b = (if j = i then replicate rs 0 else slot_bytes n rs j bytes)" if "j < n" for j
    using that by (simp add: b_def hk(2) sp(4) bp(4))
  have bits: "slot_is_free ?bm' j = (if j = i then True else slot_is_free ?bm j)" for j
    using slot_byte_inside [OF i(1)] lbm by (simp add: slot_is_free_set)
  show "page_slot n rs b = (page_slot n rs bytes)(i := None)"
    by (auto simp: page_slot_def bmap bits slots fun_eq_iff)
qed

text \<open>Overwriting a used slot.\<close>

lemma overwrite_slot:
  assumes ok: "data_page_ok n bytes" and fit: "slots_fit rs n"
    and i: "i < n" "\<not> slot_is_free (page_bitmap n bytes) i" and d: "length d = rs"
  defines "b \<equiv> put_at (slot_start n rs i) d bytes"
  shows "data_page_ok n b" and "page_slot n rs b = (page_slot n rs bytes)(i \<mapsto> d)" and "page_hdr b = page_hdr bytes"
proof -
  have len: "length bytes = 4092" using ok by (simp add: data_page_ok_def)
  note sp = slot_put [OF len fit i(1) d]
  show "data_page_ok n b" "page_hdr b = page_hdr bytes"
    using ok sp(1-3) by (simp_all add: b_def data_page_ok_def)
  show "page_slot n rs b = (page_slot n rs bytes)(i \<mapsto> d)"
    using i sp(1,4) by (auto simp: page_slot_def b_def fun_eq_iff)
qed

subsection \<open>A new page\<close>

definition initialize_page :: "u8 list \<Rightarrow> record_page_header \<Rightarrow> nat \<Rightarrow> nat \<Rightarrow> (record_error + unit) \<times> u8 list" where
  "initialize_page bytes h slots_per_page record_size =
     (let bytes = replicate (length bytes) 0;
          bytes = page_header_encode h bytes;
          bytes = put_bitmap (replicate (bitmap_bytes slots_per_page) 255) bytes;
          record_data_start = RECORD_PAGE_HEADER_SIZE + bitmap_bytes slots_per_page;
          used_bytes = record_data_start + slots_per_page * record_size
      in if PAGE_DATA_SIZE < used_bytes
         then (Inl (RE_Corrupted ''record layout exceeds page capacity''), bytes)
         else (Inr (), bytes))"

lemma bit_255: "k < 8 \<Longrightarrow> bit (255 :: u8) k"
proof -
  have all: "(255 :: u8) = -1" by simp
  show "k < 8 \<Longrightarrow> bit (255 :: u8) k" unfolding all by simp
qed

lemma initialize_page_ok:
  assumes fit: "slots_fit rs n" and pos: "0 < n" and small: "n \<le> 4092" and len: "length bytes = 4092"
  obtains b where "initialize_page bytes (page_header_new n) n rs = (Inr (), b)" and "data_page_ok n b"
    and "page_slot n rs b = Map.empty" and "rp_next_free_page (page_hdr b) = RECORD_PAGE_LIST_END"
    and "free_slots (page_bitmap n b) n = {..<n}"
proof -
  let ?bm = "replicate (bitmap_bytes n) (255 :: u8)"
  let ?zero = "page_header_encode (page_header_new n) (replicate 4092 0)"
  let ?b = "put_bitmap ?bm ?zero"
  have l0: "length ?zero = 4092" by (rule page_hdr_encode(2)) simp
  have lbm: "length ?bm = bitmap_bytes n" by simp
  note bp = bitmap_put [OF l0 fit lbm]
  have hdr: "page_hdr ?b = page_header_new n" using bp(2) page_hdr_encode(1) by simp
  have bits: "slot_is_free ?bm i" if "i < n" for i
  proof -
    have "?bm ! (i div 8) = 255" using slot_byte_inside [OF that] by simp
    then show ?thesis unfolding slot_is_free_bit by (simp only:) (rule bit_255, simp)
  qed
  have free: "free_slots (page_bitmap n ?b) n = {..<n}" using bits by (auto simp: bp(1) free_slots_def)
  have un: "unat (of_nat n :: u32) = n" using small by (simp add: unat_of_nat_u32)
  then have nz: "(of_nat n :: u32) \<noteq> 0" using pos by (metis less_irrefl unsigned_0)
  have run: "initialize_page bytes (page_header_new n) n rs = (Inr (), ?b)"
    using fit len by (simp add: initialize_page_def Let_def slots_fit_def)
  have ok: "data_page_ok n ?b"
    using bp(3) hdr free un nz by (simp add: data_page_ok_def page_header_new_def)
  have "page_slot n rs ?b = Map.empty"
    using bits by (auto simp: page_slot_def bp(1) fun_eq_iff)
  then show thesis using that [OF run ok] hdr free by (simp add: page_header_new_def)
qed

end
