(* ===== verification/Record_File.thy ===== *)
theory Record_File
  imports Record_Page
begin

section \<open>Record files (\<open>src/storage/record/mod.rs\<close>)\<close>

text \<open>
  A record file owns a buffer pool with one registered page file.  Every operation fetches a
  page, works on its bytes through the guard and drops the guard on all its exits; \<open>with_page\<close>
  and \<open>with_page_mut\<close> are these scopes, and what runs inside them cannot reach the pool.  The
  state inside a writing scope is the page's bytes with the record file, whose header the
  source updates while it holds the guard.
\<close>

subsection \<open>State and guard scopes\<close>

record record_file =
  rf_pool :: buffer_pool
  rf_file_id :: u32
  rf_header :: record_file_header
  rf_header_dirty :: bool

abbreviation rf_slots :: "record_file \<Rightarrow> nat" where
  "rf_slots f \<equiv> unat (rh_slots_per_page (rf_header f))"

abbreviation rf_record_size :: "record_file \<Rightarrow> nat" where
  "rf_record_size f \<equiv> unat (rh_record_size (rf_header f))"

abbreviation rf_num_pages :: "record_file \<Rightarrow> u32" where
  "rf_num_pages f \<equiv> rh_num_pages (rf_header f)"

abbreviation rf_first_free :: "record_file \<Rightarrow> i32" where
  "rf_first_free f \<equiv> rh_first_free_page (rf_header f)"

definition DEFAULT_BUFFER_CAPACITY :: nat where
  "DEFAULT_BUFFER_CAPACITY = 8"

definition with_page :: "u32 \<Rightarrow> (u8 list \<Rightarrow> record_error + 'a) \<Rightarrow> record_file \<Rightarrow> (record_error + 'a) \<times> record_file" where
  "with_page pid body f =
     (case get_page (rf_file_id f) pid (rf_pool f) of
        (Inl e, s) \<Rightarrow> (Inl (RE_BufferPool e), f\<lparr>rf_pool := s\<rparr>)
      | (Inr i, s) \<Rightarrow> (body (guard_read i s), f\<lparr>rf_pool := guard_drop i s\<rparr>))"

text \<open>What a write guard's scope leaves: the bytes go back into the frame, and the pin is released.\<close>

definition close_guard :: "nat \<Rightarrow> 'r \<times> (u8 list \<times> record_file) \<Rightarrow> 'r \<times> record_file" where
  "close_guard i r =
     (case r of (x, bytes, f) \<Rightarrow> (x, f\<lparr>rf_pool := guard_drop i (guard_write i bytes (rf_pool f))\<rparr>))"

definition with_page_mut ::
    "u32 \<Rightarrow> (u8 list \<times> record_file \<Rightarrow> (record_error + 'a) \<times> (u8 list \<times> record_file)) \<Rightarrow>
     record_file \<Rightarrow> (record_error + 'a) \<times> record_file" where
  "with_page_mut pid body f =
     (case get_page_mut (rf_file_id f) pid (rf_pool f) of
        (Inl e, s) \<Rightarrow> (Inl (RE_BufferPool e), f\<lparr>rf_pool := s\<rparr>)
      | (Inr i, s) \<Rightarrow> close_guard i (body (guard_read i s, f\<lparr>rf_pool := s\<rparr>)))"

subsection \<open>Checks\<close>

definition validate_rid :: "record_file \<Rightarrow> rid \<Rightarrow> record_error + unit" where
  "validate_rid f r =
     (if rid_page_id r = HEADER_PAGE_ID \<or> rf_num_pages f < rid_page_id r then Inl (InvalidRid r)
      else if rf_slots f \<le> unat (rid_slot_id r) then Inl (InvalidRid r) else Inr ())"

definition ensure_record_length :: "record_file \<Rightarrow> nat \<Rightarrow> record_error + unit" where
  "ensure_record_length f actual =
     (if actual \<noteq> rf_record_size f then Inl (SizeMismatch (rf_record_size f) actual) else Inr ())"

definition ensure_slot_used :: "record_file \<Rightarrow> rid \<Rightarrow> record_page_header \<Rightarrow> u8 list \<Rightarrow> record_error + unit" where
  "ensure_slot_used f r h bytes =
     (if unat (rp_num_slots h) \<le> unat (rid_slot_id r) then Inl (InvalidRid r)
      else if slot_is_free (page_bitmap (rf_slots f) bytes) (unat (rid_slot_id r)) then Inl (EmptySlot r)
      else Inr ())"

definition record_range :: "record_file \<Rightarrow> nat \<Rightarrow> record_error + nat \<times> nat" where
  "record_range f slot_index =
     (if rf_slots f \<le> slot_index then Inl (RE_Corrupted ''slot index is outside the page layout'')
      else
        let record_size = rf_record_size f;
            data_start = RECORD_PAGE_HEADER_SIZE + bitmap_bytes (rf_slots f);
            start = data_start + slot_index * record_size;
            fin = start + record_size
        in if PAGE_DATA_SIZE < fin then Inl (RE_Corrupted ''record range exceeds page size'')
           else Inr (start, fin))"

definition range_bytes :: "nat \<times> nat \<Rightarrow> u8 list \<Rightarrow> u8 list" where
  "range_bytes r bytes = bytes_at (fst r) (snd r - fst r) bytes"

subsection \<open>The header and new pages\<close>

definition persist_header :: "record_file \<Rightarrow> (record_error + unit) \<times> record_file" where
  "persist_header f =
     (if \<not> rf_header_dirty f then (Inr (), f)
      else with_page_mut HEADER_PAGE_ID (\<lambda>(bytes, f).
        (Inr (), (put_at 0 (record_header_encode (rf_header f)) bytes, f\<lparr>rf_header_dirty := False\<rparr>))) f)"

definition allocate_data_page :: "record_file \<Rightarrow> (record_error + u32) \<times> record_file" where
  "allocate_data_page f =
     (case pool_allocate_page (rf_file_id f) (rf_pool f) of
        (Inl e, s) \<Rightarrow> (Inl (RE_BufferPool e), f\<lparr>rf_pool := s\<rparr>)
      | (Inr (i, page_id), s) \<Rightarrow>
          close_guard i
            (let f = f\<lparr>rf_pool := s\<rparr>;
                 page_header = page_header_new (rf_slots f)
             in case initialize_page (guard_read i s) page_header (rf_slots f) (rf_record_size f) of
                  (r, bytes) \<Rightarrow>
                    and_then_st (r, (bytes, f)) (\<lambda>_ (bytes, f).
                    and_then_st (ok_or (RE_Corrupted ''record page count overflow'')
                                   (checked_add_u32 (rf_num_pages f) 1), (bytes, f)) (\<lambda>num (bytes, f).
                      (Inr page_id,
                       (bytes, f\<lparr>rf_header := (rf_header f)\<lparr>rh_num_pages := num, rh_first_free_page := page_id\<rparr>,
                                 rf_header_dirty := True\<rparr>))))))"

subsection \<open>Insert, get, update, delete\<close>

definition insert_into_page :: "u32 \<Rightarrow> u8 list \<Rightarrow> u8 list \<times> record_file \<Rightarrow>
    (record_error + rid) \<times> (u8 list \<times> record_file)" where
  "insert_into_page page_id data st =
     (let n = rf_slots (snd st) in
      and_then_st (read_page_header n (fst st), st) (\<lambda>h st.
      and_then_st (page_header_validate h n, st) (\<lambda>_ st.
      and_then_st (ok_or (RE_Corrupted ''free-page chain points to a full page'')
                     (find_first_free_slot (page_bitmap n (fst st)) n), st) (\<lambda>slot (bytes, f).
        let bytes = put_bitmap (set_slot_free (page_bitmap n bytes) slot False) bytes in
        and_then_st (ok_or (RE_Corrupted ''page free-slot counter underflow'')
                       (checked_sub_u32 (rp_num_free_slots h) 1), (bytes, f)) (\<lambda>free (bytes, f).
          let h = h\<lparr>rp_num_free_slots := free\<rparr> in
          and_then_st (record_range f slot, (bytes, f)) (\<lambda>range (bytes, f).
            let bytes = put_at (fst range) data bytes;
                rid = \<lparr>rid_page_id = page_id, rid_slot_id = of_nat slot\<rparr>
            in if rp_num_free_slots h = 0
               then (Inr rid,
                     (page_header_encode (h\<lparr>rp_next_free_page := RECORD_PAGE_FULL\<rparr>) bytes,
                      f\<lparr>rf_header := (rf_header f)\<lparr>rh_first_free_page := rp_next_free_page h\<rparr>,
                        rf_header_dirty := True\<rparr>))
               else (Inr rid, (page_header_encode h bytes, f))))))))"

definition insert_record :: "u8 list \<Rightarrow> record_file \<Rightarrow> (record_error + rid) \<times> record_file" where
  "insert_record data f =
     and_then_st (ensure_record_length f (length data), f) (\<lambda>_ f.
     and_then_st (if rf_first_free f = RECORD_PAGE_LIST_END
                  then and_then_st (allocate_data_page f) (\<lambda>_ f. (Inr (), f))
                  else (Inr (), f)) (\<lambda>_ f.
       let page_id = rf_first_free f in
       with_page_mut page_id (insert_into_page page_id data) f))"

definition get_record :: "rid \<Rightarrow> record_file \<Rightarrow> (record_error + db_record) \<times> record_file" where
  "get_record r f =
     and_then_st (validate_rid f r, f) (\<lambda>_ f.
       with_page (rid_page_id r) (\<lambda>bytes.
         and_then (read_page_header (rf_slots f) bytes) (\<lambda>h.
         and_then (ensure_slot_used f r h bytes) (\<lambda>_.
         and_then (record_range f (unat (rid_slot_id r))) (\<lambda>range.
           Inr \<lparr>rec_rid = r, rec_data = range_bytes range bytes\<rparr>)))) f)"

definition update_in_page :: "rid \<Rightarrow> u8 list \<Rightarrow> u8 list \<times> record_file \<Rightarrow>
    (record_error + unit) \<times> (u8 list \<times> record_file)" where
  "update_in_page r data st =
     (let n = rf_slots (snd st) in
      and_then_st (read_page_header n (fst st), st) (\<lambda>h st.
      and_then_st (ensure_slot_used (snd st) r h (fst st), st) (\<lambda>_ st.
      and_then_st (record_range (snd st) (unat (rid_slot_id r)), st) (\<lambda>range (bytes, f).
        (Inr (), (put_at (fst range) data bytes, f))))))"

definition update_record :: "rid \<Rightarrow> u8 list \<Rightarrow> record_file \<Rightarrow> (record_error + unit) \<times> record_file" where
  "update_record r data f =
     and_then_st (ensure_record_length f (length data), f) (\<lambda>_ f.
     and_then_st (validate_rid f r, f) (\<lambda>_ f.
       with_page_mut (rid_page_id r) (update_in_page r data) f))"

definition delete_from_page :: "rid \<Rightarrow> u8 list \<times> record_file \<Rightarrow> (record_error + unit) \<times> (u8 list \<times> record_file)" where
  "delete_from_page r st =
     (let n = rf_slots (snd st) in
      and_then_st (read_page_header n (fst st), st) (\<lambda>h st.
      and_then_st (ensure_slot_used (snd st) r h (fst st), st) (\<lambda>_ (bytes, f).
        let was_full = (rp_num_free_slots h = 0);
            bytes = put_bitmap (set_slot_free (page_bitmap n bytes) (unat (rid_slot_id r)) True) bytes
        in
        and_then_st (ok_or (RE_Corrupted ''page free-slot counter overflow'')
                       (checked_add_u32 (rp_num_free_slots h) 1), (bytes, f)) (\<lambda>free (bytes, f).
          let h = h\<lparr>rp_num_free_slots := free\<rparr> in
          and_then_st (record_range f (unat (rid_slot_id r)), (bytes, f)) (\<lambda>range (bytes, f).
            let bytes = put_at (fst range) (replicate (snd range - fst range) 0) bytes
            in if was_full
               then (Inr (),
                     (page_header_encode (h\<lparr>rp_next_free_page := rf_first_free f\<rparr>) bytes,
                      f\<lparr>rf_header := (rf_header f)\<lparr>rh_first_free_page := rid_page_id r\<rparr>,
                        rf_header_dirty := True\<rparr>))
               else (Inr (), (page_header_encode h bytes, f)))))))"

definition delete_record :: "rid \<Rightarrow> record_file \<Rightarrow> (record_error + unit) \<times> record_file" where
  "delete_record r f =
     and_then_st (validate_rid f r, f) (\<lambda>_ f.
       with_page_mut (rid_page_id r) (delete_from_page r) f)"

definition flush_records :: "record_file \<Rightarrow> (record_error + unit) \<times> record_file" where
  "flush_records f =
     and_then_st (persist_header f) (\<lambda>_ f.
       case force_file (rf_file_id f) None (rf_pool f) of
         (r, s) \<Rightarrow> (map_err RE_BufferPool r, f\<lparr>rf_pool := s\<rparr>))"

subsection \<open>Creating, opening and dropping\<close>

text \<open>
  On an error the pool is dropped, and with it the page file: it is returned with the result,
  for the page file's own drop.
\<close>

definition create_records :: "page_file \<Rightarrow> nat \<Rightarrow> nat \<Rightarrow> (record_error + record_file) \<times> buffer_pool" where
  "create_records page_file buffer_capacity record_size =
     (case register_file page_file (pool_new buffer_capacity) of
        (Inl e, s) \<Rightarrow> (Inl (RE_BufferPool e), s)
      | (Inr file_id, s) \<Rightarrow>
        (case pool_allocate_page file_id s of
           (Inl e, s) \<Rightarrow> (Inl (RE_BufferPool e), s)
         | (Inr (i, page_id), s) \<Rightarrow>
             let s = guard_drop i s in
             if page_id \<noteq> HEADER_PAGE_ID then (Inl (RE_Corrupted ''record header must be stored in page 0''), s)
             else (case record_header_new record_size of
                 Inl e \<Rightarrow> (Inl e, s)
               | Inr header \<Rightarrow>
                   (case persist_header \<lparr>rf_pool = s, rf_file_id = file_id, rf_header = header,
                                         rf_header_dirty = True\<rparr> of
                      (Inl e, f) \<Rightarrow> (Inl e, rf_pool f)
                    | (Inr _, f) \<Rightarrow> (Inr f, rf_pool f)))))"

definition open_records :: "page_file \<Rightarrow> nat \<Rightarrow> record_error + record_file" where
  "open_records page_file buffer_capacity =
     (let total_pages = pf_num_pages page_file in
      if total_pages = 0 then Inl (RE_Corrupted ''record file is missing the header page'')
      else
        (case register_file page_file (pool_new buffer_capacity) of
           (Inl e, s) \<Rightarrow> Inl (RE_BufferPool e)
         | (Inr file_id, s) \<Rightarrow>
           (case get_page file_id HEADER_PAGE_ID s of
              (Inl e, s) \<Rightarrow> Inl (RE_BufferPool e)
            | (Inr i, s) \<Rightarrow>
                and_then (record_header_decode (bytes_at 0 RECORD_FILE_HEADER_SIZE (guard_read i s))) (\<lambda>header.
                and_then (ok_or (RE_Corrupted ''record file page count overflow'')
                            (checked_add_u32 (rh_num_pages header) 1)) (\<lambda>expected_total_pages.
                  if total_pages < expected_total_pages
                  then Inl (RE_Corrupted ''record file header declares more pages than exist on disk'')
                  else Inr \<lparr>rf_pool = guard_drop i s, rf_file_id = file_id, rf_header = header,
                            rf_header_dirty = False\<rparr>)))))"

text \<open>The device that remains when a record file is dropped: a flush, then the page file's drop.\<close>

definition record_file_drop :: "record_file \<Rightarrow> page_file option" where
  "record_file_drop f =
     map_option page_file_drop (bp_files (rf_pool (snd (flush_records f))) (rf_file_id f))"

subsection \<open>Scans\<close>

definition read_used_slot :: "record_file \<Rightarrow> u32 \<Rightarrow> nat \<Rightarrow> u8 list \<Rightarrow> record_error + db_record option" where
  "read_used_slot f page_id slot_index bytes =
     and_then (read_page_header (rf_slots f) bytes) (\<lambda>h.
       if unat (rp_num_slots h) \<le> slot_index
       then Inl (RE_Corrupted ''scan cursor points outside the slot range'')
       else if slot_is_free (page_bitmap (rf_slots f) bytes) slot_index then Inr None
       else and_then (record_range f slot_index) (\<lambda>range.
         Inr (Some \<lparr>rec_rid = \<lparr>rid_page_id = page_id, rid_slot_id = of_nat slot_index\<rparr>,
                    rec_data = range_bytes range bytes\<rparr>)))"

definition read_record_if_used :: "u32 \<Rightarrow> nat \<Rightarrow> record_file \<Rightarrow> (record_error + db_record option) \<times> record_file" where
  "read_record_if_used page_id slot_index f =
     (if page_id = HEADER_PAGE_ID \<or> rf_num_pages f < page_id
      then (Inl (RE_Corrupted ''scan cursor points outside the data-page range''), f)
      else with_page page_id (read_used_slot f page_id slot_index) f)"

record record_scan =
  sc_page_id :: u32
  sc_slot_id :: u32
  sc_predicate :: "u8 list \<Rightarrow> record_error + bool"

definition scan_from_start :: "(u8 list \<Rightarrow> record_error + bool) \<Rightarrow> record_scan" where
  "scan_from_start p = \<lparr>sc_page_id = HEADER_PAGE_ID + 1, sc_slot_id = 0, sc_predicate = p\<rparr>"

definition scan_all :: record_scan where
  "scan_all = scan_from_start (\<lambda>_. Inr True)"

definition scan_with :: "(u8 list \<Rightarrow> bool) \<Rightarrow> record_scan" where
  "scan_with p = scan_from_start (\<lambda>bytes. Inr (p bytes))"

definition scan_with_predicate :: "scan_predicate \<Rightarrow> record_file \<Rightarrow> record_error + record_scan" where
  "scan_with_predicate p f =
     and_then (predicate_validate p (rf_record_size f)) (\<lambda>_. Inr (scan_from_start (predicate_matches p)))"

definition scan_with_filter :: "predicate_clause list \<Rightarrow> record_file \<Rightarrow> record_error + record_scan" where
  "scan_with_filter cs f =
     and_then (compound_validate cs (rf_record_size f)) (\<lambda>_. Inr (scan_from_start (compound_matches cs)))"

definition scan_with_logic :: "logic_filter \<Rightarrow> record_file \<Rightarrow> record_error + record_scan" where
  "scan_with_logic l f =
     and_then (logic_validate l (rf_record_size f)) (\<lambda>_. Inr (scan_from_start (logic_matches l)))"

definition advance_cursor :: "record_file \<Rightarrow> record_scan \<Rightarrow> record_scan" where
  "advance_cursor f sc =
     (if sc_slot_id sc + 1 < rh_slots_per_page (rf_header f)
      then sc\<lparr>sc_slot_id := sc_slot_id sc + 1\<rparr>
      else sc\<lparr>sc_page_id := sc_page_id sc + 1, sc_slot_id := 0\<rparr>)"

text \<open>
  The loop of \<open>next_record\<close>.  The fuel bounds the number of slots it looks at; a file has
  \<open>num_pages * slots_per_page\<close> of them, which is the fuel \<open>next_record\<close> starts with.
\<close>

fun next_record_loop :: "nat \<Rightarrow> record_scan \<times> record_file \<Rightarrow>
    (record_error + db_record option) \<times> (record_scan \<times> record_file)" where
  "next_record_loop 0 (sc, f) =
     (if rf_num_pages f < sc_page_id sc then (Inr None, (sc, f)) else (Inl RE_Diverges, (sc, f)))"
| "next_record_loop (Suc fuel) (sc, f) =
     (if rf_num_pages f < sc_page_id sc then (Inr None, (sc, f))
      else
        (let page_id = sc_page_id sc;
             slot_id = unat (sc_slot_id sc);
             sc = advance_cursor f sc
         in case read_record_if_used page_id slot_id f of
              (Inl e, f) \<Rightarrow> (Inl e, (sc, f))
            | (Inr None, f) \<Rightarrow> next_record_loop fuel (sc, f)
            | (Inr (Some rec), f) \<Rightarrow>
                (case sc_predicate sc (rec_data rec) of
                   Inl e \<Rightarrow> (Inl e, (sc, f))
                 | Inr True \<Rightarrow> (Inr (Some rec), (sc, f))
                 | Inr False \<Rightarrow> next_record_loop fuel (sc, f))))"

definition next_record :: "record_scan \<times> record_file \<Rightarrow>
    (record_error + db_record option) \<times> (record_scan \<times> record_file)" where
  "next_record st = next_record_loop (unat (rf_num_pages (snd st)) * rf_slots (snd st)) st"

end
