(* ===== verification/Record_Spec.thy ===== *)
theory Record_Spec
  imports Record_File
begin

section \<open>Record files: invariant and abstraction\<close>

text \<open>
  A record file stands for a finite map from record identifiers to bytes, \<open>record_map\<close>.  The
  invariant says that page 0 holds the header, that the pages \<open>1\<close> to \<open>num_pages\<close> are data
  pages, and that the chain of free pages enumerates the data pages with a free slot.
\<close>

definition rf_view :: "record_file \<Rightarrow> u32 \<Rightarrow> u8 list option" where
  "rf_view f p = pool_view (rf_pool f) (page_key (rf_file_id f) p)"

definition rf_page :: "record_file \<Rightarrow> u32 \<Rightarrow> u8 list" where
  "rf_page f p = the (rf_view f p)"

definition rf_next :: "record_file \<Rightarrow> u32 \<Rightarrow> i32" where
  "rf_next f p = rp_next_free_page (page_hdr (rf_page f p))"

definition rf_free_slots :: "record_file \<Rightarrow> u32 \<Rightarrow> nat set" where
  "rf_free_slots f p = free_slots (page_bitmap (rf_slots f) (rf_page f p)) (rf_slots f)"

definition record_map :: "record_file \<Rightarrow> rid \<Rightarrow> u8 list option" where
  "record_map f r =
     (if rid_page_id r \<noteq> 0 \<and> rid_page_id r \<le> rf_num_pages f
      then page_slot (rf_slots f) (rf_record_size f) (rf_page f (rid_page_id r)) (unat (rid_slot_id r))
      else None)"

definition rf_base :: "(u32 \<Rightarrow> u32 option) \<Rightarrow> record_file \<Rightarrow> bool" where
  "rf_base m f \<longleftrightarrow>
     pool_idle m (rf_pool f) \<and> m (rf_file_id f) = Some (rf_num_pages f + 1) \<and>
     unat (rf_num_pages f) < 2 ^ 31 \<and>
     compute_slots_per_page (rf_record_size f) = Inr (rf_slots f) \<and>
     (\<forall>p. rf_view f p \<noteq> None \<longleftrightarrow> p \<le> rf_num_pages f) \<and>
     (\<forall>p. p \<noteq> 0 \<and> p \<le> rf_num_pages f \<longrightarrow> data_page_ok (rf_slots f) (rf_page f p)) \<and>
     (\<not> rf_header_dirty f \<longrightarrow> bytes_at 0 16 (rf_page f 0) = record_header_encode (rf_header f))"

definition rf_chain :: "record_file \<Rightarrow> u32 list \<Rightarrow> bool" where
  "rf_chain f ps \<longleftrightarrow>
     free_chain (rf_next f) (rf_first_free f) ps \<and> distinct ps \<and>
     (\<forall>p. p \<in> set ps \<longleftrightarrow> p \<noteq> 0 \<and> p \<le> rf_num_pages f \<and> rf_free_slots f p \<noteq> {})"

definition record_file_ok :: "record_file \<Rightarrow> bool" where
  "record_file_ok f \<longleftrightarrow> (\<exists>m ps. rf_base m f \<and> rf_chain f ps)"

subsection \<open>Consequences of the invariant\<close>

lemma rf_baseD:
  assumes "rf_base m f"
  shows "pool_idle m (rf_pool f)" and "m (rf_file_id f) = Some (rf_num_pages f + 1)"
    and "unat (rf_num_pages f) < 2147483648" and "compute_slots_per_page (rf_record_size f) = Inr (rf_slots f)"
    and "rf_view f p \<noteq> None \<longleftrightarrow> p \<le> rf_num_pages f"
    and "p \<noteq> 0 \<Longrightarrow> p \<le> rf_num_pages f \<Longrightarrow> data_page_ok (rf_slots f) (rf_page f p)"
    and "\<not> rf_header_dirty f \<Longrightarrow> bytes_at 0 16 (rf_page f 0) = record_header_encode (rf_header f)"
  using assms by (simp_all add: rf_base_def)

lemma rf_layout:
  assumes "rf_base m f"
  shows "slots_fit (rf_record_size f) (rf_slots f)" and "0 < rf_slots f" and "rf_slots f \<le> 4092"
    and "0 < rf_record_size f"
  using compute_slots_Inr [OF rf_baseD(4) [OF assms]] by simp_all

lemma rf_view_page: "rf_base m f \<Longrightarrow> p \<le> rf_num_pages f \<Longrightarrow> rf_view f p = Some (rf_page f p)"
  using rf_baseD(5) [of m f p] by (auto simp: rf_page_def)

lemma rf_page_length: "rf_base m f \<Longrightarrow> p \<le> rf_num_pages f \<Longrightarrow> length (rf_page f p) = 4092"
  using rf_view_page [of m f p] rf_baseD(1) [of m f] pool_idle_view_length by (fastforce simp: rf_view_def)

lemma u32_le_unat: "p \<le> q \<longleftrightarrow> unat (p :: u32) \<le> unat q"
  by (simp add: word_le_nat_alt)

lemma small_page_ids:
  assumes "unat q < 2147483648" and "p \<le> q"
  shows "p \<noteq> (-1 :: u32)" and "sint RECORD_PAGE_FULL < sint p" and "p \<noteq> (-2 :: u32)"
proof -
  have small: "unat p < 2 ^ 31" using assms by (simp add: u32_le_unat)
  then have pos: "0 \<le> sint p" using sint_u32_small [of p] by simp
  show "sint RECORD_PAGE_FULL < sint p" using pos by simp
  show "p \<noteq> -1" "p \<noteq> -2" using pos by auto
qed

lemma record_map_range:
  "record_map f r \<noteq> None \<Longrightarrow> rid_page_id r \<noteq> 0 \<and> rid_page_id r \<le> rf_num_pages f \<and> unat (rid_slot_id r) < rf_slots f"
  by (auto simp: record_map_def page_slot_def split: if_splits)

lemma record_map_length:
  assumes "rf_base m f" and "record_map f r = Some d"
  shows "length d = rf_record_size f"
proof -
  have r: "rid_page_id r \<noteq> 0" "rid_page_id r \<le> rf_num_pages f" "unat (rid_slot_id r) < rf_slots f"
    using record_map_range [of f r] assms(2) by auto
  then have "d = slot_bytes (rf_slots f) (rf_record_size f) (unat (rid_slot_id r)) (rf_page f (rid_page_id r))"
    using assms(2) by (auto simp: record_map_def page_slot_def split: if_splits)
  then show ?thesis
    using length_slot_bytes [OF rf_layout(1) [OF assms(1)] r(3) rf_page_length [OF assms(1) r(2)]] by simp
qed

lemma record_range_ok:
  assumes "rf_base m f" and "i < rf_slots f"
  shows "record_range f i =
    Inr (slot_start (rf_slots f) (rf_record_size f) i, slot_start (rf_slots f) (rf_record_size f) i + rf_record_size f)"
  using slot_end [OF rf_layout(1) [OF assms(1)] assms(2)] assms(2)
  by (simp add: record_range_def Let_def slot_start_def)

lemma record_range_pool: "record_range (f\<lparr>rf_pool := s\<rparr>) i = record_range f i"
  by (simp add: record_range_def)

lemma ensure_slot_used_pool: "ensure_slot_used (f\<lparr>rf_pool := s\<rparr>) r h b = ensure_slot_used f r h b"
  by (simp add: ensure_slot_used_def)

lemma range_bytes_slot: "range_bytes (slot_start n rs i, slot_start n rs i + rs) b = slot_bytes n rs i b"
  by (simp add: range_bytes_def slot_bytes_def)

subsection \<open>States that agree\<close>

definition same_records :: "(u32 \<Rightarrow> u32 option) \<Rightarrow> record_file \<Rightarrow> record_file \<Rightarrow> bool" where
  "same_records m f g \<longleftrightarrow> (\<exists>s. g = f\<lparr>rf_pool := s\<rparr> \<and> pool_idle m s \<and> pool_view s = pool_view (rf_pool f))"

lemma same_records_facts:
  assumes "same_records m f g"
  shows "rf_header g = rf_header f" "rf_header_dirty g = rf_header_dirty f" "rf_file_id g = rf_file_id f"
    "rf_view g = rf_view f" "rf_page g = rf_page f" "rf_next g = rf_next f" "rf_free_slots g = rf_free_slots f"
    "record_map g = record_map f" "pool_idle m (rf_pool g)"
  using assms by (auto simp: same_records_def rf_view_def rf_page_def rf_next_def rf_free_slots_def record_map_def fun_eq_iff)

lemma same_records_base: "same_records m f g \<Longrightarrow> rf_base m f \<Longrightarrow> rf_base m g"
  by (simp add: rf_base_def same_records_facts)

lemma same_records_chain: "same_records m f g \<Longrightarrow> rf_chain f ps \<Longrightarrow> rf_chain g ps"
  by (simp add: rf_chain_def same_records_facts)

lemma same_records_ok: "same_records m f g \<Longrightarrow> rf_base m f \<Longrightarrow> rf_chain f ps \<Longrightarrow> record_file_ok g"
  unfolding record_file_ok_def using same_records_base same_records_chain by blast

lemma same_records_refl: "rf_base m f \<Longrightarrow> same_records m f f"
  unfolding same_records_def by (rule exI [of _ "rf_pool f"]) (simp add: rf_baseD(1))

lemma same_records_trans: "same_records m f g \<Longrightarrow> same_records m g h \<Longrightarrow> same_records m f h"
  by (auto simp: same_records_def)

subsection \<open>Guard scopes\<close>

lemma with_page_ok:
  assumes "rf_base m f" and "p \<le> rf_num_pages f"
  obtains g where "with_page p body f = (body (rf_page f p), g)" and "same_records m f g"
proof -
  have view: "pool_view (rf_pool f) (page_key (rf_file_id f) p) = Some (rf_page f p)"
    using rf_view_page [OF assms] by (simp add: rf_view_def)
  obtain i t where "get_key (page_key (rf_file_id f) p) (rf_pool f) = (Inr i, t)" "guard_read i t = rf_page f p"
    "pool_idle m (guard_drop i t)" "pool_view (guard_drop i t) = pool_view (rf_pool f)"
    using pc.get_used [OF rf_baseD(1) [OF assms(1)] view] by blast
  then show thesis
    by (intro that [of "f\<lparr>rf_pool := guard_drop i t\<rparr>"]) (auto simp: with_page_def get_key_def same_records_def)
qed

text \<open>A writing scope whose body does not depend on the pool.\<close>

definition wrote :: "(u32 \<Rightarrow> u32 option) \<Rightarrow> u32 \<Rightarrow> u8 list \<Rightarrow> record_file_header \<Rightarrow> bool \<Rightarrow>
    record_file \<Rightarrow> record_file \<Rightarrow> bool" where
  "wrote m p b h d f g \<longleftrightarrow>
     (\<exists>s. g = f\<lparr>rf_header := h, rf_header_dirty := d, rf_pool := s\<rparr> \<and> pool_idle m s \<and>
        pool_view s = (pool_view (rf_pool f))(page_key (rf_file_id f) p \<mapsto> b))"

lemma with_page_mut_ok:
  assumes "rf_base m f" and "p \<le> rf_num_pages f"
    and "\<And>s. body (rf_page f p, f\<lparr>rf_pool := s\<rparr>) =
      (r, b, f\<lparr>rf_pool := s, rf_header := h, rf_header_dirty := d\<rparr>)"
    and "length b = 4092"
  obtains g where "with_page_mut p body f = (r, g)" and "wrote m p b h d f g"
proof -
  have view: "pool_view (rf_pool f) (page_key (rf_file_id f) p) = Some (rf_page f p)"
    using rf_view_page [OF assms(1,2)] by (simp add: rf_view_def)
  obtain i t where t: "get_key_mut (page_key (rf_file_id f) p) (rf_pool f) = (Inr i, t)"
    "guard_read i t = rf_page f p" "pool_idle m (guard_drop i (guard_write i b t))"
    "pool_view (guard_drop i (guard_write i b t)) =
      (pool_view (rf_pool f))(page_key (rf_file_id f) p \<mapsto> b)"
    using pc.get_mut_used [OF rf_baseD(1) [OF assms(1)] view] assms(4) by blast
  show thesis
    by (rule that [of "f\<lparr>rf_header := h, rf_header_dirty := d, rf_pool := guard_drop i (guard_write i b t)\<rparr>"])
      (use t in \<open>auto simp: with_page_mut_def get_key_mut_def assms(3) close_guard_def wrote_def\<close>)
qed

lemma wrote_facts:
  assumes "wrote m p b h d f g"
  shows "rf_header g = h" "rf_header_dirty g = d" "rf_file_id g = rf_file_id f"
    "rf_view g = (rf_view f)(p \<mapsto> b)" "rf_page g = (rf_page f)(p := b)" "pool_idle m (rf_pool g)"
    "rf_next g = (rf_next f)(p := rp_next_free_page (page_hdr b))"
  using assms by (auto simp: wrote_def rf_view_def rf_page_def rf_next_def fun_eq_iff)

lemma wrote_same:
  assumes "rf_base m f" and "wrote m p (rf_page f p) (rf_header f) (rf_header_dirty f) f g" and "p \<le> rf_num_pages f"
  shows "same_records m f g"
proof -
  obtain s where s: "g = f\<lparr>rf_header := rf_header f, rf_header_dirty := rf_header_dirty f, rf_pool := s\<rparr>" "pool_idle m s"
    "pool_view s = (pool_view (rf_pool f))(page_key (rf_file_id f) p \<mapsto> rf_page f p)"
    using assms(2) by (auto simp: wrote_def)
  have "pool_view (rf_pool f) (page_key (rf_file_id f) p) = Some (rf_page f p)"
    using rf_view_page [OF assms(1,3)] by (simp add: rf_view_def)
  then have "pool_view s = pool_view (rf_pool f)" using s(3) by (simp add: fun_upd_idem)
  then show ?thesis using s(1,2) unfolding same_records_def by (intro exI [of _ s]) simp
qed

text \<open>What has to be checked when a data page and the header's chain are replaced.\<close>

lemma wrote_data_page:
  assumes base: "rf_base m f" and w: "wrote m p b h d f g" and p: "p \<noteq> 0" "p \<le> rf_num_pages f"
    and b: "data_page_ok (rf_slots f) b"
    and h: "h = (rf_header f)\<lparr>rh_first_free_page := i\<rparr>" and d: "d \<or> h = rf_header f \<and> d = rf_header_dirty f"
  shows "rf_base m g"
    and "record_map g = (\<lambda>r. if rid_page_id r = p
      then page_slot (rf_slots f) (rf_record_size f) b (unat (rid_slot_id r)) else record_map f r)"
    and "rf_free_slots g = (rf_free_slots f)(p := free_slots (page_bitmap (rf_slots f) b) (rf_slots f))"
    and "rf_slots g = rf_slots f" and "rf_record_size g = rf_record_size f" and "rf_num_pages g = rf_num_pages f"
proof -
  note W = wrote_facts [OF w] and B = rf_baseD [OF base]
  show sz: "rf_slots g = rf_slots f" "rf_record_size g = rf_record_size f" "rf_num_pages g = rf_num_pages f"
    by (simp_all add: W h)
  have "rf_view g q \<noteq> None \<longleftrightarrow> q \<le> rf_num_pages g" for q
    using B(5) [of q] p by (simp add: W sz [unfolded W])
  moreover have "data_page_ok (rf_slots g) (rf_page g q)" if "q \<noteq> 0" "q \<le> rf_num_pages g" for q
    using B(6) [of q] b that by (simp add: W sz [unfolded W])
  moreover have "bytes_at 0 16 (rf_page g 0) = record_header_encode (rf_header g)" if "\<not> rf_header_dirty g"
    using that d B(7) p by (auto simp: W)
  ultimately show "rf_base m g"
    unfolding rf_base_def using B(2,3,4) W(6) by (simp add: sz W(3))
  show "record_map g = (\<lambda>r. if rid_page_id r = p
      then page_slot (rf_slots f) (rf_record_size f) b (unat (rid_slot_id r)) else record_map f r)"
    using p by (auto simp: record_map_def sz W(5) fun_eq_iff)
  show "rf_free_slots g = (rf_free_slots f)(p := free_slots (page_bitmap (rf_slots f) b) (rf_slots f))"
    by (auto simp: rf_free_slots_def sz W(5) fun_eq_iff)
qed

lemma page_slot_rid:
  assumes "i < 4294967296"
  shows "(\<lambda>r. if rid_page_id r = p then ((page_slot n rs b)(i := v)) (unat (rid_slot_id r)) else record_map f r) =
    (\<lambda>r. if rid_page_id r = p then page_slot n rs b (unat (rid_slot_id r)) else record_map f r)
      (\<lparr>rid_page_id = p, rid_slot_id = of_nat i\<rparr> := v)"
proof (rule ext)
  fix r :: rid
  have "unat (rid_slot_id r) = i \<longleftrightarrow> rid_slot_id r = of_nat i"
    using unat_of_nat_u32 [OF assms] by (auto simp: word_unat_eq_iff)
  then show "(if rid_page_id r = p then ((page_slot n rs b)(i := v)) (unat (rid_slot_id r)) else record_map f r) =
    ((\<lambda>r. if rid_page_id r = p then page_slot n rs b (unat (rid_slot_id r)) else record_map f r)
      (\<lparr>rid_page_id = p, rid_slot_id = of_nat i\<rparr> := v)) r"
    by (cases r) auto
qed

lemma record_map_at_page:
  "p \<noteq> 0 \<Longrightarrow> p \<le> rf_num_pages f \<Longrightarrow>
     (\<lambda>r. if rid_page_id r = p then page_slot (rf_slots f) (rf_record_size f) (rf_page f p) (unat (rid_slot_id r))
          else record_map f r) = record_map f"
  by (auto simp: record_map_def fun_eq_iff)

end
