(* ===== verification/Record_Ops.thy ===== *)
theory Record_Ops
  imports Record_Spec
begin

section \<open>Record files: get, update, delete, insert\<close>

text \<open>
  Reading, updating and deleting a record by its identifier, with the errors for identifiers
  that hold none.
\<close>

subsection \<open>Checking a record identifier\<close>

lemma validate_rid_cases:
  assumes "rf_base m f"
  shows "validate_rid f r =
    (if rid_page_id r = 0 \<or> rf_num_pages f < rid_page_id r \<or> rf_slots f \<le> unat (rid_slot_id r)
     then Inl (InvalidRid r) else Inr ())"
  by (simp add: validate_rid_def)

lemma slot_used_cases:
  assumes "rf_base m f" and "rid_page_id r \<noteq> 0" "rid_page_id r \<le> rf_num_pages f" "unat (rid_slot_id r) < rf_slots f"
  shows "ensure_slot_used f r (page_hdr (rf_page f (rid_page_id r))) (rf_page f (rid_page_id r)) =
    (if record_map f r = None then Inl (EmptySlot r) else Inr ())"
  using assms rf_baseD(6) [OF assms(1-3)]
  by (simp add: ensure_slot_used_def data_page_ok_def record_map_def page_slot_def)

text \<open>The error that an identifier without a record gives.\<close>

definition missing_record :: "record_file \<Rightarrow> rid \<Rightarrow> record_error" where
  "missing_record f r =
     (if rid_page_id r = 0 \<or> rf_num_pages f < rid_page_id r \<or> rf_slots f \<le> unat (rid_slot_id r)
      then InvalidRid r else EmptySlot r)"

lemma record_slot:
  "record_map f r = Some d \<Longrightarrow>
     d = slot_bytes (rf_slots f) (rf_record_size f) (unat (rid_slot_id r)) (rf_page f (rid_page_id r)) \<and>
     \<not> slot_is_free (page_bitmap (rf_slots f) (rf_page f (rid_page_id r))) (unat (rid_slot_id r))"
  by (auto simp: record_map_def page_slot_def split: if_splits)

subsection \<open>Get\<close>

lemma get_record_ok:
  assumes base: "rf_base m f"
  obtains g where "same_records m f g" and
    "get_record r f = (case record_map f r of
       None \<Rightarrow> (Inl (missing_record f r), g) | Some d \<Rightarrow> (Inr \<lparr>rec_rid = r, rec_data = d\<rparr>, g))"
proof (cases "validate_rid f r")
  case (Inl e)
  then have "record_map f r = None" "e = missing_record f r"
    by (auto simp: validate_rid_cases [OF base] missing_record_def record_map_def page_slot_def split: if_splits)
  then show thesis
    using Inl same_records_refl [OF base] by (intro that [of f]) (simp_all add: get_record_def)
next
  case (Inr u)
  then have r: "rid_page_id r \<noteq> 0" "rid_page_id r \<le> rf_num_pages f" "unat (rid_slot_id r) < rf_slots f"
    by (auto simp: validate_rid_cases [OF base] not_less split: if_splits)
  let ?b = "rf_page f (rid_page_id r)"
  have hdr: "read_page_header (rf_slots f) ?b = Inr (page_hdr ?b)"
    using read_page_header_ok [OF rf_baseD(6) [OF base r(1,2)]] by simp
  note range = record_range_ok [OF base r(3)]
  obtain g where g: "same_records m f g"
    "get_record r f = ((and_then (read_page_header (rf_slots f) ?b) (\<lambda>h.
         and_then (ensure_slot_used f r h ?b) (\<lambda>_.
         and_then (record_range f (unat (rid_slot_id r))) (\<lambda>range.
           Inr \<lparr>rec_rid = r, rec_data = range_bytes range ?b\<rparr>)))), g)"
    using with_page_ok [OF base r(2), of "\<lambda>bytes. and_then (read_page_header (rf_slots f) bytes) (\<lambda>h.
         and_then (ensure_slot_used f r h bytes) (\<lambda>_.
         and_then (record_range f (unat (rid_slot_id r))) (\<lambda>range.
           Inr \<lparr>rec_rid = r, rec_data = range_bytes range bytes\<rparr>)))"] Inr
    by (auto simp: get_record_def)
  show thesis
    using g(2) slot_used_cases [OF base r] record_slot [of f r] r
    by (intro that [OF g(1)])
      (auto simp: hdr range range_bytes_slot missing_record_def not_less [symmetric] split: option.split)
qed

subsection \<open>Update\<close>

lemma update_record_ok:
  assumes base: "rf_base m f" and chain: "rf_chain f ps" and rec: "record_map f r \<noteq> None"
    and len: "length d = rf_record_size f"
  obtains g where "update_record r d f = (Inr (), g)" and "rf_base m g" and "rf_chain g ps"
    and "record_map g = (record_map f)(r \<mapsto> d)" and "rf_header g = rf_header f" and "rf_file_id g = rf_file_id f"
proof -
  let ?p = "rid_page_id r" and ?i = "unat (rid_slot_id r)"
  let ?b = "rf_page f ?p" and ?n = "rf_slots f" and ?rs = "rf_record_size f"
  have r: "?p \<noteq> 0" "?p \<le> rf_num_pages f" "?i < ?n" using record_map_range [OF rec] by simp_all
  have ok: "data_page_ok ?n ?b" by (rule rf_baseD(6) [OF base r(1,2)])
  have used: "\<not> slot_is_free (page_bitmap ?n ?b) ?i" using record_slot [of f r] rec by blast
  let ?b' = "put_at (slot_start ?n ?rs ?i) d ?b"
  note ov = overwrite_slot [OF ok rf_layout(1) [OF base] r(3) used len]
  have hdr: "read_page_header ?n ?b = Inr (page_hdr ?b)" using read_page_header_ok [OF ok] by simp
  have body: "update_in_page r d (?b, f\<lparr>rf_pool := s\<rparr>) =
      (Inr () :: record_error + unit, ?b', f\<lparr>rf_pool := s, rf_header := rf_header f, rf_header_dirty := rf_header_dirty f\<rparr>)" for s
    using slot_used_cases [OF base r] rec record_range_ok [OF base r(3)]
    by (simp add: update_in_page_def hdr ensure_slot_used_pool record_range_pool)
  have len': "length ?b' = 4092" using ov(1) by (simp add: data_page_ok_def)
  obtain g where g: "with_page_mut ?p (update_in_page r d) f = (Inr (), g)"
    and w: "wrote m ?p ?b' (rf_header f) (rf_header_dirty f) f g"
    by (rule with_page_mut_ok [OF base r(2) body len'])
  have upd: "update_record r d f = (Inr (), g)"
    using g len r by (simp add: update_record_def ensure_record_length_def validate_rid_cases [OF base] not_le)
  note wd = wrote_data_page [OF base w r(1,2) ov(1), of "rf_first_free f", simplified]
  have "free_slots (page_bitmap ?n ?b') ?n = rf_free_slots f ?p"
    using slot_put(1) [OF _ rf_layout(1) [OF base] r(3) len, of ?b] ok by (simp add: rf_free_slots_def data_page_ok_def)
  then have same: "rf_free_slots g = rf_free_slots f" "rf_next g = rf_next f"
    using wd(3) wrote_facts(7) [OF w] ov(3) by (auto simp: rf_next_def fun_eq_iff)
  have "rf_chain g ps" using chain wrote_facts(1) [OF w] by (simp add: rf_chain_def same)
  moreover have "record_map g = (record_map f)(r \<mapsto> d)"
  proof -
    have i: "?i < 4294967296" by (rule unat_u32_less)
    have "record_map g = (\<lambda>q. if rid_page_id q = ?p then ((page_slot ?n ?rs ?b)(?i \<mapsto> d)) (unat (rid_slot_id q)) else record_map f q)"
      unfolding wd(2) ov(2) ..
    also have "\<dots> = (record_map f)(r \<mapsto> d)"
      unfolding page_slot_rid [OF i] record_map_at_page [OF r(1,2)] by (cases r) simp
    finally show ?thesis .
  qed
  ultimately show thesis using that [OF upd wd(1)] wrote_facts(1,3) [OF w] by simp
qed

lemma update_record_missing:
  assumes base: "rf_base m f" and rec: "record_map f r = None" and len: "length d = rf_record_size f"
  obtains g where "update_record r d f = (Inl (missing_record f r), g)" and "same_records m f g"
proof (cases "validate_rid f r")
  case (Inl e)
  then have "e = missing_record f r"
    by (auto simp: validate_rid_cases [OF base] missing_record_def split: if_splits)
  then show thesis
    using Inl len same_records_refl [OF base]
    by (intro that [of f]) (simp_all add: update_record_def ensure_record_length_def)
next
  case (Inr u)
  let ?p = "rid_page_id r" and ?i = "unat (rid_slot_id r)"
  let ?b = "rf_page f ?p"
  have r: "?p \<noteq> 0" "?p \<le> rf_num_pages f" "?i < rf_slots f"
    using Inr by (auto simp: validate_rid_cases [OF base] not_less split: if_splits)
  have ok: "data_page_ok (rf_slots f) ?b" by (rule rf_baseD(6) [OF base r(1,2)])
  have len': "length ?b = 4092" using ok by (simp add: data_page_ok_def)
  have body: "update_in_page r d (?b, f\<lparr>rf_pool := s\<rparr>) =
      (Inl (EmptySlot r) :: record_error + unit, ?b, f\<lparr>rf_pool := s, rf_header := rf_header f, rf_header_dirty := rf_header_dirty f\<rparr>)" for s
    using slot_used_cases [OF base r] rec read_page_header_ok [OF ok] by (simp add: update_in_page_def ensure_slot_used_pool)
  obtain g where g: "with_page_mut ?p (update_in_page r d) f = (Inl (EmptySlot r), g)"
    and w: "wrote m ?p ?b (rf_header f) (rf_header_dirty f) f g"
    by (rule with_page_mut_ok [OF base r(2) body len'])
  have "same_records m f g" by (rule wrote_same [OF base w r(2)])
  moreover have "update_record r d f = (Inl (missing_record f r), g)"
    using g len r Inr by (simp add: update_record_def ensure_record_length_def missing_record_def not_le)
  ultimately show thesis using that by blast
qed

subsection \<open>Delete\<close>

lemma rf_first_small:
  assumes "rf_base m f" and "rf_chain f ps"
  shows "sint RECORD_PAGE_FULL < sint (rf_first_free f)"
proof (cases ps)
  case Nil
  then have "rf_first_free f = -1" using assms(2) by (simp add: rf_chain_def)
  then show ?thesis by simp
next
  case (Cons p qs)
  then have "rf_first_free f = p" "p \<le> rf_num_pages f" using assms(2) by (auto simp: rf_chain_def)
  then show ?thesis using small_page_ids(2) [OF rf_baseD(3) [OF assms(1)]] by simp
qed

lemma rf_chain_same_links:
  assumes "rf_chain f ps" and "rf_next g = rf_next f" and "rf_first_free g = rf_first_free f"
    and "rf_num_pages g = rf_num_pages f" and "\<And>p. rf_free_slots g p = {} \<longleftrightarrow> rf_free_slots f p = {}"
  shows "rf_chain g ps"
  using assms by (simp add: rf_chain_def)

lemma delete_record_ok:
  assumes base: "rf_base m f" and chain: "rf_chain f ps" and rec: "record_map f r \<noteq> None"
  obtains g qs where "delete_record r f = (Inr (), g)" and "rf_base m g" and "rf_chain g qs"
    and "record_map g = (record_map f)(r := None)" and "rf_num_pages g = rf_num_pages f"
    and "rf_slots g = rf_slots f" and "rf_record_size g = rf_record_size f" and "rf_file_id g = rf_file_id f"
proof -
  let ?p = "rid_page_id r" and ?i = "unat (rid_slot_id r)"
  let ?b = "rf_page f ?p" and ?n = "rf_slots f" and ?rs = "rf_record_size f"
  have r: "?p \<noteq> 0" "?p \<le> rf_num_pages f" "?i < ?n" using record_map_range [OF rec] by simp_all
  have ok: "data_page_ok ?n ?b" by (rule rf_baseD(6) [OF base r(1,2)])
  have used: "\<not> slot_is_free (page_bitmap ?n ?b) ?i" using record_slot [of f r] rec by blast
  note small = rf_layout(3) [OF base]
  note first = rf_first_small [OF base chain]
  define full where "full \<longleftrightarrow> rp_num_free_slots (page_hdr ?b) = 0"
  define h where "h = (page_hdr ?b)\<lparr>rp_num_free_slots := rp_num_free_slots (page_hdr ?b) + 1\<rparr>"
  define h' where "h' = (if full then h\<lparr>rp_next_free_page := rf_first_free f\<rparr> else h)"
  define b where "b = page_header_encode h' (put_at (slot_start ?n ?rs ?i) (replicate ?rs 0)
      (put_bitmap (set_slot_free (page_bitmap ?n ?b) ?i True) ?b))"
  define fh where "fh = (if full then (rf_header f)\<lparr>rh_first_free_page := ?p\<rparr> else rf_header f)"
  note cl = clear_slot [OF ok rf_layout(1) [OF base] r(3) used small first,
      folded full_def, folded h_def, folded h'_def, folded b_def]
  have hdr: "read_page_header ?n ?b = Inr (page_hdr ?b)" using read_page_header_ok [OF ok] by simp
  have body: "delete_from_page r (?b, f\<lparr>rf_pool := s\<rparr>) =
      (Inr (), b, f\<lparr>rf_pool := s, rf_header := fh, rf_header_dirty := full \<or> rf_header_dirty f\<rparr>)" for s
    using slot_used_cases [OF base r] rec record_range_ok [OF base r(3)] cl(4)
    by (simp add: delete_from_page_def hdr ensure_slot_used_pool record_range_pool Let_def b_def h'_def h_def
        fh_def full_def [symmetric])
  have len': "length b = 4092" using cl(1) by (simp add: data_page_ok_def)
  obtain g where g: "with_page_mut ?p (delete_from_page r) f = (Inr (), g)"
    and w: "wrote m ?p b fh (full \<or> rf_header_dirty f) f g"
    by (rule with_page_mut_ok [OF base r(2) body len'])
  have run: "delete_record r f = (Inr (), g)"
    using g r by (simp add: delete_record_def validate_rid_cases [OF base] not_le)
  have fh: "fh = (rf_header f)\<lparr>rh_first_free_page := if full then ?p else rf_first_free f\<rparr>"
    by (simp add: fh_def)
  have dirty: "(full \<or> rf_header_dirty f) \<or> fh = rf_header f \<and> (full \<or> rf_header_dirty f) = rf_header_dirty f"
    by (auto simp: fh_def)
  note wd = wrote_data_page [OF base w r(1,2) cl(1) fh dirty]
  note W = wrote_facts [OF w]
  have fs: "rf_free_slots g = (rf_free_slots f)(?p := free_slots (page_bitmap ?n b) ?n)" by (rule wd(3))
  have first_g: "rf_first_free g = (if full then ?p else rf_first_free f)" by (simp add: W fh)
  have map: "record_map g = (record_map f)(r := None)"
  proof -
    have i: "?i < 4294967296" by (rule unat_u32_less)
    have "record_map g = (\<lambda>q. if rid_page_id q = ?p then ((page_slot ?n ?rs ?b)(?i := None)) (unat (rid_slot_id q)) else record_map f q)"
      unfolding wd(2) cl(2) ..
    also have "\<dots> = (record_map f)(r := None)"
      unfolding page_slot_rid [OF i] record_map_at_page [OF r(1,2)] by (cases r) simp
    finally show ?thesis .
  qed
  have full_iff: "full \<longleftrightarrow> rf_free_slots f ?p = {}"
    using page_full_iff [OF ok] by (simp add: full_def rf_free_slots_def)
  show thesis
  proof (cases full)
    case True
    then have notin: "?p \<notin> set ps" using chain full_iff by (simp add: rf_chain_def)
    have "rf_next g = (rf_next f)(?p := rf_first_free f)"
      using W(7) cl(3) True by (simp add: h'_def)
    then have "rf_chain g (?p # ps)"
      using chain notin True r cl(5) first_g fs wd(6)
      by (auto simp: rf_chain_def free_chain_update)
    then show thesis using that [OF run wd(1) _ map wd(6,4,5) W(3)] by blast
  next
    case False
    have "rf_next g = rf_next f"
      using W(7) cl(3) False by (simp add: h'_def h_def rf_next_def fun_eq_iff)
    moreover have "rf_free_slots g q = {} \<longleftrightarrow> rf_free_slots f q = {}" for q
      using fs cl(5) False full_iff by simp
    ultimately have "rf_chain g ps"
      using rf_chain_same_links [OF chain] first_g wd(6) False by simp
    then show thesis using that [OF run wd(1) _ map wd(6,4,5) W(3)] by blast
  qed
qed

end
