(* ===== verification/Record_Insert.thy ===== *)
theory Record_Insert
  imports Record_Ops
begin

section \<open>Record files: insert\<close>

text \<open>
  Insertion: a page of the free chain or a new page receives the record, the chain keeps its
  invariant, and every other record stays.
\<close>

subsection \<open>Inserting into the first page of the chain\<close>

lemma insert_nonempty:
  assumes base: "rf_base m f" and chain: "rf_chain f (p # ps)" and len: "length d = rf_record_size f"
  obtains g r qs where "with_page_mut p (insert_into_page p d) f = (Inr r, g)" and "rf_base m g" and "rf_chain g qs"
    and "record_map f r = None" and "record_map g = (record_map f)(r \<mapsto> d)" and "rf_num_pages g = rf_num_pages f"
    and "rf_slots g = rf_slots f" and "rf_record_size g = rf_record_size f" and "rf_file_id g = rf_file_id f"
    and "rid_page_id r = p" and "\<forall>j < unat (rid_slot_id r). record_map f \<lparr>rid_page_id = p, rid_slot_id = of_nat j\<rparr> \<noteq> None"
proof -
  let ?b = "rf_page f p" and ?n = "rf_slots f" and ?rs = "rf_record_size f"
  have p: "p \<noteq> 0" "p \<le> rf_num_pages f" "rf_free_slots f p \<noteq> {}" "rf_first_free f = p" "p \<notin> set ps"
    using chain by (auto simp: rf_chain_def)
  have ok: "data_page_ok ?n ?b" by (rule rf_baseD(6) [OF base p(1,2)])
  obtain i where i: "find_first_free_slot (page_bitmap ?n ?b) ?n = Some i"
    using p(3) by (cases "find_first_free_slot (page_bitmap ?n ?b) ?n")
      (auto simp: find_first_free_None rf_free_slots_def free_slots_def)
  note free = find_first_free_Some [OF i]
  note small = rf_layout(3) [OF base]
  define h where "h = (page_hdr ?b)\<lparr>rp_num_free_slots := rp_num_free_slots (page_hdr ?b) - 1\<rparr>"
  define h' where "h' = (if rp_num_free_slots h = 0 then h\<lparr>rp_next_free_page := RECORD_PAGE_FULL\<rparr> else h)"
  define b where "b = page_header_encode h' (put_at (slot_start ?n ?rs i) d
      (put_bitmap (set_slot_free (page_bitmap ?n ?b) i False) ?b))"
  define full where "full \<longleftrightarrow> rp_num_free_slots h = 0"
  define fh where "fh = (if full then (rf_header f)\<lparr>rh_first_free_page := rf_next f p\<rparr> else rf_header f)"
  define r where "r = \<lparr>rid_page_id = p, rid_slot_id = of_nat i\<rparr>"
  note fl = fill_slot [OF ok rf_layout(1) [OF base] conjunct1 [OF free] conjunct2 [OF free] len small,
      folded h_def, folded h'_def, folded b_def]
  have hdr: "read_page_header ?n ?b = Inr (page_hdr ?b)" "page_header_validate (page_hdr ?b) ?n = Inr ()"
    using read_page_header_ok [OF ok] by simp_all
  have body: "insert_into_page p d (?b, f\<lparr>rf_pool := s\<rparr>) =
      (Inr r, b, f\<lparr>rf_pool := s, rf_header := fh, rf_header_dirty := full \<or> rf_header_dirty f\<rparr>)" for s
    using record_range_ok [OF base conjunct1 [OF free]] fl(4)
    by (simp add: insert_into_page_def hdr i record_range_pool Let_def b_def h'_def h_def r_def
        fh_def full_def rf_next_def)
  have len': "length b = 4092" using fl(1) by (simp add: data_page_ok_def)
  obtain g where g: "with_page_mut p (insert_into_page p d) f = (Inr r, g)"
    and w: "wrote m p b fh (full \<or> rf_header_dirty f) f g"
    by (rule with_page_mut_ok [OF base p(2) body len'])
  have fh: "fh = (rf_header f)\<lparr>rh_first_free_page := if full then rf_next f p else rf_first_free f\<rparr>"
    by (simp add: fh_def)
  have dirty: "(full \<or> rf_header_dirty f) \<or> fh = rf_header f \<and> (full \<or> rf_header_dirty f) = rf_header_dirty f"
    by (auto simp: fh_def)
  note wd = wrote_data_page [OF base w p(1,2) fl(1) fh dirty]
  note W = wrote_facts [OF w]
  have first_g: "rf_first_free g = (if full then rf_next f p else rf_first_free f)" by (simp add: W fh)
  have i32: "i < 4294967296" using free small by simp
  have map: "record_map g = (record_map f)(r \<mapsto> d)"
  proof -
    have "record_map g = (\<lambda>q. if rid_page_id q = p then ((page_slot ?n ?rs ?b)(i \<mapsto> d)) (unat (rid_slot_id q)) else record_map f q)"
      unfolding wd(2) fl(2) ..
    also have "\<dots> = (record_map f)(r \<mapsto> d)"
      unfolding page_slot_rid [OF i32] record_map_at_page [OF p(1,2)] r_def ..
    finally show ?thesis .
  qed
  have fresh: "record_map f r = None"
    using free unat_of_nat_u32 [OF i32] by (simp add: record_map_def r_def page_slot_def)
  have least: "record_map f \<lparr>rid_page_id = p, rid_slot_id = of_nat j\<rparr> \<noteq> None" if "j < unat (rid_slot_id r)" for j
  proof -
    have j: "j < i" using that unat_of_nat_u32 [OF i32] by (simp add: r_def)
    then have "\<not> slot_is_free (page_bitmap ?n ?b) j" using i by (auto simp: find_first_free_slot_def find_Some_iff)
    then show ?thesis using j i32 free p(1,2) unat_of_nat_u32 [of j] by (simp add: record_map_def page_slot_def)
  qed
  have page: "rid_page_id r = p" by (simp add: r_def)
  have fs: "rf_free_slots g = (rf_free_slots f)(p := free_slots (page_bitmap ?n b) ?n)" by (rule wd(3))
  show thesis
  proof (cases full)
    case True
    have "rf_next g = (rf_next f)(p := RECORD_PAGE_FULL)"
      using W(7) fl(3) True by (simp add: h'_def full_def)
    moreover have "free_slots (page_bitmap ?n b) ?n = {}" using fl(5) True by (simp add: full_def)
    ultimately have "rf_chain g ps"
      using chain p first_g fs wd(6) True by (auto simp: rf_chain_def free_chain_update)
    then show thesis using that [OF g wd(1) _ fresh map wd(6,4,5) W(3) page] least by blast
  next
    case False
    have "rf_next g = rf_next f"
      using W(7) fl(3) False by (simp add: h'_def h_def full_def rf_next_def fun_eq_iff)
    moreover have "rf_free_slots g q = {} \<longleftrightarrow> rf_free_slots f q = {}" for q
      using fs fl(5) False p(3) by (simp add: full_def)
    ultimately have "rf_chain g (p # ps)"
      using rf_chain_same_links [OF chain] first_g wd(6) False by simp
    then show thesis using that [OF g wd(1) _ fresh map wd(6,4,5) W(3) page] least by blast
  qed
qed

subsection \<open>A new data page\<close>

lemma u32_le_add_one: "unat n < 4294967295 \<Longrightarrow> p \<le> n + 1 \<longleftrightarrow> p \<le> n \<or> p = (n + 1 :: u32)"
  using checked_add_u32_one [of n] by (auto simp: u32_le_unat word_unat_eq_iff)

lemma u32_less_add_one: "unat n < 4294967295 \<Longrightarrow> p < n + 1 \<longleftrightarrow> p \<le> (n :: u32)"
  using checked_add_u32_one [of n] by (auto simp: u32_le_unat word_less_nat_alt)

lemma allocate_data_page_ok:
  assumes base: "rf_base m f" and chain: "rf_chain f []" and room: "unat (rf_num_pages f) < 2147483647"
  defines "p \<equiv> rf_num_pages f + 1"
  obtains g where "allocate_data_page f = (Inr p, g)" and "rf_base (m(rf_file_id f \<mapsto> p + 1)) g"
    and "rf_chain g [p]" and "record_map g = record_map f" and "rf_num_pages g = p"
    and "rf_slots g = rf_slots f" and "rf_record_size g = rf_record_size f" and "rf_file_id g = rf_file_id f"
proof -
  let ?n = "rf_slots f" and ?rs = "rf_record_size f" and ?N = "rf_num_pages f" and ?fid = "rf_file_id f"
  note B = rf_baseD [OF base] and L = rf_layout [OF base]
  have unp: "unat p = unat ?N + 1" "checked_add_u32 ?N 1 = Some p"
    using checked_add_u32_one [of ?N] room by (simp_all add: p_def)
  have p0: "p \<noteq> 0" "\<not> p \<le> ?N" using unp by (auto simp: u32_le_unat)
  have room': "unat p < 4294967295" "unat ?N < 4294967295" using unp room by simp_all
  have dense: "\<forall>q. pool_view (rf_pool f) (page_key ?fid q) \<noteq> None \<longleftrightarrow> q < p"
    using B(5) u32_less_add_one [OF room'(2)] by (simp add: rf_view_def p_def)
  have cnt: "m ?fid = Some p" using B(2) by (simp add: p_def)
  obtain i t where al: "pool_allocate_page ?fid (rf_pool f) = (Inr (i, p), t)"
    and data: "guard_read i t = replicate 4092 0"
    and view: "pool_view t = (pool_view (rf_pool f))(page_key ?fid p \<mapsto> replicate 4092 0)"
    and gd: "guard_on (page_key ?fid p) i (rf_pool f) t" "fr_dirty (frame_at t i)"
    and ct: "pool_counts t = m(?fid \<mapsto> p + 1)"
    by (rule pool_allocate_dense [OF B(1) cnt room'(1) dense])
  obtain b where b: "initialize_page (replicate 4092 0) (page_header_new ?n) ?n ?rs = (Inr (), b)"
    "data_page_ok ?n b" "page_slot ?n ?rs b = Map.empty" "rp_next_free_page (page_hdr b) = RECORD_PAGE_LIST_END"
    "free_slots (page_bitmap ?n b) ?n = {..<?n}"
    by (rule initialize_page_ok [OF L(1,2,3), of "replicate 4092 0"]) simp_all
  have lenb: "length b = 4092" using b(2) by (simp add: data_page_ok_def)
  define s where "s = guard_drop i (guard_write i b t)"
  have s: "pool_idle (m(?fid \<mapsto> p + 1)) s" "pool_view s = (pool_view (rf_pool f))(page_key ?fid p \<mapsto> b)"
    using guard_on_release(2) [OF B(1) gd(1) ct gd(2) lenb] view by (simp_all add: s_def)
  define g where "g = f\<lparr>rf_header := (rf_header f)\<lparr>rh_num_pages := p, rh_first_free_page := p\<rparr>,
      rf_header_dirty := True, rf_pool := s\<rparr>"
  have run: "allocate_data_page f = (Inr p, g)"
    using al data b(1) unp(2) by (simp add: allocate_data_page_def close_guard_def g_def s_def)
  have F: "rf_num_pages g = p" "rf_slots g = ?n" "rf_record_size g = ?rs" "rf_file_id g = ?fid"
    "rf_first_free g = p" "rf_header_dirty g" "rf_pool g = s" by (simp_all add: g_def)
  have vw: "rf_view g = (rf_view f)(p \<mapsto> b)" using s(2) by (auto simp: rf_view_def F fun_eq_iff)
  then have pg: "rf_page g = (rf_page f)(p := b)" by (auto simp: rf_page_def fun_eq_iff)
  have le: "q \<le> p \<longleftrightarrow> q \<le> ?N \<or> q = p" for q using u32_le_add_one [OF room'(2), of q] by (simp add: p_def)
  have "rf_view g q \<noteq> None \<longleftrightarrow> q \<le> rf_num_pages g" for q
    using B(5) [of q] by (simp add: vw F(1) le)
  moreover have "data_page_ok (rf_slots g) (rf_page g q)" if "q \<noteq> 0" "q \<le> rf_num_pages g" for q
    using that B(6) [of q] b(2) p0(2) by (auto simp: pg F(1,2) le)
  ultimately have base_g: "rf_base (m(?fid \<mapsto> p + 1)) g"
    unfolding rf_base_def using B(4) s(1) unp room by (simp add: F)
  have fs: "rf_free_slots g q = (if q = p then {..<?n} else rf_free_slots f q)" for q
    using b(5) by (simp add: rf_free_slots_def pg F(2))
  have "rf_free_slots f q = {}" if "q \<noteq> 0" "q \<le> ?N" for q
    using chain that by (auto simp: rf_chain_def)
  then have "q \<in> set [p] \<longleftrightarrow> q \<noteq> 0 \<and> q \<le> rf_num_pages g \<and> rf_free_slots g q \<noteq> {}" for q
    using L(2) p0 by (auto simp: fs F(1) le)
  moreover have "rf_next g p = -1" using b(4) by (simp add: rf_next_def pg)
  ultimately have chain_g: "rf_chain g [p]" by (simp add: rf_chain_def F(5))
  have "record_map g q = record_map f q" for q
    using b(3) p0(2) by (auto simp: record_map_def F pg le)
  then have "record_map g = record_map f" by (rule ext)
  then show thesis using that [OF run base_g chain_g _ F(1,2,3,4)] by blast
qed

subsection \<open>Insert\<close>

text \<open>The record goes to the first page of the chain, or to a new page, and there to the first free slot.\<close>

lemma insert_record_least:
  assumes base: "rf_base m f" and chain: "rf_chain f ps" and len: "length d = rf_record_size f"
    and room: "ps \<noteq> [] \<or> unat (rf_num_pages f) < 2147483647"
  obtains g r m' qs where "insert_record d f = (Inr r, g)" and "rf_base m' g" and "rf_chain g qs"
    and "record_map f r = None" and "record_map g = (record_map f)(r \<mapsto> d)"
    and "rf_slots g = rf_slots f" and "rf_record_size g = rf_record_size f" and "rf_file_id g = rf_file_id f"
    and "rf_num_pages g = (if ps = [] then rf_num_pages f + 1 else rf_num_pages f)"
    and "rid_page_id r = (case ps of [] \<Rightarrow> rf_num_pages f + 1 | p # _ \<Rightarrow> p)"
    and "\<forall>j < unat (rid_slot_id r). record_map f \<lparr>rid_page_id = rid_page_id r, rid_slot_id = of_nat j\<rparr> \<noteq> None"
proof -
  obtain h p qs m' where h: "(if rf_first_free f = RECORD_PAGE_LIST_END
          then and_then_st (allocate_data_page f) (\<lambda>_ f. (Inr (), f)) else (Inr (), f)) = (Inr (), h)"
    and hb: "rf_base m' h" "rf_chain h (p # qs)" "record_map h = record_map f" "rf_slots h = rf_slots f"
      "rf_record_size h = rf_record_size f" "rf_file_id h = rf_file_id f"
      "rf_num_pages h = (if ps = [] then rf_num_pages f + 1 else rf_num_pages f)"
      "p = (case ps of [] \<Rightarrow> rf_num_pages f + 1 | p # _ \<Rightarrow> p)"
  proof (cases ps)
    case Nil
    have first: "rf_first_free f = RECORD_PAGE_LIST_END" using chain Nil by (simp add: rf_chain_def)
    have "unat (rf_num_pages f) < 2147483647" using room Nil by simp
    with base chain [unfolded Nil] obtain g where g: "allocate_data_page f = (Inr (rf_num_pages f + 1), g)"
      "rf_base (m(rf_file_id f \<mapsto> rf_num_pages f + 1 + 1)) g" "rf_chain g [rf_num_pages f + 1]"
      "record_map g = record_map f" "rf_slots g = rf_slots f" "rf_record_size g = rf_record_size f"
      "rf_file_id g = rf_file_id f" "rf_num_pages g = rf_num_pages f + 1"
      by (rule allocate_data_page_ok)
    from that [OF _ g(2,3,4,5,6,7)] g(8) Nil show thesis by (simp add: g(1) first)
  next
    case (Cons q qs)
    then have "rf_first_free f = q" "q \<le> rf_num_pages f" using chain by (auto simp: rf_chain_def)
    then have "rf_first_free f \<noteq> RECORD_PAGE_LIST_END"
      using small_page_ids(1) [OF rf_baseD(3) [OF base]] by simp
    then show thesis
      by (intro that [of f m q qs]) (use base chain Cons in simp_all)
  qed
  have first: "rf_first_free h = p" using hb(2) by (simp add: rf_chain_def)
  have lenh: "length d = rf_record_size h" using len hb(5) by simp
  obtain g r qs' where g: "with_page_mut p (insert_into_page p d) h = (Inr r, g)" "rf_base m' g" "rf_chain g qs'"
    "record_map h r = None" "record_map g = (record_map h)(r \<mapsto> d)" "rf_num_pages g = rf_num_pages h"
    "rf_slots g = rf_slots h" "rf_record_size g = rf_record_size h" "rf_file_id g = rf_file_id h" "rid_page_id r = p"
    "\<forall>j < unat (rid_slot_id r). record_map h \<lparr>rid_page_id = p, rid_slot_id = of_nat j\<rparr> \<noteq> None"
    by (rule insert_nonempty [OF hb(1,2) lenh])
  have run: "insert_record d f = (Inr r, g)"
    using h g(1) len first by (simp add: insert_record_def ensure_record_length_def)
  show thesis
    by (rule that [OF run g(2,3)]) (use g(4-11) hb in simp_all)
qed

lemma insert_record_ok:
  assumes base: "rf_base m f" and chain: "rf_chain f ps" and len: "length d = rf_record_size f"
    and room: "ps \<noteq> [] \<or> unat (rf_num_pages f) < 2147483647"
  obtains g r m' qs where "insert_record d f = (Inr r, g)" and "rf_base m' g" and "rf_chain g qs"
    and "record_map f r = None" and "record_map g = (record_map f)(r \<mapsto> d)"
    and "rf_slots g = rf_slots f" and "rf_record_size g = rf_record_size f" and "rf_file_id g = rf_file_id f"
    and "unat (rf_num_pages g) \<le> Suc (unat (rf_num_pages f))"
proof -
  obtain g r m' qs where g: "insert_record d f = (Inr r, g)" "rf_base m' g" "rf_chain g qs"
    "record_map f r = None" "record_map g = (record_map f)(r \<mapsto> d)" "rf_slots g = rf_slots f"
    "rf_record_size g = rf_record_size f" "rf_file_id g = rf_file_id f"
    "rf_num_pages g = (if ps = [] then rf_num_pages f + 1 else rf_num_pages f)"
    by (rule insert_record_least [OF assms])
  have "unat (rf_num_pages g) \<le> Suc (unat (rf_num_pages f))"
    using checked_add_u32_one [of "rf_num_pages f"] rf_baseD(3) [OF base] g(9) by simp
  from that [OF g(1-8) this] show thesis .
qed

end
