(* ===== verification/Record_Durable.thy ===== *)
theory Record_Durable
  imports Record_Insert
begin

section \<open>Record files: create, flush, drop and open\<close>

text \<open>
  A record file that is flushed or dropped has everything on its device: opening the device's
  bytes gives a file that stands for the same map.
\<close>

subsection \<open>The header page\<close>

lemma persist_header_ok:
  assumes base: "rf_base m f" and chain: "rf_chain f ps"
  obtains g where "persist_header f = (Inr (), g)" and "rf_base m g" and "rf_chain g ps"
    and "record_map g = record_map f" and "rf_header g = rf_header f" and "\<not> rf_header_dirty g"
    and "rf_file_id g = rf_file_id f"
proof (cases "rf_header_dirty f")
  case False
  then show thesis using that [of f] assms by (simp add: persist_header_def)
next
  case True
  let ?b = "put_at 0 (record_header_encode (rf_header f)) (rf_page f 0)"
  note B = rf_baseD [OF base]
  have zero: "0 \<le> rf_num_pages f" by simp
  have len: "length (rf_page f 0) = 4092" by (rule rf_page_length [OF base zero])
  then have len': "length ?b = 4092" by (simp del: put_at_0)
  define body :: "u8 list \<times> record_file \<Rightarrow> (record_error + unit) \<times> (u8 list \<times> record_file)" where
    "body = (\<lambda>(bytes, f). (Inr (), (put_at 0 (record_header_encode (rf_header f)) bytes, f\<lparr>rf_header_dirty := False\<rparr>)))"
  have body: "body (rf_page f 0, f\<lparr>rf_pool := s\<rparr>) =
      (Inr (), ?b, f\<lparr>rf_pool := s, rf_header := rf_header f, rf_header_dirty := False\<rparr>)" for s
    by (simp add: body_def del: put_at_0)
  obtain g where g: "with_page_mut 0 body f = (Inr (), g)" and w: "wrote m 0 ?b (rf_header f) False f g"
    by (rule with_page_mut_ok [OF base zero body len'])
  note W = wrote_facts [OF w]
  have run: "persist_header f = (Inr (), g)" using True g by (simp add: persist_header_def body_def)
  have "rf_view g p \<noteq> None \<longleftrightarrow> p \<le> rf_num_pages g" for p using B(5) [of p] by (simp add: W)
  moreover have "data_page_ok (rf_slots g) (rf_page g p)" if "p \<noteq> 0" "p \<le> rf_num_pages g" for p
    using that B(6) [of p] by (simp add: W)
  moreover have "bytes_at 0 16 ?b = record_header_encode (rf_header f)"
    using len by (intro bytes_at_put_at_same) simp_all
  ultimately have base_g: "rf_base m g"
    unfolding rf_base_def using B(2,3,4) W by simp
  have fs: "rf_free_slots g p = rf_free_slots f p" if "p \<noteq> 0" for p
    using that by (simp add: rf_free_slots_def W)
  have notin: "0 \<notin> set ps" using chain by (simp add: rf_chain_def)
  have "free_chain (rf_next g) (rf_first_free g) ps"
    using chain notin by (simp add: rf_chain_def W free_chain_update)
  moreover have "p \<in> set ps \<longleftrightarrow> p \<noteq> 0 \<and> p \<le> rf_num_pages g \<and> rf_free_slots g p \<noteq> {}" for p
    using chain fs [of p] by (auto simp: rf_chain_def W(1))
  ultimately have "rf_chain g ps" using chain by (simp add: rf_chain_def)
  moreover have "record_map g = record_map f" by (auto simp: record_map_def W fun_eq_iff)
  ultimately show thesis using that [OF run base_g] W by simp
qed

subsection \<open>Flushing\<close>

lemma flush_records_ok:
  assumes base: "rf_base m f" and chain: "rf_chain f ps"
  obtains g pf where "flush_records f = (Inr (), g)" and "rf_base m g" and "rf_chain g ps"
    and "record_map g = record_map f" and "rf_header g = rf_header f" and "\<not> rf_header_dirty g"
    and "rf_file_id g = rf_file_id f"
    and "bp_files (rf_pool g) (rf_file_id f) = Some pf" and "on_disk pf" and "page_file_good pf"
    and "page_content pf = rf_view g" and "pf_num_pages pf = rf_num_pages f + 1"
proof -
  obtain h where h: "persist_header f = (Inr (), h)" "rf_base m h" "rf_chain h ps" "record_map h = record_map f"
    "rf_header h = rf_header f" "\<not> rf_header_dirty h" "rf_file_id h = rf_file_id f"
    by (rule persist_header_ok [OF base chain])
  let ?fid = "rf_file_id f"
  have idle: "pool_idle m (rf_pool h)" and cnt: "m ?fid = Some (rf_num_pages f + 1)"
    using rf_baseD(1,2) [OF h(2)] h(5,7) by simp_all
  have ok: "pool_ok (rf_pool h)" using idle by (simp add: pool_idle_def)
  have "pool_counts (rf_pool h) ?fid = Some (rf_num_pages f + 1)" using idle cnt by (simp add: pool_idle_def)
  then have reg: "bp_files (rf_pool h) ?fid \<noteq> None" by (auto simp: pool_counts_def)
  obtain t pf where t: "force_file ?fid None (rf_pool h) = (Inr (), t)" "same_pool (rf_pool h) t"
    "bp_files t ?fid = Some pf" "on_disk pf" "page_file_good pf"
    "\<And>p. page_content pf p = pool_view (rf_pool h) (page_key ?fid p)"
    using force_file_ok [OF ok reg, of None] by metis
  have ct: "pool_counts t = pool_counts (rf_pool h)"
    using pool_counts_force [of ?fid None "rf_pool h"] t(1) by simp
  define g where "g = h\<lparr>rf_pool := t\<rparr>"
  have same: "same_records m h g"
    using same_pool_idle [OF t(2) idle ct] by (auto simp: same_records_def g_def)
  note S = same_records_facts [OF same]
  have run: "flush_records f = (Inr (), g)" using h(1,7) t(1) by (simp add: flush_records_def g_def)
  have "pool_counts t ?fid = Some (rf_num_pages f + 1)" using ct idle cnt by (simp add: pool_idle_def)
  then have num: "pf_num_pages pf = rf_num_pages f + 1" using t(3) by (simp add: pool_counts_def)
  have "page_content pf = rf_view g" using t(6) S(4) h(7) by (auto simp: rf_view_def fun_eq_iff)
  then show thesis
    using that [OF run same_records_base [OF same h(2)] same_records_chain [OF same h(3)]] S h t num
    by (simp add: g_def)
qed

subsection \<open>Opening\<close>

lemma register_in_new_pool:
  assumes good: "page_file_good pf" and cap: "0 < cap"
  obtains s where "register_file pf (pool_new cap) = (Inr 0, s)" and "pool_idle [0 \<mapsto> pf_num_pages pf] s"
    and "pool_view s = (\<lambda>k. if bk_file_id k = 0 then page_content pf (bk_page_id k) else None)"
    and "bp_files s = [0 \<mapsto> pf]"
proof -
  have new: "bp_next_file_id (pool_new cap) = 0" "bp_files (pool_new cap) = Map.empty"
    "bp_frames (pool_new cap) = replicate cap frame_new" by (simp_all add: pool_new_def)
  have room: "unat (bp_next_file_id (pool_new cap)) < 4294967295" by (simp add: new)
  obtain s where s: "register_file pf (pool_new cap) = (Inr 0, s)" "pool_ok s" "bp_files s = [0 \<mapsto> pf]"
    "pool_pins s = pool_pins (pool_new cap)"
    "pool_view s = (\<lambda>k. if bk_file_id k = 0 then page_content pf (bk_page_id k) else pool_view (pool_new cap) k)"
    "bp_frames s = replicate cap frame_new"
    by (rule register_file_ok [OF pool_new_ok good room, unfolded new])
  have counts: "pool_counts s = [0 \<mapsto> pf_num_pages pf]" by (auto simp: pool_counts_def s(3) fun_eq_iff)
  have "pool_idle [0 \<mapsto> pf_num_pages pf] s"
    unfolding pool_idle_def s(4) s(6) pool_new_pins counts using s(2) cap by simp
  moreover have "pool_view s = (\<lambda>k. if bk_file_id k = 0 then page_content pf (bk_page_id k) else None)"
    unfolding s(5) pool_new_view by simp
  ultimately show thesis using that s(1,3) by blast
qed

lemma chain_header_valid:
  assumes base: "rf_base m f" and chain: "rf_chain f ps"
  shows "record_header_validate (rf_header f) = Inr ()"
proof -
  have first: "rf_first_free f = -1 \<or> rf_first_free f \<le> rf_num_pages f"
  proof (cases ps)
    case Nil
    then show ?thesis using chain by (simp add: rf_chain_def)
  next
    case (Cons p qs)
    then have "rf_first_free f = p" "p \<le> rf_num_pages f" using chain by (auto simp: rf_chain_def)
    then show ?thesis by simp
  qed
  have "-1 \<le> sint (rf_first_free f)" using rf_first_small [OF base chain] by simp
  then show ?thesis
    using first rf_baseD(4) [OF base] rf_layout(4) [OF base] by (auto simp: record_header_validate_def not_less)
qed

lemma open_records_ok:
  assumes base: "rf_base m f" and chain: "rf_chain f ps" and clean: "\<not> rf_header_dirty f"
    and good: "page_file_good pf" and content: "page_content pf = rf_view f"
    and num: "pf_num_pages pf = rf_num_pages f + 1" and cap: "0 < cap"
  obtains g m' where "open_records pf cap = Inr g" and "rf_base m' g" and "rf_chain g ps"
    and "record_map g = record_map f" and "rf_header g = rf_header f"
proof -
  let ?m = "[0 \<mapsto> pf_num_pages pf]"
  note B = rf_baseD [OF base]
  obtain s where s: "register_file pf (pool_new cap) = (Inr 0, s)" "pool_idle ?m s"
    "pool_view s = (\<lambda>k. if bk_file_id k = 0 then page_content pf (bk_page_id k) else None)"
    by (rule register_in_new_pool [OF good cap])
  have view0: "pool_view s (page_key 0 0) = Some (rf_page f 0)"
    using rf_view_page [OF base, of 0] by (simp add: s(3) content)
  obtain i t where t: "get_key (page_key 0 0) s = (Inr i, t)" "guard_read i t = rf_page f 0"
    "pool_idle ?m (guard_drop i t)" "pool_view (guard_drop i t) = pool_view s"
    using pc.get_used [OF s(2) view0] by blast
  have dec: "record_header_decode (bytes_at 0 16 (rf_page f 0)) = Inr (rf_header f)"
    using B(7) [OF clean] chain_header_valid [OF base chain] by (simp add: record_header_decode_encode)
  have N: "checked_add_u32 (rf_num_pages f) 1 = Some (rf_num_pages f + 1)"
    and N0: "rf_num_pages f + 1 \<noteq> 0"
    using checked_add_u32_one [of "rf_num_pages f"] B(3) by (auto simp: word_unat_eq_iff)
  define g where "g = \<lparr>rf_pool = guard_drop i t, rf_file_id = 0, rf_header = rf_header f, rf_header_dirty = False\<rparr>"
  have run: "open_records pf cap = Inr g"
    using s(1) t(1,2) dec N N0 num by (simp add: open_records_def get_key_def g_def)
  have F: "rf_header g = rf_header f" "rf_file_id g = 0" "rf_pool g = guard_drop i t" "\<not> rf_header_dirty g"
    by (simp_all add: g_def)
  have vw: "rf_view g = rf_view f" by (simp add: rf_view_def F t(4) s(3) content [symmetric] fun_eq_iff)
  then have pg: "rf_page g = rf_page f" by (simp add: rf_page_def fun_eq_iff)
  have "rf_base ?m g"
    unfolding rf_base_def using B num t(3) clean by (simp add: F vw pg)
  moreover have "rf_chain g ps"
  proof -
    have "rf_next g = rf_next f" "rf_free_slots g = rf_free_slots f"
      by (simp_all add: rf_next_def rf_free_slots_def F pg fun_eq_iff)
    then show ?thesis using chain by (simp add: rf_chain_def F)
  qed
  moreover have "record_map g = record_map f" by (auto simp: record_map_def F pg fun_eq_iff)
  ultimately show thesis using that [OF run] F(1) by blast
qed

subsection \<open>Creating\<close>

lemma create_records_ok:
  assumes empty: "page_refines pf sp_empty" and cap: "0 < cap" and slots: "compute_slots_per_page rs = Inr n"
  obtains f m s where "create_records pf cap rs = (Inr f, s)" and "rf_base m f" and "rf_chain f []"
    and "record_map f = Map.empty" and "rf_record_size f = rs" and "rf_slots f = n" and "\<not> rf_header_dirty f"
    and "m = [0 \<mapsto> 1]" and "rf_num_pages f = 0"
proof -
  have good: "page_file_good pf" using empty by blast
  have pf: "page_content pf = Map.empty" "pf_num_pages pf = 0"
    using empty by (simp_all add: page_refines_def sp_empty_def)
  obtain s where s: "register_file pf (pool_new cap) = (Inr 0, s)" "pool_idle [0 \<mapsto> 0] s"
    "pool_view s = (\<lambda>k. if bk_file_id k = 0 then page_content pf (bk_page_id k) else None)"
    by (rule register_in_new_pool [OF good cap, unfolded pf(2)])
  have vs: "pool_view s k = None" for k by (simp add: s(3) pf(1))
  have dense: "\<forall>p. pool_view s (page_key 0 p) \<noteq> None \<longleftrightarrow> p < (0 :: u32)" by (simp add: vs)
  have m0: "[0 \<mapsto> 0] (0 :: u32) = Some (0 :: u32)" and r0: "unat (0 :: u32) < 4294967295" by simp_all
  obtain i t where al: "pool_allocate_page 0 s = (Inr (i, 0), t)"
    and view: "pool_view t = (pool_view s)(page_key 0 0 \<mapsto> replicate 4092 0)"
    and gd: "guard_on (page_key 0 0) i s t" and ct: "pool_counts t = [0 \<mapsto> 0, 0 \<mapsto> 0 + 1]"
    by (rule pool_allocate_dense [OF s(2) m0 r0 dense])
  define u where "u = guard_drop i t"
  have u: "pool_idle [0 \<mapsto> 1] u" "pool_view u = [page_key 0 0 \<mapsto> replicate 4092 0]"
    using guard_on_release(1) [OF s(2) gd ct] view vs by (auto simp: u_def fun_eq_iff)
  note cs = compute_slots_Inr [OF slots]
  have un: "unat (of_nat rs :: u32) = rs" "unat (of_nat n :: u32) = n"
    using cs by (simp_all add: unat_of_nat_u32)
  define h where "h = \<lparr>rh_record_size = of_nat rs, rh_slots_per_page = of_nat n,
      rh_first_free_page = RECORD_PAGE_LIST_END, rh_num_pages = 0\<rparr>"
  have hn: "record_header_new rs = Inr h" using slots cs(1) by (simp add: record_header_new_def h_def)
  define f where "f = \<lparr>rf_pool = u, rf_file_id = 0, rf_header = h, rf_header_dirty = True\<rparr>"
  have F: "rf_header f = h" "rf_slots f = n" "rf_record_size f = rs" "rf_num_pages f = 0" "rf_file_id f = 0"
    "rf_pool f = u" "rf_header_dirty f" "rf_first_free f = -1" by (simp_all add: f_def h_def un)
  have "rf_view f p \<noteq> None \<longleftrightarrow> p \<le> 0" for p by (simp add: rf_view_def F u(2))
  then have base: "rf_base [0 \<mapsto> 1] f"
    unfolding rf_base_def using u(1) slots by (simp add: F(2-8))
  have chain: "rf_chain f []" by (auto simp: rf_chain_def F(2-8))
  have map: "record_map f = Map.empty" by (auto simp: record_map_def F(2-8) fun_eq_iff)
  obtain g where g: "persist_header f = (Inr (), g)" "rf_base [0 \<mapsto> 1] g" "rf_chain g []"
    "record_map g = record_map f" "rf_header g = rf_header f" "\<not> rf_header_dirty g" "rf_file_id g = rf_file_id f"
    by (rule persist_header_ok [OF base chain])
  have "create_records pf cap rs = (Inr g, rf_pool g)"
    using s(1) al hn g(1) by (simp add: create_records_def Let_def f_def u_def)
  then show thesis using that [OF _ g(2,3)] g map F(2,3,4) by simp
qed

subsection \<open>Dropping\<close>

lemma record_file_drop_ok:
  assumes base: "rf_base m f" and chain: "rf_chain f ps"
  obtains pf g where "record_file_drop f = Some pf" and "on_disk pf" and "page_file_good pf"
    and "rf_base m g" and "rf_chain g ps" and "record_map g = record_map f" and "rf_header g = rf_header f"
    and "\<not> rf_header_dirty g" and "page_content pf = rf_view g" and "pf_num_pages pf = rf_num_pages g + 1"
proof -
  obtain g pf where g: "flush_records f = (Inr (), g)" "rf_base m g" "rf_chain g ps" "record_map g = record_map f"
    "rf_header g = rf_header f" "\<not> rf_header_dirty g" "rf_file_id g = rf_file_id f"
    "bp_files (rf_pool g) (rf_file_id f) = Some pf" "on_disk pf" "page_file_good pf"
    "page_content pf = rf_view g" "pf_num_pages pf = rf_num_pages f + 1"
    by (rule flush_records_ok [OF base chain])
  obtain a where a: "page_refines pf a" using g(10) by (auto simp: page_file_good_def)
  obtain q where q: "page_flush pf = (Inr (), q)" "page_refines q a" "on_disk q"
    using a by (rule page_flush_refines)
  have "record_file_drop f = Some q" using g(1,8) q(1) by (simp add: record_file_drop_def page_file_drop_def)
  moreover have "page_content q = page_content pf" "pf_num_pages q = pf_num_pages pf"
    using a q(2) by (simp_all add: page_refines_def)
  ultimately show thesis using that [OF _ q(3)] q(2) g by auto
qed

lemma reopen_records_ok:
  assumes base: "rf_base m f" and chain: "rf_chain f ps" and cap: "0 < cap"
  obtains pf pf' g m' where "record_file_drop f = Some pf" and "page_open (pf_io pf) = Inr pf'"
    and "open_records pf' cap = Inr g" and "rf_base m' g" and "rf_chain g ps"
    and "record_map g = record_map f" and "rf_header g = rf_header f"
proof -
  obtain pf h where h: "record_file_drop f = Some pf" "on_disk pf" "page_file_good pf" "rf_base m h" "rf_chain h ps"
    "record_map h = record_map f" "rf_header h = rf_header f" "\<not> rf_header_dirty h"
    "page_content pf = rf_view h" "pf_num_pages pf = rf_num_pages h + 1"
    by (rule record_file_drop_ok [OF base chain])
  obtain a where a: "page_refines pf a" using h(3) by (auto simp: page_file_good_def)
  obtain pf' where pf': "page_open (pf_io pf) = Inr pf'" "page_refines pf' a"
    using page_open_refines [OF a h(2)] .
  have "page_file_good pf'" "page_content pf' = rf_view h" "pf_num_pages pf' = rf_num_pages h + 1"
    using a pf'(2) h(9,10) by (auto simp: page_refines_def)
  then obtain g m' where "open_records pf' cap = Inr g" "rf_base m' g" "rf_chain g ps" "record_map g = record_map h"
    "rf_header g = rf_header h"
    using open_records_ok [OF h(4,5,8) _ _ _ cap] by metis
  then show thesis using that [OF h(1) pf'(1)] h(6,7) by simp
qed

end
