(* ===== verification/Record_Scan.thy ===== *)
theory Record_Scan
  imports Record_Durable
begin

section \<open>Scanning a record file\<close>

text \<open>
  The slots of a file are numbered page by page: position \<open>k\<close> is slot \<open>k mod n\<close> of page
  \<open>1 + k div n\<close>.  A cursor at position \<open>k\<close> advances to \<open>k + 1\<close>, and a scan returns the
  records of the positions that hold one, in this order.
\<close>

definition rid_at :: "nat \<Rightarrow> nat \<Rightarrow> rid" where
  "rid_at n k = \<lparr>rid_page_id = of_nat (Suc (k div n)), rid_slot_id = of_nat (k mod n)\<rparr>"

definition cursor_at :: "nat \<Rightarrow> nat \<Rightarrow> (u8 list \<Rightarrow> record_error + bool) \<Rightarrow> record_scan" where
  "cursor_at n k p = \<lparr>sc_page_id = of_nat (Suc (k div n)), sc_slot_id = of_nat (k mod n), sc_predicate = p\<rparr>"

definition rf_positions :: "record_file \<Rightarrow> nat" where
  "rf_positions f = unat (rf_num_pages f) * rf_slots f"

definition record_at :: "record_file \<Rightarrow> nat \<Rightarrow> db_record option" where
  "record_at f k = map_option (\<lambda>d. \<lparr>rec_rid = rid_at (rf_slots f) k, rec_data = d\<rparr>) (record_map f (rid_at (rf_slots f) k))"

definition records_from :: "record_file \<Rightarrow> nat \<Rightarrow> db_record list" where
  "records_from f k = List.map_filter (record_at f) [k..<rf_positions f]"

lemma position_page:
  assumes "0 < n" and "k < N * (n :: nat)"
  shows "k div n < N"
  using assms by (simp add: less_mult_imp_div_less)

lemma position_page_iff: "0 < n \<Longrightarrow> k div n < N \<longleftrightarrow> k < N * (n :: nat)"
  by (rule div_less_iff_less_mult)

lemma unat_position:
  assumes base: "rf_base m f" and k: "k \<le> rf_positions f"
  shows "unat (of_nat (Suc (k div rf_slots f)) :: u32) = Suc (k div rf_slots f)"
    and "unat (of_nat (k mod rf_slots f) :: u32) = k mod rf_slots f"
proof -
  note L = rf_layout [OF base]
  have "k div rf_slots f \<le> unat (rf_num_pages f)"
    using k L(2) div_le_mono [of k "unat (rf_num_pages f) * rf_slots f" "rf_slots f"] by (simp add: rf_positions_def)
  then show "unat (of_nat (Suc (k div rf_slots f)) :: u32) = Suc (k div rf_slots f)"
    using rf_baseD(3) [OF base] by (intro unat_of_nat_u32) simp
  have "k mod rf_slots f < rf_slots f" using L(2) by simp
  then show "unat (of_nat (k mod rf_slots f) :: u32) = k mod rf_slots f"
    using L(3) by (intro unat_of_nat_u32) simp
qed

lemma advance_cursor_at:
  assumes base: "rf_base m f" and k: "k < rf_positions f"
  shows "advance_cursor f (cursor_at (rf_slots f) k p) = cursor_at (rf_slots f) (Suc k) p"
proof -
  let ?n = "rf_slots f"
  note L = rf_layout [OF base]
  have u: "unat (of_nat (k mod ?n) :: u32) = k mod ?n" using unat_position(2) [OF base] k by simp
  have lt: "k mod ?n < ?n" using L(2) by simp
  have less: "(of_nat (k mod ?n) :: u32) + 1 < rh_slots_per_page (rf_header f) \<longleftrightarrow> Suc (k mod ?n) < ?n"
    using checked_add_u32_one [of "of_nat (k mod ?n)"] u lt L(3) by (simp add: word_less_nat_alt)
  show ?thesis
  proof (cases "Suc (k mod ?n) < ?n")
    case True
    then have "Suc k mod ?n = Suc (k mod ?n)" "Suc k div ?n = k div ?n"
      by (simp_all add: mod_Suc div_Suc)
    then show ?thesis using True less by (simp add: advance_cursor_def cursor_at_def add.commute)
  next
    case False
    then have "Suc (k mod ?n) = ?n" using lt by simp
    then have "Suc k mod ?n = 0" "Suc k div ?n = Suc (k div ?n)"
      by (simp_all add: mod_Suc div_Suc)
    then show ?thesis using False less by (simp add: advance_cursor_def cursor_at_def add.commute)
  qed
qed

lemma cursor_in_range:
  assumes base: "rf_base m f" and k: "k \<le> rf_positions f"
  shows "rf_num_pages f < sc_page_id (cursor_at (rf_slots f) k p) \<longleftrightarrow> k = rf_positions f"
proof -
  have "rf_num_pages f < sc_page_id (cursor_at (rf_slots f) k p) \<longleftrightarrow> \<not> k div rf_slots f < unat (rf_num_pages f)"
    using unat_position(1) [OF assms] by (auto simp: cursor_at_def word_less_nat_alt)
  then show ?thesis
    using position_page_iff [OF rf_layout(2) [OF base]] k by (auto simp: rf_positions_def)
qed

lemma read_record_if_used_at:
  assumes base: "rf_base m f" and k: "k < rf_positions f"
  obtains g where "same_records m f g" and
    "read_record_if_used (of_nat (Suc (k div rf_slots f))) (k mod rf_slots f) f = (Inr (record_at f k), g)"
proof -
  let ?n = "rf_slots f" and ?p = "of_nat (Suc (k div rf_slots f)) :: u32" and ?i = "k mod rf_slots f"
  let ?b = "rf_page f ?p"
  note L = rf_layout [OF base] and U = unat_position [OF base less_imp_le [OF k]]
  have "k div ?n < unat (rf_num_pages f)" using position_page [OF L(2)] k by (simp add: rf_positions_def)
  then have p: "?p \<noteq> 0" "?p \<le> rf_num_pages f"
    using U(1) by (auto simp: u32_le_unat unsigned_eq_0_iff [symmetric] simp del: of_nat_Suc)
  have i: "?i < ?n" using L(2) by simp
  have ok: "data_page_ok ?n ?b" by (rule rf_baseD(6) [OF base p])
  have hdr: "read_page_header ?n ?b = Inr (page_hdr ?b)" "unat (rp_num_slots (page_hdr ?b)) = ?n"
    using read_page_header_ok [OF ok] ok by (simp_all add: data_page_ok_def)
  have slot: "record_map f (rid_at ?n k) = page_slot ?n (rf_record_size f) ?b ?i"
    using p U(2) by (simp add: record_map_def rid_at_def del: of_nat_Suc)
  obtain g where g: "with_page ?p (read_used_slot f ?p ?i) f = (read_used_slot f ?p ?i ?b, g)" "same_records m f g"
    by (rule with_page_ok [OF base p(2)])
  have "read_used_slot f ?p ?i ?b = Inr (record_at f k)"
    using hdr i record_range_ok [OF base i] slot
    by (simp add: read_used_slot_def record_at_def page_slot_def range_bytes_slot rid_at_def not_le del: of_nat_Suc)
  then have "read_record_if_used ?p ?i f = (Inr (record_at f k), g)"
    using g(1) p by (simp add: read_record_if_used_def not_less del: of_nat_Suc)
  then show thesis using that g(2) by blast
qed

text \<open>The scan's predicate evaluates to \<open>Q\<close>, without an error, on the records of the file.\<close>

definition evaluates :: "(u8 list \<Rightarrow> record_error + bool) \<Rightarrow> (u8 list \<Rightarrow> bool) \<Rightarrow> record_file \<Rightarrow> bool" where
  "evaluates P Q f \<longleftrightarrow> (\<forall>r d. record_map f r = Some d \<longrightarrow> P d = Inr (Q d))"

lemma evaluatesD: "evaluates P Q f \<Longrightarrow> record_map f r = Some d \<Longrightarrow> P d = Inr (Q d)"
  by (simp add: evaluates_def)

lemma same_records_evaluates: "same_records m f g \<Longrightarrow> evaluates P Q f \<Longrightarrow> evaluates P Q g"
  by (simp add: evaluates_def same_records_facts)

text \<open>What the loop finds from a position on.\<close>

fun first_match :: "(u8 list \<Rightarrow> bool) \<Rightarrow> record_file \<Rightarrow> nat list \<Rightarrow> nat option" where
  "first_match Q f [] = None"
| "first_match Q f (k # ks) =
     (case record_at f k of
        Some r \<Rightarrow> if Q (rec_data r) then Some k else first_match Q f ks
      | None \<Rightarrow> first_match Q f ks)"

lemma same_records_at: "same_records m f g \<Longrightarrow> record_at g = record_at f \<and> rf_positions g = rf_positions f"
  by (simp add: record_at_def rf_positions_def same_records_facts fun_eq_iff)

lemma next_record_loop_at:
  assumes "rf_base m f" and "k \<le> rf_positions f" and "rf_positions f \<le> k + fuel"
    and "evaluates P Q f"
  shows "\<exists>g. same_records m f g \<and>
    next_record_loop fuel (cursor_at (rf_slots f) k P, f) =
      (case first_match Q f [k..<rf_positions f] of
         None \<Rightarrow> (Inr None, (cursor_at (rf_slots f) (rf_positions f) P, g))
       | Some j \<Rightarrow> (Inr (record_at f j), (cursor_at (rf_slots f) (Suc j) P, g)))"
  using assms
proof (induction fuel arbitrary: k f)
  case 0
  then have "k = rf_positions f" by simp
  then show ?case
    using cursor_in_range [OF 0(1), of k P] same_records_refl [OF 0(1)] by (intro exI [of _ f]) simp
next
  case (Suc fuel)
  let ?n = "rf_slots f"
  show ?case
  proof (cases "k = rf_positions f")
    case True
    then show ?thesis
      using cursor_in_range [OF Suc(2), of k P] same_records_refl [OF Suc(2)] by (intro exI [of _ f]) simp
  next
    case False
    then have k: "k < rf_positions f" using Suc(3) by simp
    have in_range: "\<not> rf_num_pages f < sc_page_id (cursor_at ?n k P)"
      using cursor_in_range [OF Suc(2) Suc(3), of P] False by simp
    obtain h where h: "same_records m f h"
      "read_record_if_used (of_nat (Suc (k div ?n))) (k mod ?n) f = (Inr (record_at f k), h)"
      by (rule read_record_if_used_at [OF Suc(2) k])
    note S = same_records_facts [OF h(1)] and A = same_records_at [OF h(1)]
    have read: "read_record_if_used (sc_page_id (cursor_at ?n k P)) (unat (sc_slot_id (cursor_at ?n k P))) f =
        (Inr (record_at f k), h)"
      using h(2) unat_position(2) [OF Suc(2,3)] by (simp add: cursor_at_def del: of_nat_Suc)
    have upt: "[k..<rf_positions f] = k # [Suc k..<rf_positions f]" using k by (rule upt_conv_Cons)
    have pred: "sc_predicate (cursor_at ?n j P) = P" for j by (simp add: cursor_at_def)
    have rest: "\<exists>g. same_records m f g \<and> next_record_loop fuel (cursor_at ?n (Suc k) P, h) =
      (case first_match Q f [Suc k..<rf_positions f] of
         None \<Rightarrow> (Inr None, (cursor_at ?n (rf_positions f) P, g))
       | Some j \<Rightarrow> (Inr (record_at f j), (cursor_at ?n (Suc j) P, g)))"
    proof -
      have fm: "first_match Q h js = first_match Q f js" for js
        by (induction js) (simp_all add: A split: option.split)
      have pre: "Suc k \<le> rf_positions h" "rf_positions h \<le> Suc k + fuel"
        "evaluates P Q h"
        using k Suc(4) A same_records_evaluates [OF h(1) Suc(5)] by simp_all
      obtain g where "same_records m h g" "next_record_loop fuel (cursor_at (rf_slots h) (Suc k) P, h) =
          (case first_match Q h [Suc k..<rf_positions h] of
             None \<Rightarrow> (Inr None, (cursor_at (rf_slots h) (rf_positions h) P, g))
           | Some j \<Rightarrow> (Inr (record_at h j), (cursor_at (rf_slots h) (Suc j) P, g)))"
        using Suc.IH [OF same_records_base [OF h(1) Suc(2)] pre] by blast
      from this(2) have "next_record_loop fuel (cursor_at ?n (Suc k) P, h) =
          (case first_match Q f [Suc k..<rf_positions f] of
             None \<Rightarrow> (Inr None, (cursor_at ?n (rf_positions f) P, g))
           | Some j \<Rightarrow> (Inr (record_at f j), (cursor_at ?n (Suc j) P, g)))"
        unfolding S(1) fm conjunct1 [OF A] conjunct2 [OF A] .
      then show ?thesis using same_records_trans [OF h(1) \<open>same_records m h g\<close>] by blast
    qed
    show ?thesis
    proof (cases "record_at f k")
      case None
      then show ?thesis
        using rest in_range read advance_cursor_at [OF Suc(2) k, of P] by (simp add: upt Let_def)
    next
      case (Some r)
      then obtain d where d: "record_map f (rid_at ?n k) = Some d" "rec_data r = d" by (auto simp: record_at_def)
      show ?thesis
      proof (cases "Q d")
        case True
        then show ?thesis
          using Some d evaluatesD [OF Suc(5) d(1)] h(1) in_range read advance_cursor_at [OF Suc(2) k, of P]
          by (intro exI [of _ h]) (simp add: upt Let_def pred)
      next
        case False
        then show ?thesis
          using Some d evaluatesD [OF Suc(5) d(1)] rest in_range read advance_cursor_at [OF Suc(2) k, of P]
          by (simp add: upt Let_def pred)
      qed
    qed
  qed
qed

lemma next_record_at:
  assumes base: "rf_base m f" and k: "k \<le> rf_positions f"
    and pred: "evaluates P Q f"
  obtains g where "same_records m f g" and "next_record (cursor_at (rf_slots f) k P, f) =
      (case first_match Q f [k..<rf_positions f] of
         None \<Rightarrow> (Inr None, (cursor_at (rf_slots f) (rf_positions f) P, g))
       | Some j \<Rightarrow> (Inr (record_at f j), (cursor_at (rf_slots f) (Suc j) P, g)))"
proof -
  have "rf_positions f \<le> k + rf_positions f" by simp
  from next_record_loop_at [OF base k this pred] show thesis
    using that by (auto simp: next_record_def rf_positions_def)
qed

subsection \<open>Draining a scan\<close>

text \<open>
  The loop \<open>while let Some(record) = scan.next_record()?\<close> of the callers, which collects the
  records; its fuel is one more than the number of slots.
\<close>

fun drain_scan :: "nat \<Rightarrow> record_scan \<times> record_file \<Rightarrow> (record_error + db_record list) \<times> (record_scan \<times> record_file)" where
  "drain_scan 0 st = (Inl RE_Diverges, st)"
| "drain_scan (Suc fuel) st =
     and_then_st (next_record st) (\<lambda>r st.
       case r of
         None \<Rightarrow> (Inr [], st)
       | Some rec \<Rightarrow> and_then_st (drain_scan fuel st) (\<lambda>recs st. (Inr (rec # recs), st)))"

definition collect_scan :: "record_scan \<Rightarrow> record_file \<Rightarrow> (record_error + db_record list) \<times> record_file" where
  "collect_scan sc f =
     (case drain_scan (Suc (rf_positions f)) (sc, f) of (r, (sc, f)) \<Rightarrow> (r, f))"

lemma first_match_Some:
  "first_match Q f ks = Some j \<Longrightarrow> \<exists>as bs r. ks = as @ j # bs \<and> record_at f j = Some r \<and> Q (rec_data r) \<and>
     filter (\<lambda>r. Q (rec_data r)) (List.map_filter (record_at f) as) = []"
proof (induction ks)
  case (Cons k ks)
  show ?case
  proof (cases "\<exists>r. record_at f k = Some r \<and> Q (rec_data r)")
    case True
    then obtain r where r: "record_at f k = Some r" "Q (rec_data r)" by blast
    then have "j = k" using Cons.prems by simp
    then show ?thesis using r by (intro exI [of _ "[]"] exI [of _ ks] exI [of _ r]) (simp add: map_filter_simps)
  next
    case False
    then have "first_match Q f ks = Some j" using Cons.prems by (auto split: option.splits if_splits)
    then obtain as bs r where "ks = as @ j # bs" "record_at f j = Some r" "Q (rec_data r)"
      "filter (\<lambda>r. Q (rec_data r)) (List.map_filter (record_at f) as) = []"
      using Cons.IH by blast
    then show ?thesis
      using False by (intro exI [of _ "k # as"] exI [of _ bs] exI [of _ r])
        (auto simp: map_filter_simps split: option.split)
  qed
qed simp

lemma first_match_None:
  "first_match Q f ks = None \<Longrightarrow> filter (\<lambda>r. Q (rec_data r)) (List.map_filter (record_at f) ks) = []"
  by (induction ks) (auto simp: map_filter_simps split: option.splits if_splits)

lemma map_filter_append: "List.map_filter h (xs @ ys) = List.map_filter h xs @ List.map_filter h ys"
  by (simp add: List.map_filter_def)

lemma drain_scan_at:
  assumes "rf_base m f" and "k \<le> rf_positions f" and "rf_positions f < k + fuel"
    and "evaluates P Q f"
  shows "\<exists>g sc. same_records m f g \<and>
    drain_scan fuel (cursor_at (rf_slots f) k P, f) = (Inr (filter (\<lambda>r. Q (rec_data r)) (records_from f k)), (sc, g))"
  using assms
proof (induction fuel arbitrary: k f)
  case (Suc fuel)
  obtain h where h: "same_records m f h" "next_record (cursor_at (rf_slots f) k P, f) =
      (case first_match Q f [k..<rf_positions f] of
         None \<Rightarrow> (Inr None, (cursor_at (rf_slots f) (rf_positions f) P, h))
       | Some j \<Rightarrow> (Inr (record_at f j), (cursor_at (rf_slots f) (Suc j) P, h)))"
    by (rule next_record_at [OF Suc(2,3,5)])
  show ?case
  proof (cases "first_match Q f [k..<rf_positions f]")
    case None
    then show ?thesis using h first_match_None [OF None] by (auto simp: records_from_def)
  next
    case (Some j)
    obtain as bs r where j: "[k..<rf_positions f] = as @ j # bs" "record_at f j = Some r" "Q (rec_data r)"
      "filter (\<lambda>r. Q (rec_data r)) (List.map_filter (record_at f) as) = []"
      using first_match_Some [OF Some] by blast
    have "j \<in> set [k..<rf_positions f]" unfolding j(1) by simp
    then have jr: "k \<le> j" "j < rf_positions f" by simp_all
    have "as @ j # bs = [k..<j] @ j # [Suc j..<rf_positions f]"
      using jr j(1) upt_add_eq_append [of k j "rf_positions f - j"] upt_conv_Cons [of j "rf_positions f"] by simp
    moreover have "distinct (as @ j # bs)" unfolding j(1) [symmetric] by simp
    then have "j \<notin> set as" "j \<notin> set bs" by simp_all
    ultimately have bs: "bs = [Suc j..<rf_positions f]"
      using append_Cons_eq_iff [of j as bs "[k..<j]" "[Suc j..<rf_positions f]"] by blast
    note A = same_records_at [OF h(1)] and S = same_records_facts [OF h(1)]
    have pre: "Suc j \<le> rf_positions h" "rf_positions h < Suc j + fuel"
      "evaluates P Q h"
      using jr Suc(4) A same_records_evaluates [OF h(1) Suc(5)] by simp_all
    obtain g sc where g: "same_records m h g" "drain_scan fuel (cursor_at (rf_slots h) (Suc j) P, h) =
        (Inr (filter (\<lambda>r. Q (rec_data r)) (records_from h (Suc j))), (sc, g))"
      using Suc.IH [OF same_records_base [OF h(1) Suc(2)] pre] by blast
    have "records_from h (Suc j) = List.map_filter (record_at f) bs" by (simp add: records_from_def A bs)
    moreover have "filter (\<lambda>r. Q (rec_data r)) (records_from f k) =
        r # filter (\<lambda>r. Q (rec_data r)) (List.map_filter (record_at f) bs)"
      using j by (simp add: records_from_def map_filter_append map_filter_simps)
    ultimately show ?thesis
      using h(2) Some j(2) g same_records_trans [OF h(1) g(1)] S(1) by auto
  qed
qed simp

lemma scan_from_start_cursor: "scan_from_start P = cursor_at n 0 P"
  by (simp add: scan_from_start_def cursor_at_def)

lemma collect_scan_ok:
  assumes base: "rf_base m f" and pred: "evaluates P Q f"
  obtains g where "collect_scan (scan_from_start P) f = (Inr (filter (\<lambda>r. Q (rec_data r)) (records_from f 0)), g)"
    and "same_records m f g"
proof -
  obtain g sc where "same_records m f g" "drain_scan (Suc (rf_positions f)) (cursor_at (rf_slots f) 0 P, f) =
      (Inr (filter (\<lambda>r. Q (rec_data r)) (records_from f 0)), (sc, g))"
    using drain_scan_at [OF base _ _ pred, of 0 "Suc (rf_positions f)"] by auto
  then show thesis using that scan_from_start_cursor [of P "rf_slots f"] by (simp add: collect_scan_def)
qed

text \<open>The records a scan goes through are those of the map, each once.\<close>

lemma rid_at_of:
  assumes base: "rf_base m f" and r: "record_map f r \<noteq> None"
  obtains k where "k < rf_positions f" and "rid_at (rf_slots f) k = r"
proof -
  let ?n = "rf_slots f"
  have range: "rid_page_id r \<noteq> 0" "rid_page_id r \<le> rf_num_pages f" "unat (rid_slot_id r) < ?n"
    using record_map_range [OF r] by simp_all
  define k where "k = (unat (rid_page_id r) - 1) * ?n + unat (rid_slot_id r)"
  have pos: "0 < unat (rid_page_id r)" using range(1) by (simp add: unat_gt_0)
  have dm: "k div ?n = unat (rid_page_id r) - 1" "k mod ?n = unat (rid_slot_id r)"
    using range(3) by (simp_all add: k_def)
  have "k div ?n < unat (rf_num_pages f)" using dm(1) pos range(2) by (simp add: u32_le_unat)
  then have "k < rf_positions f"
    using position_page_iff [OF rf_layout(2) [OF base]] by (simp add: rf_positions_def)
  moreover have "rid_at ?n k = r" using dm pos by (cases r) (simp add: rid_at_def del: of_nat_Suc)
  ultimately show thesis using that by blast
qed

lemma rid_at_inject:
  assumes base: "rf_base m f" and "j < rf_positions f" "k < rf_positions f" and "rid_at (rf_slots f) j = rid_at (rf_slots f) k"
  shows "j = k"
proof -
  have "(of_nat (Suc (j div rf_slots f)) :: u32) = of_nat (Suc (k div rf_slots f))"
    "(of_nat (j mod rf_slots f) :: u32) = of_nat (k mod rf_slots f)"
    using assms(4) by (simp_all add: rid_at_def del: of_nat_Suc)
  then have "j div rf_slots f = k div rf_slots f" "j mod rf_slots f = k mod rf_slots f"
    using unat_position [OF base less_imp_le [OF assms(2)]] unat_position [OF base less_imp_le [OF assms(3)]]
    by (metis Suc_inject, metis)
  then show ?thesis by (metis div_mult_mod_eq)
qed

lemma records_from_set:
  assumes base: "rf_base m f"
  shows "rec \<in> set (records_from f 0) \<longleftrightarrow> record_map f (rec_rid rec) = Some (rec_data rec)"
proof
  assume "rec \<in> set (records_from f 0)"
  then obtain k where "record_at f k = Some rec" by (auto simp: records_from_def List.map_filter_def)
  then show "record_map f (rec_rid rec) = Some (rec_data rec)" by (auto simp: record_at_def)
next
  assume a: "record_map f (rec_rid rec) = Some (rec_data rec)"
  then obtain k where k: "k < rf_positions f" "rid_at (rf_slots f) k = rec_rid rec"
    using rid_at_of [OF base, of "rec_rid rec"] by auto
  then have "record_at f k = Some rec" using a by (simp add: record_at_def)
  then show "rec \<in> set (records_from f 0)"
    using k(1) by (auto simp: records_from_def List.map_filter_def intro!: image_eqI [of _ _ k])
qed

lemma records_from_distinct:
  assumes base: "rf_base m f"
  shows "distinct (map rec_rid (records_from f 0))"
proof -
  have "distinct (map rec_rid (List.map_filter (record_at f) ks))"
    if "distinct ks" "\<forall>k \<in> set ks. k < rf_positions f" for ks
    using that
  proof (induction ks)
    case (Cons k ks)
    then have IH: "distinct (map rec_rid (List.map_filter (record_at f) ks))" by simp
    show ?case
    proof (cases "record_at f k")
      case (Some r)
      have "rec_rid r \<notin> rec_rid ` set (List.map_filter (record_at f) ks)"
      proof
        assume "rec_rid r \<in> rec_rid ` set (List.map_filter (record_at f) ks)"
        then obtain j q where j: "j \<in> set ks" "record_at f j = Some q" "rec_rid q = rec_rid r"
          by (auto simp: List.map_filter_def)
        then have "rid_at (rf_slots f) j = rid_at (rf_slots f) k" using Some by (auto simp: record_at_def)
        then have "j = k" using rid_at_inject [OF base] j(1) Cons.prems(2) by simp
        then show False using j(1) Cons.prems(1) by simp
      qed
      then show ?thesis using Some IH by (simp add: map_filter_simps)
    qed (use IH in \<open>simp add: map_filter_simps\<close>)
  qed (simp add: map_filter_simps)
  then show ?thesis by (simp add: records_from_def)
qed

end
