(* ===== verification/Record_Properties.thy ===== *)
theory Record_Properties
  imports Record_Scan
begin

section \<open>Record files: the properties\<close>

text \<open>
  A record file is a finite map from record identifiers to byte strings of the file's record
  size.  The operations are specified on the map; the scan returns its entries; and a file
  that is dropped and opened again stands for the same map.
\<close>

subsection \<open>Runs of operations\<close>

datatype record_op =
    RO_Insert "u8 list"
  | RO_Get rid
  | RO_Update rid "u8 list"
  | RO_Delete rid
  | RO_Scan
  | RO_Flush
  | RO_Reopen

datatype record_result =
    RR_Rid "record_error + rid"
  | RR_Record "record_error + db_record"
  | RR_Unit "record_error + unit"
  | RR_Records "record_error + db_record list"

text \<open>Dropping the file and opening what the device then holds.\<close>

definition reopen_records :: "record_file \<Rightarrow> (record_error + unit) \<times> record_file" where
  "reopen_records f =
     (case record_file_drop f of
        None \<Rightarrow> (Inl (RE_BufferPool (UnknownFile (rf_file_id f))), f)
      | Some pf \<Rightarrow>
          (case and_then (map_err RE_PageStore (page_open (pf_io pf))) (\<lambda>pf.
              open_records pf DEFAULT_BUFFER_CAPACITY) of
             Inl e \<Rightarrow> (Inl e, f)
           | Inr g \<Rightarrow> (Inr (), g)))"

fun record_exec :: "record_op \<Rightarrow> record_file \<Rightarrow> record_result \<times> record_file" where
  "record_exec (RO_Insert d) f = (case insert_record d f of (r, g) \<Rightarrow> (RR_Rid r, g))"
| "record_exec (RO_Get r) f = (case get_record r f of (x, g) \<Rightarrow> (RR_Record x, g))"
| "record_exec (RO_Update r d) f = (case update_record r d f of (x, g) \<Rightarrow> (RR_Unit x, g))"
| "record_exec (RO_Delete r) f = (case delete_record r f of (x, g) \<Rightarrow> (RR_Unit x, g))"
| "record_exec RO_Scan f = (case collect_scan scan_all f of (x, g) \<Rightarrow> (RR_Records x, g))"
| "record_exec RO_Flush f = (case flush_records f of (x, g) \<Rightarrow> (RR_Unit x, g))"
| "record_exec RO_Reopen f = (case reopen_records f of (x, g) \<Rightarrow> (RR_Unit x, g))"

fun record_run :: "record_op list \<Rightarrow> record_file \<Rightarrow> record_result list \<times> record_file" where
  "record_run [] f = ([], f)"
| "record_run (x # xs) f =
     (case record_exec x f of (r, g) \<Rightarrow> case record_run xs g of (rs, h) \<Rightarrow> (r # rs, h))"

text \<open>The specification of one operation on the map \<open>m\<close>, for records of \<open>rs\<close> bytes.\<close>

definition absent :: "rid \<Rightarrow> record_error \<Rightarrow> bool" where
  "absent r e \<longleftrightarrow> e = InvalidRid r \<or> e = EmptySlot r"

fun record_spec :: "nat \<Rightarrow> record_op \<Rightarrow> record_result \<Rightarrow> (rid \<Rightarrow> u8 list option) \<Rightarrow> (rid \<Rightarrow> u8 list option) \<Rightarrow> bool" where
  "record_spec rs (RO_Insert d) (RR_Rid x) m m' \<longleftrightarrow>
     (if length d \<noteq> rs then x = Inl (SizeMismatch rs (length d)) \<and> m' = m
      else \<exists>r. x = Inr r \<and> m r = None \<and> m' = m(r \<mapsto> d))"
| "record_spec rs (RO_Get r) (RR_Record x) m m' \<longleftrightarrow> m' = m \<and>
     (case m r of None \<Rightarrow> \<exists>e. x = Inl e \<and> absent r e | Some d \<Rightarrow> x = Inr \<lparr>rec_rid = r, rec_data = d\<rparr>)"
| "record_spec rs (RO_Update r d) (RR_Unit x) m m' \<longleftrightarrow>
     (if length d \<noteq> rs then x = Inl (SizeMismatch rs (length d)) \<and> m' = m
      else if m r = None then (\<exists>e. x = Inl e \<and> absent r e) \<and> m' = m
      else x = Inr () \<and> m' = m(r \<mapsto> d))"
| "record_spec rs (RO_Delete r) (RR_Unit x) m m' \<longleftrightarrow>
     (if m r = None then (\<exists>e. x = Inl e \<and> absent r e) \<and> m' = m else x = Inr () \<and> m' = m(r := None))"
| "record_spec rs RO_Scan (RR_Records x) m m' \<longleftrightarrow> m' = m \<and>
     (\<exists>recs. x = Inr recs \<and> distinct (map rec_rid recs) \<and>
        (\<forall>rec. rec \<in> set recs \<longleftrightarrow> m (rec_rid rec) = Some (rec_data rec)))"
| "record_spec rs RO_Flush (RR_Unit x) m m' \<longleftrightarrow> x = Inr () \<and> m' = m"
| "record_spec rs RO_Reopen (RR_Unit x) m m' \<longleftrightarrow> x = Inr () \<and> m' = m"
| "record_spec _ _ _ _ _ \<longleftrightarrow> False"

fun record_spec_run :: "nat \<Rightarrow> record_op list \<Rightarrow> record_result list \<Rightarrow>
    (rid \<Rightarrow> u8 list option) \<Rightarrow> (rid \<Rightarrow> u8 list option) \<Rightarrow> bool" where
  "record_spec_run rs [] [] m m' \<longleftrightarrow> m' = m"
| "record_spec_run rs (x # xs) (r # res) m m' \<longleftrightarrow>
     (\<exists>m1. record_spec rs x r m m1 \<and> record_spec_run rs xs res m1 m')"
| "record_spec_run _ _ _ _ _ \<longleftrightarrow> False"

subsection \<open>Each operation meets its specification\<close>

lemma missing_record_absent: "absent r (missing_record f r)"
  by (simp add: absent_def missing_record_def)

lemma delete_record_missing:
  assumes base: "rf_base m f" and rec: "record_map f r = None"
  obtains g where "delete_record r f = (Inl (missing_record f r), g)" and "same_records m f g"
proof (cases "validate_rid f r")
  case (Inl e)
  then have "e = missing_record f r"
    by (auto simp: validate_rid_cases [OF base] missing_record_def split: if_splits)
  then show thesis
    using Inl same_records_refl [OF base] by (intro that [of f]) (simp_all add: delete_record_def)
next
  case (Inr u)
  let ?b = "rf_page f (rid_page_id r)"
  have r: "rid_page_id r \<noteq> 0" "rid_page_id r \<le> rf_num_pages f" "unat (rid_slot_id r) < rf_slots f"
    using Inr by (auto simp: validate_rid_cases [OF base] not_less split: if_splits)
  have ok: "data_page_ok (rf_slots f) ?b" by (rule rf_baseD(6) [OF base r(1,2)])
  have len: "length ?b = 4092" using ok by (simp add: data_page_ok_def)
  have body: "delete_from_page r (?b, f\<lparr>rf_pool := s\<rparr>) =
      (Inl (EmptySlot r), ?b, f\<lparr>rf_pool := s, rf_header := rf_header f, rf_header_dirty := rf_header_dirty f\<rparr>)" for s
    using slot_used_cases [OF base r] rec read_page_header_ok [OF ok]
    by (simp add: delete_from_page_def ensure_slot_used_pool)
  obtain g where g: "with_page_mut (rid_page_id r) (delete_from_page r) f = (Inl (EmptySlot r), g)"
    and w: "wrote m (rid_page_id r) ?b (rf_header f) (rf_header_dirty f) f g"
    by (rule with_page_mut_ok [OF base r(2) body len])
  have "delete_record r f = (Inl (missing_record f r), g)"
    using g r Inr by (simp add: delete_record_def missing_record_def not_le not_less)
  then show thesis using that wrote_same [OF base w r(2)] by blast
qed

text \<open>The state between operations: the record size is \<open>rs\<close>, and there are at most \<open>n\<close> data pages.\<close>

definition rf_state :: "nat \<Rightarrow> nat \<Rightarrow> record_file \<Rightarrow> bool" where
  "rf_state rs n f \<longleftrightarrow> record_file_ok f \<and> rf_record_size f = rs \<and> unat (rf_num_pages f) \<le> n"

lemma rf_stateI:
  "rf_base m f \<Longrightarrow> rf_chain f ps \<Longrightarrow> rf_record_size f = rs \<Longrightarrow> unat (rf_num_pages f) \<le> n \<Longrightarrow> rf_state rs n f"
  by (auto simp: rf_state_def record_file_ok_def)

lemma rf_state_same: "rf_base m f \<Longrightarrow> rf_chain f ps \<Longrightarrow> same_records m f g \<Longrightarrow> rf_record_size f = rs \<Longrightarrow>
    unat (rf_num_pages f) \<le> n \<Longrightarrow> rf_state rs n g \<and> record_map g = record_map f"
  using same_records_ok [of m f g ps] same_records_facts [of m f g] by (simp add: rf_state_def)

lemma insert_size_mismatch:
  "length d \<noteq> rf_record_size f \<Longrightarrow>
     insert_record d f = (Inl (SizeMismatch (rf_record_size f) (length d)), f)"
  "length d \<noteq> rf_record_size f \<Longrightarrow>
     update_record r d f = (Inl (SizeMismatch (rf_record_size f) (length d)), f)"
  by (simp_all add: insert_record_def update_record_def ensure_record_length_def)

lemma insert_meets_spec:
  assumes st: "rf_state rs n f" and room: "n < 2147483647"
  shows "case record_exec (RO_Insert d) f of (r, g) \<Rightarrow>
    record_spec rs (RO_Insert d) r (record_map f) (record_map g) \<and> rf_state rs (Suc n) g"
proof (cases "length d = rs")
  case False
  then show ?thesis using st by (simp add: insert_size_mismatch(1) rf_state_def)
next
  case True
  obtain m ps where f: "rf_base m f" "rf_chain f ps" "rf_record_size f = rs" "unat (rf_num_pages f) \<le> n"
    using st by (auto simp: rf_state_def record_file_ok_def)
  have len: "length d = rf_record_size f" and "ps \<noteq> [] \<or> unat (rf_num_pages f) < 2147483647"
    using True f(3,4) room by auto
  then obtain g r m' qs where g: "insert_record d f = (Inr r, g)" "rf_base m' g" "rf_chain g qs"
    "record_map f r = None" "record_map g = (record_map f)(r \<mapsto> d)" "rf_slots g = rf_slots f"
    "rf_record_size g = rf_record_size f" "rf_file_id g = rf_file_id f"
    "unat (rf_num_pages g) \<le> Suc (unat (rf_num_pages f))"
    by (rule insert_record_ok [OF f(1,2)])
  have "rf_state rs (Suc n) g" using rf_stateI [OF g(2,3)] f(3,4) g(7,9) by simp
  then show ?thesis using g(1,4,5) True by simp
qed

lemma record_exec_meets_spec:
  assumes st: "rf_state rs n f" and room: "n < 2147483647"
  shows "case record_exec x f of (r, g) \<Rightarrow>
    record_spec rs x r (record_map f) (record_map g) \<and> rf_state rs (Suc n) g"
proof -
  obtain m ps where f: "rf_base m f" "rf_chain f ps" "rf_record_size f = rs" "unat (rf_num_pages f) \<le> Suc n"
    using st by (auto simp: rf_state_def record_file_ok_def)
  note same = rf_state_same [OF f(1,2) _ f(3,4)]
  have self: "rf_state rs (Suc n) f" using rf_stateI [OF f(1,2,3,4)] .
  show ?thesis
  proof (cases x)
    case (RO_Insert d)
    then show ?thesis using insert_meets_spec [OF st room, of d] by simp
  next
    case (RO_Get r)
    obtain g where "same_records m f g" "get_record r f = (case record_map f r of
       None \<Rightarrow> (Inl (missing_record f r), g) | Some d \<Rightarrow> (Inr \<lparr>rec_rid = r, rec_data = d\<rparr>, g))"
      by (rule get_record_ok [OF f(1)])
    then show ?thesis using RO_Get same missing_record_absent by (auto split: option.split)
  next
    case (RO_Update r d)
    show ?thesis
    proof (cases "length d = rs")
      case False
      then show ?thesis using RO_Update f(3) self by (simp add: insert_size_mismatch(2))
    next
      case True
      then have len: "length d = rf_record_size f" using f(3) by simp
      show ?thesis
      proof (cases "record_map f r")
        case None
        then obtain g where "update_record r d f = (Inl (missing_record f r), g)" "same_records m f g"
          by (rule update_record_missing [OF f(1) _ len])
        then show ?thesis using RO_Update True None same missing_record_absent by auto
      next
        case (Some d0)
        then have "record_map f r \<noteq> None" by simp
        then obtain g where g: "update_record r d f = (Inr (), g)" "rf_base m g" "rf_chain g ps"
          "record_map g = (record_map f)(r \<mapsto> d)" "rf_header g = rf_header f"
          by (rule update_record_ok [OF f(1,2) _ len])
        then show ?thesis using RO_Update True Some rf_stateI [OF g(2,3)] f(3,4) by simp
      qed
    qed
  next
    case (RO_Delete r)
    show ?thesis
    proof (cases "record_map f r")
      case None
      then obtain g where "delete_record r f = (Inl (missing_record f r), g)" "same_records m f g"
        by (rule delete_record_missing [OF f(1)])
      then show ?thesis using RO_Delete None same missing_record_absent by auto
    next
      case (Some d0)
      then have "record_map f r \<noteq> None" by simp
      then obtain g qs where g: "delete_record r f = (Inr (), g)" "rf_base m g" "rf_chain g qs"
        "record_map g = (record_map f)(r := None)" "rf_num_pages g = rf_num_pages f"
        "rf_slots g = rf_slots f" "rf_record_size g = rf_record_size f"
        by (rule delete_record_ok [OF f(1,2)])
      then show ?thesis using RO_Delete Some rf_stateI [OF g(2,3)] f(3,4) by simp
    qed
  next
    case RO_Scan
    have "evaluates (\<lambda>_. Inr True) (\<lambda>_. True) f" by (simp add: evaluates_def)
    then obtain g where "collect_scan scan_all f = (Inr (records_from f 0), g)" "same_records m f g"
      using collect_scan_ok [OF f(1), of "\<lambda>_. Inr True" "\<lambda>_. True"] by (auto simp: scan_all_def)
    then show ?thesis
      using RO_Scan same records_from_set [OF f(1)] records_from_distinct [OF f(1)] by auto
  next
    case RO_Flush
    obtain g where g: "flush_records f = (Inr (), g)" "rf_base m g" "rf_chain g ps"
      "record_map g = record_map f" "rf_header g = rf_header f"
      using flush_records_ok [OF f(1,2)] by metis
    then show ?thesis using RO_Flush rf_stateI [OF g(2,3)] f(3,4) by simp
  next
    case RO_Reopen
    obtain pf pf' g m' where g: "record_file_drop f = Some pf" "page_open (pf_io pf) = Inr pf'"
      "open_records pf' DEFAULT_BUFFER_CAPACITY = Inr g" "rf_base m' g" "rf_chain g ps"
      "record_map g = record_map f" "rf_header g = rf_header f"
    proof (rule reopen_records_ok [OF f(1,2)])
      show "0 < DEFAULT_BUFFER_CAPACITY" by (simp add: DEFAULT_BUFFER_CAPACITY_def)
    qed
    then have "reopen_records f = (Inr (), g)" by (simp add: reopen_records_def)
    then show ?thesis using RO_Reopen rf_stateI [OF g(4,5)] g(6,7) f(3,4) by simp
  qed
qed

lemma record_run_meets_spec:
  "rf_state rs n f \<Longrightarrow> n + length xs < 2147483648 \<Longrightarrow>
     record_spec_run rs xs (fst (record_run xs f)) (record_map f) (record_map (snd (record_run xs f))) \<and>
     record_file_ok (snd (record_run xs f))"
proof (induction xs arbitrary: n f)
  case Nil
  then show ?case by (simp add: rf_state_def)
next
  case (Cons x xs)
  obtain r g where g: "record_exec x f = (r, g)" by fastforce
  have "record_spec rs x r (record_map f) (record_map g)" "rf_state rs (Suc n) g"
    using record_exec_meets_spec [OF Cons.prems(1), of x] Cons.prems(2) g by simp_all
  then show ?case using Cons.IH [of "Suc n" g] Cons.prems(2) g by (auto split: prod.split)
qed

text \<open>A new file of records of four bytes, and the same file with one record.\<close>

definition new_records :: record_file where
  "new_records = (case fst (create_records new_page_file 8 4) of Inr f \<Rightarrow> f)"

lemma compute_slots_4: "compute_slots_per_page 4 = Inr 989"
proof -
  have "slots_fit 4 989" "\<not> slots_fit 4 990" by (simp_all add: slots_fit_def bitmap_bytes_def)
  then have out: "\<not> slots_fit 4 m" if "989 < m" for m
    using slots_fit_mono [of 4 m 990] that by auto
  show ?thesis
  proof (cases "compute_slots_per_page 4")
    case (Inl e)
    then show ?thesis using compute_slots_result [of 4] \<open>slots_fit 4 989\<close> by simp
  next
    case (Inr n)
    then have n: "slots_fit 4 n" "\<forall>m. n < m \<longrightarrow> \<not> slots_fit 4 m" using compute_slots_result [of 4] by simp_all
    then have "n = 989" using out [of n] \<open>slots_fit 4 989\<close> by (metis linorder_neqE_nat)
    then show ?thesis using Inr by simp
  qed
qed

lemma new_records_ok: "rf_base [0 \<mapsto> 1] new_records"
  and new_records_chain: "rf_chain new_records []"
  and new_records_map: "record_map new_records = Map.empty"
  and new_records_size: "rf_record_size new_records = 4"
  and new_records_created: "fst (create_records new_page_file 8 4) = Inr new_records"
  and new_records_pages: "rf_num_pages new_records = 0"
proof -
  have cap: "0 < (8 :: nat)" by simp
  obtain f m s where f: "create_records new_page_file 8 4 = (Inr f, s)" "rf_base m f" "rf_chain f []"
    "record_map f = Map.empty" "rf_record_size f = 4" "m = [0 \<mapsto> 1]" "rf_num_pages f = 0"
    using create_records_ok [OF new_page_file_refines cap compute_slots_4] by metis
  then have "new_records = f" by (simp add: new_records_def)
  then show "rf_base [0 \<mapsto> 1] new_records" "rf_chain new_records []" "record_map new_records = Map.empty"
    "rf_record_size new_records = 4" "fst (create_records new_page_file 8 4) = Inr new_records"
    "rf_num_pages new_records = 0"
    using f by simp_all
qed

lemma new_records_file_ok: "record_file_ok new_records"
  using new_records_ok new_records_chain by (auto simp: record_file_ok_def)

definition one_record :: record_file where
  "one_record = snd (insert_record [1, 2, 3, 4] new_records)"

definition one_record_rid :: rid where
  "one_record_rid = (case fst (insert_record [1, 2, 3, 4] new_records) of Inr r \<Rightarrow> r)"

lemma one_record_ok: "record_file_ok one_record"
  and one_record_map: "record_map one_record = [one_record_rid \<mapsto> [1, 2, 3, 4]]"
  and one_record_size: "rf_record_size one_record = 4"
proof -
  have len: "length [1, 2, 3, 4 :: u8] = rf_record_size new_records" by (simp add: new_records_size)
  have room: "[] \<noteq> ([] :: u32 list) \<or> unat (rf_num_pages new_records) < 2147483647" by (simp add: new_records_pages)
  obtain g r m' qs where g: "insert_record [1, 2, 3, 4] new_records = (Inr r, g)" "rf_base m' g" "rf_chain g qs"
    "record_map g = (record_map new_records)(r \<mapsto> [1, 2, 3, 4])" "rf_record_size g = rf_record_size new_records"
    by (rule insert_record_ok [OF new_records_ok new_records_chain len room])
  have "one_record = g" "one_record_rid = r" using g(1) by (simp_all add: one_record_def one_record_rid_def)
  then show "record_file_ok one_record" "record_map one_record = [one_record_rid \<mapsto> [1, 2, 3, 4]]"
    "rf_record_size one_record = 4"
    using g by (auto simp: record_file_ok_def new_records_map new_records_size)
qed

lemma create_records_slots:
  assumes "fst (create_records pf cap rs) = Inr f"
  shows "\<exists>n. compute_slots_per_page rs = Inr n"
proof (cases "record_header_new rs")
  case (Inl e)
  then show ?thesis
    using assms by (auto simp: create_records_def Let_def split: prod.splits sum.splits if_splits)
next
  case (Inr h)
  then show ?thesis by (auto simp: record_header_new_def split: if_splits)
qed

subsection \<open>The properties\<close>

text \<open>C8: Any sequence of record operations on a newly created record file - inserts, reads, updates,
  deletions, scans, flushes, and dropping and reopening the file - behaves like the same sequence on a
  finite map from record identifiers to byte strings: an insert chooses an identifier that was not in
  use, a read returns what was stored last, wrong lengths and absent identifiers are errors that change
  nothing, a scan returns every entry once, and flushing and reopening change nothing.\<close>

theorem record_file_refines_map:
  assumes "fst (create_records new_page_file 8 rs) = Inr f" and "length xs < 2147483648"
  shows "record_spec_run rs xs (fst (record_run xs f)) Map.empty (record_map (snd (record_run xs f))) \<and>
    record_file_ok (snd (record_run xs f))"
proof -
  obtain n where slots: "compute_slots_per_page rs = Inr n"
    using create_records_slots [OF assms(1)] by blast
  have cap: "0 < (8 :: nat)" by simp
  obtain g m s where g: "create_records new_page_file 8 rs = (Inr g, s)" "rf_base m g" "rf_chain g []"
    "record_map g = Map.empty" "rf_record_size g = rs" "rf_num_pages g = 0"
    using create_records_ok [OF new_page_file_refines cap slots] by metis
  then have "g = f" using assms(1) by simp
  then have "rf_state rs 0 f" using rf_stateI [OF g(2,3,5)] g(6) by simp
  from record_run_meets_spec [OF this] assms(2) show ?thesis using g(4) \<open>g = f\<close> by simp
qed

theorem record_file_refines_map_witness:
  "record_spec_run 4 [RO_Insert [1, 2, 3, 4], RO_Reopen, RO_Scan, RO_Insert [1]]
     (fst (record_run [RO_Insert [1, 2, 3, 4], RO_Reopen, RO_Scan, RO_Insert [1]] new_records)) Map.empty
     (record_map (snd (record_run [RO_Insert [1, 2, 3, 4], RO_Reopen, RO_Scan, RO_Insert [1]] new_records)))"
  using record_file_refines_map [OF new_records_created, of "[RO_Insert [1, 2, 3, 4], RO_Reopen, RO_Scan, RO_Insert [1]]"]
  by simp

text \<open>C31: The page layout is the densest that fits: the number of slots computed for a record size is
  positive, header, bitmap and that many slots fit into the page's 4092 bytes, one slot more would not
  fit; a record size for which not even one slot fits is the error \<open>RecordTooLarge\<close>.\<close>

theorem slots_per_page_maximal:
  assumes "0 < rs"
  shows "case compute_slots_per_page rs of
      Inr n \<Rightarrow> 0 < n \<and> RECORD_PAGE_HEADER_SIZE + bitmap_bytes n + n * rs \<le> PAGE_DATA_SIZE \<and>
        PAGE_DATA_SIZE < RECORD_PAGE_HEADER_SIZE + bitmap_bytes (n + 1) + (n + 1) * rs
    | Inl e \<Rightarrow> e = RecordTooLarge rs \<and> PAGE_DATA_SIZE < RECORD_PAGE_HEADER_SIZE + bitmap_bytes 1 + rs"
proof (cases "compute_slots_per_page rs")
  case (Inl e)
  then have "e = RecordTooLarge rs" "\<not> slots_fit rs 1" using compute_slots_result [OF assms] by simp_all
  then show ?thesis using Inl by (simp add: slots_fit_def)
next
  case (Inr n)
  then have "0 < n" "slots_fit rs n" "\<not> slots_fit rs (n + 1)" using compute_slots_result [OF assms] by simp_all
  then show ?thesis using Inr by (simp add: slots_fit_def not_le)
qed

theorem slots_per_page_maximal_witness:
  "case compute_slots_per_page 4 of
      Inr n \<Rightarrow> 0 < n \<and> PAGE_DATA_SIZE < RECORD_PAGE_HEADER_SIZE + bitmap_bytes (n + 1) + (n + 1) * 4 | Inl e \<Rightarrow> False"
  using slots_per_page_maximal [of 4] by (simp add: compute_slots_4)

text \<open>The record file header survives encoding: decoding its sixteen bytes gives back the header
  exactly if it is valid, and the validation error otherwise.\<close>

theorem record_header_round_trip:
  "record_header_decode (record_header_encode h) = and_then (record_header_validate h) (\<lambda>_. Inr h) \<and>
     length (record_header_encode h) = RECORD_FILE_HEADER_SIZE"
  by (simp add: record_header_decode_encode)

text \<open>The bitmap operations are those of a set of free slots: setting or clearing one slot's bit
  changes this slot only, and the search returns the lowest free slot, or none exactly if all are used.\<close>

theorem slot_bitmap_correct:
  assumes "i < n" and "length bm = bitmap_bytes n"
  shows "(\<forall>j. slot_is_free (set_slot_free bm i b) j = (if j = i then b else slot_is_free bm j)) \<and>
    (case find_first_free_slot bm n of
       None \<Rightarrow> \<forall>j < n. \<not> slot_is_free bm j
     | Some j \<Rightarrow> j < n \<and> slot_is_free bm j \<and> (\<forall>l < j. \<not> slot_is_free bm l))"
proof (intro conjI)
  show "\<forall>j. slot_is_free (set_slot_free bm i b) j = (if j = i then b else slot_is_free bm j)"
    using slot_byte_inside [OF assms(1)] assms(2) by (simp add: slot_is_free_set)
  show "case find_first_free_slot bm n of
       None \<Rightarrow> \<forall>j < n. \<not> slot_is_free bm j
     | Some j \<Rightarrow> j < n \<and> slot_is_free bm j \<and> (\<forall>l < j. \<not> slot_is_free bm l)"
    by (auto simp: find_first_free_slot_def find_Some_iff find_None_iff split: option.split)
qed

theorem slot_bitmap_correct_witness:
  "slot_is_free (set_slot_free [0xFF, 0x01] 3 False) 8 \<and> \<not> slot_is_free (set_slot_free [0xFF, 0x01] 3 False) 3"
proof -
  have "slot_is_free (set_slot_free [0xFF, 0x01] 3 False) j = (if j = 3 then False else slot_is_free [0xFF, 0x01] j)" for j
    using conjunct1 [OF slot_bitmap_correct [of 3 9 "[0xFF, 0x01]" False]] by (simp add: bitmap_bytes_def)
  moreover have "slot_is_free [0xFF, 0x01] 8" by (simp add: slot_is_free_def)
  ultimately show ?thesis by simp
qed

text \<open>Inserting a record of the file's record size, while there is a page with a free slot or the file
  can grow, succeeds, stores the record under an identifier that held none, changes no other record
  and keeps the file well formed.\<close>

theorem insert_record_correct:
  assumes "record_file_ok f" and "length d = rf_record_size f" and "unat (rf_num_pages f) < 2147483647"
  shows "\<exists>r g. insert_record d f = (Inr r, g) \<and> record_file_ok g \<and> record_map f r = None \<and>
    record_map g = (record_map f)(r \<mapsto> d)"
proof -
  obtain m ps where f: "rf_base m f" "rf_chain f ps" using assms(1) by (auto simp: record_file_ok_def)
  have "ps \<noteq> [] \<or> unat (rf_num_pages f) < 2147483647" using assms(3) by simp
  then show ?thesis
    by (rule insert_record_ok [OF f assms(2)]) (auto simp: record_file_ok_def)
qed

theorem insert_record_correct_witness:
  "\<exists>r g. insert_record [9, 8, 7, 6] new_records = (Inr r, g) \<and> record_map g = [r \<mapsto> [9, 8, 7, 6]]"
  using insert_record_correct [OF new_records_file_ok, of "[9, 8, 7, 6]"]
  by (auto simp: new_records_size new_records_pages new_records_map)

text \<open>Deleting a record removes it and nothing else: reading it afterwards is the error \<open>EmptySlot\<close>, a
  second deletion too, and every other record is unchanged.\<close>

theorem delete_record_correct:
  assumes "record_file_ok f" and "record_map f r \<noteq> None"
  shows "\<exists>g. delete_record r f = (Inr (), g) \<and> record_file_ok g \<and> record_map g = (record_map f)(r := None) \<and>
    fst (get_record r g) = Inl (EmptySlot r) \<and> fst (delete_record r g) = Inl (EmptySlot r)"
proof -
  obtain m ps where f: "rf_base m f" "rf_chain f ps" using assms(1) by (auto simp: record_file_ok_def)
  obtain g qs where g: "delete_record r f = (Inr (), g)" "rf_base m g" "rf_chain g qs"
    "record_map g = (record_map f)(r := None)" "rf_num_pages g = rf_num_pages f" "rf_slots g = rf_slots f"
    by (rule delete_record_ok [OF f assms(2)])
  have err: "missing_record g r = EmptySlot r" "record_map g r = None"
    using record_map_range [OF assms(2)] g(4-6) by (auto simp: missing_record_def)
  have "fst (get_record r g) = Inl (EmptySlot r)"
    by (rule get_record_ok [OF g(2), of r]) (simp add: err)
  moreover have "fst (delete_record r g) = Inl (EmptySlot r)"
    by (rule delete_record_missing [OF g(2) err(2)]) (simp add: err)
  ultimately show ?thesis using g by (auto simp: record_file_ok_def)
qed

theorem delete_record_correct_witness:
  "\<exists>g. delete_record one_record_rid one_record = (Inr (), g) \<and> record_map g = Map.empty \<and>
     fst (get_record one_record_rid g) = Inl (EmptySlot one_record_rid)"
  using delete_record_correct [OF one_record_ok, of one_record_rid] by (auto simp: one_record_map)

text \<open>C32: A scan with a predicate returns exactly the records that satisfy it, each once, and ends within
  the number of slots of the file; the file's records are unchanged.\<close>

theorem scan_correct:
  assumes "record_file_ok f" and "\<forall>r d. record_map f r = Some d \<longrightarrow> P d = Inr (Q d)"
  shows "\<exists>recs g. collect_scan (scan_from_start P) f = (Inr recs, g) \<and> record_map g = record_map f \<and>
    distinct (map rec_rid recs) \<and>
    (\<forall>rec. rec \<in> set recs \<longleftrightarrow> record_map f (rec_rid rec) = Some (rec_data rec) \<and> Q (rec_data rec))"
proof -
  obtain m ps where f: "rf_base m f" "rf_chain f ps" using assms(1) by (auto simp: record_file_ok_def)
  have "evaluates P Q f" using assms(2) by (simp add: evaluates_def)
  then obtain g where g: "collect_scan (scan_from_start P) f =
      (Inr (filter (\<lambda>r. Q (rec_data r)) (records_from f 0)), g)" "same_records m f g"
    by (rule collect_scan_ok [OF f(1)])
  have "distinct (map rec_rid (filter (\<lambda>r. Q (rec_data r)) (records_from f 0)))"
    using records_from_distinct [OF f(1)] by (rule distinct_map_filter)
  then show ?thesis using g records_from_set [OF f(1)] same_records_facts(8) [OF g(2)] by auto
qed

theorem scan_correct_witness:
  "\<exists>recs g. collect_scan (scan_from_start (\<lambda>d. Inr (hd d = 1))) one_record = (Inr recs, g) \<and>
     \<lparr>rec_rid = one_record_rid, rec_data = [1, 2, 3, 4]\<rparr> \<in> set recs"
  using scan_correct [OF one_record_ok, of "\<lambda>d. Inr (hd d = 1)" "\<lambda>d. hd d = 1"] by (auto simp: one_record_map)

text \<open>C33: A record file that is dropped has everything on its device: opening the device's bytes as a page
  file and that as a record file succeeds, with any positive buffer capacity, and gives a file with the
  same records.\<close>

theorem reopen_keeps_records:
  assumes "record_file_ok f" and "0 < cap"
  shows "\<exists>pf pf' g. record_file_drop f = Some pf \<and> page_open (pf_io pf) = Inr pf' \<and>
    open_records pf' cap = Inr g \<and> record_file_ok g \<and> record_map g = record_map f \<and>
    rf_record_size g = rf_record_size f"
proof -
  obtain m ps where f: "rf_base m f" "rf_chain f ps" using assms(1) by (auto simp: record_file_ok_def)
  obtain pf pf' g m' where "record_file_drop f = Some pf" "page_open (pf_io pf) = Inr pf'"
    "open_records pf' cap = Inr g" "rf_base m' g" "rf_chain g ps" "record_map g = record_map f"
    "rf_header g = rf_header f"
    by (rule reopen_records_ok [OF f assms(2)])
  then show ?thesis by (auto simp: record_file_ok_def)
qed

theorem reopen_keeps_records_witness:
  "\<exists>pf pf' g. record_file_drop one_record = Some pf \<and> page_open (pf_io pf) = Inr pf' \<and>
     open_records pf' 1 = Inr g \<and> record_map g = [one_record_rid \<mapsto> [1, 2, 3, 4]]"
  using reopen_keeps_records [OF one_record_ok, of 1] by (auto simp: one_record_map)

end
