(* ===== verification/Text_Format.thy ===== *)
theory Text_Format
  imports Redbase_Prelude
begin

section \<open>Text: UTF-8, lines, fields and decimal numbers\<close>

text \<open>
  The standard-library functions on strings that the catalog and index files use.  A \<open>String\<close>
  or \<open>str\<close> of the source is the list of its bytes, a \<open>char\<close> of HOL standing for one byte; it
  holds valid UTF-8 in every state of the program, which \<open>is_str\<close> says.
\<close>

subsection \<open>Bytes and UTF-8\<close>

definition as_bytes :: "string \<Rightarrow> u8 list" where
  "as_bytes s = map of_char s"

definition text_of :: "u8 list \<Rightarrow> string" where
  "text_of bs = map (\<lambda>b. char_of (unat b)) bs"

text \<open>
  \<open>str::from_utf8\<close>: the well-formed sequences of one to four bytes, without overlong forms,
  surrogates, or code points above the last plane.
\<close>

definition continuation_byte :: "u8 \<Rightarrow> bool" where
  "continuation_byte b \<longleftrightarrow> 128 \<le> b \<and> b \<le> 191"

definition second_byte_ok :: "u8 \<Rightarrow> u8 \<Rightarrow> bool" where
  "second_byte_ok a b \<longleftrightarrow>
     (if a = 224 then 160 \<le> b \<and> b \<le> 191
      else if a = 237 then 128 \<le> b \<and> b \<le> 159
      else if a = 240 then 144 \<le> b \<and> b \<le> 191
      else if a = 244 then 128 \<le> b \<and> b \<le> 143
      else continuation_byte b)"

definition utf8_width :: "u8 \<Rightarrow> nat" where
  "utf8_width a =
     (if a \<le> 127 then 1 else if 194 \<le> a \<and> a \<le> 223 then 2
      else if 224 \<le> a \<and> a \<le> 239 then 3 else if 240 \<le> a \<and> a \<le> 244 then 4 else 0)"

fun utf8_valid :: "u8 list \<Rightarrow> bool" where
  "utf8_valid [] = True"
| "utf8_valid (a # rest) =
     (if utf8_width a = 1 then utf8_valid rest
      else case rest of
        [] \<Rightarrow> False
      | b # rest2 \<Rightarrow>
          if utf8_width a = 2 then second_byte_ok a b \<and> utf8_valid rest2
          else (case rest2 of
            [] \<Rightarrow> False
          | c # rest3 \<Rightarrow>
              if utf8_width a = 3 then second_byte_ok a b \<and> continuation_byte c \<and> utf8_valid rest3
              else (case rest3 of
                [] \<Rightarrow> False
              | d # rest4 \<Rightarrow>
                  utf8_width a = 4 \<and> second_byte_ok a b \<and> continuation_byte c \<and> continuation_byte d \<and>
                  utf8_valid rest4)))"

definition is_str :: "string \<Rightarrow> bool" where
  "is_str s \<longleftrightarrow> utf8_valid (as_bytes s)"

definition from_utf8 :: "u8 list \<Rightarrow> string option" where
  "from_utf8 bs = (if utf8_valid bs then Some (text_of bs) else None)"

lemma as_bytes_simps [simp]:
  "as_bytes [] = []" "as_bytes (c # s) = of_char c # as_bytes s" "as_bytes (s @ t) = as_bytes s @ as_bytes t"
  "length (as_bytes s) = length s"
  by (simp_all add: as_bytes_def)

lemma of_char_byte: "unat (of_char c :: u8) = of_char c"
proof -
  have "(of_char c :: nat) < 256" by (rule nat_of_char_less_256)
  then have "unat (of_nat (of_char c) :: u8) = of_char c"
    by (simp only: unsigned_of_nat take_bit_nat_eq_self) (simp add: take_bit_nat_eq_self)
  then show ?thesis by (simp only: of_nat_of_char)
qed

lemma text_of_as_bytes [simp]: "text_of (as_bytes s) = s"
  by (simp add: text_of_def as_bytes_def o_def of_char_byte)

lemma as_bytes_text_of [simp]: "as_bytes (text_of bs) = bs"
proof -
  have "of_char (char_of (unat b)) = b" for b :: u8
  proof -
    have "unat b < 256" using unsigned_less [of b] by simp
    then have "(of_char (char_of (unat b) :: char) :: nat) = unat b" by simp
    then show ?thesis by (metis of_char_byte word_eq_iff_unsigned)
  qed
  then show ?thesis by (simp add: text_of_def as_bytes_def o_def)
qed

lemma as_bytes_inject [simp]: "as_bytes s = as_bytes t \<longleftrightarrow> s = t"
  by (metis text_of_as_bytes)

lemma from_utf8_as_bytes: "is_str s \<Longrightarrow> from_utf8 (as_bytes s) = Some s"
  by (simp add: from_utf8_def is_str_def)

lemma from_utf8_Some: "from_utf8 bs = Some s \<longleftrightarrow> is_str s \<and> bs = as_bytes s"
  by (auto simp: from_utf8_def is_str_def)

lemma utf8_valid_append: "utf8_valid xs \<Longrightarrow> utf8_valid (xs @ ys) = utf8_valid ys"
proof (induction xs rule: utf8_valid.induct)
  case (2 a rest)
  show ?case
  proof (cases "utf8_width a = 1")
    case True
    then show ?thesis using 2 by simp
  next
    case False
    then obtain b rest2 where b: "rest = b # rest2" using 2(5) by (cases rest) simp_all
    show ?thesis
    proof (cases "utf8_width a = 2")
      case True
      then show ?thesis using 2(2) [OF False b True] 2(5) by (simp add: b)
    next
      case w2: False
      then obtain c rest3 where c: "rest2 = c # rest3" using 2(5) False b by (cases rest2) simp_all
      show ?thesis
      proof (cases "utf8_width a = 3")
        case True
        then show ?thesis using 2(3) [OF False b w2 c True] 2(5) by (simp add: b c)
      next
        case w3: False
        then obtain d rest4 where d: "rest3 = d # rest4" using 2(5) False w2 b c by (cases rest3) simp_all
        then show ?thesis using 2(4) [OF False b w2 c w3 d] 2(5) False w2 w3 by (simp add: b c)
      qed
    qed
  qed
qed simp

text \<open>An ASCII byte is never inside a longer sequence.\<close>

lemma ascii_not_inner: "z \<le> 127 \<Longrightarrow> \<not> second_byte_ok a z" "z \<le> 127 \<Longrightarrow> \<not> continuation_byte z"
  by (auto simp: second_byte_ok_def continuation_byte_def word_le_nat_alt split: if_splits)

lemma ascii_cuts_sequence:
  assumes "z \<le> 127" and "utf8_width a \<noteq> 1"
  shows "\<not> utf8_valid (a # z # ys)"
    and "utf8_width a \<noteq> 2 \<Longrightarrow> \<not> utf8_valid (a # b # z # ys)"
    and "utf8_width a \<noteq> 2 \<Longrightarrow> utf8_width a \<noteq> 3 \<Longrightarrow> \<not> utf8_valid (a # b # c # z # ys)"
proof -
  note inner = ascii_not_inner [OF assms(1)]
  show "\<not> utf8_valid (a # z # ys)"
    using assms(2) inner by (cases ys; cases "tl ys") simp_all
  show "utf8_width a \<noteq> 2 \<Longrightarrow> \<not> utf8_valid (a # b # z # ys)"
    using assms(2) inner by (cases ys) simp_all
  show "utf8_width a \<noteq> 2 \<Longrightarrow> utf8_width a \<noteq> 3 \<Longrightarrow> \<not> utf8_valid (a # b # c # z # ys)"
    using assms(2) inner by simp
qed

lemma utf8_valid_prefix:
  assumes "z \<le> 127"
  shows "utf8_valid (xs @ z # ys) \<Longrightarrow> utf8_valid xs"
proof (induction xs rule: utf8_valid.induct)
  case (2 a rest)
  note cuts = ascii_cuts_sequence [OF assms]
  show ?case
  proof (cases "utf8_width a = 1")
    case True
    then show ?thesis using 2(1,5) by simp
  next
    case False
    have "rest \<noteq> []" using 2(5) cuts(1) [OF False] by (cases rest) (simp_all only: append.simps simp_thms list.distinct not_False_eq_True)
    then obtain b rest2 where b: "rest = b # rest2" by (cases rest) simp_all
    show ?thesis
    proof (cases "utf8_width a = 2")
      case True
      then show ?thesis using 2(2) [OF False b True] 2(5) by (simp add: b)
    next
      case w2: False
      have "rest2 \<noteq> []" using 2(5) cuts(2) [OF False w2] unfolding b by (cases rest2) (simp_all only: append.simps simp_thms list.distinct not_False_eq_True)
      then obtain c rest3 where c: "rest2 = c # rest3" by (cases rest2) simp_all
      show ?thesis
      proof (cases "utf8_width a = 3")
        case True
        then show ?thesis using 2(3) [OF False b w2 c True] 2(5) by (simp add: b c)
      next
        case w3: False
        have "rest3 \<noteq> []" using 2(5) cuts(3) [OF False w2 w3] unfolding b c by (cases rest3) (simp_all only: append.simps simp_thms list.distinct not_False_eq_True)
        then obtain d rest4 where d: "rest3 = d # rest4" by (cases rest3) simp_all
        then show ?thesis using 2(4) [OF False b w2 c w3 d] 2(5) False w2 w3 by (simp add: b c)
      qed
    qed
  qed
qed simp

lemma is_str_append [intro]: "is_str s \<Longrightarrow> is_str t \<Longrightarrow> is_str (s @ t)"
  by (simp add: is_str_def utf8_valid_append)

lemma is_str_Nil [simp]: "is_str []"
  by (simp add: is_str_def)

definition ascii_char :: "char \<Rightarrow> bool" where
  "ascii_char c \<longleftrightarrow> (of_char c :: u8) \<le> 127"

lemma is_str_ascii: "list_all ascii_char s \<Longrightarrow> is_str s"
  by (induction s) (simp_all add: is_str_def ascii_char_def utf8_width_def)

lemma is_str_concat: "list_all is_str ss \<Longrightarrow> is_str (concat ss)"
  by (induction ss) auto

subsection \<open>Lines and tab-separated fields\<close>

abbreviation newline :: char where "newline \<equiv> CHR 0x0A"
abbreviation carriage_return :: char where "carriage_return \<equiv> CHR 0x0D"
abbreviation tab :: char where "tab \<equiv> CHR 0x09"

text \<open>
  \<open>str::lines\<close>: a line ends with a newline, whose preceding carriage return is dropped with
  it; the last line may lack the newline and then keeps a carriage return.
\<close>

definition strip_return :: "string \<Rightarrow> string" where
  "strip_return l = (if l \<noteq> [] \<and> last l = carriage_return then butlast l else l)"

fun lines_from :: "string \<Rightarrow> string \<Rightarrow> string list" where
  "lines_from acc [] = (if acc = [] then [] else [acc])"
| "lines_from acc (c # cs) =
     (if c = newline then strip_return acc # lines_from [] cs else lines_from (acc @ [c]) cs)"

definition str_lines :: "string \<Rightarrow> string list" where
  "str_lines s = lines_from [] s"

text \<open>\<open>str::split\<close> at a character: never empty, and empty fields are kept.\<close>

fun str_split :: "char \<Rightarrow> string \<Rightarrow> string list" where
  "str_split sep [] = [[]]"
| "str_split sep (c # cs) =
     (if c = sep then [] # str_split sep cs
      else (case str_split sep cs of [] \<Rightarrow> [[c]] | f # fs \<Rightarrow> (c # f) # fs))"

fun tabbed :: "string list \<Rightarrow> string" where
  "tabbed [] = []"
| "tabbed [f] = f"
| "tabbed (f # g # fs) = f @ [tab] @ tabbed (g # fs)"

definition render_lines :: "string list \<Rightarrow> string" where
  "render_lines ls = concat (map (\<lambda>l. l @ [newline]) ls)"

text \<open>A field that can be stored: UTF-8 without the separators.\<close>

definition plain_field :: "string \<Rightarrow> bool" where
  "plain_field f \<longleftrightarrow> is_str f \<and> newline \<notin> set f \<and> carriage_return \<notin> set f \<and> tab \<notin> set f"

definition plain_line :: "string \<Rightarrow> bool" where
  "plain_line l \<longleftrightarrow> is_str l \<and> newline \<notin> set l \<and> carriage_return \<notin> set l"

lemma lines_from_line:
  "newline \<notin> set l \<Longrightarrow> lines_from acc (l @ newline # rest) = strip_return (acc @ l) # lines_from [] rest"
  by (induction l arbitrary: acc) auto

lemma strip_return_plain: "carriage_return \<notin> set l \<Longrightarrow> strip_return l = l"
  by (metis last_in_set strip_return_def)

lemma str_lines_render:
  "list_all plain_line ls \<Longrightarrow> str_lines (render_lines ls) = ls"
  by (induction ls) (simp_all add: str_lines_def render_lines_def plain_line_def lines_from_line strip_return_plain)

lemma render_lines_simps [simp]:
  "render_lines [] = []" "render_lines (l # ls) = l @ newline # render_lines ls"
  "render_lines (ls @ ms) = render_lines ls @ render_lines ms"
  by (simp_all add: render_lines_def)

lemma is_str_render: "list_all plain_line ls \<Longrightarrow> is_str (render_lines ls)"
proof (induction ls)
  case (Cons l ls)
  have "is_str [newline]" by (simp add: is_str_def utf8_width_def)
  moreover have "is_str l" "is_str (render_lines ls)" using Cons by (simp_all add: plain_line_def)
  ultimately have "is_str (l @ [newline] @ render_lines ls)" by (intro is_str_append)
  then show ?case by simp
qed simp

lemma str_split_plain: "sep \<notin> set f \<Longrightarrow> str_split sep f = [f]"
  by (induction f) auto

lemma str_split_field: "sep \<notin> set f \<Longrightarrow> str_split sep (f @ sep # rest) = f # str_split sep rest"
  by (induction f) (auto split: list.split)

lemma str_split_tabbed:
  "fs \<noteq> [] \<Longrightarrow> list_all plain_field fs \<Longrightarrow> str_split tab (tabbed fs) = fs"
  by (induction fs rule: tabbed.induct) (simp_all add: plain_field_def str_split_plain str_split_field)

lemma plain_line_tabbed: "list_all plain_field fs \<Longrightarrow> plain_line (tabbed fs)"
proof (induction fs rule: tabbed.induct)
  case (3 f g fs)
  have "is_str [tab]" by (simp add: is_str_def utf8_width_def)
  moreover have "is_str f" "is_str (tabbed (g # fs))" using 3 by (simp_all add: plain_line_def plain_field_def)
  ultimately have "is_str (f @ [tab] @ tabbed (g # fs))" by (intro is_str_append)
  then show ?case using 3 by (simp add: plain_line_def plain_field_def)
qed (simp_all add: plain_line_def plain_field_def)

subsection \<open>Decimal numbers\<close>

text \<open>
  \<open>Display\<close> of the integer types and \<open>FromStr\<close>: an optional sign, at least one digit, and
  a value in range.  A minus sign is refused for unsigned types.
\<close>

definition digit_char :: "nat \<Rightarrow> char" where
  "digit_char d = char_of (48 + d)"

fun show_nat :: "nat \<Rightarrow> string" where
  "show_nat n = (if n < 10 then [digit_char n] else show_nat (n div 10) @ [digit_char (n mod 10)])"

declare show_nat.simps [simp del]

definition digit_value :: "char \<Rightarrow> nat option" where
  "digit_value c = (let n = of_char c in if 48 \<le> n \<and> n \<le> 57 then Some (n - 48) else None)"

fun parse_digits :: "nat \<Rightarrow> string \<Rightarrow> nat option" where
  "parse_digits acc [] = Some acc"
| "parse_digits acc (c # cs) =
     (case digit_value c of None \<Rightarrow> None | Some d \<Rightarrow> parse_digits (acc * 10 + d) cs)"

definition parse_magnitude :: "string \<Rightarrow> nat option" where
  "parse_magnitude s = (if s = [] then None else parse_digits 0 s)"

fun strip_plus :: "string \<Rightarrow> string" where
  "strip_plus [] = []"
| "strip_plus (c # cs) = (if c = CHR ''+'' then cs else c # cs)"

definition parse_unsigned :: "nat \<Rightarrow> string \<Rightarrow> nat option" where
  "parse_unsigned bound s =
     (case parse_magnitude (strip_plus s) of None \<Rightarrow> None | Some n \<Rightarrow> if n < bound then Some n else None)"

definition show_u32 :: "u32 \<Rightarrow> string" where
  "show_u32 w = show_nat (unat w)"

definition parse_u32 :: "string \<Rightarrow> u32 option" where
  "parse_u32 s = map_option of_nat (parse_unsigned (2 ^ 32) s)"

definition show_i32 :: "i32 \<Rightarrow> string" where
  "show_i32 w = (if sint w < 0 then CHR ''-'' # show_nat (nat (- sint w)) else show_nat (nat (sint w)))"

definition parse_i32 :: "string \<Rightarrow> i32 option" where
  "parse_i32 s =
     (case s of
        CHR ''-'' # cs \<Rightarrow>
          (case parse_magnitude cs of
             None \<Rightarrow> None | Some n \<Rightarrow> if n \<le> 2 ^ 31 then Some (- of_nat n) else None)
      | _ \<Rightarrow> map_option of_nat (parse_unsigned (2 ^ 31) s))"

lemma digit_char_value: "d < 10 \<Longrightarrow> digit_value (digit_char d) = Some d"
  by (simp add: digit_value_def digit_char_def Let_def)

lemma parse_digits_append:
  "parse_digits acc (s @ t) = (case parse_digits acc s of None \<Rightarrow> None | Some n \<Rightarrow> parse_digits n t)"
  by (induction s arbitrary: acc) (auto split: option.split)

lemma parse_show_digits: "parse_digits 0 (show_nat n) = Some n"
proof (induction n rule: show_nat.induct)
  case (1 n)
  show ?case
  proof (cases "n < 10")
    case True
    then show ?thesis by (simp add: show_nat.simps [of n] digit_char_value)
  next
    case False
    then have "parse_digits 0 (show_nat (n div 10)) = Some (n div 10)" by (rule 1)
    then show ?thesis
      using False by (simp add: show_nat.simps [of n] parse_digits_append digit_char_value)
  qed
qed

lemma digit_char_bytes: "d < 10 \<Longrightarrow> (of_char (digit_char d) :: nat) = 48 + d"
  by (simp add: digit_char_def)

lemma show_nat_digits: "c \<in> set (show_nat n) \<Longrightarrow> \<exists>d<10. c = digit_char d"
proof (induction n rule: show_nat.induct)
  case (1 n)
  show ?case
  proof (cases "n < 10")
    case True
    then show ?thesis using 1(2) by (auto simp: show_nat.simps [of n])
  next
    case False
    then have "c \<in> set (show_nat (n div 10)) \<or> c = digit_char (n mod 10)"
      using 1(2) by (auto simp: show_nat.simps [of n])
    moreover have "n mod 10 < 10" by simp
    ultimately show ?thesis using 1(1) [OF False] by blast
  qed
qed

lemma show_nat_not_Nil [simp]: "show_nat n \<noteq> []"
  by (subst show_nat.simps) simp

lemma digit_char_neq:
  assumes "d < 10"
  shows "digit_char d \<noteq> CHR ''+''" "digit_char d \<noteq> CHR ''-''" "digit_char d \<noteq> newline"
    "digit_char d \<noteq> carriage_return" "digit_char d \<noteq> tab" "ascii_char (digit_char d)"
proof -
  note b = digit_char_bytes [OF assms]
  show "digit_char d \<noteq> CHR ''+''" "digit_char d \<noteq> CHR ''-''" "digit_char d \<noteq> newline"
    "digit_char d \<noteq> carriage_return" "digit_char d \<noteq> tab"
    using b by (auto dest!: arg_cong [where f = "of_char :: char \<Rightarrow> nat"])
  have "(of_char (digit_char d) :: nat) \<le> 127" using b assms by simp
  then show "ascii_char (digit_char d)" by (simp add: ascii_char_def word_le_nat_alt of_char_byte)
qed

lemma ascii_chars: "list_all ascii_char (show_nat n)"
  using show_nat_digits digit_char_neq(6) by (fastforce simp: list_all_iff)

lemma show_nat_plain: "plain_field (show_nat n)"
  using show_nat_digits [of _ n] digit_char_neq is_str_ascii [OF ascii_chars]
  unfolding plain_field_def by metis

lemma strip_plus_show [simp]: "strip_plus (show_nat n) = show_nat n"
proof (cases "show_nat n")
  case (Cons c cs)
  then have "c \<in> set (show_nat n)" by simp
  then have "c \<noteq> CHR ''+''" using show_nat_digits [of c n] digit_char_neq(1) by metis
  then show ?thesis using Cons by simp
qed simp

lemma parse_unsigned_show: "n < bound \<Longrightarrow> parse_unsigned bound (show_nat n) = Some n"
  by (simp add: parse_unsigned_def parse_magnitude_def parse_show_digits)

lemma parse_show_u32: "parse_u32 (show_u32 w) = Some w"
  using parse_unsigned_show [of "unat w" "2 ^ 32"] unat_u32_less [of w]
  by (simp add: parse_u32_def show_u32_def)

lemma sint_i32_bounds: "- 2147483648 \<le> sint (w :: i32)" "sint w < 2147483648"
  using sint_ge [of w] sint_less [of w] by simp_all

lemma of_nat_nat_sint: "0 \<le> sint w \<Longrightarrow> of_nat (nat (sint w)) = w"
  by (simp add: of_nat_nat)

lemma parse_show_i32: "parse_i32 (show_i32 w) = Some w"
proof (cases "sint w < 0")
  case True
  have "nat (- sint w) \<le> 2 ^ 31" using sint_i32_bounds(1) [of w] by simp
  moreover have "- of_nat (nat (- sint w)) = w"
    using True by (simp add: of_nat_nat)
  ultimately show ?thesis
    using True by (simp add: parse_i32_def show_i32_def parse_magnitude_def parse_show_digits)
next
  case False
  let ?n = "nat (sint w)"
  have n: "?n < 2 ^ 31" using sint_i32_bounds(2) [of w] False by simp
  obtain c cs where c: "show_nat ?n = c # cs" by (cases "show_nat ?n") simp_all
  then have "c \<in> set (show_nat ?n)" by simp
  then have "c \<noteq> CHR ''-''" using show_nat_digits [of c ?n] digit_char_neq(2) by metis
  then have "parse_i32 (show_nat ?n) = map_option of_nat (parse_unsigned (2 ^ 31) (show_nat ?n))"
    by (simp add: parse_i32_def c split: char.split bool.split)
  then show ?thesis using False parse_unsigned_show [OF n] by (simp add: show_i32_def of_nat_nat_sint)
qed

lemma show_i32_plain: "plain_field (show_i32 w)"
proof -
  have "plain_field (CHR ''-'' # show_nat n)" for n
  proof -
    have "is_str (''-'' @ show_nat n)"
      using show_nat_plain [of n] by (intro is_str_append) (simp_all add: plain_field_def is_str_def utf8_width_def)
    then show ?thesis using show_nat_plain [of n] by (simp add: plain_field_def)
  qed
  then show ?thesis using show_nat_plain by (simp add: show_i32_def)
qed

lemma show_u32_plain: "plain_field (show_u32 w)"
  by (simp add: show_u32_def show_nat_plain)

subsection \<open>Identifiers\<close>

definition identifier_char :: "char \<Rightarrow> bool" where
  "identifier_char c \<longleftrightarrow>
     (let n = (of_char c :: nat) in
      65 \<le> n \<and> n \<le> 90 \<or> 97 \<le> n \<and> n \<le> 122 \<or> 48 \<le> n \<and> n \<le> 57 \<or> n = 95)"

definition is_identifier :: "string \<Rightarrow> bool" where
  "is_identifier s \<longleftrightarrow> s \<noteq> [] \<and> list_all identifier_char s"

lemma identifier_plain: "is_identifier s \<Longrightarrow> plain_field s"
proof -
  assume s: "is_identifier s"
  have c: "ascii_char c \<and> c \<noteq> newline \<and> c \<noteq> carriage_return \<and> c \<noteq> tab" if "identifier_char c" for c
    using that by (auto simp: identifier_char_def Let_def ascii_char_def word_le_nat_alt of_char_byte)
  then have "list_all ascii_char s" using s by (auto simp: is_identifier_def list_all_iff)
  then show "plain_field s" using s c is_str_ascii by (auto simp: plain_field_def is_identifier_def list_all_iff)
qed

end
