(* ===== verification/Disk.thy ===== *)
theory Disk
  imports Record_Properties Text_Format
begin

section \<open>The database directory and the file managers\<close>

text \<open>
  The files below the database root, by name, with two schedules of faults that may be
  arbitrary: \<open>dk_faults\<close> has an entry for each call of the operating system that works on a
  file as a whole, and \<open>dk_handles\<close> an entry for each file that is opened for pages, the
  schedule of its device (see \<open>Page_Io\<close>).  In the first, \<open>None\<close> (or an exhausted schedule)
  lets the call succeed; \<open>Some 0\<close> makes it fail without effect, and \<open>Some (Suc n)\<close> makes a
  write fail after the file has been truncated and \<open>n\<close> bytes were written.

  A file that is open for pages belongs to the value that opened it; its bytes return to the
  directory when that value is dropped.  A table is open once at a time.
\<close>

record disk =
  dk_files :: "string \<Rightarrow> u8 list option"
  dk_faults :: "nat option list"
  dk_handles :: "nat option list list"

definition dk_fault :: "disk \<Rightarrow> nat option \<times> disk" where
  "dk_fault d = (case take_fault (dk_faults d) of (x, fs) \<Rightarrow> (x, d\<lparr>dk_faults := fs\<rparr>))"

definition dk_put :: "string \<Rightarrow> u8 list \<Rightarrow> disk \<Rightarrow> disk" where
  "dk_put name bs d = d\<lparr>dk_files := (dk_files d)(name \<mapsto> bs)\<rparr>"

fun take_handle :: "nat option list list \<Rightarrow> nat option list \<times> nat option list list" where
  "take_handle [] = ([], [])"
| "take_handle (x # xs) = (x, xs)"

subsection \<open>Calls of the standard library's \<open>fs\<close>\<close>

definition path_exists :: "string \<Rightarrow> disk \<Rightarrow> bool" where
  "path_exists name d \<longleftrightarrow> dk_files d name \<noteq> None"

definition fs_create_dir_all :: "disk \<Rightarrow> (io_error + unit) \<times> disk" where
  "fs_create_dir_all d =
     (case dk_fault d of (Some _, d) \<Rightarrow> (Inl DeviceFault, d) | (None, d) \<Rightarrow> (Inr (), d))"

definition fs_read_to_string :: "string \<Rightarrow> disk \<Rightarrow> (io_error + string) \<times> disk" where
  "fs_read_to_string name d =
     (case dk_fault d of
        (Some _, d) \<Rightarrow> (Inl DeviceFault, d)
      | (None, d) \<Rightarrow>
          (case dk_files d name of
             None \<Rightarrow> (Inl NotFound, d)
           | Some bs \<Rightarrow> (ok_or InvalidData (from_utf8 bs), d)))"

definition fs_write :: "string \<Rightarrow> string \<Rightarrow> disk \<Rightarrow> (io_error + unit) \<times> disk" where
  "fs_write name content d =
     (case dk_fault d of
        (Some 0, d) \<Rightarrow> (Inl DeviceFault, d)
      | (Some (Suc n), d) \<Rightarrow> (Inl DeviceFault, dk_put name (take n (as_bytes content)) d)
      | (None, d) \<Rightarrow> (Inr (), dk_put name (as_bytes content) d))"

definition fs_remove_file :: "string \<Rightarrow> disk \<Rightarrow> (io_error + unit) \<times> disk" where
  "fs_remove_file name d =
     (case dk_fault d of
        (Some _, d) \<Rightarrow> (Inl DeviceFault, d)
      | (None, d) \<Rightarrow>
          if dk_files d name = None then (Inl NotFound, d)
          else (Inr (), d\<lparr>dk_files := (dk_files d)(name := None)\<rparr>))"

subsection \<open>\<open>DiskPageIo\<close>, \<open>PageManager\<close> and \<open>RecordManager\<close>\<close>

definition dk_handle :: "u8 list \<Rightarrow> disk \<Rightarrow> page_io \<times> disk" where
  "dk_handle bs d =
     (case take_handle (dk_handles d) of
        (fs, hs) \<Rightarrow> (\<lparr>io_bytes = bs, io_faults = fs\<rparr>, d\<lparr>dk_handles := hs\<rparr>))"

definition disk_create_new :: "string \<Rightarrow> disk \<Rightarrow> (io_error + page_io) \<times> disk" where
  "disk_create_new name d =
     (case dk_fault d of
        (Some _, d) \<Rightarrow> (Inl DeviceFault, d)
      | (None, d) \<Rightarrow>
          if dk_files d name \<noteq> None then (Inl AlreadyExists, d)
          else (case dk_handle [] (dk_put name [] d) of (io, d) \<Rightarrow> (Inr io, d)))"

definition disk_open :: "string \<Rightarrow> disk \<Rightarrow> (io_error + page_io) \<times> disk" where
  "disk_open name d =
     (case dk_fault d of
        (Some _, d) \<Rightarrow> (Inl DeviceFault, d)
      | (None, d) \<Rightarrow>
          (case dk_files d name of
             None \<Rightarrow> (Inl NotFound, d)
           | Some bs \<Rightarrow> (case dk_handle bs d of (io, d) \<Rightarrow> (Inr io, d))))"

text \<open>What a dropped page file, pool or record file leaves in the directory.\<close>

definition drop_page_file :: "string \<Rightarrow> page_file \<Rightarrow> disk \<Rightarrow> disk" where
  "drop_page_file name pf d = dk_put name (io_bytes (pf_io (page_file_drop pf))) d"

definition drop_pool :: "string \<Rightarrow> buffer_pool \<Rightarrow> disk \<Rightarrow> disk" where
  "drop_pool name s d = (case bp_files s 0 of None \<Rightarrow> d | Some pf \<Rightarrow> drop_page_file name pf d)"

definition drop_records :: "string \<Rightarrow> record_file \<Rightarrow> disk \<Rightarrow> disk" where
  "drop_records name f d =
     (case record_file_drop f of None \<Rightarrow> d | Some pf \<Rightarrow> dk_put name (io_bytes (pf_io pf)) d)"

definition page_manager_create :: "string \<Rightarrow> disk \<Rightarrow> (page_store_error + unit) \<times> disk" where
  "page_manager_create name d =
     (case disk_create_new name d of
        (Inl e, d) \<Rightarrow> (Inl (PS_Io e), d)
      | (Inr io, d) \<Rightarrow>
          (case and_then_st (page_create io) (\<lambda>_. page_flush) of
             (r, pf) \<Rightarrow> (r, drop_page_file name pf d)))"

definition page_manager_open :: "string \<Rightarrow> disk \<Rightarrow> (page_store_error + page_file) \<times> disk" where
  "page_manager_open name d =
     (case disk_open name d of (r, d) \<Rightarrow> (and_then (map_err PS_Io r) page_open, d))"

definition page_manager_destroy :: "string \<Rightarrow> disk \<Rightarrow> (page_store_error + unit) \<times> disk" where
  "page_manager_destroy name d = (case fs_remove_file name d of (r, d) \<Rightarrow> (map_err PS_Io r, d))"

definition record_manager_open :: "string \<Rightarrow> disk \<Rightarrow> (record_error + record_file) \<times> disk" where
  "record_manager_open name d =
     (case page_manager_open name d of
        (r, d) \<Rightarrow> (and_then (map_err RE_PageStore r) (\<lambda>pf. open_records pf DEFAULT_BUFFER_CAPACITY), d))"

definition record_manager_create :: "string \<Rightarrow> nat \<Rightarrow> disk \<Rightarrow> (record_error + unit) \<times> disk" where
  "record_manager_create name record_size d =
     (case page_manager_create name d of
        (Inl e, d) \<Rightarrow> (Inl (RE_PageStore e), d)
      | (Inr _, d) \<Rightarrow>
        (case page_manager_open name d of
           (Inl e, d) \<Rightarrow> (Inl (RE_PageStore e), d)
         | (Inr pf, d) \<Rightarrow>
             (case create_records pf DEFAULT_BUFFER_CAPACITY record_size of
                (Inl e, s) \<Rightarrow> (Inl e, drop_pool name s d)
              | (Inr f, _) \<Rightarrow> (case flush_records f of (r, f) \<Rightarrow> (r, drop_records name f d)))))"

definition record_manager_destroy :: "string \<Rightarrow> disk \<Rightarrow> (record_error + unit) \<times> disk" where
  "record_manager_destroy name d =
     (case page_manager_destroy name d of (r, d) \<Rightarrow> (map_err RE_PageStore r, d))"

end
