(* ===== verification/Disk_Spec.thy ===== *)
theory Disk_Spec
  imports Disk
begin

section \<open>A directory without faults\<close>

text \<open>
  The calls on a directory whose schedules are exhausted, and the record files it holds: the
  record file that opening a file's bytes gives, which a drop stores and an open returns.
\<close>

definition disk_healthy :: "disk \<Rightarrow> bool" where
  "disk_healthy d \<longleftrightarrow> dk_faults d = [] \<and> dk_handles d = []"

definition io_of :: "u8 list \<Rightarrow> page_io" where
  "io_of bs = \<lparr>io_bytes = bs, io_faults = []\<rparr>"

definition stored_records :: "disk \<Rightarrow> string \<Rightarrow> record_file option" where
  "stored_records d name =
     (case dk_files d name of
        None \<Rightarrow> None
      | Some bs \<Rightarrow>
          (case page_open (io_of bs) of
             Inl _ \<Rightarrow> None
           | Inr pf \<Rightarrow> (case open_records pf DEFAULT_BUFFER_CAPACITY of Inl _ \<Rightarrow> None | Inr f \<Rightarrow> Some f)))"

lemma disk_healthyD: "disk_healthy d \<Longrightarrow> dk_faults d = []" "disk_healthy d \<Longrightarrow> dk_handles d = []"
  by (simp_all add: disk_healthy_def)

lemma dk_fault_healthy [simp]: "disk_healthy d \<Longrightarrow> dk_fault d = (None, d)"
  by (simp add: dk_fault_def disk_healthy_def)

lemma disk_healthy_files [simp]: "disk_healthy (d\<lparr>dk_files := m\<rparr>) = disk_healthy d"
  by (simp add: disk_healthy_def)

lemma dk_put_simps [simp]:
  "disk_healthy (dk_put name bs d) = disk_healthy d" "dk_files (dk_put name bs d) = (dk_files d)(name \<mapsto> bs)"
  "dk_put name bs (dk_put name cs d) = dk_put name bs d"
  by (simp_all add: dk_put_def)

lemma dk_handle_healthy [simp]: "disk_healthy d \<Longrightarrow> dk_handle bs d = (io_of bs, d)"
  by (simp add: dk_handle_def disk_healthy_def io_of_def)

named_theorems disk_calls "the calls on a directory without faults"

lemma fs_healthy [disk_calls]:
  "disk_healthy d \<Longrightarrow> fs_create_dir_all d = (Inr (), d)"
  "disk_healthy d \<Longrightarrow> fs_write name content d = (Inr (), dk_put name (as_bytes content) d)"
  by (simp_all add: fs_create_dir_all_def fs_write_def)

lemma fs_read_healthy [disk_calls]:
  "disk_healthy d \<Longrightarrow> dk_files d name = Some (as_bytes s) \<Longrightarrow> is_str s \<Longrightarrow>
     fs_read_to_string name d = (Inr s, d)"
  by (simp add: fs_read_to_string_def from_utf8_as_bytes)

lemma fs_remove_healthy [disk_calls]:
  "disk_healthy d \<Longrightarrow> dk_files d name \<noteq> None \<Longrightarrow>
     fs_remove_file name d = (Inr (), d\<lparr>dk_files := (dk_files d)(name := None)\<rparr>)"
  by (simp add: fs_remove_file_def)

lemma stored_records_iff:
  "stored_records d name = Some f \<longleftrightarrow>
     (\<exists>bs pf. dk_files d name = Some bs \<and> page_open (io_of bs) = Inr pf \<and> open_records pf DEFAULT_BUFFER_CAPACITY = Inr f)"
  by (cases "dk_files d name") (auto simp: stored_records_def split: sum.split)

lemma stored_records_cong: "dk_files d name = dk_files e name \<Longrightarrow> stored_records d name = stored_records e name"
  by (simp add: stored_records_def)

lemma record_manager_open_healthy [disk_calls]:
  "disk_healthy d \<Longrightarrow> stored_records d name = Some f \<Longrightarrow> record_manager_open name d = (Inr f, d)"
  by (auto simp: stored_records_iff record_manager_open_def page_manager_open_def disk_open_def)

lemma page_refines_io: "page_refines pf a \<Longrightarrow> pf_io pf = io_of (io_bytes (pf_io pf))"
  by (simp add: page_refines_def pf_layout_def healthy_def io_of_def)

text \<open>The content of a record file, and its room for more pages.\<close>

definition holds_records :: "record_file \<Rightarrow> nat \<Rightarrow> (rid \<Rightarrow> u8 list option) \<Rightarrow> nat \<Rightarrow> bool" where
  "holds_records f rs R n \<longleftrightarrow> rf_state rs n f \<and> record_map f = R"

lemma holds_recordsE:
  assumes "holds_records f rs R n"
  obtains m ps where "rf_base m f" and "rf_chain f ps" and "rf_record_size f = rs" and "record_map f = R"
    and "unat (rf_num_pages f) \<le> n"
  using assms by (auto simp: holds_records_def rf_state_def record_file_ok_def)

lemma holds_recordsI:
  "rf_base m f \<Longrightarrow> rf_chain f ps \<Longrightarrow> rf_record_size f = rs \<Longrightarrow> record_map f = R \<Longrightarrow>
     unat (rf_num_pages f) \<le> n \<Longrightarrow> holds_records f rs R n"
  by (auto simp: holds_records_def rf_stateI)

lemma holds_records_same:
  "rf_base m f \<Longrightarrow> rf_chain f ps \<Longrightarrow> same_records m f g \<Longrightarrow> holds_records f rs R n \<Longrightarrow> holds_records g rs R n"
  using rf_state_same [of m f ps g rs n] by (auto simp: holds_records_def rf_state_def)

lemma drop_records_ok:
  assumes "holds_records f rs R n"
  obtains bs g where "drop_records name f d = dk_put name bs d"
    and "stored_records (dk_put name bs d) name = Some g" and "holds_records g rs R n"
proof -
  obtain m ps where f: "rf_base m f" "rf_chain f ps" "rf_record_size f = rs" "record_map f = R"
    "unat (rf_num_pages f) \<le> n" using assms by (rule holds_recordsE)
  have cap: "0 < DEFAULT_BUFFER_CAPACITY" by (simp add: DEFAULT_BUFFER_CAPACITY_def)
  obtain pf pf' g m' where g: "record_file_drop f = Some pf" "page_open (pf_io pf) = Inr pf'"
    "open_records pf' DEFAULT_BUFFER_CAPACITY = Inr g" "rf_base m' g" "rf_chain g ps"
    "record_map g = record_map f" "rf_header g = rf_header f"
    by (rule reopen_records_ok [OF f(1,2) cap])
  obtain pf2 h where "record_file_drop f = Some pf2" "page_file_good pf2"
    by (rule record_file_drop_ok [OF f(1,2)])
  then have io: "pf_io pf = io_of (io_bytes (pf_io pf))"
    using g(1) page_refines_io by (auto simp: page_file_good_def)
  show thesis
  proof (rule that)
    show "drop_records name f d = dk_put name (io_bytes (pf_io pf)) d"
      using g(1) by (simp add: drop_records_def)
    show "stored_records (dk_put name (io_bytes (pf_io pf)) d) name = Some g"
      using g(2,3) io by (simp add: stored_records_iff)
    show "holds_records g rs R n"
      using holds_recordsI [OF g(4,5)] g(6,7) f(3,4,5) by simp
  qed
qed

lemma record_manager_create_ok:
  assumes d: "disk_healthy d" and new: "dk_files d name = None" and slots: "compute_slots_per_page rs = Inr k"
  obtains bs g where "record_manager_create name rs d = (Inr (), dk_put name bs d)"
    and "stored_records (dk_put name bs d) name = Some g" and "holds_records g rs Map.empty 0"
proof -
  obtain p0 where p0: "page_create (io_of []) = (Inr (), p0)" "page_refines p0 sp_empty" "on_disk p0"
    unfolding io_of_def by (rule page_create_refines)
  obtain p1 where p1: "page_flush p0 = (Inr (), p1)" "page_refines p1 sp_empty" "on_disk p1"
    using p0(2) by (rule page_flush_refines)
  obtain p2 where p2: "page_flush p1 = (Inr (), p2)" "page_refines p2 sp_empty" "on_disk p2"
    using p1(2) by (rule page_flush_refines)
  let ?b = "io_bytes (pf_io p2)"
  have drop1: "drop_page_file name p1 e = dk_put name ?b e" for e
    using p2(1) by (simp add: drop_page_file_def page_file_drop_def)
  have create: "page_manager_create name d = (Inr (), dk_put name ?b d)"
    using d new p0(1) p1(1) drop1 by (simp add: page_manager_create_def disk_create_new_def)
  obtain p3 where p3: "page_open (pf_io p2) = Inr p3" "page_refines p3 sp_empty" "on_disk p3"
    using page_open_refines [OF p2(2,3)] .
  have open3: "page_manager_open name (dk_put name ?b d) = (Inr p3, dk_put name ?b d)"
    using d p3(1) page_refines_io [OF p2(2)] by (simp add: page_manager_open_def disk_open_def)
  have cap: "0 < DEFAULT_BUFFER_CAPACITY" by (simp add: DEFAULT_BUFFER_CAPACITY_def)
  obtain f m s where f: "create_records p3 DEFAULT_BUFFER_CAPACITY rs = (Inr f, s)" "rf_base m f" "rf_chain f []"
    "record_map f = Map.empty" "rf_record_size f = rs" "rf_slots f = k" "\<not> rf_header_dirty f" "m = [0 \<mapsto> 1]"
    "rf_num_pages f = 0"
    by (rule create_records_ok [OF p3(2) cap slots])
  obtain g where g: "flush_records f = (Inr (), g)" "rf_base m g" "rf_chain g []" "record_map g = record_map f"
    "rf_header g = rf_header f"
    using flush_records_ok [OF f(2,3)] by metis
  have "holds_records g rs Map.empty 0" using holds_recordsI [OF g(2,3)] g(4,5) f(4,5,9) by simp
  then obtain bs h where h: "drop_records name g (dk_put name ?b d) = dk_put name bs (dk_put name ?b d)"
    "stored_records (dk_put name bs (dk_put name ?b d)) name = Some h" "holds_records h rs Map.empty 0"
    by (rule drop_records_ok [where name = name and d = "dk_put name ?b d"])
  have "record_manager_create name rs d = (Inr (), dk_put name bs d)"
    using create open3 f(1) g(1) h(1) by (simp add: record_manager_create_def)
  then show thesis using that h(2,3) by simp
qed

end
