(* ===== verification/Index_Store.thy ===== *)
theory Index_Store
  imports Disk_Spec Ordered_Map "HOL-Library.Product_Lexorder"
begin

section \<open>Indexes (\<open>src/storage/index/mod.rs\<close>)\<close>

text \<open>
  The catalog of indexes and the index files.  Both are text files below the database root:
  a header line, then lines of tab-separated fields.  An index file lists its entries sorted
  by key and record identifier; every operation on it reads or writes the whole file.  The
  root path is that of the directory, so paths are names in it.
\<close>

definition INDEX_CATALOG_FILE_NAME :: string where
  "INDEX_CATALOG_FILE_NAME = ''indexes.txt''"

definition INDEX_FILE_EXTENSION :: string where
  "INDEX_FILE_EXTENSION = ''idx''"

definition INDEX_FILE_HEADER :: string where
  "INDEX_FILE_HEADER = ''rs-redbase-index-v1''"

datatype index_key_type = IK_Int32

record index_meta =
  im_name :: string
  im_table :: string
  im_column :: string
  im_key_type :: index_key_type

record index_entry =
  ie_key :: i32
  ie_rid :: rid

type_synonym index_catalog = "(string, index_meta) btree"

datatype index_error =
    IE_Io io_error
  | DuplicateIndex string
  | IndexNotFound string
  | UnsupportedKeyType string
  | IE_Corrupted string
  | IE_Panic \<comment> \<open>not a value of the source: a slice out of range, which panics\<close>

definition index_catalog_path :: string where
  "index_catalog_path = INDEX_CATALOG_FILE_NAME"

definition index_file_path :: "string \<Rightarrow> string" where
  "index_file_path name = name @ ''.'' @ INDEX_FILE_EXTENSION"

subsection \<open>The catalog\<close>

text \<open>A line of the catalog: the fields of its only form.\<close>

fun catalog_line_meta :: "string list \<Rightarrow> index_meta option" where
  "catalog_line_meta [kind, name, table, column, ty] =
     (if kind = ''index'' \<and> ty = ''int32''
      then Some \<lparr>im_name = name, im_table = table, im_column = column, im_key_type = IK_Int32\<rparr>
      else None)"
| "catalog_line_meta _ = None"

fun index_catalog_lines :: "string list \<Rightarrow> index_catalog \<Rightarrow> index_error + index_catalog" where
  "index_catalog_lines [] m = Inr m"
| "index_catalog_lines (l # ls) m =
     (if l = [] then index_catalog_lines ls m
      else (case catalog_line_meta (str_split tab l) of
        None \<Rightarrow> Inl (IE_Corrupted ''unrecognized index catalog line'')
      | Some meta \<Rightarrow>
          if bt_contains (im_name meta) m then Inl (IE_Corrupted ''duplicate index entry'')
          else index_catalog_lines ls (bt_insert (im_name meta) meta m)))"

definition index_catalog_load :: "disk \<Rightarrow> (index_error + index_catalog) \<times> disk" where
  "index_catalog_load d =
     (if \<not> path_exists index_catalog_path d then (Inr [], d)
      else (case fs_read_to_string index_catalog_path d of
        (Inl e, d) \<Rightarrow> (Inl (IE_Io e), d)
      | (Inr content, d) \<Rightarrow>
          (case str_lines content of
             [] \<Rightarrow> Inr []
           | h # ls \<Rightarrow>
               if h = INDEX_FILE_HEADER then index_catalog_lines ls []
               else Inl (IE_Corrupted ''unexpected index catalog header''), d)))"

definition key_type_name :: "index_key_type \<Rightarrow> string" where
  "key_type_name k = (case k of IK_Int32 \<Rightarrow> ''int32'')"

definition meta_line :: "index_meta \<Rightarrow> string" where
  "meta_line meta =
     tabbed [''index'', im_name meta, im_table meta, im_column meta, key_type_name (im_key_type meta)]"

definition index_catalog_save :: "index_catalog \<Rightarrow> disk \<Rightarrow> (index_error + unit) \<times> disk" where
  "index_catalog_save m d =
     (case fs_write index_catalog_path (render_lines (INDEX_FILE_HEADER # map meta_line (bt_values m))) d of
        (r, d) \<Rightarrow> (map_err IE_Io r, d))"

definition index_catalog_contains :: "string \<Rightarrow> index_catalog \<Rightarrow> bool" where
  "index_catalog_contains name m = bt_contains name m"

definition index_catalog_insert :: "index_meta \<Rightarrow> index_catalog \<Rightarrow> (index_error + unit) \<times> index_catalog" where
  "index_catalog_insert meta m =
     (if bt_contains (im_name meta) m then (Inl (DuplicateIndex (im_name meta)), m)
      else (Inr (), bt_insert (im_name meta) meta m))"

definition index_catalog_remove :: "string \<Rightarrow> index_catalog \<Rightarrow> (index_error + index_meta) \<times> index_catalog" where
  "index_catalog_remove name m = (ok_or (IndexNotFound name) (map_of m name), bt_remove name m)"

definition index_catalog_list :: "index_catalog \<Rightarrow> index_meta list" where
  "index_catalog_list m = bt_values m"

definition indexes_for_table :: "string \<Rightarrow> index_catalog \<Rightarrow> index_meta list" where
  "indexes_for_table table m = filter (\<lambda>meta. im_table meta = table) (bt_values m)"

subsection \<open>Index files\<close>

definition entry_order :: "index_entry \<Rightarrow> int \<times> nat \<times> nat" where
  "entry_order e = (sint (ie_key e), unat (rid_page_id (ie_rid e)), unat (rid_slot_id (ie_rid e)))"

definition entry_line :: "index_entry \<Rightarrow> string" where
  "entry_line e =
     tabbed [''entry'', show_i32 (ie_key e), show_u32 (rid_page_id (ie_rid e)), show_u32 (rid_slot_id (ie_rid e))]"

definition index_file_lines :: "index_meta \<Rightarrow> index_entry list \<Rightarrow> string list" where
  "index_file_lines meta entries =
     INDEX_FILE_HEADER
     # tabbed [''name'', im_name meta]
     # tabbed [''table'', im_table meta]
     # tabbed [''column'', im_column meta]
     # tabbed [''key_type'', key_type_name (im_key_type meta)]
     # map entry_line (sort_key entry_order entries)"

definition write_index_file :: "index_meta \<Rightarrow> index_entry list \<Rightarrow> disk \<Rightarrow> (index_error + unit) \<times> disk" where
  "write_index_file meta entries d =
     (case fs_write (index_file_path (im_name meta)) (render_lines (index_file_lines meta entries)) d of
        (r, d) \<Rightarrow> (map_err IE_Io r, d))"

definition create_index_file :: "index_meta \<Rightarrow> disk \<Rightarrow> (index_error + unit) \<times> disk" where
  "create_index_file meta d = write_index_file meta [] d"

definition delete_index_file :: "string \<Rightarrow> disk \<Rightarrow> (index_error + unit) \<times> disk" where
  "delete_index_file name d =
     (case fs_remove_file (index_file_path name) d of (r, d) \<Rightarrow> (map_err IE_Io r, d))"

text \<open>The variables of the loop over the lines.\<close>

record index_file_vars =
  iv_name :: "string option"
  iv_table :: "string option"
  iv_column :: "string option"
  iv_key_type :: "index_key_type option"
  iv_entries :: "index_entry list"

definition parse_entry :: "string \<Rightarrow> string \<Rightarrow> string \<Rightarrow> index_error + index_entry" where
  "parse_entry key page slot =
     and_then (ok_or (IE_Corrupted ''invalid index key'') (parse_i32 key)) (\<lambda>key.
     and_then (ok_or (IE_Corrupted ''invalid index page id'') (parse_u32 page)) (\<lambda>page.
     and_then (ok_or (IE_Corrupted ''invalid index slot id'') (parse_u32 slot)) (\<lambda>slot.
       Inr \<lparr>ie_key = key, ie_rid = \<lparr>rid_page_id = page, rid_slot_id = slot\<rparr>\<rparr>)))"

definition index_file_field :: "string \<Rightarrow> string \<Rightarrow> index_file_vars \<Rightarrow> index_error + index_file_vars" where
  "index_file_field key v st =
     (if key = ''name'' then Inr (st\<lparr>iv_name := Some v\<rparr>)
      else if key = ''table'' then Inr (st\<lparr>iv_table := Some v\<rparr>)
      else if key = ''column'' then Inr (st\<lparr>iv_column := Some v\<rparr>)
      else if key = ''key_type'' \<and> v = ''int32'' then Inr (st\<lparr>iv_key_type := Some IK_Int32\<rparr>)
      else Inl (IE_Corrupted ''unrecognized index file line''))"

fun index_file_line :: "string list \<Rightarrow> index_file_vars \<Rightarrow> index_error + index_file_vars" where
  "index_file_line [key, v] st = index_file_field key v st"
| "index_file_line [kind, key, page, slot] st =
     (if kind = ''entry''
      then and_then (parse_entry key page slot) (\<lambda>e. Inr (st\<lparr>iv_entries := iv_entries st @ [e]\<rparr>))
      else Inl (IE_Corrupted ''unrecognized index file line''))"
| "index_file_line _ st = Inl (IE_Corrupted ''unrecognized index file line'')"

fun index_file_loop :: "string list \<Rightarrow> index_file_vars \<Rightarrow> index_error + index_file_vars" where
  "index_file_loop [] st = Inr st"
| "index_file_loop (l # ls) st =
     (if l = [] then index_file_loop ls st
      else and_then (index_file_line (str_split tab l) st) (index_file_loop ls))"

definition index_file_result :: "index_file_vars \<Rightarrow> index_error + index_meta \<times> index_entry list" where
  "index_file_result st =
     and_then (ok_or (IE_Corrupted ''missing index name'') (iv_name st)) (\<lambda>name.
     and_then (ok_or (IE_Corrupted ''missing index table'') (iv_table st)) (\<lambda>table.
     and_then (ok_or (IE_Corrupted ''missing index column'') (iv_column st)) (\<lambda>column.
     and_then (ok_or (IE_Corrupted ''missing index key type'') (iv_key_type st)) (\<lambda>key_type.
       Inr (\<lparr>im_name = name, im_table = table, im_column = column, im_key_type = key_type\<rparr>, iv_entries st)))))"

definition no_vars :: index_file_vars where
  "no_vars = \<lparr>iv_name = None, iv_table = None, iv_column = None, iv_key_type = None, iv_entries = []\<rparr>"

definition parse_index_lines :: "string list \<Rightarrow> index_error + index_meta \<times> index_entry list" where
  "parse_index_lines ls =
     (case ls of
        [] \<Rightarrow> Inl (IE_Corrupted ''missing index file header'')
      | h # ls \<Rightarrow>
          if h = INDEX_FILE_HEADER then and_then (index_file_loop ls no_vars) index_file_result
          else Inl (IE_Corrupted ''unexpected index file header''))"

definition load_index_file :: "string \<Rightarrow> disk \<Rightarrow> (index_error + index_meta \<times> index_entry list) \<times> disk" where
  "load_index_file name d =
     (case fs_read_to_string (index_file_path name) d of
        (r, d) \<Rightarrow> (and_then (map_err IE_Io r) (\<lambda>content. parse_index_lines (str_lines content)), d))"

definition replace_index_entries :: "string \<Rightarrow> index_entry list \<Rightarrow> disk \<Rightarrow> (index_error + unit) \<times> disk" where
  "replace_index_entries name entries d =
     and_then_st (load_index_file name d) (\<lambda>(meta, _) d. write_index_file meta entries d)"

text \<open>\<open>slice::partition_point\<close>: a binary search for the end of the prefix that satisfies the predicate.\<close>

function partition_search :: "('a \<Rightarrow> bool) \<Rightarrow> 'a list \<Rightarrow> nat \<Rightarrow> nat \<Rightarrow> nat" where
  "partition_search P xs lo hi =
     (if lo < hi then
        let mid = lo + (hi - lo) div 2 in
        if P (xs ! mid) then partition_search P xs (Suc mid) hi else partition_search P xs lo mid
      else lo)"
  by pat_completeness auto
termination by (relation "measure (\<lambda>(P, xs, lo, hi). hi - lo)") auto

declare partition_search.simps [simp del]

definition partition_point :: "('a \<Rightarrow> bool) \<Rightarrow> 'a list \<Rightarrow> nat" where
  "partition_point P xs = partition_search P xs 0 (length xs)"

definition lookup_eq :: "string \<Rightarrow> i32 \<Rightarrow> disk \<Rightarrow> (index_error + rid list) \<times> disk" where
  "lookup_eq name key d =
     and_then_st (load_index_file name d) (\<lambda>(_, entries) d.
       let start = partition_point (\<lambda>e. sint (ie_key e) < sint key) entries;
           fin = partition_point (\<lambda>e. sint (ie_key e) \<le> sint key) entries
       in if fin < start \<or> length entries < fin then (Inl IE_Panic, d)
          else (Inr (map ie_rid (take (fin - start) (drop start entries))), d))"

end
