(* ===== verification/Line_File.thy ===== *)
theory Line_File
  imports Disk_Spec
begin

section \<open>Files of lines: the interface of the text formats\<close>

text \<open>
  The two catalogs and the index files are written as a header with lines after it and read
  back line by line.  What their clients rely on is stated once here: a printer of lines that
  hold no separator, and a parser that inverts it on the values that can be stored.
\<close>

locale line_file =
  fixes header :: string
    and print_lines :: "'a \<Rightarrow> string list"
    and parse_lines :: "string list \<Rightarrow> 'e + 'b"
    and normal :: "'a \<Rightarrow> 'b"
    and storable :: "'a \<Rightarrow> bool"
  assumes header_plain: "plain_line header"
    and lines_plain: "storable x \<Longrightarrow> list_all plain_line (print_lines x)"
    and parse_print: "storable x \<Longrightarrow> parse_lines (print_lines x) = Inr (normal x)"
begin

definition file_text where
  "file_text x = render_lines (header # print_lines x)"

lemma text_is_str: "storable x \<Longrightarrow> is_str (file_text x)"
  unfolding file_text_def by (rule is_str_render) (simp add: header_plain lines_plain)

lemma lines_of_text: "storable x \<Longrightarrow> str_lines (file_text x) = header # print_lines x"
  unfolding file_text_def by (rule str_lines_render) (simp add: header_plain lines_plain)

lemma read_back:
  "disk_healthy d \<Longrightarrow> dk_files d name = Some (as_bytes (file_text x)) \<Longrightarrow> storable x \<Longrightarrow>
     fs_read_to_string name d = (Inr (file_text x), d)"
  by (rule fs_read_healthy) (simp_all add: text_is_str)

lemma parse_text: "storable x \<Longrightarrow> parse_lines (tl (str_lines (file_text x))) = Inr (normal x)"
  by (simp add: lines_of_text parse_print)

end

end
