(* ===== verification/Index_Spec.thy ===== *)
theory Index_Spec
  imports Index_Store Line_File
begin

section \<open>Indexes: what is stored is what is loaded\<close>

text \<open>
  An index file and the catalog of indexes are read back as they were written; an equality
  lookup by two binary searches gives the entries with the key.
\<close>

definition meta_ok :: "index_meta \<Rightarrow> bool" where
  "meta_ok meta \<longleftrightarrow> plain_field (im_name meta) \<and> plain_field (im_table meta) \<and> plain_field (im_column meta)"

definition index_catalog_ok :: "index_catalog \<Rightarrow> bool" where
  "index_catalog_ok m \<longleftrightarrow> bt_ok m \<and> (\<forall>(k, meta) \<in> set m. k = im_name meta \<and> meta_ok meta)"

lemma plain_literals [simp]:
  "plain_field ''index''" "plain_field ''int32''" "plain_field ''name''" "plain_field ''table''"
  "plain_field ''column''" "plain_field ''key_type''" "plain_field ''entry''"
  by (simp_all add: plain_field_def is_str_def utf8_width_def)

lemma index_header_plain: "plain_line INDEX_FILE_HEADER"
  by (simp add: plain_line_def INDEX_FILE_HEADER_def is_str_def utf8_width_def)

lemma tabbed_not_Nil [simp]: "f \<noteq> [] \<Longrightarrow> tabbed (f # fs) \<noteq> []"
  by (cases fs) simp_all

lemma key_type_eq: "(k :: index_key_type) = l"
  by (cases k; cases l) simp

lemma key_type_name_eq [simp]: "key_type_name k = ''int32''"
  by (cases k) (simp add: key_type_name_def)

subsection \<open>The catalog\<close>

lemma meta_line_plain: "meta_ok meta \<Longrightarrow> plain_line (meta_line meta)"
  unfolding meta_line_def by (rule plain_line_tabbed) (simp add: meta_ok_def)

lemma meta_line_parse: "meta_ok meta \<Longrightarrow> catalog_line_meta (str_split tab (meta_line meta)) = Some meta"
  unfolding meta_line_def by (subst str_split_tabbed) (simp_all add: meta_ok_def, cases meta, simp add: key_type_eq)

lemma meta_line_not_Nil: "meta_line meta \<noteq> []"
  unfolding meta_line_def by (rule tabbed_not_Nil) simp

lemma index_catalog_lines_values:
  "index_catalog_ok (m @ m') \<Longrightarrow> index_catalog_lines (map meta_line (bt_values m')) m = Inr (m @ m')"
proof (induction m' arbitrary: m)
  case (Cons e m')
  obtain k meta where e: "e = (k, meta)" by fastforce
  have ok: "bt_ok (m @ (k, meta) # m')" "k = im_name meta" "meta_ok meta"
    using Cons.prems e by (auto simp: index_catalog_ok_def)
  have less: "\<forall>k' \<in> fst ` set m. k' < k" using bt_ok_append [OF ok(1)] by blast
  then have "map_of m k = None" by (intro map_of_fresh) auto
  moreover have "bt_insert k meta m = m @ [(k, meta)]" using less by (rule bt_insert_last)
  moreover have "index_catalog_lines (map meta_line (bt_values m')) (m @ [(k, meta)]) = Inr (m @ (k, meta) # m')"
    using Cons.IH [of "m @ [(k, meta)]"] Cons.prems e by simp
  ultimately show ?case
    using e ok(2) by (simp add: bt_values_def meta_line_parse [OF ok(3)] meta_line_not_Nil)
qed (simp add: bt_values_def)

lemma index_catalog_values_ok: "index_catalog_ok m \<Longrightarrow> list_all meta_ok (bt_values m)"
  by (auto simp: index_catalog_ok_def bt_values_def list_all_iff)

interpretation index_cat: line_file INDEX_FILE_HEADER "\<lambda>m. map meta_line (bt_values m)"
    "\<lambda>ls. index_catalog_lines ls []" "\<lambda>m. m" index_catalog_ok
proof
  show "plain_line INDEX_FILE_HEADER" by (rule index_header_plain)
  show "list_all plain_line (map meta_line (bt_values m))" if "index_catalog_ok m" for m
    using index_catalog_values_ok [OF that] meta_line_plain by (auto simp: list_all_iff)
  show "index_catalog_lines (map meta_line (bt_values m)) [] = Inr m" if "index_catalog_ok m" for m
    using index_catalog_lines_values [of "[]" m] that by simp
qed

lemma index_catalog_save_ok [disk_calls]:
  "disk_healthy d \<Longrightarrow> index_catalog_save m d = (Inr (), dk_put index_catalog_path (as_bytes (index_cat.file_text m)) d)"
  by (simp add: index_catalog_save_def index_cat.file_text_def disk_calls)

lemma index_catalog_load_ok:
  assumes "disk_healthy d" and "dk_files d index_catalog_path = Some (as_bytes (index_cat.file_text m))" and "index_catalog_ok m"
  shows "index_catalog_load d = (Inr m, d)"
  using assms index_cat.parse_print [OF assms(3)]
  by (simp add: index_catalog_load_def path_exists_def index_cat.read_back index_cat.lines_of_text)

lemma index_catalog_ok_insert:
  "index_catalog_ok m \<Longrightarrow> meta_ok meta \<Longrightarrow> index_catalog_ok (bt_insert (im_name meta) meta m)"
proof -
  assume m: "index_catalog_ok m" "meta_ok meta"
  let ?m = "bt_insert (im_name meta) meta m"
  have ok: "bt_ok m" "bt_ok ?m" using m by (simp_all add: index_catalog_ok_def)
  have "k = im_name x \<and> meta_ok x" if "(k, x) \<in> set ?m" for k x
  proof -
    have "map_of ?m k = Some x" using that ok(2) by (simp add: map_of_in)
    then have "(k, x) = (im_name meta, meta) \<or> (k, x) \<in> set m"
      using ok(1) by (auto simp: map_of_in split: if_splits)
    then show ?thesis using m by (auto simp: index_catalog_ok_def)
  qed
  then show ?thesis using ok(2) by (auto simp: index_catalog_ok_def)
qed

lemma index_catalog_ok_remove: "index_catalog_ok m \<Longrightarrow> index_catalog_ok (bt_remove k m)"
  by (auto simp: index_catalog_ok_def) (auto simp: bt_remove_def)

lemma index_catalog_ok_Nil [simp]: "index_catalog_ok []"
  by (simp add: index_catalog_ok_def)

subsection \<open>Index files\<close>

lemma entry_line_plain: "plain_line (entry_line e)"
  unfolding entry_line_def by (rule plain_line_tabbed) (simp add: show_i32_plain show_u32_plain)

lemma entry_line_parse:
  "index_file_line (str_split tab (entry_line e)) st = Inr (st\<lparr>iv_entries := iv_entries st @ [e]\<rparr>)"
  unfolding entry_line_def
  by (subst str_split_tabbed) (simp_all add: show_i32_plain show_u32_plain parse_entry_def parse_show_i32 parse_show_u32)

lemma entry_line_not_Nil: "entry_line e \<noteq> []"
  unfolding entry_line_def by (rule tabbed_not_Nil) simp

lemma index_file_loop_entries:
  "index_file_loop (map entry_line es) st = Inr (st\<lparr>iv_entries := iv_entries st @ es\<rparr>)"
  by (induction es arbitrary: st) (simp_all add: entry_line_not_Nil entry_line_parse)

lemma index_file_loop_field:
  "plain_field key \<Longrightarrow> plain_field v \<Longrightarrow> key \<noteq> [] \<Longrightarrow>
     index_file_loop (tabbed [key, v] # ls) st = and_then (index_file_field key v st) (index_file_loop ls)"
  using str_split_tabbed [of "[key, v]"] by simp

definition parse_index_body :: "string list \<Rightarrow> index_error + index_meta \<times> index_entry list" where
  "parse_index_body ls = and_then (index_file_loop ls no_vars) index_file_result"

text \<open>The lines between the header and the entries.\<close>

definition index_fields :: "index_meta \<Rightarrow> string list" where
  "index_fields meta =
     [tabbed [''name'', im_name meta], tabbed [''table'', im_table meta], tabbed [''column'', im_column meta],
      tabbed [''key_type'', key_type_name (im_key_type meta)]]"

lemma index_file_lines_fields:
  "index_file_lines meta es = INDEX_FILE_HEADER # index_fields meta @ map entry_line (sort_key entry_order es)"
  by (simp only: index_file_lines_def index_fields_def append.simps)

lemma parse_index_fields:
  assumes "meta_ok meta"
  shows "parse_index_body (index_fields meta @ map entry_line es) = Inr (meta, es)"
proof -
  have plain: "plain_field (im_name meta)" "plain_field (im_table meta)" "plain_field (im_column meta)"
    using assms by (simp_all add: meta_ok_def)
  have "index_file_loop (index_fields meta @ map entry_line es) no_vars =
      Inr \<lparr>iv_name = Some (im_name meta), iv_table = Some (im_table meta), iv_column = Some (im_column meta),
           iv_key_type = Some IK_Int32, iv_entries = es\<rparr>"
    unfolding index_fields_def append.simps
    by (simp only: index_file_loop_field plain plain_literals key_type_name_eq list.distinct not_False_eq_True
        index_file_field_def)
      (simp only: index_file_loop_field plain plain_literals list.distinct not_False_eq_True index_file_field_def
        and_then.simps list.inject char.inject if_True if_False simp_thms index_file_loop_entries, simp add: no_vars_def)
  then show ?thesis by (cases meta) (simp add: parse_index_body_def index_file_result_def key_type_eq)
qed

lemma parse_index_file_lines:
  "meta_ok meta \<Longrightarrow> parse_index_body (tl (index_file_lines meta es)) = Inr (meta, sort_key entry_order es)"
  by (simp add: index_file_lines_fields parse_index_fields)

interpretation index_file: line_file INDEX_FILE_HEADER "\<lambda>(meta, es). tl (index_file_lines meta es)"
    parse_index_body "\<lambda>(meta, es). (meta, sort_key entry_order es)" "\<lambda>(meta, es). meta_ok meta"
proof
  show "plain_line INDEX_FILE_HEADER" by (rule index_header_plain)
  show "list_all plain_line (case x of (meta, es) \<Rightarrow> tl (index_file_lines meta es))"
    if "case x of (meta, es) \<Rightarrow> meta_ok meta" for x
  proof -
    obtain meta es where x: "x = (meta, es)" by fastforce
    have "plain_line (tabbed [key, v])" if "plain_field key" "plain_field v" for key v
      using that by (intro plain_line_tabbed) simp
    then show ?thesis
      using that x by (auto simp: index_file_lines_def meta_ok_def list_all_iff entry_line_plain simp del: tabbed.simps)
  qed
  show "parse_index_body (case x of (meta, es) \<Rightarrow> tl (index_file_lines meta es)) =
      Inr (case x of (meta, es) \<Rightarrow> (meta, sort_key entry_order es))"
    if "case x of (meta, es) \<Rightarrow> meta_ok meta" for x
    using that by (auto simp: parse_index_file_lines)
qed

lemma index_file_text: "render_lines (index_file_lines meta es) = index_file.file_text (meta, es)"
  unfolding index_file.file_text_def by (simp only: index_file_lines_def prod.case list.sel)

lemma write_index_file_ok [disk_calls]:
  "disk_healthy d \<Longrightarrow> write_index_file meta es d =
     (Inr (), dk_put (index_file_path (im_name meta)) (as_bytes (index_file.file_text (meta, es))) d)"
  by (simp add: write_index_file_def index_file_text disk_calls)

lemma load_index_file_ok [disk_calls]:
  assumes "disk_healthy d" and "dk_files d (index_file_path name) = Some (as_bytes (index_file.file_text (meta, es)))"
    and "meta_ok meta"
  shows "load_index_file name d = (Inr (meta, sort_key entry_order es), d)"
  using assms index_file.parse_print [of "(meta, es)"]
  by (simp add: load_index_file_def index_file.read_back index_file.lines_of_text parse_index_lines_def
      parse_index_body_def [symmetric])

subsection \<open>The binary search\<close>

lemma partition_search_bounds: "lo \<le> hi \<Longrightarrow> lo \<le> partition_search P xs lo hi \<and> partition_search P xs lo hi \<le> hi"
proof (induction P xs lo hi rule: partition_search.induct)
  case (1 P xs lo hi)
  let ?mid = "lo + (hi - lo) div 2"
  show ?case
  proof (cases "lo < hi")
    case True
    then have mid: "lo \<le> ?mid" "Suc ?mid \<le> hi" by linarith+
    show ?thesis
      using 1(1) [OF True refl] 1(2) [OF True refl] mid True
      by (cases "P (xs ! ?mid)") (simp_all add: partition_search.simps [of P xs lo hi] Let_def)
  next
    case False
    then have "partition_search P xs lo hi = lo" by (subst partition_search.simps) (rule if_not_P)
    then show ?thesis using 1(3) by simp
  qed
qed

lemma partition_search_mono:
  assumes imp: "\<And>x. P x \<Longrightarrow> Q x" and "lo \<le> hi"
  shows "partition_search P xs lo hi \<le> partition_search Q xs lo hi"
  using \<open>lo \<le> hi\<close>
proof (induction "hi - lo" arbitrary: lo hi rule: less_induct)
  case less
  let ?mid = "lo + (hi - lo) div 2"
  note unfold = partition_search.simps [of _ xs lo hi]
  show ?case
  proof (cases "lo < hi")
    case True
    then have mid: "lo \<le> ?mid" "Suc ?mid \<le> hi" by linarith+
    consider "P (xs ! ?mid)" "Q (xs ! ?mid)" | "\<not> P (xs ! ?mid)" "Q (xs ! ?mid)" | "\<not> P (xs ! ?mid)" "\<not> Q (xs ! ?mid)"
      using imp by blast
    then show ?thesis
    proof cases
      case 1
      then show ?thesis using less(1) [of hi "Suc ?mid"] True mid by (simp add: unfold Let_def)
    next
      case 2
      then show ?thesis
        using partition_search_bounds [of lo ?mid P xs] partition_search_bounds [of "Suc ?mid" hi Q xs] True mid
        by (simp add: unfold Let_def)
    next
      case 3
      then show ?thesis using less(1) [of ?mid lo] True mid by (simp add: unfold Let_def)
    qed
  next
    case False
    then show ?thesis by (simp add: unfold)
  qed
qed

lemma partition_search_spec:
  assumes "lo \<le> n" and "n \<le> hi" and "\<And>i. lo \<le> i \<Longrightarrow> i < hi \<Longrightarrow> P (xs ! i) \<longleftrightarrow> i < n"
  shows "partition_search P xs lo hi = n"
  using assms
proof (induction "hi - lo" arbitrary: lo hi rule: less_induct)
  case less
  let ?mid = "lo + (hi - lo) div 2"
  note unfold = partition_search.simps [of _ xs lo hi]
  show ?case
  proof (cases "lo < hi")
    case True
    then have mid: "lo \<le> ?mid" "?mid < hi" by linarith+
    show ?thesis
    proof (cases "P (xs ! ?mid)")
      case P: True
      then have "?mid < n" using less(4) [OF mid] by simp
      then have "partition_search P xs (Suc ?mid) hi = n"
        using less(1) [of hi "Suc ?mid"] less(2-4) mid by simp
      then show ?thesis using True P by (simp add: unfold Let_def)
    next
      case P: False
      then have "n \<le> ?mid" using less(4) [OF mid] by simp
      then have "partition_search P xs lo ?mid = n"
        using less(1) [of ?mid lo] less(2-4) mid by simp
      then show ?thesis using True P by (simp add: unfold Let_def)
    qed
  next
    case False
    then show ?thesis using less(2,3) by (simp add: unfold)
  qed
qed

text \<open>A sorted list is the elements of a downward closed predicate, then the others.\<close>

lemma sorted_split:
  assumes "sorted (map h xs)" and down: "\<And>x y. h x \<le> h y \<Longrightarrow> P y \<Longrightarrow> P x"
  shows "xs = filter P xs @ filter (\<lambda>x. \<not> P x) xs"
  using assms(1)
proof (induction xs)
  case (Cons x xs)
  show ?case
  proof (cases "P x")
    case True
    then show ?thesis using Cons by simp
  next
    case False
    then have "\<forall>y \<in> set xs. \<not> P y" using Cons.prems down by auto
    then show ?thesis using False by simp
  qed
qed simp

lemma partition_point_sorted:
  assumes sorted: "sorted (map h xs)" and down: "\<And>x y. h x \<le> h y \<Longrightarrow> P y \<Longrightarrow> P x"
  shows "partition_point P xs = length (filter P xs)"
proof -
  let ?A = "filter P xs" and ?B = "filter (\<lambda>x. \<not> P x) xs"
  have xs: "xs = ?A @ ?B" by (rule sorted_split [OF sorted down])
  have "P (xs ! i) \<longleftrightarrow> i < length ?A" if "i < length xs" for i
  proof (cases "i < length ?A")
    case True
    then have "xs ! i = ?A ! i" by (subst xs) (simp add: nth_append)
    then show ?thesis using True nth_mem [of i ?A] by simp
  next
    case False
    then have "xs ! i = ?B ! (i - length ?A)" by (subst xs) (simp add: nth_append)
    moreover have "i - length ?A < length ?B" using that False xs by (metis le_add_diff_inverse length_append nat_add_left_cancel_less not_less)
    ultimately show ?thesis using False nth_mem [of "i - length ?A" ?B] by simp
  qed
  then show ?thesis unfolding partition_point_def by (intro partition_search_spec) simp_all
qed

text \<open>Two bounds on a sorted list cut out the elements between them.\<close>

lemma partition_slice:
  assumes sorted: "sorted (map h xs)" and P: "\<And>x y. h x \<le> h y \<Longrightarrow> P y \<Longrightarrow> P x"
    and Q: "\<And>x y. h x \<le> h y \<Longrightarrow> Q y \<Longrightarrow> Q x" and imp: "\<And>x. P x \<Longrightarrow> Q x"
  shows "take (partition_point Q xs - partition_point P xs) (drop (partition_point P xs) xs) =
    filter (\<lambda>x. Q x \<and> \<not> P x) xs"
proof -
  let ?A = "filter P xs" and ?B = "filter (\<lambda>x. \<not> P x) xs"
  have xs: "xs = ?A @ ?B" by (rule sorted_split [OF sorted P])
  have "filter Q xs = filter Q ?A @ filter Q ?B" by (subst xs) (rule filter_append)
  also have "filter Q ?A = ?A" by (rule filter_True) (auto dest: imp)
  finally have Qs: "length (filter Q xs) - length ?A = length (filter Q ?B)" by simp
  have drop: "drop (length ?A) xs = ?B" by (subst xs) simp
  have "sorted (map h ?B)" by (rule sorted_filter [OF sorted])
  then have "?B = filter Q ?B @ filter (\<lambda>x. \<not> Q x) ?B" by (rule sorted_split [OF _ Q])
  then have "take (length (filter Q ?B)) ?B = filter Q ?B" by (metis append_eq_conv_conj)
  then show ?thesis
    using partition_point_sorted [OF sorted P] partition_point_sorted [OF sorted Q] Qs drop
    by (simp add: conj_commute)
qed

end
