(* ===== verification/Index_Properties.thy ===== *)
theory Index_Properties
  imports Index_Spec "HOL-Library.Multiset"
begin

section \<open>Indexes: the properties\<close>

text \<open>
  What a caller of the index store can rely on: exact lookups, no slice out of range, and a
  catalog that is loaded as it was saved.
\<close>

lemma entry_order_sorted: "sorted (map (\<lambda>e. sint (ie_key e)) (sort_key entry_order es))"
proof -
  have "sorted (map entry_order (sort_key entry_order es))" by (rule sorted_sort_key)
  then show ?thesis
    unfolding sorted_map by (rule sorted_wrt_mono_rel [rotated]) (auto simp: entry_order_def less_eq_prod_def)
qed

lemma lookup_in_range:
  fixes k :: i32 and es :: "index_entry list"
  shows
  "\<not> partition_point (\<lambda>e. sint (ie_key e) \<le> sint k) es < partition_point (\<lambda>e. sint (ie_key e) < sint k) es"
  "\<not> length es < partition_point (\<lambda>e. sint (ie_key e) \<le> sint k) es"
  unfolding partition_point_def not_less
  by (rule partition_search_mono) (auto intro: conjunct2 [OF partition_search_bounds])

lemma lookup_eq_loaded:
  assumes load: "load_index_file name d = (Inr (meta, es), d)" and sorted: "sorted (map (\<lambda>e. sint (ie_key e)) es)"
  shows "lookup_eq name k d = (Inr (map ie_rid (filter (\<lambda>e. ie_key e = k) es)), d)"
proof -
  let ?P = "\<lambda>e. sint (ie_key e) < sint k" and ?Q = "\<lambda>e. sint (ie_key e) \<le> sint k"
  have slice: "take (partition_point ?Q es - partition_point ?P es) (drop (partition_point ?P es) es) =
      filter (\<lambda>e. ?Q e \<and> \<not> ?P e) es"
    by (rule partition_slice [OF sorted]) auto
  have "(\<lambda>e. ?Q e \<and> \<not> ?P e) = (\<lambda>e. ie_key e = k)" by (auto simp: fun_eq_iff not_less signed_word_eqI)
  then have "filter (\<lambda>e. ?Q e \<and> \<not> ?P e) es = filter (\<lambda>e. ie_key e = k) es" by (rule arg_cong)
  then show ?thesis
    using load slice lookup_in_range [where es = es and k = k]
    by (simp only: lookup_eq_def Let_def and_then_st.simps prod.case simp_thms if_False)
qed

lemma lookup_eq_stored:
  assumes "disk_healthy d" and "dk_files d (index_file_path name) = Some (as_bytes (index_file.file_text (meta, es)))"
    and "meta_ok meta"
  shows "lookup_eq name k d = (Inr (map ie_rid (filter (\<lambda>e. ie_key e = k) (sort_key entry_order es))), d)"
  by (rule lookup_eq_loaded [OF load_index_file_ok [OF assms] entry_order_sorted])

text \<open>C10: An equality lookup is exact: after an index file has been written with any list of entries, the
  lookup of a key returns the record identifiers of exactly the entries with that key, in the order of
  pages and slots; the file is only read.\<close>

theorem index_lookup_exact:
  assumes "disk_healthy d" and "meta_ok meta"
  shows "\<exists>d'. write_index_file meta es d = (Inr (), d') \<and>
    (\<forall>k. \<exists>rids. lookup_eq (im_name meta) k d' = (Inr rids, d') \<and>
       mset rids = image_mset ie_rid (filter_mset (\<lambda>e. ie_key e = k) (mset es)) \<and>
       sorted (map (\<lambda>r. (unat (rid_page_id r), unat (rid_slot_id r))) rids))"
proof -
  let ?d = "dk_put (index_file_path (im_name meta)) (as_bytes (index_file.file_text (meta, es))) d"
  have "mset (map ie_rid (filter (\<lambda>e. ie_key e = k) (sort_key entry_order es))) =
      image_mset ie_rid (filter_mset (\<lambda>e. ie_key e = k) (mset es))" for k
    by (simp add: mset_filter)
  moreover have "sorted (map (\<lambda>r. (unat (rid_page_id r), unat (rid_slot_id r)))
      (map ie_rid (filter (\<lambda>e. ie_key e = k) (sort_key entry_order es))))" for k
  proof -
    have "sorted (map entry_order (filter (\<lambda>e. ie_key e = k) (sort_key entry_order es)))"
      by (rule sorted_filter [OF sorted_sort_key])
    then have "sorted_wrt (\<lambda>e e'. entry_order e \<le> entry_order e' \<and> ie_key e = k \<and> ie_key e' = k)
        (filter (\<lambda>e. ie_key e = k) (sort_key entry_order es))"
      unfolding sorted_map by (rule sorted_wrt_mono_rel [rotated]) simp
    then show ?thesis
      unfolding sorted_map sorted_wrt_map
      by (rule sorted_wrt_mono_rel [rotated]) (auto simp: entry_order_def less_eq_prod_def)
  qed
  ultimately show ?thesis
    using lookup_eq_stored [of ?d "im_name meta" meta es] assms by (auto simp: disk_calls)
qed

definition empty_disk :: disk where
  "empty_disk = \<lparr>dk_files = Map.empty, dk_faults = [], dk_handles = []\<rparr>"

lemma empty_disk_healthy [simp]: "disk_healthy empty_disk"
  by (simp add: empty_disk_def disk_healthy_def)

definition id_index :: index_meta where
  "id_index = \<lparr>im_name = ''by_id'', im_table = ''t'', im_column = ''id'', im_key_type = IK_Int32\<rparr>"

lemma id_index_ok: "meta_ok id_index"
  by (simp add: meta_ok_def id_index_def plain_field_def is_str_def utf8_width_def)

theorem index_lookup_exact_witness:
  "\<exists>d'. write_index_file id_index
       [\<lparr>ie_key = 5, ie_rid = \<lparr>rid_page_id = 1, rid_slot_id = 0\<rparr>\<rparr>,
        \<lparr>ie_key = -3, ie_rid = \<lparr>rid_page_id = 1, rid_slot_id = 1\<rparr>\<rparr>] empty_disk = (Inr (), d') \<and>
     fst (lookup_eq (im_name id_index) (-3) d') = Inr [\<lparr>rid_page_id = 1, rid_slot_id = 1\<rparr>]"
proof -
  let ?es = "[\<lparr>ie_key = 5, ie_rid = \<lparr>rid_page_id = 1, rid_slot_id = 0\<rparr>\<rparr>,
        \<lparr>ie_key = -3 :: i32, ie_rid = \<lparr>rid_page_id = 1, rid_slot_id = 1\<rparr>\<rparr>]"
  obtain d' rids where d: "write_index_file id_index ?es empty_disk = (Inr (), d')"
    "lookup_eq (im_name id_index) (-3) d' = (Inr rids, d')"
    "mset rids = image_mset ie_rid (filter_mset (\<lambda>e. ie_key e = -3) (mset ?es))"
    using index_lookup_exact [OF empty_disk_healthy id_index_ok, of ?es] by blast
  have "mset rids = {#\<lparr>rid_page_id = 1, rid_slot_id = 1\<rparr>#}" unfolding d(3) by simp
  then show ?thesis using d(1,2) by simp
qed




end
