(* ===== verification/Table_Schema.thy ===== *)
theory Table_Schema
  imports Index_Spec
begin

section \<open>Schemas, values and the layout of rows (\<open>src/table/mod.rs\<close>)\<close>

text \<open>
  The types of the table layer and the functions that work on a schema and the bytes of one
  record: compiling a schema to the offsets of its fields, and encoding and decoding a row.
  Slices out of range, which would panic, are the error \<open>TE_Panic\<close>.
\<close>

subsection \<open>Types and errors\<close>

datatype column_type = CT_Int32 | CT_Float32 | CT_Char nat

fun fixed_len :: "column_type \<Rightarrow> nat" where
  "fixed_len CT_Int32 = 4"
| "fixed_len CT_Float32 = 4"
| "fixed_len (CT_Char n) = n"

fun column_kind_name :: "column_type \<Rightarrow> string" where
  "column_kind_name CT_Int32 = ''Int32''"
| "column_kind_name CT_Float32 = ''Float32''"
| "column_kind_name (CT_Char n) = ''Char''"

record column_schema =
  cs_name :: string
  cs_type :: column_type

record table_schema =
  ts_name :: string
  ts_columns :: "column_schema list"

datatype val = V_Int32 i32 | V_Float32 f32 | V_Char string

fun value_kind_name :: "val \<Rightarrow> string" where
  "value_kind_name (V_Int32 n) = ''Int32''"
| "value_kind_name (V_Float32 x) = ''Float32''"
| "value_kind_name (V_Char s) = ''Char''"

text \<open>A row is the list of its values.\<close>

type_synonym row = "val list"

datatype expr =
    E_CmpValue string scan_comp_op val
  | E_CmpColumns string scan_comp_op string
  | E_And "expr list"
  | E_Or "expr list"
  | E_Not expr

datatype table_error =
    TE_Io io_error
  | TE_Index index_error
  | TE_Record record_error
  | InvalidName string
  | InvalidSchema string
  | DuplicateTable string
  | DuplicateColumn string
  | TableNotFound string
  | ColumnNotFound string
  | TE_ValueCountMismatch nat nat
  | TE_ValueTypeMismatch string string string
  | CatalogCorrupted string
  | TE_Panic \<comment> \<open>not a value of the source: a slice or index out of range, which panics\<close>

definition validate_identifier :: "string \<Rightarrow> table_error + unit" where
  "validate_identifier name = (if is_identifier name then Inr () else Inl (InvalidName name))"

subsection \<open>Layouts\<close>

record layout_column =
  lc_name :: string
  lc_type :: column_type
  lc_offset :: nat

record schema_layout =
  sl_columns :: "layout_column list"
  sl_record_size :: nat

fun find_column :: "string \<Rightarrow> layout_column list \<Rightarrow> layout_column option" where
  "find_column name [] = None"
| "find_column name (c # cs) = (if lc_name c = name then Some c else find_column name cs)"

fun position_column :: "string \<Rightarrow> layout_column list \<Rightarrow> nat option" where
  "position_column name [] = None"
| "position_column name (c # cs) =
     (if lc_name c = name then Some 0 else map_option Suc (position_column name cs))"

definition layout_column_of :: "schema_layout \<Rightarrow> string \<Rightarrow> table_error + layout_column" where
  "layout_column_of layout name = ok_or (ColumnNotFound name) (find_column name (sl_columns layout))"

definition layout_column_index :: "schema_layout \<Rightarrow> string \<Rightarrow> table_error + nat" where
  "layout_column_index layout name = ok_or (ColumnNotFound name) (position_column name (sl_columns layout))"

fun compile_columns :: "column_schema list \<Rightarrow> nat \<Rightarrow> (string, unit) btree \<Rightarrow>
    table_error + layout_column list \<times> nat" where
  "compile_columns [] offset seen = Inr ([], offset)"
| "compile_columns (c # cs) offset seen =
     and_then (validate_identifier (cs_name c)) (\<lambda>_.
       if bt_contains (cs_name c) seen then Inl (DuplicateColumn (cs_name c))
       else if fixed_len (cs_type c) = 0 then Inl (InvalidSchema ''column length must be greater than zero'')
       else
         and_then (ok_or (InvalidSchema ''record size overflow'')
                     (checked_add_usize offset (fixed_len (cs_type c)))) (\<lambda>offset'.
         and_then (compile_columns cs offset' (bt_insert (cs_name c) () seen)) (\<lambda>(cols, size).
           Inr (\<lparr>lc_name = cs_name c, lc_type = cs_type c, lc_offset = offset\<rparr> # cols, size))))"

definition compile_schema :: "table_schema \<Rightarrow> table_error + schema_layout" where
  "compile_schema schema =
     and_then (validate_identifier (ts_name schema)) (\<lambda>_.
       if ts_columns schema = [] then Inl (InvalidSchema ''tables must contain at least one column'')
       else and_then (compile_columns (ts_columns schema) 0 []) (\<lambda>(cols, size).
         Inr \<lparr>sl_columns = cols, sl_record_size = size\<rparr>))"

subsection \<open>Rows\<close>

definition copy_into :: "nat \<Rightarrow> u8 list \<Rightarrow> u8 list \<Rightarrow> table_error + u8 list" where
  "copy_into start bytes target =
     (if start + length bytes \<le> length target then Inr (put_at start bytes target) else Inl TE_Panic)"

definition slice_of :: "nat \<Rightarrow> nat \<Rightarrow> u8 list \<Rightarrow> table_error + u8 list" where
  "slice_of start len bytes =
     (if start + len \<le> length bytes then Inr (bytes_at start len bytes) else Inl TE_Panic)"

fun encode_value :: "u8 list \<Rightarrow> layout_column \<Rightarrow> column_type \<Rightarrow> val \<Rightarrow> table_error + u8 list" where
  "encode_value target col CT_Int32 (V_Int32 n) = copy_into (lc_offset col) (to_le_bytes n) target"
| "encode_value target col CT_Float32 (V_Float32 x) = copy_into (lc_offset col) (to_le_bytes x) target"
| "encode_value target col (CT_Char len) (V_Char text) =
     (let encoded = as_bytes text in
      if len < length encoded then Inl (InvalidSchema ''char values must not exceed the declared length'')
      else and_then (copy_into (lc_offset col) (replicate len 0) target) (copy_into (lc_offset col) encoded))"
| "encode_value target col expected actual =
     Inl (TE_ValueTypeMismatch (lc_name col) (column_kind_name expected) (value_kind_name actual))"

fun encode_values :: "layout_column list \<Rightarrow> val list \<Rightarrow> u8 list \<Rightarrow> table_error + u8 list" where
  "encode_values (c # cs) (v # vs) bytes = and_then (encode_value bytes c (lc_type c) v) (encode_values cs vs)"
| "encode_values _ _ bytes = Inr bytes"

definition encode_row :: "schema_layout \<Rightarrow> val list \<Rightarrow> table_error + u8 list" where
  "encode_row layout values =
     (if length values \<noteq> length (sl_columns layout)
      then Inl (TE_ValueCountMismatch (length (sl_columns layout)) (length values))
      else encode_values (sl_columns layout) values (replicate (sl_record_size layout) 0))"

text \<open>The bytes up to the last one that is not zero.\<close>

definition trim_zeros :: "u8 list \<Rightarrow> u8 list" where
  "trim_zeros bs = rev (dropWhile (\<lambda>b. b = 0) (rev bs))"

definition decode_value :: "u8 list \<Rightarrow> layout_column \<Rightarrow> table_error + val" where
  "decode_value bytes col =
     (case lc_type col of
        CT_Int32 \<Rightarrow> and_then (slice_of (lc_offset col) 4 bytes) (\<lambda>bs. Inr (V_Int32 (from_le_bytes bs)))
      | CT_Float32 \<Rightarrow> and_then (slice_of (lc_offset col) 4 bytes) (\<lambda>bs. Inr (V_Float32 (from_le_bytes bs)))
      | CT_Char len \<Rightarrow> and_then (slice_of (lc_offset col) len bytes) (\<lambda>raw.
          and_then (ok_or (CatalogCorrupted ''stored char data is not valid UTF-8'') (from_utf8 (trim_zeros raw))) (\<lambda>text.
            Inr (V_Char text))))"

fun decode_values :: "u8 list \<Rightarrow> layout_column list \<Rightarrow> table_error + row" where
  "decode_values bytes [] = Inr []"
| "decode_values bytes (c # cs) =
     and_then (decode_value bytes c) (\<lambda>v. and_then (decode_values bytes cs) (\<lambda>vs. Inr (v # vs)))"

definition decode_record :: "schema_layout \<Rightarrow> db_record \<Rightarrow> table_error + row" where
  "decode_record layout record = decode_values (rec_data record) (sl_columns layout)"

subsection \<open>Filter expressions\<close>

definition scan_field :: "layout_column \<Rightarrow> scan_field_ref" where
  "scan_field col =
     (case lc_type col of
        CT_Int32 \<Rightarrow> sf_int32 (lc_offset col)
      | CT_Float32 \<Rightarrow> sf_float32 (lc_offset col)
      | CT_Char len \<Rightarrow> sf_bytes (lc_offset col) len)"

fun mismatch_message :: "val \<Rightarrow> string" where
  "mismatch_message (V_Int32 n) = ''int32 expression does not match the selected column type''"
| "mismatch_message (V_Float32 x) = ''float32 expression does not match the selected column type''"
| "mismatch_message (V_Char s) = ''char expression does not match the selected column type''"

fun scan_value_of :: "layout_column \<Rightarrow> column_type \<Rightarrow> val \<Rightarrow> table_error + scan_value" where
  "scan_value_of col CT_Int32 (V_Int32 n) = Inr (SV_Int32 n)"
| "scan_value_of col CT_Float32 (V_Float32 x) = Inr (SV_Float32 x)"
| "scan_value_of col (CT_Char len) (V_Char text) =
     (let encoded = as_bytes text in
      if len < length encoded then Inl (TE_ValueTypeMismatch (lc_name col) ''Char'' ''Char'')
      else Inr (SV_Bytes (put_at 0 encoded (replicate len 0))))"
| "scan_value_of col _ v = Inl (InvalidSchema (mismatch_message v))"

fun compile_expr :: "schema_layout \<Rightarrow> expr \<Rightarrow> table_error + logic_filter"
  and compile_exprs :: "schema_layout \<Rightarrow> expr list \<Rightarrow> table_error + logic_filter list" where
  "compile_expr layout (E_CmpValue column op v) =
     and_then (layout_column_of layout column) (\<lambda>col.
     and_then (scan_value_of col (lc_type col) v) (\<lambda>sv.
       Inr (LF_Clause \<lparr>pc_lhs = scan_field col, pc_op = op, pc_rhs = Rhs_Value sv\<rparr>)))"
| "compile_expr layout (E_CmpColumns lhs op rhs) =
     and_then (layout_column_of layout lhs) (\<lambda>l.
     and_then (layout_column_of layout rhs) (\<lambda>r.
       Inr (LF_Clause \<lparr>pc_lhs = scan_field l, pc_op = op, pc_rhs = Rhs_Field (scan_field r)\<rparr>)))"
| "compile_expr layout (E_And es) =
     and_then (compile_exprs layout es) (\<lambda>fs. map_err TE_Record (logic_and fs))"
| "compile_expr layout (E_Or es) =
     and_then (compile_exprs layout es) (\<lambda>fs. map_err TE_Record (logic_or fs))"
| "compile_expr layout (E_Not e) = and_then (compile_expr layout e) (\<lambda>f. Inr (LF_Not f))"
| "compile_exprs layout [] = Inr []"
| "compile_exprs layout (e # es) =
     and_then (compile_expr layout e) (\<lambda>f. and_then (compile_exprs layout es) (\<lambda>fs. Inr (f # fs)))"

end
