(* ===== verification/Table_Row.thy ===== *)
theory Table_Row
  imports Table_Schema
begin

section \<open>Layouts tile the record; rows survive storage\<close>

text \<open>
  When a schema compiles, and to which layout; the bytes of a row are those of its values, one
  field after the other, and they are decoded to the row that was stored.
\<close>

subsection \<open>When a schema compiles, and to what\<close>

definition total_len :: "column_schema list \<Rightarrow> nat" where
  "total_len cs = sum_list (map (\<lambda>c. fixed_len (cs_type c)) cs)"

fun layout_columns :: "nat \<Rightarrow> column_schema list \<Rightarrow> layout_column list" where
  "layout_columns off [] = []"
| "layout_columns off (c # cs) =
     \<lparr>lc_name = cs_name c, lc_type = cs_type c, lc_offset = off\<rparr> # layout_columns (off + fixed_len (cs_type c)) cs"

definition layout_of :: "table_schema \<Rightarrow> schema_layout" where
  "layout_of s = \<lparr>sl_columns = layout_columns 0 (ts_columns s), sl_record_size = total_len (ts_columns s)\<rparr>"

definition columns_ok :: "column_schema list \<Rightarrow> bool" where
  "columns_ok cs \<longleftrightarrow> list_all (\<lambda>c. is_identifier (cs_name c) \<and> 0 < fixed_len (cs_type c)) cs \<and>
     distinct (map cs_name cs)"

definition schema_ok :: "table_schema \<Rightarrow> bool" where
  "schema_ok s \<longleftrightarrow> is_identifier (ts_name s) \<and> ts_columns s \<noteq> [] \<and> columns_ok (ts_columns s) \<and>
     total_len (ts_columns s) < 2 ^ 64"

lemma total_len_simps [simp]:
  "total_len [] = 0" "total_len (c # cs) = fixed_len (cs_type c) + total_len cs"
  by (simp_all add: total_len_def)

lemma layout_columns_simps [simp]:
  "length (layout_columns off cs) = length cs" "map lc_name (layout_columns off cs) = map cs_name cs"
  "map lc_type (layout_columns off cs) = map cs_type cs"
  by (induction cs arbitrary: off) simp_all

lemma compile_columns_iff:
  "bt_ok seen \<Longrightarrow>
     compile_columns cs off seen = Inr (cols, sz) \<longleftrightarrow>
       columns_ok cs \<and> (\<forall>c \<in> set cs. map_of seen (cs_name c) = None) \<and>
       (cs \<noteq> [] \<longrightarrow> off + total_len cs < 2 ^ 64) \<and>
       cols = layout_columns off cs \<and> sz = off + total_len cs"
proof (induction cs arbitrary: off seen cols)
  case Nil
  then show ?case by (auto simp: columns_ok_def)
next
  case (Cons c cs)
  let ?len = "fixed_len (cs_type c)" and ?seen = "bt_insert (cs_name c) () seen"
  have fresh: "(\<forall>x \<in> set cs. map_of ?seen (cs_name x) = None) \<longleftrightarrow>
      cs_name c \<notin> cs_name ` set cs \<and> (\<forall>x \<in> set cs. map_of seen (cs_name x) = None)"
    unfolding map_of_insert [OF Cons.prems] by (auto simp: image_iff)
  have "compile_columns (c # cs) off seen = Inr (cols, sz) \<longleftrightarrow>
      is_identifier (cs_name c) \<and> map_of seen (cs_name c) = None \<and> 0 < ?len \<and> off + ?len < 2 ^ 64 \<and>
      (\<exists>cols'. compile_columns cs (off + ?len) ?seen = Inr (cols', sz) \<and>
         cols = \<lparr>lc_name = cs_name c, lc_type = cs_type c, lc_offset = off\<rparr> # cols')"
    by (cases "map_of seen (cs_name c)") (auto simp: validate_identifier_def checked_add_usize_def)
  also have "\<dots> \<longleftrightarrow> columns_ok (c # cs) \<and> (\<forall>x \<in> set (c # cs). map_of seen (cs_name x) = None) \<and>
      off + total_len (c # cs) < 2 ^ 64 \<and>
      cols = layout_columns off (c # cs) \<and> sz = off + total_len (c # cs)"
    using Cons.IH [of ?seen "off + ?len"] Cons.prems fresh
    by (cases cs) (auto simp: columns_ok_def add.assoc)
  finally show ?case by simp
qed

lemma compile_schema_iff: "compile_schema s = Inr layout \<longleftrightarrow> schema_ok s \<and> layout = layout_of s"
  by (auto simp: compile_schema_def validate_identifier_def schema_ok_def layout_of_def compile_columns_iff)

lemma compile_schema_ok: "schema_ok s \<Longrightarrow> compile_schema s = Inr (layout_of s)"
  by (simp add: compile_schema_iff)

text \<open>The fields of a layout follow each other without gaps.\<close>

lemma layout_columns_offset:
  "i < length cs \<Longrightarrow> lc_offset (layout_columns off cs ! i) = off + total_len (take i cs)"
  by (induction cs arbitrary: off i) (auto simp: nth_Cons split: nat.split)

lemma layout_columns_nth:
  "i < length cs \<Longrightarrow> layout_columns off cs ! i =
     \<lparr>lc_name = cs_name (cs ! i), lc_type = cs_type (cs ! i), lc_offset = off + total_len (take i cs)\<rparr>"
  by (induction cs arbitrary: off i) (auto simp: nth_Cons split: nat.split)

lemma total_len_append [simp]: "total_len (as @ bs) = total_len as + total_len bs"
  by (simp add: total_len_def)

lemma total_len_take_le: "i < length cs \<Longrightarrow> total_len (take i cs) + fixed_len (cs_type (cs ! i)) \<le> total_len cs"
proof -
  assume i: "i < length cs"
  have "total_len cs = total_len (take i cs @ cs ! i # drop (Suc i) cs)" using i by (simp add: id_take_nth_drop [symmetric])
  then show ?thesis by simp
qed

lemma total_len_take_mono: "i \<le> j \<Longrightarrow> total_len (take i cs) \<le> total_len (take j cs)"
proof -
  assume "i \<le> j"
  then have "take j cs = take i cs @ take (j - i) (drop i cs)" by (metis le_add_diff_inverse take_add)
  then show ?thesis by simp
qed

subsection \<open>Values of a type and their bytes\<close>

fun value_typed :: "column_type \<Rightarrow> val \<Rightarrow> bool" where
  "value_typed CT_Int32 (V_Int32 n) = True"
| "value_typed CT_Float32 (V_Float32 x) = True"
| "value_typed (CT_Char n) (V_Char s) = True"
| "value_typed _ _ = False"

fun value_fits :: "column_type \<Rightarrow> val \<Rightarrow> bool" where
  "value_fits CT_Int32 (V_Int32 n) = True"
| "value_fits CT_Float32 (V_Float32 x) = True"
| "value_fits (CT_Char n) (V_Char s) \<longleftrightarrow> length s \<le> n \<and> is_str s"
| "value_fits _ _ = False"

definition row_fits :: "column_schema list \<Rightarrow> row \<Rightarrow> bool" where
  "row_fits cs vs \<longleftrightarrow> list_all2 (\<lambda>c. value_fits (cs_type c)) cs vs"

text \<open>What is read back of a value: text loses its trailing NUL characters.\<close>

definition strip_nuls :: "string \<Rightarrow> string" where
  "strip_nuls s = rev (dropWhile (\<lambda>c. c = CHR 0x00) (rev s))"

fun stored_value :: "val \<Rightarrow> val" where
  "stored_value (V_Char s) = V_Char (strip_nuls s)"
| "stored_value v = v"

fun value_bytes :: "column_type \<Rightarrow> val \<Rightarrow> u8 list" where
  "value_bytes CT_Int32 (V_Int32 n) = to_le_bytes n"
| "value_bytes CT_Float32 (V_Float32 x) = to_le_bytes x"
| "value_bytes (CT_Char n) (V_Char s) = as_bytes s @ replicate (n - length s) 0"
| "value_bytes _ _ = []"

definition row_bytes :: "column_schema list \<Rightarrow> row \<Rightarrow> u8 list" where
  "row_bytes cs vs = concat (map2 (\<lambda>c. value_bytes (cs_type c)) cs vs)"

lemma value_fits_typed: "value_fits ct v \<Longrightarrow> value_typed ct v"
  by (cases ct; cases v) simp_all

lemma length_value_bytes: "value_fits ct v \<Longrightarrow> length (value_bytes ct v) = fixed_len ct"
  by (cases ct; cases v) simp_all

lemma row_bytes_simps [simp]:
  "row_bytes [] [] = []" "row_bytes (c # cs) (v # vs) = value_bytes (cs_type c) v @ row_bytes cs vs"
  by (simp_all add: row_bytes_def)

lemma row_fits_simps [simp]:
  "row_fits [] vs \<longleftrightarrow> vs = []" "row_fits (c # cs) (v # vs) \<longleftrightarrow> value_fits (cs_type c) v \<and> row_fits cs vs"
  "\<not> row_fits (c # cs) []"
  by (simp_all add: row_fits_def)

lemma row_fits_length: "row_fits cs vs \<Longrightarrow> length vs = length cs"
  by (auto simp: row_fits_def dest: list_all2_lengthD)

lemma row_fits_nth: "row_fits cs vs \<Longrightarrow> i < length cs \<Longrightarrow> value_fits (cs_type (cs ! i)) (vs ! i)"
  by (auto simp: row_fits_def dest: list_all2_nthD)

lemma length_row_bytes: "row_fits cs vs \<Longrightarrow> length (row_bytes cs vs) = total_len cs"
proof (induction cs arbitrary: vs)
  case (Cons c cs)
  then show ?case by (cases vs) (auto simp: length_value_bytes)
qed simp

lemma put_at_middle:
  "off = length pre \<Longrightarrow> length ys = length mid \<Longrightarrow> put_at off ys (pre @ mid @ post) = pre @ ys @ post"
  by (simp add: put_at_def)

lemma encode_value_ok:
  assumes "value_fits ct v" and "lc_offset col = length pre"
  shows "encode_value (pre @ replicate (fixed_len ct) 0 @ post) col ct v = Inr (pre @ value_bytes ct v @ post)"
proof (cases ct)
  case (CT_Char n)
  then obtain s where v: "v = V_Char s" "length s \<le> n" using assms(1) by (cases v) simp_all
  have zeros: "replicate n (0 :: u8) = replicate (length s) 0 @ replicate (n - length s) 0"
    using v(2) by (simp add: replicate_add [symmetric])
  have "put_at (length pre) (as_bytes s) (pre @ replicate n 0 @ post) =
      pre @ as_bytes s @ (replicate (n - length s) 0 @ post)"
    unfolding zeros append_assoc by (rule put_at_middle) simp_all
  moreover have "put_at (length pre) (replicate n 0) (pre @ replicate n 0 @ post) = pre @ replicate n 0 @ post"
    by (rule put_at_middle) simp_all
  ultimately show ?thesis using CT_Char v assms(2) by (simp add: copy_into_def)
qed (use assms in \<open>cases v; simp add: copy_into_def put_at_middle\<close>)+

lemma encode_values_ok:
  "row_fits cs vs \<Longrightarrow> encode_values (layout_columns (length pre) cs) vs (pre @ replicate (total_len cs) 0) =
     Inr (pre @ row_bytes cs vs)"
proof (induction cs arbitrary: vs pre)
  case (Cons c cs)
  then obtain v ws where vs: "vs = v # ws" "value_fits (cs_type c) v" "row_fits cs ws" by (cases vs) simp_all
  let ?b = "value_bytes (cs_type c) v"
  have "encode_values (layout_columns (length (pre @ ?b)) cs) ws ((pre @ ?b) @ replicate (total_len cs) 0) =
      Inr ((pre @ ?b) @ row_bytes cs ws)"
    by (rule Cons.IH [OF vs(3)])
  then show ?case
    using vs encode_value_ok [OF vs(2), of _ pre "replicate (total_len cs) 0"] length_value_bytes [OF vs(2)]
    by (simp add: replicate_add)
qed simp

lemma encode_row_ok:
  "row_fits (ts_columns s) vs \<Longrightarrow> encode_row (layout_of s) vs = Inr (row_bytes (ts_columns s) vs)"
  using encode_values_ok [of "ts_columns s" vs "[]"] row_fits_length [of "ts_columns s" vs]
  by (simp add: encode_row_def layout_of_def)

lemma row_field_bytes:
  "row_fits cs vs \<Longrightarrow> i < length cs \<Longrightarrow>
     bytes_at (total_len (take i cs)) (fixed_len (cs_type (cs ! i))) (row_bytes cs vs) =
       value_bytes (cs_type (cs ! i)) (vs ! i)"
proof (induction cs arbitrary: vs i)
  case (Cons c cs)
  then obtain v ws where vs: "vs = v # ws" "value_fits (cs_type c) v" "row_fits cs ws" by (cases vs) simp_all
  note len = length_value_bytes [OF vs(2)]
  show ?case
  proof (cases i)
    case 0
    then show ?thesis using vs len by (simp add: bytes_at_def)
  next
    case (Suc j)
    then have "bytes_at (total_len (take j cs)) (fixed_len (cs_type (cs ! j))) (row_bytes cs ws) =
        value_bytes (cs_type (cs ! j)) (ws ! j)"
      using Cons vs by simp
    then show ?thesis using Suc vs len by (simp add: bytes_at_def)
  qed
qed simp

subsection \<open>Decoding\<close>

lemma of_char_zero [simp]: "(of_char c :: u8) = 0 \<longleftrightarrow> c = CHR 0x00"
proof
  assume "(of_char c :: u8) = 0"
  then have "(of_char c :: nat) = 0" by (metis of_char_byte unsigned_0)
  then have "of_char c = (of_char (CHR 0x00) :: nat)" by simp
  then show "c = CHR 0x00" by (simp only: of_char_eq_iff)
qed simp

lemma trim_zeros_pad: "trim_zeros (as_bytes s @ replicate k 0) = as_bytes (strip_nuls s)"
proof -
  have zeros: "dropWhile (\<lambda>b. b = 0) (replicate k 0 @ xs) = dropWhile (\<lambda>b. b = 0) xs" for xs :: "u8 list"
    by (induction k) simp_all
  have "dropWhile (\<lambda>b. b = 0) (map of_char t :: u8 list) = map of_char (dropWhile (\<lambda>c. c = CHR 0x00) t)" for t
    by (induction t) simp_all
  then show ?thesis
    by (simp add: trim_zeros_def strip_nuls_def as_bytes_def zeros rev_map)
qed

lemma strip_nuls_snoc [simp]:
  "strip_nuls [] = []" "strip_nuls (s @ [c]) = (if c = CHR 0x00 then strip_nuls s else s @ [c])"
  by (simp_all add: strip_nuls_def)

lemma strip_nuls_append: "\<exists>k. s = strip_nuls s @ replicate k (CHR 0x00)"
proof (induction s rule: rev_induct)
  case (snoc c s)
  then obtain k where "s = strip_nuls s @ replicate k (CHR 0x00)" by blast
  then show ?case
    by (cases "c = CHR 0x00") (auto intro: exI [of _ "Suc k"] exI [of _ 0] simp: replicate_append_same [symmetric])
qed simp

lemma is_str_strip_nuls: "is_str s \<Longrightarrow> is_str (strip_nuls s)"
proof -
  assume s: "is_str s"
  obtain k where k: "s = strip_nuls s @ replicate k (CHR 0x00)" using strip_nuls_append by blast
  show "is_str (strip_nuls s)"
  proof (cases k)
    case (Suc j)
    then have "as_bytes s = as_bytes (strip_nuls s) @ 0 # as_bytes (replicate j (CHR 0x00))"
      by (subst k) (simp add: as_bytes_def)
    then show ?thesis using s utf8_valid_prefix [of 0] by (simp add: is_str_def)
  qed (use s k in simp)
qed

lemma value_fits_stored: "value_fits ct v \<Longrightarrow> value_fits ct (stored_value v)"
proof (cases v)
  case (V_Char s)
  obtain k where "s = strip_nuls s @ replicate k (CHR 0x00)" using strip_nuls_append by blast
  then have "length (strip_nuls s) \<le> length s" by (metis le_add1 length_append)
  then show "value_fits ct v \<Longrightarrow> value_fits ct (stored_value v)"
    using V_Char is_str_strip_nuls by (cases ct) auto
qed simp_all

lemma decode_value_ok:
  assumes "value_fits (lc_type col) v" and "lc_offset col + fixed_len (lc_type col) \<le> length bytes"
    and "bytes_at (lc_offset col) (fixed_len (lc_type col)) bytes = value_bytes (lc_type col) v"
  shows "decode_value bytes col = Inr (stored_value v)"
proof (cases "lc_type col")
  case (CT_Char n)
  then obtain s where v: "v = V_Char s" "length s \<le> n" "is_str s" using assms(1) by (cases v) simp_all
  have "from_utf8 (trim_zeros (as_bytes s @ replicate (n - length s) 0)) = Some (strip_nuls s)"
    unfolding trim_zeros_pad by (rule from_utf8_as_bytes [OF is_str_strip_nuls [OF v(3)]])
  then show ?thesis using CT_Char v assms(2,3) by (simp add: decode_value_def slice_of_def)
qed (use assms in \<open>cases v; simp add: decode_value_def slice_of_def\<close>)+

lemma decode_values_ok:
  assumes "list_all2 (\<lambda>col v. decode_value bytes col = Inr v) cols vs"
  shows "decode_values bytes cols = Inr vs"
  using assms by (induction cols vs rule: list_all2_induct) simp_all

lemma decode_row_bytes:
  assumes fits: "row_fits cs vs"
  shows "decode_values (row_bytes cs vs) (layout_columns 0 cs) = Inr (map stored_value vs)"
proof (rule decode_values_ok, rule list_all2_all_nthI)
  show "length (layout_columns 0 cs) = length (map stored_value vs)" using row_fits_length [OF fits] by simp
  fix i
  assume "i < length (layout_columns 0 cs)"
  then have i: "i < length cs" "i < length vs" using row_fits_length [OF fits] by simp_all
  show "decode_value (row_bytes cs vs) (layout_columns 0 cs ! i) = Inr (map stored_value vs ! i)"
    unfolding nth_map [OF i(2)]
    by (rule decode_value_ok)
      (use i row_fits_nth [OF fits] row_field_bytes [OF fits] total_len_take_le length_row_bytes [OF fits]
       in \<open>simp_all add: layout_columns_nth\<close>)
qed

end
