(* ===== verification/Table_Expr.thy ===== *)
theory Table_Expr
  imports Table_Row
begin

section \<open>Filter expressions: typing and meaning\<close>

text \<open>
  An expression is compiled to a logic filter on the bytes of a record.  Its meaning is
  stated on rows: the comparison of the values in the named columns, as they are read back.
\<close>

subsection \<open>Comparing values and comparing their padded bytes\<close>

fun val_order :: "val \<Rightarrow> val \<Rightarrow> ordering" where
  "val_order (V_Int32 a) (V_Int32 b) = cmp_i32 a b"
| "val_order (V_Float32 a) (V_Float32 b) = total_cmp a b"
| "val_order (V_Char a) (V_Char b) = cmp a b"
| "val_order _ _ = Equal"

fun value_accepts :: "column_type \<Rightarrow> val \<Rightarrow> bool" where
  "value_accepts (CT_Char n) (V_Char s) \<longleftrightarrow> length s \<le> n"
| "value_accepts ct v \<longleftrightarrow> value_typed ct v"

fun scan_value_in :: "column_type \<Rightarrow> val \<Rightarrow> scan_value" where
  "scan_value_in ct (V_Int32 n) = SV_Int32 n"
| "scan_value_in ct (V_Float32 x) = SV_Float32 x"
| "scan_value_in ct (V_Char s) = SV_Bytes (value_bytes ct (V_Char s))"

lemma value_fits_accepts: "value_fits ct v \<Longrightarrow> value_accepts ct v"
  by (cases ct; cases v) simp_all

lemma strip_nuls_Cons:
  "strip_nuls (c # s) = (if strip_nuls s = [] \<and> c = CHR 0x00 then [] else c # strip_nuls s)"
proof (cases "\<forall>x \<in> set s. x = CHR 0x00")
  case True
  then have "dropWhile (\<lambda>c. c = CHR 0x00) (rev s) = []" by simp
  moreover have "dropWhile (\<lambda>c. c = CHR 0x00) (rev s @ [c]) = dropWhile (\<lambda>c. c = CHR 0x00) [c]"
    using True by (intro dropWhile_append2) simp
  ultimately show ?thesis by (simp add: strip_nuls_def)
next
  case False
  then obtain x where "x \<in> set (rev s)" "x \<noteq> CHR 0x00" by auto
  then show ?thesis by (auto simp: strip_nuls_def dropWhile_append1)
qed

lemma strip_nuls_idem [simp]: "strip_nuls (strip_nuls s) = strip_nuls s"
  by (induction s) (auto simp: strip_nuls_Cons)

lemma length_strip_nuls: "length (strip_nuls s) \<le> length s"
  by (induction s) (auto simp: strip_nuls_Cons)

definition padded :: "nat \<Rightarrow> string \<Rightarrow> u8 list" where
  "padded n s = as_bytes s @ replicate (n - length s) 0"

lemma padded_strip: "length s \<le> n \<Longrightarrow> padded n (strip_nuls s) = padded n s"
proof (induction s arbitrary: n)
  case (Cons c s)
  then obtain m where m: "n = Suc m" "length s \<le> m" by (cases n) simp_all
  have "strip_nuls s = [] \<Longrightarrow> padded m s = replicate m 0" using Cons.IH [OF m(2)] by (simp add: padded_def)
  then show ?case using Cons.IH [OF m(2)] m(1) by (auto simp: strip_nuls_Cons padded_def)
qed simp

lemma of_char_less: "(of_char c :: u8) < of_char d \<longleftrightarrow> c < d"
  by (simp add: word_less_nat_alt of_char_byte less_char_def)

lemma of_char_u8_eq: "(of_char c :: u8) = of_char d \<longleftrightarrow> c = d"
  by (metis of_char_byte of_char_eq_iff)

lemma zeros_less_padded:
  "strip_nuls t = t \<Longrightarrow> t \<noteq> [] \<Longrightarrow> length t \<le> n \<Longrightarrow> replicate n 0 < padded n t"
proof (induction t arbitrary: n)
  case (Cons c t)
  then obtain m where m: "n = Suc m" "length t \<le> m" by (cases n) simp_all
  show ?case
  proof (cases "c = CHR 0x00")
    case True
    then have "strip_nuls t = t" "t \<noteq> []" using Cons.prems(1) by (auto simp: strip_nuls_Cons split: if_splits)
    then show ?thesis using Cons.IH [OF _ _ m(2)] m(1) True by (simp add: padded_def)
  next
    case False
    then have "(0 :: u8) < of_char c" by (simp add: word_gt_0)
    then show ?thesis using m(1) by (simp add: padded_def)
  qed
qed simp

lemma padded_less:
  "strip_nuls s = s \<Longrightarrow> strip_nuls t = t \<Longrightarrow> length s \<le> n \<Longrightarrow> length t \<le> n \<Longrightarrow> padded n s < padded n t \<longleftrightarrow> s < t"
proof (induction s arbitrary: t n)
  case Nil
  then show ?case using zeros_less_padded [of t n] by (cases t) (simp_all add: padded_def)
next
  case (Cons c s)
  then obtain m where m: "n = Suc m" "length s \<le> m" by (cases n) simp_all
  show ?case
  proof (cases t)
    case Nil
    have "replicate n 0 < padded n (c # s)" using Cons.prems by (intro zeros_less_padded) simp_all
    then have "\<not> padded n (c # s) < replicate n 0" by (rule less_not_sym)
    then show ?thesis using Nil by (simp add: padded_def)
  next
    case t: (Cons d t')
    have st: "strip_nuls s = s" "strip_nuls t' = t'"
      using Cons.prems(1,2) t by (auto simp: strip_nuls_Cons split: if_splits)
    have "padded m s < padded m t' \<longleftrightarrow> s < t'"
      using Cons.IH [OF st m(2)] Cons.prems(4) t m(1) by simp
    then show ?thesis using t m(1) of_char_less of_char_u8_eq by (simp add: padded_def)
  qed
qed

lemma cmp_mono: "(\<And>x y. x \<in> A \<Longrightarrow> y \<in> A \<Longrightarrow> h x < h y \<longleftrightarrow> x < y) \<Longrightarrow> a \<in> A \<Longrightarrow> b \<in> A \<Longrightarrow> cmp (h a) (h b) = cmp a b"
  by (auto simp: cmp_def) (metis antisym_conv3)+

lemma cmp_padded:
  assumes "length s \<le> n" and "length t \<le> n"
  shows "cmp (padded n s) (padded n t) = cmp (strip_nuls s) (strip_nuls t)"
proof -
  let ?A = "{s. strip_nuls s = s \<and> length s \<le> n}"
  have "cmp (padded n (strip_nuls s)) (padded n (strip_nuls t)) = cmp (strip_nuls s) (strip_nuls t)"
    by (rule cmp_mono [where A = ?A])
      (use padded_less assms le_trans [OF length_strip_nuls assms(1)] le_trans [OF length_strip_nuls assms(2)]
       in simp_all)
  then show ?thesis using padded_strip assms by simp
qed

lemma value_ordering_in:
  "value_accepts ct v \<Longrightarrow> value_accepts ct w \<Longrightarrow>
     value_ordering (scan_value_in ct v) (scan_value_in ct w) = val_order (stored_value v) (stored_value w)"
  by (cases ct; cases v; cases w) (simp_all add: cmp_bytes_def cmp_padded [unfolded padded_def])

lemma scan_value_of_ok: "value_accepts (lc_type col) v \<Longrightarrow> scan_value_of col (lc_type col) v = Inr (scan_value_in (lc_type col) v)"
  by (cases "lc_type col"; cases v) (simp_all add: put_at_def)

lemma scan_value_of_error: "\<not> value_accepts (lc_type col) v \<Longrightarrow> \<exists>e. scan_value_of col (lc_type col) v = Inl e"
  by (cases "lc_type col"; cases v) simp_all

subsection \<open>Columns by name\<close>

fun column_index :: "string \<Rightarrow> column_schema list \<Rightarrow> nat option" where
  "column_index name [] = None"
| "column_index name (c # cs) = (if cs_name c = name then Some 0 else map_option Suc (column_index name cs))"

lemma position_column_layout: "position_column name (layout_columns off cs) = column_index name cs"
  by (induction cs arbitrary: off) simp_all

lemma find_column_layout:
  "find_column name (layout_columns off cs) = map_option (\<lambda>i. layout_columns off cs ! i) (column_index name cs)"
  by (induction cs arbitrary: off) (simp_all add: option.map_comp o_def)

lemma column_index_less: "column_index name cs = Some i \<Longrightarrow> i < length cs \<and> cs_name (cs ! i) = name"
  by (induction cs arbitrary: i) (auto split: if_splits)

lemma column_find: "find (\<lambda>item. cs_name item = column) cs = map_option (nth cs) (column_index column cs)"
  by (induction cs) (auto simp: option.map_comp o_def)

lemma column_index_None: "column_index name cs = None \<longleftrightarrow> name \<notin> cs_name ` set cs"
  by (induction cs) auto

lemma column_index_nth: "distinct (map cs_name cs) \<Longrightarrow> i < length cs \<Longrightarrow> column_index (cs_name (cs ! i)) cs = Some i"
  by (induction cs arbitrary: i) (auto simp: nth_Cons split: nat.split)

definition field_of :: "column_schema list \<Rightarrow> nat \<Rightarrow> layout_column" where
  "field_of cs i = layout_columns 0 cs ! i"

lemma field_of_simps [simp]:
  "i < length cs \<Longrightarrow> lc_type (field_of cs i) = cs_type (cs ! i)"
  "i < length cs \<Longrightarrow> lc_offset (field_of cs i) = total_len (take i cs)"
  "i < length cs \<Longrightarrow> lc_name (field_of cs i) = cs_name (cs ! i)"
  by (simp_all add: field_of_def layout_columns_nth)

lemma layout_column_of_layout:
  "layout_column_of (layout_of s) name =
     (case column_index name (ts_columns s) of
        None \<Rightarrow> Inl (ColumnNotFound name) | Some i \<Rightarrow> Inr (field_of (ts_columns s) i))"
  by (simp add: layout_column_of_def layout_of_def find_column_layout field_of_def split: option.split)

subsection \<open>Typing and meaning\<close>

definition column_type_of :: "column_schema list \<Rightarrow> string \<Rightarrow> column_type option" where
  "column_type_of cs name = map_option (\<lambda>i. cs_type (cs ! i)) (column_index name cs)"

fun expr_typed :: "column_schema list \<Rightarrow> expr \<Rightarrow> bool" where
  "expr_typed cs (E_CmpValue c op v) \<longleftrightarrow>
     (case column_type_of cs c of None \<Rightarrow> False | Some ct \<Rightarrow> value_accepts ct v)"
| "expr_typed cs (E_CmpColumns l op r) \<longleftrightarrow>
     (case (column_type_of cs l, column_type_of cs r) of
        (Some a, Some b) \<Rightarrow> op = Op_NoOp \<or> a = b | _ \<Rightarrow> False)"
| "expr_typed cs (E_And es) \<longleftrightarrow> es \<noteq> [] \<and> list_all (expr_typed cs) es"
| "expr_typed cs (E_Or es) \<longleftrightarrow> es \<noteq> [] \<and> list_all (expr_typed cs) es"
| "expr_typed cs (E_Not e) \<longleftrightarrow> expr_typed cs e"

definition column_value :: "column_schema list \<Rightarrow> row \<Rightarrow> string \<Rightarrow> val" where
  "column_value cs vs name = vs ! the (column_index name cs)"

fun expr_holds :: "column_schema list \<Rightarrow> expr \<Rightarrow> row \<Rightarrow> bool" where
  "expr_holds cs (E_CmpValue c op v) vs =
     compare_ordering (val_order (column_value cs vs c) (stored_value v)) op"
| "expr_holds cs (E_CmpColumns l op r) vs =
     compare_ordering (val_order (column_value cs vs l) (column_value cs vs r)) op"
| "expr_holds cs (E_And es) vs = list_all (\<lambda>e. expr_holds cs e vs) es"
| "expr_holds cs (E_Or es) vs = list_ex (\<lambda>e. expr_holds cs e vs) es"
| "expr_holds cs (E_Not e) vs = (\<not> expr_holds cs e vs)"

subsection \<open>The compiled filter\<close>

lemma field_value_column:
  assumes fits: "row_fits cs vs" and i: "i < length cs"
  shows "field_value (scan_field (field_of cs i)) (row_bytes cs vs) = scan_value_in (cs_type (cs ! i)) (vs ! i)"
  using row_field_bytes [OF fits i] row_fits_nth [OF fits i] i
  by (cases "cs_type (cs ! i)"; cases "vs ! i")
    (simp_all add: field_value_def scan_field_def sf_int32_def sf_float32_def sf_bytes_def)

lemma schema_ok_column:
  "schema_ok s \<Longrightarrow> i < length (ts_columns s) \<Longrightarrow>
     0 < fixed_len (cs_type (ts_columns s ! i)) \<and> total_len (ts_columns s) < 18446744073709551616"
  by (auto simp: schema_ok_def columns_ok_def list_all_length)

lemma validate_scan_field:
  assumes "schema_ok s" and i: "i < length (ts_columns s)"
  shows "validate_field (scan_field (field_of (ts_columns s) i)) (total_len (ts_columns s)) = Inr ()"
  using total_len_take_le [OF i] i schema_ok_column [OF assms]
  by (cases "cs_type (ts_columns s ! i)")
    (auto simp: validate_field_def scan_field_def sf_int32_def sf_float32_def sf_bytes_def checked_add_usize_def)

lemma scan_field_type:
  "sf_type (scan_field c) = sf_type (scan_field c') \<and> sf_length (scan_field c) = sf_length (scan_field c') \<longleftrightarrow>
     lc_type c = lc_type c'"
  by (cases "lc_type c"; cases "lc_type c'")
    (simp_all add: scan_field_def sf_int32_def sf_float32_def sf_bytes_def)

lemma validate_scan_value:
  "value_accepts (lc_type c) v \<Longrightarrow> validate_value_against_field (scan_field c) (scan_value_in (lc_type c) v) = Inr ()"
  by (cases "lc_type c"; cases v)
    (simp_all add: validate_value_against_field_def scan_field_def sf_int32_def sf_float32_def sf_bytes_def)

definition accepted :: "table_schema \<Rightarrow> expr \<Rightarrow> bool" where
  "accepted s e \<longleftrightarrow> (\<exists>flt. compile_expr (layout_of s) e = Inr flt \<and>
     logic_validate flt (total_len (ts_columns s)) = Inr ())"

lemma accepted_value:
  assumes "schema_ok s"
  shows "accepted s (E_CmpValue c op v) \<longleftrightarrow> expr_typed (ts_columns s) (E_CmpValue c op v)"
proof (cases "column_index c (ts_columns s)")
  case None
  then show ?thesis by (simp add: accepted_def layout_column_of_layout column_type_of_def)
next
  case (Some i)
  let ?f = "field_of (ts_columns s) i"
  have i: "i < length (ts_columns s)" using column_index_less [OF Some] by blast
  show ?thesis
  proof (cases "value_accepts (lc_type ?f) v")
    case True
    then show ?thesis
      using Some i scan_value_of_ok [OF True] validate_scan_value [OF True] validate_scan_field [OF assms i]
      by (simp add: accepted_def layout_column_of_layout column_type_of_def clause_validate_def)
  next
    case False
    then show ?thesis
      using Some i scan_value_of_error [OF False]
      by (auto simp: accepted_def layout_column_of_layout column_type_of_def)
  qed
qed

lemma accepted_columns:
  assumes "schema_ok s"
  shows "accepted s (E_CmpColumns l op r) \<longleftrightarrow> expr_typed (ts_columns s) (E_CmpColumns l op r)"
proof (cases "column_index l (ts_columns s)"; cases "column_index r (ts_columns s)")
  fix i j
  assume ij: "column_index l (ts_columns s) = Some i" "column_index r (ts_columns s) = Some j"
  then have lt: "i < length (ts_columns s)" "j < length (ts_columns s)" using column_index_less by blast+
  show ?thesis
    using ij lt validate_scan_field [OF assms lt(1)] validate_scan_field [OF assms lt(2)]
      scan_field_type [of "field_of (ts_columns s) i" "field_of (ts_columns s) j"]
    by (auto simp: accepted_def layout_column_of_layout column_type_of_def clause_validate_def)
qed (simp_all add: accepted_def layout_column_of_layout column_type_of_def)

lemma compile_exprs_iff:
  "compile_exprs layout es = Inr fs \<longleftrightarrow> list_all2 (\<lambda>e f. compile_expr layout e = Inr f) es fs"
  by (induction es arbitrary: fs) (auto simp: list_all2_Cons1)

lemma logic_validate_all_iff: "logic_validate_all fs n = Inr () \<longleftrightarrow> list_all (\<lambda>f. logic_validate f n = Inr ()) fs"
  by (induction fs) auto

lemma accepted_list:
  "(\<exists>fs. compile_exprs (layout_of s) es = Inr fs \<and> logic_validate_all fs (total_len (ts_columns s)) = Inr () \<and> (fs \<noteq> [])) \<longleftrightarrow>
     es \<noteq> [] \<and> list_all (accepted s) es"
proof (cases "es = []")
  case False
  let ?P = "\<lambda>e f. compile_expr (layout_of s) e = Inr f" and ?Q = "\<lambda>f. logic_validate f (total_len (ts_columns s)) = Inr ()"
  have main: "(\<exists>fs. list_all2 ?P xs fs \<and> list_all ?Q fs) \<longleftrightarrow> list_all (accepted s) xs" for xs
  proof (induction xs)
    case (Cons x xs)
    then show ?case by (auto simp: list_all2_Cons1 accepted_def) fastforce
  qed simp
  have "fs \<noteq> []" if "list_all2 ?P es fs" for fs using that False by auto
  then have "(\<exists>fs. list_all2 ?P es fs \<and> list_all ?Q fs \<and> fs \<noteq> []) \<longleftrightarrow> (\<exists>fs. list_all2 ?P es fs \<and> list_all ?Q fs)"
    by blast
  then show ?thesis unfolding compile_exprs_iff logic_validate_all_iff main using False by simp
qed (simp add: compile_exprs_iff)

lemma logic_node_validate:
  "fs \<noteq> [] \<Longrightarrow> logic_validate (LF_And fs) n = logic_validate_all fs n"
  "fs \<noteq> [] \<Longrightarrow> logic_validate (LF_Or fs) n = logic_validate_all fs n"
  by simp_all

lemma accepted_and: "accepted s (E_And es) \<longleftrightarrow> es \<noteq> [] \<and> list_all (accepted s) es"
  unfolding accepted_list [symmetric] accepted_def by (auto simp: logic_and_def split: if_splits)

lemma accepted_or: "accepted s (E_Or es) \<longleftrightarrow> es \<noteq> [] \<and> list_all (accepted s) es"
  unfolding accepted_list [symmetric] accepted_def by (auto simp: logic_or_def split: if_splits)

lemma accepted_typed:
  assumes "schema_ok s"
  shows "accepted s e \<longleftrightarrow> expr_typed (ts_columns s) e"
proof (induction e)
  case (E_Not e)
  have "accepted s (E_Not e) \<longleftrightarrow> accepted s e" by (auto simp: accepted_def)
  then show ?case using E_Not by simp
next
  case (E_And es)
  then have "list_all (accepted s) es \<longleftrightarrow> list_all (expr_typed (ts_columns s)) es" by (auto simp: list_all_iff)
  then show ?case by (simp add: accepted_and)
next
  case (E_Or es)
  then have "list_all (accepted s) es \<longleftrightarrow> list_all (expr_typed (ts_columns s)) es" by (auto simp: list_all_iff)
  then show ?case by (simp add: accepted_or)
qed (simp_all only: accepted_value [OF assms] accepted_columns [OF assms])

lemma compare_noop [simp]: "compare_ordering ord Op_NoOp"
  by (cases ord) simp_all

lemma column_value_map:
  "column_index c cs = Some i \<Longrightarrow> length vs = length cs \<Longrightarrow> column_value cs (map stored_value vs) c = stored_value (vs ! i)"
  using column_index_less [of c cs i] by (simp add: column_value_def)

lemma compiled_holds_columns:
  assumes fits: "row_fits (ts_columns s) vs" and typed: "expr_typed (ts_columns s) (E_CmpColumns l op r)"
  shows "compile_expr (layout_of s) (E_CmpColumns l op r) = Inr flt \<Longrightarrow>
    logic_holds flt (row_bytes (ts_columns s) vs) = expr_holds (ts_columns s) (E_CmpColumns l op r) (map stored_value vs)"
proof -
  assume flt: "compile_expr (layout_of s) (E_CmpColumns l op r) = Inr flt"
  obtain i j where ij: "column_index l (ts_columns s) = Some i" "column_index r (ts_columns s) = Some j"
    using typed by (auto simp: column_type_of_def split: option.splits)
  then have lt: "i < length (ts_columns s)" "j < length (ts_columns s)" using column_index_less by blast+
  note fv = field_value_column [OF fits lt(1)] field_value_column [OF fits lt(2)]
  note acc = value_fits_accepts [OF row_fits_nth [OF fits lt(1)]] value_fits_accepts [OF row_fits_nth [OF fits lt(2)]]
  show ?thesis
  proof (cases "op = Op_NoOp")
    case True
    then show ?thesis using flt ij by (auto simp: layout_column_of_layout clause_holds_def)
  next
    case False
    then have eq: "cs_type (ts_columns s ! j) = cs_type (ts_columns s ! i)"
      using typed ij by (simp add: column_type_of_def)
    show ?thesis
      using flt ij fv value_ordering_in [OF acc(1) acc(2) [unfolded eq]] eq row_fits_length [OF fits]
      by (auto simp: layout_column_of_layout clause_holds_def column_value_map)
  qed
qed

lemma compiled_holds:
  assumes fits: "row_fits (ts_columns s) vs"
  shows "compile_expr (layout_of s) e = Inr flt \<Longrightarrow> expr_typed (ts_columns s) e \<Longrightarrow>
    logic_holds flt (row_bytes (ts_columns s) vs) = expr_holds (ts_columns s) e (map stored_value vs)"
proof (induction e arbitrary: flt)
  case (E_CmpValue c op v)
  obtain i where i: "column_index c (ts_columns s) = Some i" "value_accepts (cs_type (ts_columns s ! i)) v"
    using E_CmpValue(2) by (auto simp: column_type_of_def split: option.splits)
  then have lt: "i < length (ts_columns s)" using column_index_less by blast
  then have acc: "value_accepts (lc_type (field_of (ts_columns s) i)) v" using i by simp
  note acc' = value_fits_accepts [OF row_fits_nth [OF fits lt]]
  show ?case
    using E_CmpValue(1) i lt scan_value_of_ok [OF acc] field_value_column [OF fits lt] value_ordering_in [OF acc' i(2)]
      row_fits_length [OF fits]
    by (auto simp: layout_column_of_layout clause_holds_def column_value_map)
next
  case (E_CmpColumns l op r)
  then show ?case using compiled_holds_columns [OF fits] by blast
next
  case (E_And es)
  then obtain fs where fs: "compile_exprs (layout_of s) es = Inr fs" "flt = LF_And fs"
    by (auto simp: logic_and_def split: if_splits)
  have "list_all2 (\<lambda>e f. logic_holds f (row_bytes (ts_columns s) vs) = expr_holds (ts_columns s) e (map stored_value vs)) es fs"
    using fs(1) E_And.IH E_And.prems(2)
    by (auto simp: compile_exprs_iff list_all_iff elim!: list.rel_mono_strong)
  then show ?case unfolding fs(2) by (induction es fs rule: list_all2_induct) simp_all
next
  case (E_Or es)
  then obtain fs where fs: "compile_exprs (layout_of s) es = Inr fs" "flt = LF_Or fs"
    by (auto simp: logic_or_def split: if_splits)
  have "list_all2 (\<lambda>e f. logic_holds f (row_bytes (ts_columns s) vs) = expr_holds (ts_columns s) e (map stored_value vs)) es fs"
    using fs(1) E_Or.IH E_Or.prems(2)
    by (auto simp: compile_exprs_iff list_all_iff elim!: list.rel_mono_strong)
  then show ?case unfolding fs(2) by (induction es fs rule: list_all2_induct) simp_all
next
  case (E_Not e)
  then show ?case by auto
qed

end
