(* ===== verification/Table_Catalog.thy ===== *)
theory Table_Catalog
  imports Table_Expr
begin

section \<open>The catalog of tables (\<open>src/table/mod.rs\<close>)\<close>

text \<open>
  The schemas by table name, kept in memory and written whole to \<open>catalog.txt\<close> after every
  change.  A table is a line with its name, a line per column and an end line.
\<close>

definition CATALOG_FILE_NAME :: string where
  "CATALOG_FILE_NAME = ''catalog.txt''"

definition TABLE_FILE_EXTENSION :: string where
  "TABLE_FILE_EXTENSION = ''tbl''"

definition CATALOG_HEADER :: string where
  "CATALOG_HEADER = ''rs-redbase-catalog-v1''"

definition table_path :: "string \<Rightarrow> string" where
  "table_path name = name @ ''.'' @ TABLE_FILE_EXTENSION"

definition catalog_path :: string where
  "catalog_path = CATALOG_FILE_NAME"

type_synonym catalog = "(string, table_schema) btree"

text \<open>The loop's variables: the tables so far, and the table whose end line is to come.\<close>

type_synonym catalog_vars = "catalog \<times> table_schema option"

definition push_column :: "string \<Rightarrow> (table_error + column_type) \<Rightarrow> catalog_vars \<Rightarrow> table_error + catalog_vars" where
  "push_column name ty st =
     and_then (ok_or (CatalogCorrupted ''column outside table'') (snd st)) (\<lambda>t.
     and_then ty (\<lambda>ty.
       Inr (fst st, Some (t\<lparr>ts_columns := ts_columns t @ [\<lparr>cs_name = name, cs_type = ty\<rparr>]\<rparr>))))"

abbreviation bad_catalog_line :: "table_error + catalog_vars" where
  "bad_catalog_line \<equiv> Inl (CatalogCorrupted ''unrecognized catalog line'')"

fun catalog_line :: "string list \<Rightarrow> catalog_vars \<Rightarrow> table_error + catalog_vars" where
  "catalog_line [kind] st =
     (if kind = ''end''
      then and_then (ok_or (CatalogCorrupted ''end without table'') (snd st)) (\<lambda>t.
           and_then (compile_schema t) (\<lambda>_. Inr (bt_insert (ts_name t) t (fst st), None)))
      else bad_catalog_line)"
| "catalog_line [kind, name] st =
     (if kind = ''table''
      then if snd st \<noteq> None then Inl (CatalogCorrupted ''nested table declaration'')
           else Inr (fst st, Some \<lparr>ts_name = name, ts_columns = []\<rparr>)
      else bad_catalog_line)"
| "catalog_line [kind, name, ty] st =
     (if kind = ''column'' \<and> ty = ''int32'' then push_column name (Inr CT_Int32) st
      else if kind = ''column'' \<and> ty = ''float32'' then push_column name (Inr CT_Float32) st
      else bad_catalog_line)"
| "catalog_line [kind, name, ty, len] st =
     (if kind = ''column'' \<and> ty = ''char''
      then push_column name (case parse_unsigned (2 ^ 64) len of
             None \<Rightarrow> Inl (CatalogCorrupted ''invalid char length'') | Some n \<Rightarrow> Inr (CT_Char n)) st
      else bad_catalog_line)"
| "catalog_line _ st = bad_catalog_line"

fun catalog_loop :: "string list \<Rightarrow> catalog_vars \<Rightarrow> table_error + catalog_vars" where
  "catalog_loop [] st = Inr st"
| "catalog_loop (l # ls) st =
     (if l = [] then catalog_loop ls st else and_then (catalog_line (str_split tab l) st) (catalog_loop ls))"

definition parse_catalog :: "string list \<Rightarrow> table_error + catalog" where
  "parse_catalog ls =
     and_then (catalog_loop ls ([], None)) (\<lambda>(tables, current).
       if current \<noteq> None then Inl (CatalogCorrupted ''unterminated table entry'') else Inr tables)"

definition catalog_load :: "disk \<Rightarrow> (table_error + catalog) \<times> disk" where
  "catalog_load d =
     (if \<not> path_exists catalog_path d then (Inr [], d)
      else (case fs_read_to_string catalog_path d of
        (Inl e, d) \<Rightarrow> (Inl (TE_Io e), d)
      | (Inr content, d) \<Rightarrow>
          (case str_lines content of
             [] \<Rightarrow> Inr []
           | h # ls \<Rightarrow> if h = CATALOG_HEADER then parse_catalog ls
                       else Inl (CatalogCorrupted ''unexpected catalog header''), d)))"

definition column_line :: "column_schema \<Rightarrow> string" where
  "column_line c =
     (case cs_type c of
        CT_Int32 \<Rightarrow> tabbed [''column'', cs_name c, ''int32'']
      | CT_Float32 \<Rightarrow> tabbed [''column'', cs_name c, ''float32'']
      | CT_Char len \<Rightarrow> tabbed [''column'', cs_name c, ''char'', show_nat len])"

definition table_lines :: "table_schema \<Rightarrow> string list" where
  "table_lines t = tabbed [''table'', ts_name t] # map column_line (ts_columns t) @ [''end'']"

definition catalog_file_lines :: "catalog \<Rightarrow> string list" where
  "catalog_file_lines m = concat (map table_lines (bt_values m))"

definition catalog_save :: "catalog \<Rightarrow> disk \<Rightarrow> (table_error + unit) \<times> disk" where
  "catalog_save m d =
     (case fs_write catalog_path (render_lines (CATALOG_HEADER # catalog_file_lines m)) d of
        (r, d) \<Rightarrow> (map_err TE_Io r, d))"

subsection \<open>What the catalog tells of a table\<close>

record relation_meta =
  rm_name :: string
  rm_record_size :: nat
  rm_column_count :: nat

record attribute_meta =
  am_relation_name :: string
  am_column_name :: string
  am_ordinal :: nat
  am_offset :: nat
  am_length :: nat
  am_column_type :: column_type

definition list_tables :: "catalog \<Rightarrow> string list" where
  "list_tables m = bt_keys m"

definition get_table_schema :: "string \<Rightarrow> catalog \<Rightarrow> table_error + table_schema" where
  "get_table_schema name m = ok_or (TableNotFound name) (map_of m name)"

definition get_relation :: "string \<Rightarrow> catalog \<Rightarrow> table_error + relation_meta" where
  "get_relation name m =
     and_then (ok_or (TableNotFound name) (map_of m name)) (\<lambda>schema.
     and_then (compile_schema schema) (\<lambda>layout.
       Inr \<lparr>rm_name = ts_name schema, rm_record_size = sl_record_size layout,
            rm_column_count = length (ts_columns schema)\<rparr>))"

definition attribute_of :: "string \<Rightarrow> nat \<times> layout_column \<Rightarrow> attribute_meta" where
  "attribute_of relation oc =
     (case oc of (ordinal, c) \<Rightarrow>
       \<lparr>am_relation_name = relation, am_column_name = lc_name c, am_ordinal = ordinal, am_offset = lc_offset c,
        am_length = fixed_len (lc_type c), am_column_type = lc_type c\<rparr>)"

definition get_attributes :: "string \<Rightarrow> catalog \<Rightarrow> table_error + attribute_meta list" where
  "get_attributes name m =
     and_then (ok_or (TableNotFound name) (map_of m name)) (\<lambda>schema.
     and_then (compile_schema schema) (\<lambda>layout.
       Inr (map (attribute_of (ts_name schema)) (enumerate 0 (sl_columns layout)))))"

subsection \<open>Saving and loading\<close>

definition catalog_ok :: "catalog \<Rightarrow> bool" where
  "catalog_ok m \<longleftrightarrow> bt_ok m \<and> (\<forall>(k, t) \<in> set m. k = ts_name t \<and> schema_ok t)"

lemma catalog_literals [simp]:
  "plain_field ''end''" "plain_field ''float32''" "plain_field ''char''"
  by (simp_all add: plain_field_def is_str_def utf8_width_def)

lemma column_facts:
  assumes "schema_ok t" and "c \<in> set (ts_columns t)"
  shows "plain_field (cs_name c)" and "cs_type c = CT_Char n \<Longrightarrow> n < 2 ^ 64"
proof -
  obtain i where i: "i < length (ts_columns t)" "c = ts_columns t ! i" using assms(2) by (auto simp: in_set_conv_nth)
  show "plain_field (cs_name c)"
    using assms by (auto simp: schema_ok_def columns_ok_def list_all_iff intro: identifier_plain)
  show "cs_type c = CT_Char n \<Longrightarrow> n < 2 ^ 64"
    using total_len_take_le [OF i(1)] schema_ok_column [OF assms(1) i(1)] i(2) by simp
qed

lemma column_line_plain: "plain_field (cs_name c) \<Longrightarrow> plain_line (column_line c)"
  unfolding column_line_def
  by (cases "cs_type c") (simp_all del: tabbed.simps, (intro plain_line_tabbed, simp add: show_nat_plain)+)

lemma column_line_parse:
  assumes "plain_field (cs_name c)" and "\<And>n. cs_type c = CT_Char n \<Longrightarrow> n < 2 ^ 64"
  shows "catalog_line (str_split tab (column_line c)) (m, Some t) = Inr (m, Some (t\<lparr>ts_columns := ts_columns t @ [c]\<rparr>))"
proof (cases "cs_type c")
  case CT_Int32
  then show ?thesis
    using assms(1) str_split_tabbed [of "[''column'', cs_name c, ''int32'']"]
    by (cases c) (simp add: column_line_def push_column_def del: tabbed.simps)
next
  case CT_Float32
  then show ?thesis
    using assms(1) str_split_tabbed [of "[''column'', cs_name c, ''float32'']"]
    by (cases c) (simp add: column_line_def push_column_def del: tabbed.simps)
next
  case (CT_Char n)
  then have "parse_unsigned (2 ^ 64) (show_nat n) = Some n" using assms(2) by (intro parse_unsigned_show)
  then show ?thesis
    using CT_Char assms(1) str_split_tabbed [of "[''column'', cs_name c, ''char'', show_nat n]"] show_nat_plain [of n]
    by (cases c) (simp add: column_line_def push_column_def del: tabbed.simps)
qed

lemma column_line_not_Nil: "column_line c \<noteq> []"
  by (cases "cs_type c") (simp_all add: column_line_def)

lemma catalog_loop_columns:
  "(\<forall>c \<in> set cs. plain_field (cs_name c) \<and> (\<forall>n. cs_type c = CT_Char n \<longrightarrow> n < 2 ^ 64)) \<Longrightarrow>
     catalog_loop (map column_line cs @ ls) (m, Some t) = catalog_loop ls (m, Some (t\<lparr>ts_columns := ts_columns t @ cs\<rparr>))"
proof (induction cs arbitrary: t)
  case (Cons c cs)
  have "catalog_line (str_split tab (column_line c)) (m, Some t) = Inr (m, Some (t\<lparr>ts_columns := ts_columns t @ [c]\<rparr>))"
    using Cons.prems by (intro column_line_parse) auto
  then show ?case using Cons by (simp add: column_line_not_Nil)
qed simp

lemma catalog_loop_table:
  assumes "schema_ok t"
  shows "catalog_loop (table_lines t @ ls) (m, None) = catalog_loop ls (bt_insert (ts_name t) t m, None)"
proof -
  have name: "plain_field (ts_name t)" using assms by (simp add: schema_ok_def identifier_plain)
  then have split: "str_split tab (tabbed [''table'', ts_name t]) = [''table'', ts_name t]"
    by (intro str_split_tabbed) simp_all
  have fin: "str_split tab ''end'' = [''end'']" by (rule str_split_plain) simp
  have cols: "\<forall>c \<in> set (ts_columns t). plain_field (cs_name c) \<and> (\<forall>n. cs_type c = CT_Char n \<longrightarrow> n < 2 ^ 64)"
    using column_facts [OF assms] by blast
  have "tabbed [''table'', ts_name t] \<noteq> []" by simp
  then have "catalog_loop (table_lines t @ ls) (m, None) =
      catalog_loop (map column_line (ts_columns t) @ ''end'' # ls) (m, Some \<lparr>ts_name = ts_name t, ts_columns = []\<rparr>)"
    using split by (simp add: table_lines_def del: tabbed.simps str_split.simps)
  also have "\<dots> = catalog_loop (''end'' # ls) (m, Some t)"
    using catalog_loop_columns [OF cols, of "''end'' # ls" m "\<lparr>ts_name = ts_name t, ts_columns = []\<rparr>"] by (cases t) simp
  also have "\<dots> = catalog_loop ls (bt_insert (ts_name t) t m, None)"
    using fin compile_schema_ok [OF assms] by (simp del: str_split.simps)
  finally show ?thesis .
qed

lemma catalog_loop_values:
  "catalog_ok (m @ m') \<Longrightarrow> catalog_loop (catalog_file_lines m') (m, None) = Inr (m @ m', None)"
proof (induction m' arbitrary: m)
  case (Cons e m')
  obtain k t where e: "e = (k, t)" by fastforce
  have ok: "bt_ok (m @ (k, t) # m')" "k = ts_name t" "schema_ok t"
    using Cons.prems e by (auto simp: catalog_ok_def)
  have "bt_insert k t m = m @ [(k, t)]" using bt_ok_append [OF ok(1)] by (intro bt_insert_last) blast
  moreover have "catalog_loop (catalog_file_lines m') (m @ [(k, t)], None) = Inr (m @ (k, t) # m', None)"
    using Cons.IH [of "m @ [(k, t)]"] Cons.prems e by simp
  ultimately show ?case
    using e ok(2) catalog_loop_table [OF ok(3), of "catalog_file_lines m'" m]
    by (simp add: catalog_file_lines_def bt_values_def)
qed (simp add: catalog_file_lines_def bt_values_def)

interpretation table_cat: line_file CATALOG_HEADER catalog_file_lines parse_catalog "\<lambda>m. m" catalog_ok
proof
  show "plain_line CATALOG_HEADER" by (simp add: plain_line_def CATALOG_HEADER_def is_str_def utf8_width_def)
  show "list_all plain_line (catalog_file_lines m)" if m: "catalog_ok m" for m
  proof -
    have "list_all plain_line (table_lines t)" if t: "schema_ok t" for t
    proof -
      have "plain_field (ts_name t)" using t by (simp add: schema_ok_def identifier_plain)
      then have "plain_line (tabbed [''table'', ts_name t])" by (intro plain_line_tabbed) simp
      moreover have "plain_line ''end''" by (simp add: plain_line_def is_str_def utf8_width_def)
      ultimately show ?thesis
        using column_facts(1) [OF t] column_line_plain by (auto simp: table_lines_def list_all_iff simp del: tabbed.simps)
    qed
    then show ?thesis using m by (fastforce simp: catalog_file_lines_def list_all_iff catalog_ok_def bt_values_def)
  qed
  show "parse_catalog (catalog_file_lines m) = Inr m" if "catalog_ok m" for m
    using catalog_loop_values [of "[]" m] that by (simp add: parse_catalog_def)
qed

lemma catalog_save_ok [disk_calls]:
  "disk_healthy d \<Longrightarrow> catalog_save m d = (Inr (), dk_put catalog_path (as_bytes (table_cat.file_text m)) d)"
  by (simp add: catalog_save_def table_cat.file_text_def disk_calls)

lemma catalog_load_ok:
  assumes "disk_healthy d" and "dk_files d catalog_path = Some (as_bytes (table_cat.file_text m))" and "catalog_ok m"
  shows "catalog_load d = (Inr m, d)"
  using assms table_cat.parse_print [OF assms(3)]
  by (simp add: catalog_load_def path_exists_def table_cat.read_back table_cat.lines_of_text)

lemma catalog_ok_Nil [simp]: "catalog_ok []"
  by (simp add: catalog_ok_def)

lemma catalog_ok_lookup: "catalog_ok m \<Longrightarrow> map_of m name = Some t \<Longrightarrow> ts_name t = name \<and> schema_ok t"
  by (auto simp: catalog_ok_def dest!: map_of_SomeD)

lemma catalog_ok_insert:
  assumes "catalog_ok m" and "schema_ok t"
  shows "catalog_ok (bt_insert (ts_name t) t m)"
proof -
  let ?m = "bt_insert (ts_name t) t m"
  have ok: "bt_ok m" "bt_ok ?m" using assms by (simp_all add: catalog_ok_def)
  have "k = ts_name x \<and> schema_ok x" if "(k, x) \<in> set ?m" for k x
  proof -
    have "map_of ?m k = Some x" using that ok(2) by (simp add: map_of_in)
    then have "(k, x) = (ts_name t, t) \<or> (k, x) \<in> set m"
      using ok(1) by (auto simp: map_of_in split: if_splits)
    then show ?thesis using assms by (auto simp: catalog_ok_def)
  qed
  then show ?thesis using ok(2) by (auto simp: catalog_ok_def)
qed

lemma catalog_ok_remove: "catalog_ok m \<Longrightarrow> catalog_ok (bt_remove k m)"
  by (auto simp: catalog_ok_def) (auto simp: bt_remove_def)

end
