(* ===== verification/Table_File.thy ===== *)
theory Table_File
  imports Table_Catalog
begin

section \<open>Tables (\<open>src/table/mod.rs\<close>)\<close>

text \<open>
  An open table is its schema, the compiled layout and the record file that holds the rows.
  The loops over a scan have one more step of fuel than the file has slots, which is enough
  for them to end (see \<open>Record_Scan\<close>).
\<close>

record table =
  tb_schema :: table_schema
  tb_layout :: schema_layout
  tb_file :: record_file

definition on_records :: "(record_file \<Rightarrow> (record_error + 'a) \<times> record_file) \<Rightarrow> table \<Rightarrow> (table_error + 'a) \<times> table" where
  "on_records m t = (case m (tb_file t) of (r, f) \<Rightarrow> (map_err TE_Record r, t\<lparr>tb_file := f\<rparr>))"

definition table_insert :: "val list \<Rightarrow> table \<Rightarrow> (table_error + rid) \<times> table" where
  "table_insert values t =
     and_then_st (encode_row (tb_layout t) values, t) (\<lambda>bytes. on_records (insert_record bytes))"

text \<open>The scan of an optional filter expression.\<close>

definition table_scan_of :: "expr option \<Rightarrow> table \<Rightarrow> table_error + record_scan" where
  "table_scan_of e t =
     (case e of
        None \<Rightarrow> Inr scan_all
      | Some e \<Rightarrow> and_then (compile_expr (tb_layout t) e) (\<lambda>flt. map_err TE_Record (scan_with_logic flt (tb_file t))))"

fun scan_rows :: "schema_layout \<Rightarrow> nat \<Rightarrow> record_scan \<times> record_file \<Rightarrow>
    (table_error + row list) \<times> (record_scan \<times> record_file)" where
  "scan_rows layout 0 st = (Inl (TE_Record RE_Diverges), st)"
| "scan_rows layout (Suc fuel) st =
     and_then_st (case next_record st of (r, st) \<Rightarrow> (map_err TE_Record r, st)) (\<lambda>r st.
       case r of
         None \<Rightarrow> (Inr [], st)
       | Some rec \<Rightarrow>
           and_then_st (decode_record layout rec, st) (\<lambda>row st.
           and_then_st (scan_rows layout fuel st) (\<lambda>rows st. (Inr (row # rows), st))))"

definition table_scan :: "expr option \<Rightarrow> table \<Rightarrow> (table_error + row list) \<times> table" where
  "table_scan e t =
     and_then_st (table_scan_of e t, t) (\<lambda>sc t.
       case scan_rows (tb_layout t) (Suc (rf_positions (tb_file t))) (sc, tb_file t) of
         (r, (sc, f)) \<Rightarrow> (r, t\<lparr>tb_file := f\<rparr>))"

fun rows_by_rids :: "rid list \<Rightarrow> table \<Rightarrow> (table_error + row list) \<times> table" where
  "rows_by_rids [] t = (Inr [], t)"
| "rows_by_rids (r # rs) t =
     and_then_st (on_records (get_record r) t) (\<lambda>rec t.
     and_then_st (decode_record (tb_layout t) rec, t) (\<lambda>row t.
     and_then_st (rows_by_rids rs t) (\<lambda>rows t. (Inr (row # rows), t))))"

definition collect_records :: "expr option \<Rightarrow> table \<Rightarrow> (table_error + db_record list) \<times> table" where
  "collect_records e t =
     and_then_st (table_scan_of e t, t) (\<lambda>sc. on_records (collect_scan sc))"

fun assign_values :: "schema_layout \<Rightarrow> (string \<times> val) list \<Rightarrow> row \<Rightarrow> table_error + row" where
  "assign_values layout [] row = Inr row"
| "assign_values layout ((name, v) # as) row =
     and_then (layout_column_index layout name) (\<lambda>i.
       if i < length row then assign_values layout as (row[i := v]) else Inl TE_Panic)"

fun update_records :: "(string \<times> val) list \<Rightarrow> db_record list \<Rightarrow> table \<Rightarrow> (table_error + nat) \<times> table" where
  "update_records as [] t = (Inr 0, t)"
| "update_records as (rec # recs) t =
     and_then_st (decode_record (tb_layout t) rec, t) (\<lambda>row t.
     and_then_st (assign_values (tb_layout t) as row, t) (\<lambda>row t.
     and_then_st (encode_row (tb_layout t) row, t) (\<lambda>bytes t.
     and_then_st (on_records (update_record (rec_rid rec) bytes) t) (\<lambda>_ t.
     and_then_st (update_records as recs t) (\<lambda>n t. (Inr (Suc n), t))))))"

definition update_where :: "expr option \<Rightarrow> (string \<times> val) list \<Rightarrow> table \<Rightarrow> (table_error + nat) \<times> table" where
  "update_where e as t = and_then_st (collect_records e t) (update_records as)"

fun delete_records :: "db_record list \<Rightarrow> table \<Rightarrow> (table_error + nat) \<times> table" where
  "delete_records [] t = (Inr 0, t)"
| "delete_records (rec # recs) t =
     and_then_st (on_records (delete_record (rec_rid rec)) t) (\<lambda>_ t.
     and_then_st (delete_records recs t) (\<lambda>n t. (Inr (Suc n), t)))"

definition delete_where :: "expr option \<Rightarrow> table \<Rightarrow> (table_error + nat) \<times> table" where
  "delete_where e t = and_then_st (collect_records e t) delete_records"

definition row_key :: "nat \<Rightarrow> row \<Rightarrow> table_error + i32" where
  "row_key i row =
     (if i < length row
      then (case row ! i of
              V_Int32 n \<Rightarrow> Inr n
            | _ \<Rightarrow> Inl (InvalidSchema ''int32 index requested on non-int32 column''))
      else Inl TE_Panic)"

fun index_entries :: "schema_layout \<Rightarrow> nat \<Rightarrow> db_record list \<Rightarrow> table_error + index_entry list" where
  "index_entries layout i [] = Inr []"
| "index_entries layout i (rec # recs) =
     and_then (decode_record layout rec) (\<lambda>row.
     and_then (row_key i row) (\<lambda>key.
     and_then (index_entries layout i recs) (\<lambda>es.
       Inr (\<lparr>ie_key = key, ie_rid = rec_rid rec\<rparr> # es))))"

definition index_entries_for_int32_column :: "string \<Rightarrow> table \<Rightarrow> (table_error + index_entry list) \<times> table" where
  "index_entries_for_int32_column column t =
     and_then_st (layout_column_index (tb_layout t) column, t) (\<lambda>i t.
     and_then_st (collect_records None t) (\<lambda>recs t.
       (index_entries (tb_layout t) i recs, t)))"

end
