(* ===== verification/Table_Ops.thy ===== *)
theory Table_Ops
  imports Table_File
begin

section \<open>A table is a map from record identifiers to rows\<close>

text \<open>
  The rows of a table are stated as a finite map.  Scans list it in the order of pages and
  slots, which \<open>rids_of\<close> gives for any such map.
\<close>

subsection \<open>The order of record identifiers\<close>

definition rid_key :: "rid \<Rightarrow> nat \<times> nat" where
  "rid_key r = (unat (rid_page_id r), unat (rid_slot_id r))"

definition rid_of_key :: "nat \<times> nat \<Rightarrow> rid" where
  "rid_of_key k = \<lparr>rid_page_id = of_nat (fst k), rid_slot_id = of_nat (snd k)\<rparr>"

definition rids_of :: "(rid \<Rightarrow> 'a option) \<Rightarrow> rid list" where
  "rids_of M = map rid_of_key (sorted_list_of_set (rid_key ` dom M))"

lemma rid_of_key [simp]: "rid_of_key (rid_key r) = r"
  by (simp add: rid_of_key_def rid_key_def)

lemma rid_key_inject [simp]: "rid_key r = rid_key s \<longleftrightarrow> r = s"
  by (metis rid_of_key)

lemma rids_of_unique:
  assumes "sorted_wrt (\<lambda>r s. rid_key r < rid_key s) rs" and "set rs = dom M"
  shows "rids_of M = rs"
proof -
  have "sorted_wrt (<) (map rid_key rs)" using assms(1) by (simp add: sorted_wrt_map)
  then have "sorted_list_of_set (set (map rid_key rs)) = map rid_key rs"
    unfolding strict_sorted_iff by (intro sorted_list_of_set.idem_if_sorted_distinct) simp_all
  then show ?thesis using assms(2) by (simp add: rids_of_def o_def)
qed

lemma rids_of_facts:
  assumes "finite (dom M)"
  shows "set (rids_of M) = dom M" and "sorted_wrt (\<lambda>r s. rid_key r < rid_key s) (rids_of M)" and "distinct (rids_of M)"
proof -
  let ?ks = "sorted_list_of_set (rid_key ` dom M)"
  have set: "set ?ks = rid_key ` dom M" using assms by simp
  show "set (rids_of M) = dom M" using set by (auto simp: rids_of_def image_image)
  have key: "map rid_key (rids_of M) = ?ks"
    unfolding rids_of_def map_map by (rule map_idI) (use set in auto)
  have "sorted_wrt (<) ?ks" by (rule strict_sorted_list_of_set)
  then show "sorted_wrt (\<lambda>r s. rid_key r < rid_key s) (rids_of M)"
    unfolding key [symmetric] sorted_wrt_map .
  have "distinct ?ks" by simp
  then show "distinct (rids_of M)" unfolding key [symmetric] by (simp add: distinct_map)
qed

lemma sorted_wrt_map_filter:
  assumes "sorted_wrt (<) ks" and "\<And>k l x y. k \<in> set ks \<Longrightarrow> l \<in> set ks \<Longrightarrow> k < l \<Longrightarrow> h k = Some x \<Longrightarrow> h l = Some y \<Longrightarrow> R x y"
  shows "sorted_wrt R (List.map_filter h (ks :: nat list))"
  using assms
proof (induction ks)
  case (Cons k ks)
  have ih: "sorted_wrt R (List.map_filter h ks)"
    using Cons.prems(1) by (intro Cons.IH) (auto intro: Cons.prems(2))
  show ?case
  proof (cases "h k")
    case None
    then show ?thesis using ih by (simp add: map_filter_simps)
  next
    case (Some x)
    have "R x y" if y: "y \<in> set (List.map_filter h ks)" for y
    proof -
      obtain l where "l \<in> set ks" "h l = Some y" using y by (auto simp: List.map_filter_def)
      then show ?thesis using Cons.prems(1) Cons.prems(2) [of k l x y] Some by simp
    qed
    then show ?thesis using ih Some by (simp add: map_filter_simps)
  qed
qed (simp add: map_filter_simps)

lemma rid_key_at:
  assumes "rf_base m f" and "k < rf_positions f"
  shows "rid_key (rid_at (rf_slots f) k) = (Suc (k div rf_slots f), k mod rf_slots f)"
  using unat_position [OF assms(1) less_imp_le [OF assms(2)]] by (simp add: rid_key_def rid_at_def del: of_nat_Suc)

lemma records_from_rids:
  assumes base: "rf_base m f"
  shows "map rec_rid (records_from f 0) = rids_of (record_map f)"
proof (rule rids_of_unique [symmetric])
  let ?n = "rf_slots f"
  have order: "rid_key (rid_at ?n k) < rid_key (rid_at ?n l)" if "k < l" "k < rf_positions f" "l < rf_positions f" for k l
  proof -
    have "k div ?n \<le> l div ?n" using that(1) by (simp add: div_le_mono)
    moreover have "k mod ?n < l mod ?n" if "k div ?n = l div ?n"
      using \<open>k < l\<close> that by (metis add_less_cancel_left div_mult_mod_eq)
    ultimately show ?thesis
      using rid_key_at [OF base that(2)] rid_key_at [OF base that(3)] by (simp add: less_prod_def) linarith
  qed
  have "sorted_wrt (\<lambda>r s. rid_key (rec_rid r) < rid_key (rec_rid s)) (records_from f 0)"
    unfolding records_from_def
    by (rule sorted_wrt_map_filter) (auto simp: record_at_def intro!: order)
  then show "sorted_wrt (\<lambda>r s. rid_key r < rid_key s) (map rec_rid (records_from f 0))"
    by (simp add: sorted_wrt_map)
  show "set (map rec_rid (records_from f 0)) = dom (record_map f)"
    using records_from_set [OF base] by (auto simp: image_iff) (metis db_record.select_convs)
qed

definition record_of :: "(rid \<Rightarrow> u8 list option) \<Rightarrow> rid \<Rightarrow> db_record" where
  "record_of R r = \<lparr>rec_rid = r, rec_data = the (R r)\<rparr>"

lemma records_from_list:
  assumes base: "rf_base m f"
  shows "records_from f 0 = map (record_of (record_map f)) (rids_of (record_map f))"
proof -
  have "record_of (record_map f) (rec_rid x) = x" if "x \<in> set (records_from f 0)" for x
  proof -
    have "record_map f (rec_rid x) = Some (rec_data x)" using that records_from_set [OF base, of x] by blast
    then show ?thesis by (simp add: record_of_def)
  qed
  then have "map (record_of (record_map f)) (map rec_rid (records_from f 0)) = records_from f 0"
    by (simp add: map_idI)
  then show ?thesis using records_from_rids [OF base] by simp
qed

lemma finite_record_map: "rf_base m f \<Longrightarrow> finite (dom (record_map f))"
proof -
  assume base: "rf_base m f"
  have "dom (record_map f) = set (map rec_rid (records_from f 0))"
    using records_from_set [OF base] by (auto simp: image_iff) (metis db_record.select_convs)
  then show ?thesis by simp
qed

subsection \<open>Rows in a record file\<close>

definition row_ok :: "column_schema list \<Rightarrow> row \<Rightarrow> bool" where
  "row_ok cs vs \<longleftrightarrow> row_fits cs vs \<and> map stored_value vs = vs"

type_synonym rows = "rid \<Rightarrow> row option"

definition rows_ok :: "column_schema list \<Rightarrow> rows \<Rightarrow> bool" where
  "rows_ok cs M \<longleftrightarrow> (\<forall>r vs. M r = Some vs \<longrightarrow> row_ok cs vs)"

definition row_map_bytes :: "column_schema list \<Rightarrow> rows \<Rightarrow> rid \<Rightarrow> u8 list option" where
  "row_map_bytes cs M = (\<lambda>r. map_option (row_bytes cs) (M r))"

definition table_holds :: "table \<Rightarrow> table_schema \<Rightarrow> rows \<Rightarrow> nat \<Rightarrow> bool" where
  "table_holds t s M n \<longleftrightarrow>
     tb_schema t = s \<and> tb_layout t = layout_of s \<and> schema_ok s \<and> rows_ok (ts_columns s) M \<and>
     holds_records (tb_file t) (total_len (ts_columns s)) (row_map_bytes (ts_columns s) M) n"

definition row_selected :: "column_schema list \<Rightarrow> expr option \<Rightarrow> row \<Rightarrow> bool" where
  "row_selected cs e vs \<longleftrightarrow> (case e of None \<Rightarrow> True | Some e \<Rightarrow> expr_holds cs e vs)"

definition selected :: "column_schema list \<Rightarrow> expr option \<Rightarrow> rows \<Rightarrow> rid list" where
  "selected cs e M = filter (\<lambda>r. row_selected cs e (the (M r))) (rids_of M)"

definition filter_typed :: "column_schema list \<Rightarrow> expr option \<Rightarrow> bool" where
  "filter_typed cs e \<longleftrightarrow> (case e of None \<Rightarrow> True | Some e \<Rightarrow> expr_typed cs e)"

lemma row_map_bytes_simps [simp]:
  "dom (row_map_bytes cs M) = dom M" "rids_of (row_map_bytes cs M) = rids_of M"
  "row_map_bytes cs (M(r \<mapsto> vs)) = (row_map_bytes cs M)(r \<mapsto> row_bytes cs vs)"
  "row_map_bytes cs (M(r := None)) = (row_map_bytes cs M)(r := None)"
  "row_map_bytes cs Map.empty = Map.empty" "row_map_bytes cs M r = None \<longleftrightarrow> M r = None"
proof -
  show dom: "dom (row_map_bytes cs M) = dom M" by (auto simp: row_map_bytes_def)
  show "rids_of (row_map_bytes cs M) = rids_of M" by (simp add: rids_of_def dom)
qed (auto simp: row_map_bytes_def)

lemma row_okD: "row_ok cs vs \<Longrightarrow> row_fits cs vs" "row_ok cs vs \<Longrightarrow> map stored_value vs = vs"
  by (simp_all add: row_ok_def)

lemma rows_okD: "rows_ok cs M \<Longrightarrow> M r = Some vs \<Longrightarrow> row_ok cs vs"
  by (auto simp: rows_ok_def)

lemma rows_ok_update:
  "rows_ok cs M \<Longrightarrow> row_ok cs vs \<Longrightarrow> rows_ok cs (M(r \<mapsto> vs))" "rows_ok cs M \<Longrightarrow> rows_ok cs (M(r := None))"
  by (auto simp: rows_ok_def)

lemma stored_value_idem [simp]: "stored_value (stored_value v) = stored_value v"
  by (cases v) simp_all

lemma row_ok_stored: "row_fits cs vs \<Longrightarrow> row_ok cs (map stored_value vs)"
  by (auto simp: row_ok_def row_fits_def list_all2_conv_all_nth value_fits_stored)

lemma value_bytes_stored: "value_fits ct v \<Longrightarrow> value_bytes ct (stored_value v) = value_bytes ct v"
  by (cases ct; cases v) (simp_all add: padded_strip [unfolded padded_def])

lemma row_bytes_stored: "row_fits cs vs \<Longrightarrow> row_bytes cs (map stored_value vs) = row_bytes cs vs"
proof (induction cs arbitrary: vs)
  case (Cons c cs)
  then show ?case by (cases vs) (simp_all add: value_bytes_stored)
qed simp

lemma decode_row_ok:
  "row_ok (ts_columns s) vs \<Longrightarrow>
     decode_record (layout_of s) \<lparr>rec_rid = r, rec_data = row_bytes (ts_columns s) vs\<rparr> = Inr vs"
  using decode_row_bytes [of "ts_columns s" vs] by (simp add: decode_record_def layout_of_def row_ok_def)

lemma table_holdsE:
  assumes "table_holds t s M n"
  obtains m ps where "rf_base m (tb_file t)" and "rf_chain (tb_file t) ps"
    and "rf_record_size (tb_file t) = total_len (ts_columns s)"
    and "record_map (tb_file t) = row_map_bytes (ts_columns s) M" and "unat (rf_num_pages (tb_file t)) \<le> n"
  using assms holds_recordsE unfolding table_holds_def by metis

lemma table_holdsD:
  assumes "table_holds t s M n"
  shows "tb_schema t = s" and "tb_layout t = layout_of s" and "schema_ok s" and "rows_ok (ts_columns s) M"
    and "holds_records (tb_file t) (total_len (ts_columns s)) (row_map_bytes (ts_columns s) M) n"
  using assms by (simp_all add: table_holds_def)

lemma table_holds_file:
  "table_holds t s M n \<Longrightarrow> rows_ok (ts_columns s) M' \<Longrightarrow>
     holds_records f (total_len (ts_columns s)) (row_map_bytes (ts_columns s) M') n' \<Longrightarrow> table_holds (t\<lparr>tb_file := f\<rparr>) s M' n'"
  by (simp add: table_holds_def)

lemma finite_rows: "table_holds t s M n \<Longrightarrow> finite (dom M)"
  by (erule table_holdsE) (metis finite_record_map row_map_bytes_simps(1))

lemma record_of_rows:
  "M r = Some vs \<Longrightarrow> record_of (row_map_bytes cs M) r = \<lparr>rec_rid = r, rec_data = row_bytes cs vs\<rparr>"
  by (simp add: record_of_def row_map_bytes_def)

lemma records_of_rows:
  assumes "rf_base m f" and "record_map f = row_map_bytes cs M"
  shows "records_from f 0 = map (record_of (row_map_bytes cs M)) (rids_of M)"
  using records_from_list [OF assms(1)] assms(2) by simp

subsection \<open>Scans\<close>

text \<open>The scan of a typed filter evaluates to the meaning of the filter on the rows.\<close>

lemma table_scan_of_ok:
  assumes t: "table_holds t s M n" and typed: "filter_typed (ts_columns s) e"
  obtains P where "table_scan_of e t = Inr (scan_from_start P)"
    and "\<And>vs. row_ok (ts_columns s) vs \<Longrightarrow> P (row_bytes (ts_columns s) vs) = Inr (row_selected (ts_columns s) e vs)"
proof (cases e)
  case None
  then show thesis by (intro that [of "\<lambda>_. Inr True"]) (simp_all add: table_scan_of_def scan_all_def row_selected_def)
next
  case (Some x)
  note T = table_holdsD [OF t]
  have x: "expr_typed (ts_columns s) x" using typed Some by (simp add: filter_typed_def)
  then obtain flt where flt: "compile_expr (layout_of s) x = Inr flt"
    "logic_validate flt (total_len (ts_columns s)) = Inr ()"
    using accepted_typed [OF T(3)] by (auto simp: accepted_def)
  have rs: "rf_record_size (tb_file t) = total_len (ts_columns s)" using t by (rule table_holdsE)
  show thesis
  proof (rule that)
    show "table_scan_of e t = Inr (scan_from_start (logic_matches flt))"
      using flt Some T(2) rs by (simp add: table_scan_of_def scan_with_logic_def)
    fix vs
    assume vs: "row_ok (ts_columns s) vs"
    have "logic_validate flt (length (row_bytes (ts_columns s) vs)) = Inr ()"
      using flt(2) length_row_bytes [OF row_okD(1) [OF vs]] by simp
    then show "logic_matches flt (row_bytes (ts_columns s) vs) = Inr (row_selected (ts_columns s) e vs)"
      using logic_matches_holds(1) compiled_holds [OF row_okD(1) [OF vs] flt(1) x] row_okD(2) [OF vs] Some
      by (simp add: row_selected_def)
  qed
qed

lemma evaluates_rows:
  assumes "record_map f = row_map_bytes cs M" and "rows_ok cs M"
    and P: "\<And>vs. row_ok cs vs \<Longrightarrow> P (row_bytes cs vs) = Inr (sel vs)"
  defines "Q \<equiv> \<lambda>d. case P d of Inr b \<Rightarrow> b | Inl _ \<Rightarrow> False"
  shows "evaluates P Q f"
  using assms(1,2) P rows_okD unfolding evaluates_def Q_def
  by (auto simp: row_map_bytes_def)

lemma filter_rows:
  assumes "rows_ok cs M" and "finite (dom M)" and P: "\<And>vs. row_ok cs vs \<Longrightarrow> P (row_bytes cs vs) = Inr (sel vs)"
  defines "Q \<equiv> \<lambda>d. case P d of Inr b \<Rightarrow> b | Inl _ \<Rightarrow> False"
  shows "filter (\<lambda>x. Q (rec_data x)) (map (record_of (row_map_bytes cs M)) (rids_of M)) =
    map (record_of (row_map_bytes cs M)) (filter (\<lambda>r. sel (the (M r))) (rids_of M))"
proof -
  have "Q (rec_data (record_of (row_map_bytes cs M) r)) = sel (the (M r))" if "r \<in> set (rids_of M)" for r
  proof -
    obtain vs where "M r = Some vs" using rids_of_facts(1) [OF assms(2)] \<open>r \<in> set (rids_of M)\<close> by auto
    then show ?thesis using rows_okD [OF assms(1)] P by (simp add: record_of_rows Q_def)
  qed
  then show ?thesis unfolding filter_map o_def by (metis (mono_tags, lifting) filter_cong)
qed

lemma collect_records_ok:
  assumes t: "table_holds t s M n" and typed: "filter_typed (ts_columns s) e"
  obtains t' where "collect_records e t = (Inr (map (record_of (row_map_bytes (ts_columns s) M)) (selected (ts_columns s) e M)), t')"
    and "table_holds t' s M n"
proof -
  note T = table_holdsD [OF t]
  obtain m ps where f: "rf_base m (tb_file t)" "rf_chain (tb_file t) ps"
    "record_map (tb_file t) = row_map_bytes (ts_columns s) M" using t by (rule table_holdsE)
  obtain P where P: "table_scan_of e t = Inr (scan_from_start P)"
    "\<And>vs. row_ok (ts_columns s) vs \<Longrightarrow> P (row_bytes (ts_columns s) vs) = Inr (row_selected (ts_columns s) e vs)"
    using table_scan_of_ok [OF t typed] by metis
  have ev: "evaluates P (\<lambda>d. case P d of Inr b \<Rightarrow> b | Inl _ \<Rightarrow> False) (tb_file t)"
    by (rule evaluates_rows [where sel = "row_selected (ts_columns s) e", OF f(3) T(4)]) (rule P(2))
  have sel: "filter (\<lambda>x. (case P (rec_data x) of Inr b \<Rightarrow> b | Inl _ \<Rightarrow> False))
      (map (record_of (row_map_bytes (ts_columns s) M)) (rids_of M)) =
    map (record_of (row_map_bytes (ts_columns s) M)) (selected (ts_columns s) e M)"
    unfolding selected_def
    by (rule filter_rows [where sel = "row_selected (ts_columns s) e", OF T(4) finite_rows [OF t]]) (rule P(2))
  obtain g where g: "collect_scan (scan_from_start P) (tb_file t) =
      (Inr (filter (\<lambda>r. (case P (rec_data r) of Inr b \<Rightarrow> b | Inl _ \<Rightarrow> False)) (records_from (tb_file t) 0)), g)"
    "same_records m (tb_file t) g"
    by (rule collect_scan_ok [OF f(1) ev])
  have "holds_records g (total_len (ts_columns s)) (row_map_bytes (ts_columns s) M) n"
    by (rule holds_records_same [OF f(1,2) g(2) T(5)])
  then have "table_holds (t\<lparr>tb_file := g\<rparr>) s M n" by (rule table_holds_file [OF t T(4)])
  moreover have "collect_records e t =
      (Inr (map (record_of (row_map_bytes (ts_columns s) M)) (selected (ts_columns s) e M)), t\<lparr>tb_file := g\<rparr>)"
    using P(1) g(1) records_of_rows [OF f(1,3)] sel by (simp add: collect_records_def on_records_def)
  ultimately show thesis using that by blast
qed

lemma scan_rows_drain:
  "drain_scan fuel st = (Inr recs, st') \<Longrightarrow> list_all2 (\<lambda>rec row. decode_record layout rec = Inr row) recs rows \<Longrightarrow>
     scan_rows layout fuel st = (Inr rows, st')"
proof (induction fuel arbitrary: st recs rows)
  case (Suc fuel)
  obtain r st1 where step: "next_record st = (r, st1)" by (cases "next_record st")
  show ?case
  proof (cases r)
    case (Inl e)
    then show ?thesis using Suc.prems(1) step by simp
  next
    case r: (Inr x)
    show ?thesis
    proof (cases x)
      case None
      then show ?thesis using Suc.prems step r by simp
    next
      case (Some rec)
      obtain recs1 where rest: "drain_scan fuel st1 = (Inr recs1, st')" "recs = rec # recs1"
        using Suc.prems(1) step r Some by (auto simp: and_then_st_Inr_iff)
      obtain row rows1 where rows: "rows = row # rows1" "decode_record layout rec = Inr row"
        "list_all2 (\<lambda>rec row. decode_record layout rec = Inr row) recs1 rows1"
        using Suc.prems(2) rest(2) by (auto simp: list_all2_Cons1)
      show ?thesis using Suc.IH [OF rest(1) rows(3)] step r Some rows by simp
    qed
  qed
qed simp

end
