(* ===== verification/Table_Updates.thy ===== *)
theory Table_Updates
  imports Table_Ops
begin

section \<open>What the operations of a table do to its rows\<close>

text \<open>
  What the operations of a table do to the map of its rows: scans and reads by identifier,
  insertion, update and deletion of the selected rows, and the entries of an index.
\<close>

lemma selected_facts:
  assumes "finite (dom M)"
  shows "set (selected cs e M) = {r. \<exists>vs. M r = Some vs \<and> row_selected cs e vs}" and "distinct (selected cs e M)"
    and "selected cs e M = filter (\<lambda>r. row_selected cs e (the (M r))) (rids_of M)"
  using rids_of_facts(1,3) [OF assms] by (auto simp: selected_def)

definition rows_at :: "rows \<Rightarrow> rid list \<Rightarrow> row list" where
  "rows_at M rs = map (\<lambda>r. the (M r)) rs"

lemma table_scan_ok:
  assumes t: "table_holds t s M n" and typed: "filter_typed (ts_columns s) e"
  obtains t' where "table_scan e t = (Inr (rows_at M (selected (ts_columns s) e M)), t')" and "table_holds t' s M n"
proof -
  let ?cs = "ts_columns s" and ?R = "row_map_bytes (ts_columns s) M"
  note T = table_holdsD [OF t]
  obtain sc where sc: "table_scan_of e t = Inr sc" using table_scan_of_ok [OF t typed] by metis
  obtain t' where t': "collect_records e t = (Inr (map (record_of ?R) (selected ?cs e M)), t')" "table_holds t' s M n"
    by (rule collect_records_ok [OF t typed])
  obtain sc' f where drain: "drain_scan (Suc (rf_positions (tb_file t))) (sc, tb_file t) =
      (Inr (map (record_of ?R) (selected ?cs e M)), (sc', f))" "t' = t\<lparr>tb_file := f\<rparr>"
    using t'(1) sc by (auto simp: collect_records_def on_records_def collect_scan_def split: prod.splits)
  have "list_all2 (\<lambda>rec row. decode_record (layout_of s) rec = Inr row) (map (record_of ?R) (selected ?cs e M))
      (rows_at M (selected ?cs e M))"
  proof -
    have "decode_record (layout_of s) (record_of ?R r) = Inr (the (M r))" if r: "r \<in> set (selected ?cs e M)" for r
    proof -
      obtain vs where vs: "M r = Some vs" using selected_facts(1) [OF finite_rows [OF t], of ?cs e] r by auto
      then show ?thesis using decode_row_ok [OF rows_okD [OF T(4) vs]] by (simp add: record_of_rows)
    qed
    then show ?thesis by (auto simp: rows_at_def list_all2_conv_all_nth)
  qed
  then have "table_scan e t = (Inr (rows_at M (selected ?cs e M)), t')"
    using scan_rows_drain [OF drain(1)] sc drain(2) T(2) by (simp add: table_scan_def del: scan_rows.simps)
  then show thesis using that t'(2) by blast
qed

lemma table_get_ok:
  assumes t: "table_holds t s M n" and r: "M r = Some vs"
  obtains t' where "on_records (get_record r) t = (Inr \<lparr>rec_rid = r, rec_data = row_bytes (ts_columns s) vs\<rparr>, t')"
    and "table_holds t' s M n"
proof -
  note T = table_holdsD [OF t]
  obtain m ps where f: "rf_base m (tb_file t)" "rf_chain (tb_file t) ps"
    "record_map (tb_file t) = row_map_bytes (ts_columns s) M" using t by (rule table_holdsE)
  obtain g where g: "same_records m (tb_file t) g" "get_record r (tb_file t) = (case record_map (tb_file t) r of
      None \<Rightarrow> (Inl (missing_record (tb_file t) r), g) | Some d \<Rightarrow> (Inr \<lparr>rec_rid = r, rec_data = d\<rparr>, g))"
    by (rule get_record_ok [OF f(1)])
  have "table_holds (t\<lparr>tb_file := g\<rparr>) s M n"
    by (rule table_holds_file [OF t T(4) holds_records_same [OF f(1,2) g(1) T(5)]])
  moreover have "on_records (get_record r) t = (Inr \<lparr>rec_rid = r, rec_data = row_bytes (ts_columns s) vs\<rparr>, t\<lparr>tb_file := g\<rparr>)"
    using g(2) f(3) r by (simp add: on_records_def row_map_bytes_def)
  ultimately show thesis using that by blast
qed

lemma rows_by_rids_ok:
  "table_holds t s M n \<Longrightarrow> set rs \<subseteq> dom M \<Longrightarrow>
     \<exists>t'. rows_by_rids rs t = (Inr (rows_at M rs), t') \<and> table_holds t' s M n"
proof (induction rs arbitrary: t)
  case (Cons r rs)
  obtain vs where r: "M r = Some vs" using Cons.prems(2) by auto
  obtain t1 where t1: "on_records (get_record r) t = (Inr \<lparr>rec_rid = r, rec_data = row_bytes (ts_columns s) vs\<rparr>, t1)"
    "table_holds t1 s M n" by (rule table_get_ok [OF Cons.prems(1) r])
  obtain t2 where t2: "rows_by_rids rs t1 = (Inr (rows_at M rs), t2)" "table_holds t2 s M n"
    using Cons.IH [OF t1(2)] Cons.prems(2) by auto
  note T = table_holdsD [OF t1(2)]
  have "decode_record (tb_layout t1) \<lparr>rec_rid = r, rec_data = row_bytes (ts_columns s) vs\<rparr> = Inr vs"
    using decode_row_ok [OF rows_okD [OF T(4) r]] T(2) by simp
  then show ?case using t1(1) t2 r by (simp add: rows_at_def)
qed (simp add: rows_at_def)

subsection \<open>Insertion\<close>

lemma table_insert_ok:
  assumes t: "table_holds t s M n" and fits: "row_fits (ts_columns s) vs" and room: "n < 2147483647"
  obtains r t' where "table_insert vs t = (Inr r, t')" and "M r = None"
    and "table_holds t' s (M(r \<mapsto> map stored_value vs)) (Suc n)"
proof -
  let ?cs = "ts_columns s" and ?b = "row_bytes (ts_columns s) vs"
  note T = table_holdsD [OF t]
  obtain m ps where f: "rf_base m (tb_file t)" "rf_chain (tb_file t) ps" "rf_record_size (tb_file t) = total_len ?cs"
    "record_map (tb_file t) = row_map_bytes ?cs M" "unat (rf_num_pages (tb_file t)) \<le> n"
    using t by (rule table_holdsE)
  have len: "length ?b = rf_record_size (tb_file t)" using length_row_bytes [OF fits] f(3) by simp
  have room': "ps \<noteq> [] \<or> unat (rf_num_pages (tb_file t)) < 2147483647" using f(5) room by simp
  obtain g r m' qs where g: "insert_record ?b (tb_file t) = (Inr r, g)" "rf_base m' g" "rf_chain g qs"
    "record_map (tb_file t) r = None" "record_map g = (record_map (tb_file t))(r \<mapsto> ?b)" "rf_slots g = rf_slots (tb_file t)"
    "rf_record_size g = rf_record_size (tb_file t)" "rf_file_id g = rf_file_id (tb_file t)"
    "unat (rf_num_pages g) \<le> Suc (unat (rf_num_pages (tb_file t)))"
    by (rule insert_record_ok [OF f(1,2) len room'])
  have map: "record_map g = row_map_bytes ?cs (M(r \<mapsto> map stored_value vs))"
    using g(5) f(4) row_bytes_stored [OF fits] by simp
  have "holds_records g (total_len ?cs) (row_map_bytes ?cs (M(r \<mapsto> map stored_value vs))) (Suc n)"
    using holds_recordsI [OF g(2,3) _ map] g(7,9) f(3,5) by simp
  then have "table_holds (t\<lparr>tb_file := g\<rparr>) s (M(r \<mapsto> map stored_value vs)) (Suc n)"
    using table_holds_file [OF t rows_ok_update(1) [OF T(4) row_ok_stored [OF fits]]] by blast
  moreover have "table_insert vs t = (Inr r, t\<lparr>tb_file := g\<rparr>)"
    using encode_row_ok [OF fits] T(2) g(1) by (simp add: table_insert_def on_records_def)
  ultimately show thesis using that g(4) f(4) by simp
qed

text \<open>A row that cannot be encoded is refused before the file is touched.\<close>

lemma table_insert_error:
  "encode_row (tb_layout t) vs = Inl e \<Longrightarrow> table_insert vs t = (Inl e, t)"
  by (simp add: table_insert_def)

subsection \<open>Update\<close>

text \<open>The row that the assignments make, and the assignments that suit a schema.\<close>

fun assigned :: "column_schema list \<Rightarrow> (string \<times> val) list \<Rightarrow> row \<Rightarrow> row" where
  "assigned cs [] vs = vs"
| "assigned cs ((name, v) # as) vs = assigned cs as (vs[the (column_index name cs) := stored_value v])"

definition assigns_fit :: "column_schema list \<Rightarrow> (string \<times> val) list \<Rightarrow> bool" where
  "assigns_fit cs as \<longleftrightarrow>
     (\<forall>(name, v) \<in> set as. \<exists>i. column_index name cs = Some i \<and> value_fits (cs_type (cs ! i)) v)"

lemma row_fits_update:
  "row_fits cs vs \<Longrightarrow> i < length cs \<Longrightarrow> value_fits (cs_type (cs ! i)) v \<Longrightarrow> row_fits cs (vs[i := v])"
  by (auto simp: row_fits_def list_all2_conv_all_nth nth_list_update)

lemma layout_column_index_of:
  "layout_column_index (layout_of s) name = ok_or (ColumnNotFound name) (column_index name (ts_columns s))"
  by (simp add: layout_column_index_def layout_of_def position_column_layout)

lemma assign_values_ok:
  "row_fits (ts_columns s) vs \<Longrightarrow> assigns_fit (ts_columns s) as \<Longrightarrow>
     \<exists>ws. assign_values (layout_of s) as vs = Inr ws \<and> row_fits (ts_columns s) ws \<and>
       map stored_value ws = assigned (ts_columns s) as (map stored_value vs)"
proof (induction as arbitrary: vs)
  case (Cons a as)
  obtain name v where a: "a = (name, v)" by fastforce
  obtain i where i: "column_index name (ts_columns s) = Some i" "value_fits (cs_type (ts_columns s ! i)) v"
    using Cons.prems(2) a by (auto simp: assigns_fit_def)
  then have lt: "i < length (ts_columns s)" using column_index_less by blast
  have fits: "row_fits (ts_columns s) (vs[i := v])" by (rule row_fits_update [OF Cons.prems(1) lt i(2)])
  have "assigns_fit (ts_columns s) as" using Cons.prems(2) by (simp add: assigns_fit_def)
  then obtain ws where "assign_values (layout_of s) as (vs[i := v]) = Inr ws" "row_fits (ts_columns s) ws"
    "map stored_value ws = assigned (ts_columns s) as (map stored_value (vs[i := v]))"
    using Cons.IH [OF fits] by blast
  then show ?case
    using a i lt row_fits_length [OF Cons.prems(1)] by (simp add: layout_column_index_of map_update)
qed simp

lemma assigned_ok:
  assumes "row_ok (ts_columns s) vs" and "assigns_fit (ts_columns s) as"
  obtains ws where "assign_values (layout_of s) as vs = Inr ws" and "row_fits (ts_columns s) ws"
    and "map stored_value ws = assigned (ts_columns s) as vs" and "row_ok (ts_columns s) (assigned (ts_columns s) as vs)"
  using assign_values_ok [OF row_okD(1) [OF assms(1)] assms(2)] row_okD(2) [OF assms(1)] row_ok_stored by metis

definition updated :: "column_schema list \<Rightarrow> (string \<times> val) list \<Rightarrow> rid set \<Rightarrow> rows \<Rightarrow> rows" where
  "updated cs as A M = (\<lambda>r. if r \<in> A then map_option (assigned cs as) (M r) else M r)"

lemma update_record_row:
  assumes t: "table_holds t s M n" and r: "M r = Some vs" and ws: "row_fits (ts_columns s) ws"
  obtains t' where "on_records (update_record r (row_bytes (ts_columns s) ws)) t = (Inr (), t')"
    and "table_holds t' s (M(r \<mapsto> map stored_value ws)) n"
proof -
  let ?cs = "ts_columns s"
  note T = table_holdsD [OF t]
  obtain m ps where f: "rf_base m (tb_file t)" "rf_chain (tb_file t) ps" "rf_record_size (tb_file t) = total_len ?cs"
    "record_map (tb_file t) = row_map_bytes ?cs M" "unat (rf_num_pages (tb_file t)) \<le> n"
    using t by (rule table_holdsE)
  have len: "length (row_bytes ?cs ws) = rf_record_size (tb_file t)" using length_row_bytes [OF ws] f(3) by simp
  have "record_map (tb_file t) r \<noteq> None" using f(4) r by simp
  then obtain g where g: "update_record r (row_bytes ?cs ws) (tb_file t) = (Inr (), g)" "rf_base m g" "rf_chain g ps"
    "record_map g = (record_map (tb_file t))(r \<mapsto> row_bytes ?cs ws)" "rf_header g = rf_header (tb_file t)"
    by (rule update_record_ok [OF f(1,2) _ len])
  have map: "record_map g = row_map_bytes ?cs (M(r \<mapsto> map stored_value ws))"
    using g(4) f(4) row_bytes_stored [OF ws] by simp
  have "holds_records g (total_len ?cs) (row_map_bytes ?cs (M(r \<mapsto> map stored_value ws))) n"
    using holds_recordsI [OF g(2,3) _ map] g(5) f(3,5) by simp
  then have "table_holds (t\<lparr>tb_file := g\<rparr>) s (M(r \<mapsto> map stored_value ws)) n"
    using table_holds_file [OF t rows_ok_update(1) [OF T(4) row_ok_stored [OF ws]]] by blast
  then show thesis using that g(1) by (simp add: on_records_def)
qed

lemma update_records_ok:
  assumes fit: "assigns_fit (ts_columns s) as" and R: "\<forall>r \<in> set rs. \<exists>vs. M0 r = Some vs \<and> row_ok (ts_columns s) vs"
    and "distinct rs"
  shows "table_holds t s M n \<Longrightarrow> \<forall>r \<in> set rs. M r = M0 r \<Longrightarrow>
    \<exists>t'. update_records as (map (record_of (row_map_bytes (ts_columns s) M0)) rs) t = (Inr (length rs), t') \<and>
      table_holds t' s (updated (ts_columns s) as (set rs) M) n"
  using R \<open>distinct rs\<close>
proof (induction rs arbitrary: t M)
  case Nil
  then show ?case by (simp add: updated_def)
next
  case (Cons r rs)
  let ?cs = "ts_columns s"
  obtain vs where vs: "M0 r = Some vs" "row_ok ?cs vs" using Cons.prems(3) by auto
  then have r: "M r = Some vs" using Cons.prems(2) by simp
  note T = table_holdsD [OF Cons.prems(1)]
  obtain ws where ws: "assign_values (layout_of s) as vs = Inr ws" "row_fits ?cs ws"
    "map stored_value ws = assigned ?cs as vs"
    using assigned_ok [OF vs(2) fit] by metis
  obtain t1 where t1: "on_records (update_record r (row_bytes ?cs ws)) t = (Inr (), t1)"
    "table_holds t1 s (M(r \<mapsto> map stored_value ws)) n"
    by (rule update_record_row [OF Cons.prems(1) r ws(2)])
  obtain t2 where t2: "update_records as (map (record_of (row_map_bytes ?cs M0)) rs) t1 = (Inr (length rs), t2)"
    "table_holds t2 s (updated ?cs as (set rs) (M(r \<mapsto> map stored_value ws))) n"
  proof -
    have "\<forall>x \<in> set rs. (M(r \<mapsto> map stored_value ws)) x = M0 x" using Cons.prems(2,4) by auto
    moreover have "\<forall>x \<in> set rs. \<exists>vs. M0 x = Some vs \<and> row_ok ?cs vs" "distinct rs" using Cons.prems(3,4) by simp_all
    ultimately show thesis using that Cons.IH [OF t1(2)] by blast
  qed
  have "updated ?cs as (set rs) (M(r \<mapsto> map stored_value ws)) = updated ?cs as (set (r # rs)) M"
    using Cons.prems(4) r ws(3) by (auto simp: updated_def fun_eq_iff)
  moreover have "decode_record (tb_layout t) (record_of (row_map_bytes ?cs M0) r) = Inr vs"
    using decode_row_ok [OF vs(2)] T(2) vs(1) by (simp add: record_of_rows)
  moreover have "rec_rid (record_of (row_map_bytes ?cs M0) r) = r" by (simp add: record_of_def)
  ultimately show ?case using t1(1) t2 ws(1) encode_row_ok [OF ws(2)] T(2) by simp
qed

lemma update_where_ok:
  assumes t: "table_holds t s M n" and typed: "filter_typed (ts_columns s) e" and fit: "assigns_fit (ts_columns s) as"
  obtains t' where "update_where e as t = (Inr (length (selected (ts_columns s) e M)), t')"
    and "table_holds t' s (updated (ts_columns s) as (set (selected (ts_columns s) e M)) M) n"
proof -
  let ?cs = "ts_columns s"
  note T = table_holdsD [OF t] and S = selected_facts [OF finite_rows [OF t], of ?cs e]
  obtain t1 where t1: "collect_records e t = (Inr (map (record_of (row_map_bytes ?cs M)) (selected ?cs e M)), t1)"
    "table_holds t1 s M n"
    by (rule collect_records_ok [OF t typed])
  have "\<forall>r \<in> set (selected ?cs e M). \<exists>vs. M r = Some vs \<and> row_ok ?cs vs"
    using S(1) rows_okD [OF T(4)] by auto
  then obtain t2 where "update_records as (map (record_of (row_map_bytes ?cs M)) (selected ?cs e M)) t1 =
      (Inr (length (selected ?cs e M)), t2)" "table_holds t2 s (updated ?cs as (set (selected ?cs e M)) M) n"
    using update_records_ok [OF fit _ S(2) t1(2)] by blast
  then show thesis using that t1(1) by (simp add: update_where_def)
qed

subsection \<open>Deletion\<close>

definition without :: "rid set \<Rightarrow> rows \<Rightarrow> rows" where
  "without A M = (\<lambda>r. if r \<in> A then None else M r)"

lemma delete_record_row:
  assumes t: "table_holds t s M n" and r: "M r \<noteq> None"
  obtains t' where "on_records (delete_record r) t = (Inr (), t')" and "table_holds t' s (M(r := None)) n"
proof -
  let ?cs = "ts_columns s"
  note T = table_holdsD [OF t]
  obtain m ps where f: "rf_base m (tb_file t)" "rf_chain (tb_file t) ps" "rf_record_size (tb_file t) = total_len ?cs"
    "record_map (tb_file t) = row_map_bytes ?cs M" "unat (rf_num_pages (tb_file t)) \<le> n"
    using t by (rule table_holdsE)
  have "record_map (tb_file t) r \<noteq> None" using f(4) r by simp
  then obtain g qs where g: "delete_record r (tb_file t) = (Inr (), g)" "rf_base m g" "rf_chain g qs"
    "record_map g = (record_map (tb_file t))(r := None)" "rf_num_pages g = rf_num_pages (tb_file t)"
    "rf_slots g = rf_slots (tb_file t)" "rf_record_size g = rf_record_size (tb_file t)"
    by (rule delete_record_ok [OF f(1,2)])
  have map: "record_map g = row_map_bytes ?cs (M(r := None))" using g(4) f(4) by simp
  have "holds_records g (total_len ?cs) (row_map_bytes ?cs (M(r := None))) n"
    using holds_recordsI [OF g(2,3) _ map] g(5,7) f(3,5) by simp
  then have "table_holds (t\<lparr>tb_file := g\<rparr>) s (M(r := None)) n"
    using table_holds_file [OF t rows_ok_update(2) [OF T(4)]] by blast
  then show thesis using that g(1) by (simp add: on_records_def)
qed

lemma delete_records_ok:
  "table_holds t s M n \<Longrightarrow> set rs \<subseteq> dom M \<Longrightarrow> distinct rs \<Longrightarrow>
    \<exists>t'. delete_records (map (record_of R) rs) t = (Inr (length rs), t') \<and> table_holds t' s (without (set rs) M) n"
proof (induction rs arbitrary: t M)
  case Nil
  then show ?case by (simp add: without_def)
next
  case (Cons r rs)
  have r: "M r \<noteq> None" using Cons.prems(2) by auto
  obtain t1 where t1: "on_records (delete_record r) t = (Inr (), t1)" "table_holds t1 s (M(r := None)) n"
    by (rule delete_record_row [OF Cons.prems(1) r])
  have "set rs \<subseteq> dom (M(r := None))" "distinct rs" using Cons.prems(2,3) by auto
  then obtain t2 where t2: "delete_records (map (record_of R) rs) t1 = (Inr (length rs), t2)"
    "table_holds t2 s (without (set rs) (M(r := None))) n"
    using Cons.IH [OF t1(2)] by blast
  have "without (set rs) (M(r := None)) = without (set (r # rs)) M" by (auto simp: without_def fun_eq_iff)
  moreover have "rec_rid (record_of R r) = r" by (simp add: record_of_def)
  ultimately show ?case using t1(1) t2 by simp
qed

lemma delete_where_ok:
  assumes t: "table_holds t s M n" and typed: "filter_typed (ts_columns s) e"
  obtains t' where "delete_where e t = (Inr (length (selected (ts_columns s) e M)), t')"
    and "table_holds t' s (without (set (selected (ts_columns s) e M)) M) n"
proof -
  let ?cs = "ts_columns s"
  note S = selected_facts [OF finite_rows [OF t], of ?cs e]
  obtain t1 where t1: "collect_records e t = (Inr (map (record_of (row_map_bytes ?cs M)) (selected ?cs e M)), t1)"
    "table_holds t1 s M n"
    by (rule collect_records_ok [OF t typed])
  have "set (selected ?cs e M) \<subseteq> dom M" using S(1) by auto
  then obtain t2 where "delete_records (map (record_of (row_map_bytes ?cs M)) (selected ?cs e M)) t1 =
      (Inr (length (selected ?cs e M)), t2)" "table_holds t2 s (without (set (selected ?cs e M)) M) n"
    using delete_records_ok [OF t1(2) _ S(2)] by blast
  then show thesis using that t1(1) by (simp add: delete_where_def)
qed

subsection \<open>The entries of an index\<close>

fun int_key :: "val \<Rightarrow> i32" where
  "int_key (V_Int32 n) = n"
| "int_key _ = 0"

definition entries_of :: "nat \<Rightarrow> rows \<Rightarrow> index_entry list" where
  "entries_of i M = map (\<lambda>r. \<lparr>ie_key = int_key (the (M r) ! i), ie_rid = r\<rparr>) (rids_of M)"

lemma index_entries_ok:
  assumes t: "table_holds t s M n" and i: "column_index column (ts_columns s) = Some i"
    and ty: "cs_type (ts_columns s ! i) = CT_Int32"
  obtains t' where "index_entries_for_int32_column column t = (Inr (entries_of i M), t')" and "table_holds t' s M n"
proof -
  let ?cs = "ts_columns s" and ?R = "row_map_bytes (ts_columns s) M"
  note T = table_holdsD [OF t]
  obtain t' where t': "collect_records None t = (Inr (map (record_of ?R) (selected ?cs None M)), t')" "table_holds t' s M n"
  proof (rule collect_records_ok [OF t])
    show "filter_typed ?cs None" by (simp add: filter_typed_def)
  qed
  have lt: "i < length ?cs" using column_index_less [OF i] by blast
  have all: "selected ?cs None M = rids_of M" by (simp add: selected_def row_selected_def)
  have "index_entries (layout_of s) i (map (record_of ?R) rs) =
      Inr (map (\<lambda>r. \<lparr>ie_key = int_key (the (M r) ! i), ie_rid = r\<rparr>) rs)" if "set rs \<subseteq> dom M" for rs
    using that
  proof (induction rs)
    case (Cons r rs)
    obtain vs where vs: "M r = Some vs" using Cons.prems by auto
    note ok = rows_okD [OF T(4) vs]
    have fits: "value_fits CT_Int32 (vs ! i)" using row_fits_nth [OF row_okD(1) [OF ok] lt] ty by simp
    then obtain k where "vs ! i = V_Int32 k" by (cases "vs ! i") simp_all
    moreover have "i < length vs" using row_fits_length [OF row_okD(1) [OF ok]] lt by simp
    ultimately have "row_key i vs = Inr (int_key (vs ! i))" by (simp add: row_key_def)
    moreover have "decode_record (layout_of s) (record_of ?R r) = Inr vs"
      using decode_row_ok [OF ok] vs by (simp add: record_of_rows)
    moreover have "rec_rid (record_of ?R r) = r" by (simp add: record_of_def)
    ultimately show ?case using Cons vs by simp
  qed simp
  moreover have "set (rids_of M) \<subseteq> dom M" using rids_of_facts(1) [OF finite_rows [OF t]] by simp
  ultimately have "index_entries (tb_layout t') i (map (record_of ?R) (rids_of M)) = Inr (entries_of i M)"
    using table_holdsD(2) [OF t'(2)] by (simp add: entries_of_def)
  then have "index_entries_for_int32_column column t = (Inr (entries_of i M), t')"
    using t'(1) i T(2) all by (simp add: index_entries_for_int32_column_def layout_column_index_of)
  then show thesis using that t'(2) by blast
qed

end
