(* ===== verification/Table_Termination.thy ===== *)
theory Table_Termination
  imports Table_Updates
begin

section \<open>Scans end\<close>

text \<open>
  The fuel of the scan loops is enough for every record file, whatever its pages hold and
  whatever its device does: each step moves the cursor by one slot, and a file has
  \<open>num_pages * slots_per_page\<close> of them.
\<close>

subsection \<open>One step\<close>

definition diverges :: "record_error + 'a \<Rightarrow> bool" where
  "diverges r \<longleftrightarrow> r = Inl RE_Diverges"

lemma diverges_simps [simp]:
  "\<not> diverges (Inr x)" "diverges (Inl e) \<longleftrightarrow> e = RE_Diverges"
  "diverges (and_then r k) \<longleftrightarrow> diverges r \<or> (\<exists>x. r = Inr x \<and> diverges (k x))"
  "diverges (if b then r else s) \<longleftrightarrow> (if b then diverges r else diverges s)"
  by (cases r; auto simp: diverges_def)+

lemma read_steps_end:
  "\<not> diverges (read_page_header n bs)" "\<not> diverges (record_range f i)" "\<not> diverges (read_used_slot f p i bs)"
proof -
  show h: "\<not> diverges (read_page_header n bs)" for n bs
    by (auto simp: read_page_header_def diverges_def page_header_decode_def page_header_validate_def Let_def and_then_Inl_iff split: if_splits)
  show r: "\<not> diverges (record_range f i)" for i
    by (auto simp: record_range_def diverges_def Let_def split: if_splits)
  show "\<not> diverges (read_used_slot f p i bs)"
    using h r by (simp add: read_used_slot_def)
qed

lemma read_record_if_used_ends:
  assumes "read_record_if_used p i f = (r, g)"
  shows "\<not> diverges r" and "rf_header g = rf_header f"
  using assms read_steps_end(3)
  by (auto simp: read_record_if_used_def with_page_def split: if_splits prod.splits sum.splits)

text \<open>The number of slots from the cursor on.\<close>

definition slots_left :: "record_file \<Rightarrow> record_scan \<Rightarrow> nat" where
  "slots_left f sc = (Suc (unat (rf_num_pages f)) - unat (sc_page_id sc)) * rf_slots f - unat (sc_slot_id sc)"

definition cursor_ok :: "record_file \<Rightarrow> record_scan \<Rightarrow> bool" where
  "cursor_ok f sc \<longleftrightarrow> unat (sc_page_id sc) \<le> Suc (unat (rf_num_pages f)) \<and> unat (sc_slot_id sc) < rf_slots f"

definition scannable :: "record_file \<Rightarrow> bool" where
  "scannable f \<longleftrightarrow> 0 < rf_slots f \<and> unat (rf_num_pages f) < 4294967295"

lemma scan_measure_header:
  "rf_header g = rf_header f \<Longrightarrow> slots_left g = slots_left f \<and> cursor_ok g = cursor_ok f \<and> scannable g = scannable f"
  by (simp add: fun_eq_iff slots_left_def cursor_ok_def scannable_def)

lemma advance_cursor_measure:
  assumes f: "scannable f" and sc: "cursor_ok f sc" and p: "\<not> rf_num_pages f < sc_page_id sc"
  shows "cursor_ok f (advance_cursor f sc)" and "Suc (slots_left f (advance_cursor f sc)) = slots_left f sc"
    and "sc_predicate (advance_cursor f sc) = sc_predicate sc"
proof -
  let ?N = "unat (rf_num_pages f)" and ?n = "rf_slots f" and ?p = "unat (sc_page_id sc)" and ?s = "unat (sc_slot_id sc)"
  have le: "?p \<le> ?N" "?s < ?n" "?N < 4294967295" "?n = unat (rh_slots_per_page (rf_header f))"
    using f sc p by (simp_all add: scannable_def cursor_ok_def word_less_nat_alt)
  have p1: "unat (sc_page_id sc + 1) = Suc ?p" 
    using le(1,3) checked_add_u32_one [of "sc_page_id sc"] by simp
  have s1: "unat (sc_slot_id sc + 1) = Suc ?s" 
    using le(2,4) unat_u32_less [of "rh_slots_per_page (rf_header f)"] checked_add_u32_one [of "sc_slot_id sc"] by simp
  obtain q where q: "Suc ?N - ?p = Suc q" using le(1) by (metis Suc_diff_le)
  then have q': "?N - ?p = q" by simp
  show "cursor_ok f (advance_cursor f sc)"
    using le p1 s1 by (simp add: advance_cursor_def cursor_ok_def word_less_nat_alt)
  show "Suc (slots_left f (advance_cursor f sc)) = slots_left f sc"
    using le p1 s1 q q' by (auto simp: advance_cursor_def slots_left_def word_less_nat_alt)
  show "sc_predicate (advance_cursor f sc) = sc_predicate sc" by (simp add: advance_cursor_def)
qed

subsection \<open>The loops\<close>

lemma next_record_loop_ends:
  assumes pred: "\<And>d. \<not> diverges (P d)"
  shows "scannable f \<Longrightarrow> cursor_ok f sc \<Longrightarrow> sc_predicate sc = P \<Longrightarrow> slots_left f sc \<le> fuel \<Longrightarrow>
    next_record_loop fuel (sc, f) = (r, (sc', f')) \<Longrightarrow>
    \<not> diverges r \<and> rf_header f' = rf_header f \<and> cursor_ok f sc' \<and> sc_predicate sc' = P \<and>
    (\<forall>rec. r = Inr (Some rec) \<longrightarrow> slots_left f sc' < slots_left f sc)"
proof (induction fuel arbitrary: sc f)
  case 0
  have "rf_num_pages f < sc_page_id sc"
  proof (rule ccontr)
    assume "\<not> rf_num_pages f < sc_page_id sc"
    from advance_cursor_measure(2) [OF 0(1,2) this] 0(4) show False by simp
  qed
  then show ?case using 0 by auto
next
  case (Suc fuel)
  show ?case
  proof (cases "rf_num_pages f < sc_page_id sc")
    case True
    then show ?thesis using Suc.prems by auto
  next
    case False
    note A = advance_cursor_measure [OF Suc.prems(1,2) False]
    obtain x g where x: "read_record_if_used (sc_page_id sc) (unat (sc_slot_id sc)) f = (x, g)" by fastforce
    note R = read_record_if_used_ends [OF x] and H = scan_measure_header [OF read_record_if_used_ends(2) [OF x]]
    have rest: "\<not> diverges r \<and> rf_header f' = rf_header f \<and> cursor_ok f sc' \<and> sc_predicate sc' = P \<and>
        (\<forall>rec. r = Inr (Some rec) \<longrightarrow> slots_left f sc' < slots_left f sc)"
      if run: "next_record_loop fuel (advance_cursor f sc, g) = (r, (sc', f'))"
    proof -
      have "scannable g" "cursor_ok g (advance_cursor f sc)" "sc_predicate (advance_cursor f sc) = P"
        "slots_left g (advance_cursor f sc) \<le> fuel"
        using H A Suc.prems(1,3,4) by simp_all
      from Suc.IH [OF this run] H A(2) R(2) show ?thesis by auto
    qed
    show ?thesis
    proof (cases x)
      case (Inl e)
      then show ?thesis using Suc.prems(3,5) False x R A by auto
    next
      case found: (Inr y)
      show ?thesis
      proof (cases y)
        case None
        then show ?thesis using rest Suc.prems(5) False x found by simp
      next
        case (Some rec)
        show ?thesis
        proof (cases "P (rec_data rec)")
          case (Inl e)
          then show ?thesis
            using Suc.prems(3,5) False x R A found Some pred [of "rec_data rec"] by auto
        next
          case (Inr b)
          then show ?thesis
            using rest Suc.prems(3,5) False x R A found Some by (cases b) auto
        qed
      qed
    qed
  qed
qed

lemma next_record_ends:
  assumes "\<And>d. \<not> diverges (P d)" and "scannable f" and "cursor_ok f sc" and "sc_predicate sc = P"
    and "slots_left f sc \<le> rf_positions f" and "next_record (sc, f) = (r, (sc', f'))"
  shows "\<not> diverges r \<and> rf_header f' = rf_header f \<and> cursor_ok f sc' \<and> sc_predicate sc' = P \<and>
    (\<forall>rec. r = Inr (Some rec) \<longrightarrow> slots_left f sc' < slots_left f sc)"
  using assms by (intro next_record_loop_ends [OF assms(1-5)]) (simp_all add: next_record_def rf_positions_def)

lemma rf_positions_header: "rf_header g = rf_header f \<Longrightarrow> rf_positions g = rf_positions f"
  by (simp add: rf_positions_def)

lemma drain_scan_ends:
  assumes pred: "\<And>d. \<not> diverges (P d)"
  shows "scannable f \<Longrightarrow> cursor_ok f sc \<Longrightarrow> sc_predicate sc = P \<Longrightarrow> slots_left f sc \<le> rf_positions f \<Longrightarrow>
    slots_left f sc < fuel \<Longrightarrow> \<not> diverges (fst (drain_scan fuel (sc, f)))"
proof (induction fuel arbitrary: sc f)
  case (Suc fuel)
  obtain r sc' f' where step: "next_record (sc, f) = (r, (sc', f'))" by (metis prod.exhaust)
  note N = next_record_ends [OF pred Suc.prems(1-4) step]
  have H: "slots_left f' = slots_left f" "cursor_ok f' = cursor_ok f" "scannable f' = scannable f"
    "rf_positions f' = rf_positions f"
    using N scan_measure_header rf_positions_header by blast+
  have rest: "\<not> diverges (fst (drain_scan fuel (sc', f')))" if "r = Inr (Some rec)" for rec
    using Suc.IH [of f' sc'] N H Suc.prems that by simp
  show ?case
  proof (cases r)
    case (Inl e)
    then show ?thesis using N step by simp
  next
    case (Inr x)
    obtain y st where y: "drain_scan fuel (sc', f') = (y, st)" by (cases "drain_scan fuel (sc', f')")
    show ?thesis using step Inr rest y by (cases x; cases y) auto
  qed
qed simp

lemma scan_rows_ends:
  assumes pred: "\<And>d. \<not> diverges (P d)" and dec: "\<And>rec. decode_record layout rec \<noteq> Inl (TE_Record RE_Diverges)"
  shows "scannable f \<Longrightarrow> cursor_ok f sc \<Longrightarrow> sc_predicate sc = P \<Longrightarrow> slots_left f sc \<le> rf_positions f \<Longrightarrow>
    slots_left f sc < fuel \<Longrightarrow> fst (scan_rows layout fuel (sc, f)) \<noteq> Inl (TE_Record RE_Diverges)"
proof (induction fuel arbitrary: sc f)
  case (Suc fuel)
  obtain r sc' f' where step: "next_record (sc, f) = (r, (sc', f'))" by (metis prod.exhaust)
  note N = next_record_ends [OF pred Suc.prems(1-4) step]
  have H: "slots_left f' = slots_left f" "cursor_ok f' = cursor_ok f" "scannable f' = scannable f"
    "rf_positions f' = rf_positions f"
    using N scan_measure_header rf_positions_header by blast+
  have rest: "fst (scan_rows layout fuel (sc', f')) \<noteq> Inl (TE_Record RE_Diverges)" if "r = Inr (Some rec)" for rec
    using Suc.IH [of f' sc'] N H Suc.prems that by simp
  show ?case
  proof (cases r)
    case (Inl e)
    then show ?thesis using N step by simp
  next
    case (Inr x)
    show ?thesis
    proof (cases x)
      case (Some rec)
      obtain y st where y: "scan_rows layout fuel (sc', f') = (y, st)" by (cases "scan_rows layout fuel (sc', f')")
      show ?thesis
        using step Inr Some rest [of rec] dec [of rec] y
        by (cases "decode_record layout rec"; cases y) auto
    qed (use step Inr in simp)
  qed
qed simp

subsection \<open>The predicates of a table's scans\<close>

lemma diverges_cases [simp]:
  "diverges (ok_or e y) \<longleftrightarrow> y = None \<and> e = RE_Diverges"
  "diverges (case b of True \<Rightarrow> r | False \<Rightarrow> s) \<longleftrightarrow> (if b then diverges r else diverges s)"
  by (cases y; simp) (simp split: bool.split)

lemma clause_ends: "\<not> diverges (clause_validate c n)" "\<not> diverges (clause_matches c d)"
proof -
  have field: "\<not> diverges (validate_field fr n)" for fr n
    by (cases "sf_type fr") (simp_all add: validate_field_def)
  have val: "\<not> diverges (validate_value_against_field fr v)" for fr v
    by (cases "sf_type fr"; cases v) (simp_all add: validate_value_against_field_def)
  have bytes: "\<not> diverges (field_bytes d fr)" for fr using field by (simp add: field_bytes_def)
  have cmp_value: "\<not> diverges (compare_field_to_value l ty v)" for l ty v by (cases ty; cases v) simp_all
  have cmp_field: "\<not> diverges (compare_fields l ty r)" for l ty r by (cases ty) simp_all
  show valid: "\<not> diverges (clause_validate c n)" for n
    using field val by (cases "pc_rhs c") (simp_all add: clause_validate_def)
  show "\<not> diverges (clause_matches c d)"
    using valid bytes cmp_value cmp_field by (cases "pc_rhs c") (simp_all add: clause_matches_def)
qed

lemma compound_ends: "\<not> diverges (compound_validate cs n)" "\<not> diverges (compound_matches cs d)"
proof -
  show valid: "\<not> diverges (compound_validate cs n)" for n by (induction cs) (simp_all add: clause_ends)
  have "\<not> diverges (compound_loop cs d)" by (induction cs) (simp_all add: clause_ends)
  then show "\<not> diverges (compound_matches cs d)" using valid by (simp add: compound_matches_def)
qed

lemma logic_validate_ends: "\<not> diverges (logic_validate f n)" "\<not> diverges (logic_validate_all fs n)"
  by (induction f n and fs n rule: logic_validate_logic_validate_all.induct) (simp_all add: clause_ends compound_ends)

lemma logic_matches_ends:
  "\<not> diverges (logic_matches f d)" "\<not> diverges (logic_matches_all fs d)" "\<not> diverges (logic_matches_any gs d)"
proof (induction f d and fs d and gs d rule: logic_matches_logic_matches_all_logic_matches_any.induct)
qed (use logic_validate_ends in \<open>simp_all add: clause_ends compound_ends del: logic_validate.simps\<close>)

lemma compile_expr_records:
  "compile_expr layout e = Inl (TE_Record err) \<Longrightarrow> err \<noteq> RE_Diverges"
  "compile_exprs layout es = Inl (TE_Record err) \<Longrightarrow> err \<noteq> RE_Diverges"
proof (induction layout e and layout es arbitrary: err and err rule: compile_expr_compile_exprs.induct)
  case (1 layout column op v)
  have "scan_value_of c ty v \<noteq> Inl (TE_Record err)" for c ty by (cases ty; cases v) (auto simp: Let_def)
  then show ?case using 1 by (auto simp: and_then_Inl_iff layout_column_of_def)
qed (auto simp: and_then_Inl_iff layout_column_of_def logic_and_def logic_or_def map_err_Inl_iff split: if_splits)

lemma decode_record_records: "decode_record layout rec \<noteq> Inl (TE_Record err)"
proof -
  have "decode_value bs c \<noteq> Inl (TE_Record err)" for bs c
    by (cases "lc_type c") (auto simp: decode_value_def slice_of_def and_then_Inl_iff split: if_splits)
  then have "decode_values bs cs \<noteq> Inl (TE_Record err)" for bs cs
    by (induction cs) (auto simp: and_then_Inl_iff)
  then show ?thesis by (simp add: decode_record_def)
qed

lemma table_scan_of_ends:
  "(\<forall>err. table_scan_of e t = Inl (TE_Record err) \<longrightarrow> err \<noteq> RE_Diverges) \<and>
   (\<forall>sc. table_scan_of e t = Inr sc \<longrightarrow> (\<exists>P. sc = scan_from_start P \<and> (\<forall>d. \<not> diverges (P d))))"
proof (cases e)
  case None
  then show ?thesis by (auto simp: table_scan_of_def scan_all_def)
next
  case (Some x)
  have "scan_with_logic f (tb_file t) \<noteq> Inl RE_Diverges" for f
    using logic_validate_ends(1) by (auto simp: scan_with_logic_def and_then_Inl_iff diverges_def)
  then show ?thesis
    using Some compile_expr_records(1) logic_matches_ends(1)
    by (auto simp: table_scan_of_def and_then_Inl_iff map_err_Inl_iff scan_with_logic_def)
qed

lemma scan_from_start_ok:
  "scannable f \<Longrightarrow> cursor_ok f (scan_from_start P) \<and> slots_left f (scan_from_start P) \<le> rf_positions f \<and>
     sc_predicate (scan_from_start P) = P"
  by (simp add: cursor_ok_def slots_left_def scannable_def scan_from_start_def HEADER_PAGE_ID_def rf_positions_def)

end
