(* ===== verification/Table_Properties.thy ===== *)
theory Table_Properties
  imports Table_Termination
begin

section \<open>Properties of schemas, rows, filters and scans\<close>

text \<open>
  What a caller of the table layer can rely on: layouts, the storage of rows, the meaning of
  filters and the termination of scans.
\<close>

definition student_schema :: table_schema where
  "student_schema = \<lparr>ts_name = ''student'',
     ts_columns = [\<lparr>cs_name = ''id'', cs_type = CT_Int32\<rparr>, \<lparr>cs_name = ''name'', cs_type = CT_Char 8\<rparr>]\<rparr>"

lemma student_columns:
  "ts_columns student_schema = [\<lparr>cs_name = ''id'', cs_type = CT_Int32\<rparr>, \<lparr>cs_name = ''name'', cs_type = CT_Char 8\<rparr>]"
  "ts_name student_schema = ''student''" "total_len (ts_columns student_schema) = 12"
  by (simp_all add: student_schema_def)

lemma student_schema_ok: "schema_ok student_schema"
  by (simp add: schema_ok_def columns_ok_def student_schema_def is_identifier_def identifier_char_def Let_def of_char_byte
      word_le_nat_alt)

definition student_row :: row where
  "student_row = [V_Int32 7, V_Char ''Ann'']"

lemma student_row_fits: "row_fits (ts_columns student_schema) student_row"
  by (simp add: student_columns student_row_def is_str_def utf8_width_def)

text \<open>C36: A schema compiles exactly if its names are identifiers, its columns are distinct, not empty and of
  positive length, and the record size does not overflow; the layout then has the columns in order, each at the
  end of the one before it, and the record ends with the last column.\<close>

theorem schema_layout_correct:
  "case compile_schema s of
     Inl e \<Rightarrow> \<not> schema_ok s
   | Inr layout \<Rightarrow> schema_ok s \<and>
       map lc_name (sl_columns layout) = map cs_name (ts_columns s) \<and>
       map lc_type (sl_columns layout) = map cs_type (ts_columns s) \<and> lc_offset (hd (sl_columns layout)) = 0 \<and>
       (\<forall>i < length (ts_columns s). lc_offset (sl_columns layout ! i) + fixed_len (cs_type (ts_columns s ! i)) =
          (if Suc i < length (ts_columns s) then lc_offset (sl_columns layout ! Suc i) else sl_record_size layout))"
proof (cases "compile_schema s")
  case (Inl e)
  then show ?thesis using compile_schema_ok [of s] by auto
next
  case (Inr layout)
  then have layout: "schema_ok s" "layout = layout_of s" "ts_columns s \<noteq> []" by (simp_all add: compile_schema_iff schema_ok_def)
  let ?cs = "ts_columns s"
  have "lc_offset (layout_columns 0 ?cs ! i) + fixed_len (cs_type (?cs ! i)) =
      (if Suc i < length ?cs then lc_offset (layout_columns 0 ?cs ! Suc i) else total_len ?cs)" if i: "i < length ?cs" for i
  proof -
    have "total_len (take (Suc i) ?cs) = total_len (take i ?cs) + fixed_len (cs_type (?cs ! i))"
      using i by (simp add: take_Suc_conv_app_nth)
    moreover have "take (Suc i) ?cs = ?cs" if "\<not> Suc i < length ?cs" using that by simp
    ultimately show ?thesis using i by (cases "Suc i < length ?cs") (simp_all add: layout_columns_offset)
  qed
  moreover have "lc_offset (hd (layout_columns 0 ?cs)) = 0" using layout(3) by (cases ?cs) simp_all
  ultimately show ?thesis using Inr layout(1) by (simp add: layout(2) layout_of_def)
qed

theorem schema_layout_correct_witness:
  "map lc_offset (sl_columns (layout_of student_schema)) = [0, 4] \<and> sl_record_size (layout_of student_schema) = 12 \<and>
   lc_offset (sl_columns (layout_of student_schema) ! 0) + 4 = lc_offset (sl_columns (layout_of student_schema) ! 1)"
proof -
  have "compile_schema student_schema = Inr (layout_of student_schema)"
    using student_schema_ok by (rule compile_schema_ok)
  then have "lc_offset (sl_columns (layout_of student_schema) ! 0) + 4 = lc_offset (sl_columns (layout_of student_schema) ! 1)"
    using schema_layout_correct [of student_schema] by (simp add: student_columns All_less_Suc)
  moreover have "map lc_offset (sl_columns (layout_of student_schema)) = [0, 4]" "sl_record_size (layout_of student_schema) = 12"
    by (simp_all add: layout_of_def student_columns)
  ultimately show ?thesis by simp
qed

text \<open>C15: A row that fits its schema is stored in exactly the record size of the layout and read back as it was,
  except that text loses its trailing NUL characters.\<close>

theorem row_round_trip:
  assumes "compile_schema s = Inr layout" and "row_fits (ts_columns s) vs"
  shows "\<exists>bytes. encode_row layout vs = Inr bytes \<and> length bytes = sl_record_size layout \<and>
    decode_record layout \<lparr>rec_rid = r, rec_data = bytes\<rparr> = Inr (map stored_value vs)"
  using assms encode_row_ok [OF assms(2)] length_row_bytes [OF assms(2)] decode_row_bytes [OF assms(2)]
  by (auto simp: compile_schema_iff layout_of_def decode_record_def)

theorem row_round_trip_witness:
  "\<exists>bytes. encode_row (layout_of student_schema) student_row = Inr bytes \<and> length bytes = 12 \<and>
     decode_record (layout_of student_schema) \<lparr>rec_rid = \<lparr>rid_page_id = 1, rid_slot_id = 0\<rparr>, rec_data = bytes\<rparr> =
       Inr [V_Int32 7, V_Char ''Ann'']"
  using row_round_trip [OF compile_schema_ok [OF student_schema_ok] student_row_fits, of "\<lparr>rid_page_id = 1, rid_slot_id = 0\<rparr>"]
  by (simp add: layout_of_def student_columns) (simp add: student_row_def strip_nuls_def)

text \<open>C16: A filter expression is accepted for a schema exactly if it is well typed: its columns exist, values
  suit them, compared columns have the same type, and no conjunction or disjunction is empty.  The compiled filter,
  evaluated on the bytes of a row, then never fails and gives the meaning of the expression on the row's values.\<close>

theorem filter_compiled_correct:
  assumes "schema_ok s"
  shows "(accepted s e \<longleftrightarrow> expr_typed (ts_columns s) e) \<and>
    (expr_typed (ts_columns s) e \<and> row_fits (ts_columns s) vs \<longrightarrow>
      (\<exists>flt. compile_expr (layout_of s) e = Inr flt \<and>
        logic_matches flt (row_bytes (ts_columns s) vs) = Inr (expr_holds (ts_columns s) e (map stored_value vs))))"
proof (intro conjI impI)
  show typed: "accepted s e \<longleftrightarrow> expr_typed (ts_columns s) e" by (rule accepted_typed [OF assms])
  assume t: "expr_typed (ts_columns s) e \<and> row_fits (ts_columns s) vs"
  then obtain flt where flt: "compile_expr (layout_of s) e = Inr flt"
    "logic_validate flt (total_len (ts_columns s)) = Inr ()"
    using typed by (auto simp: accepted_def)
  then have "logic_matches flt (row_bytes (ts_columns s) vs) = Inr (logic_holds flt (row_bytes (ts_columns s) vs))"
    using length_row_bytes t by (intro logic_matches_holds(1)) simp
  then show "\<exists>flt. compile_expr (layout_of s) e = Inr flt \<and>
      logic_matches flt (row_bytes (ts_columns s) vs) = Inr (expr_holds (ts_columns s) e (map stored_value vs))"
    using flt(1) compiled_holds [OF _ flt(1)] t by auto
qed

definition student_filter :: expr where
  "student_filter = E_And [E_CmpValue ''id'' Op_Gt (V_Int32 5), E_Not (E_CmpValue ''name'' Op_Eq (V_Char ''Bob''))]"

lemma student_filter_facts:
  "expr_typed (ts_columns student_schema) student_filter"
  "expr_holds (ts_columns student_schema) student_filter (map stored_value student_row)"
  by (simp_all add: student_filter_def student_columns column_type_of_def student_row_def column_value_def
      strip_nuls_def cmp_i32_def)

theorem filter_compiled_correct_witness:
  "\<exists>flt. compile_expr (layout_of student_schema) student_filter = Inr flt \<and>
     logic_matches flt (row_bytes (ts_columns student_schema) student_row) = Inr True"
  using filter_compiled_correct [OF student_schema_ok, of student_filter student_row] student_filter_facts student_row_fits
  by simp

text \<open>C17: A scan of a table ends: for every content of the pages and every behaviour of the device, the loop over the
  slots never runs out of them before its cursor passes the last page, provided the header's page count leaves room
  for the cursor.\<close>

theorem table_scan_terminates:
  assumes "0 < rf_slots (tb_file t)" and "unat (rf_num_pages (tb_file t)) < 4294967295"
  shows "fst (table_scan e t) \<noteq> Inl (TE_Record RE_Diverges) \<and>
    fst (collect_records e t) \<noteq> Inl (TE_Record RE_Diverges)"
proof -
  let ?f = "tb_file t"
  have f: "scannable ?f" using assms by (simp add: scannable_def)
  show ?thesis
  proof (cases "table_scan_of e t")
    case (Inl err)
    then show ?thesis using table_scan_of_ends [of e t] by (auto simp: table_scan_def collect_records_def)
  next
    case (Inr sc)
    then obtain P where P: "sc = scan_from_start P" "\<And>d. \<not> diverges (P d)" using table_scan_of_ends [of e t] by blast
    note S = scan_from_start_ok [OF f, of P]
    have "fst (scan_rows (tb_layout t) (Suc (rf_positions ?f)) (sc, ?f)) \<noteq> Inl (TE_Record RE_Diverges)"
      using P S by (intro scan_rows_ends [OF P(2) decode_record_records f]) simp_all
    moreover have "\<not> diverges (fst (drain_scan (Suc (rf_positions ?f)) (sc, ?f)))"
      using P S by (intro drain_scan_ends [OF P(2) f]) simp_all
    ultimately show ?thesis
      using Inr by (auto simp: table_scan_def collect_records_def on_records_def collect_scan_def diverges_def
          simp del: scan_rows.simps drain_scan.simps split: prod.splits)
  qed
qed

definition broken_table :: table where
  "broken_table = \<lparr>tb_schema = student_schema, tb_layout = layout_of student_schema,
     tb_file = \<lparr>rf_pool = pool_new 1, rf_file_id = 0,
       rf_header = \<lparr>rh_record_size = 12, rh_slots_per_page = 300, rh_first_free_page = - 1, rh_num_pages = 5\<rparr>,
       rf_header_dirty = False\<rparr>\<rparr>"

theorem table_scan_terminates_witness:
  "fst (table_scan (Some student_filter) broken_table) \<noteq> Inl (TE_Record RE_Diverges)"
  using table_scan_terminates [of broken_table "Some student_filter"] by (simp add: broken_table_def)

end
