(* ===== verification/Database.thy ===== *)
theory Database
  imports Table_Updates Index_Properties
begin

section \<open>The database (\<open>src/table/mod.rs\<close>)\<close>

text \<open>
  A database is its two catalogs in memory with the directory they are stored in.  A table is
  opened from the directory and closed into it: \<open>close_table\<close> is what the drop of a \<open>Table\<close>
  leaves, on the error exits of the callers too.
\<close>

record database =
  db_disk :: disk
  db_catalog :: catalog
  db_indexes :: index_catalog

text \<open>A call on the directory, its error converted.\<close>

definition on_dir :: "('e \<Rightarrow> table_error) \<Rightarrow> (disk \<Rightarrow> ('e + 'a) \<times> disk) \<Rightarrow> database \<Rightarrow> (table_error + 'a) \<times> database" where
  "on_dir h m db = (case m (db_disk db) of (r, d) \<Rightarrow> (map_err h r, db\<lparr>db_disk := d\<rparr>))"

definition database_open :: "disk \<Rightarrow> (table_error + database) \<times> disk" where
  "database_open d =
     (case fs_create_dir_all d of
        (Inl e, d) \<Rightarrow> (Inl (TE_Io e), d)
      | (Inr _, d) \<Rightarrow>
        (case catalog_load d of
           (Inl e, d) \<Rightarrow> (Inl e, d)
         | (Inr catalog, d) \<Rightarrow>
           (case index_catalog_load d of
              (Inl e, d) \<Rightarrow> (Inl (TE_Index e), d)
            | (Inr indexes, d) \<Rightarrow>
                (Inr \<lparr>db_disk = d, db_catalog = catalog, db_indexes = indexes\<rparr>, d))))"

definition create_table :: "table_schema \<Rightarrow> database \<Rightarrow> (table_error + unit) \<times> database" where
  "create_table schema db =
     and_then_st (compile_schema schema, db) (\<lambda>layout db.
       if bt_contains (ts_name schema) (db_catalog db) then (Inl (DuplicateTable (ts_name schema)), db)
       else
         and_then_st (on_dir TE_Record (record_manager_create (table_path (ts_name schema)) (sl_record_size layout)) db) (\<lambda>_ db.
           let db = db\<lparr>db_catalog := bt_insert (ts_name schema) schema (db_catalog db)\<rparr>
           in on_dir id (catalog_save (db_catalog db)) db))"

fun drop_indexes :: "index_meta list \<Rightarrow> database \<Rightarrow> (table_error + unit) \<times> database" where
  "drop_indexes [] db = (Inr (), db)"
| "drop_indexes (meta # metas) db =
     and_then_st (on_dir TE_Index (delete_index_file (im_name meta)) db) (\<lambda>_ db.
       case index_catalog_remove (im_name meta) (db_indexes db) of
         (r, m) \<Rightarrow> and_then_st (map_err TE_Index r, db\<lparr>db_indexes := m\<rparr>) (\<lambda>_. drop_indexes metas))"

definition drop_table :: "string \<Rightarrow> database \<Rightarrow> (table_error + unit) \<times> database" where
  "drop_table name db =
     (if \<not> bt_contains name (db_catalog db) then (Inl (TableNotFound name), db)
      else
        and_then_st (drop_indexes (indexes_for_table name (db_indexes db)) db) (\<lambda>_ db.
        and_then_st (on_dir TE_Io (fs_remove_file (table_path name)) db) (\<lambda>_ db.
          let db = db\<lparr>db_catalog := bt_remove name (db_catalog db)\<rparr> in
          and_then_st (on_dir id (catalog_save (db_catalog db)) db) (\<lambda>_ db.
            on_dir TE_Index (index_catalog_save (db_indexes db)) db))))"

definition open_table :: "string \<Rightarrow> database \<Rightarrow> (table_error + table) \<times> database" where
  "open_table name db =
     and_then_st (ok_or (TableNotFound name) (map_of (db_catalog db) name), db) (\<lambda>schema db.
     and_then_st (compile_schema schema, db) (\<lambda>layout db.
     and_then_st (on_dir TE_Record (record_manager_open (table_path name)) db) (\<lambda>file db.
       (Inr \<lparr>tb_schema = schema, tb_layout = layout, tb_file = file\<rparr>, db))))"

definition close_table :: "string \<Rightarrow> table \<Rightarrow> database \<Rightarrow> database" where
  "close_table name t db = db\<lparr>db_disk := drop_records (table_path name) (tb_file t) (db_disk db)\<rparr>"

text \<open>A table that is opened, used and dropped.\<close>

definition with_table :: "string \<Rightarrow> (table \<Rightarrow> (table_error + 'a) \<times> table) \<Rightarrow> database \<Rightarrow> (table_error + 'a) \<times> database" where
  "with_table name body db =
     and_then_st (open_table name db) (\<lambda>t db. case body t of (r, t) \<Rightarrow> (r, close_table name t db))"

definition rebuild_index :: "string \<Rightarrow> database \<Rightarrow> (table_error + unit) \<times> database" where
  "rebuild_index name db =
     and_then_st (ok_or (TE_Index (IndexNotFound name))
                    (find (\<lambda>meta. im_name meta = name) (index_catalog_list (db_indexes db))), db) (\<lambda>index db.
     and_then_st (open_table (im_table index) db) (\<lambda>t db.
       case index_entries_for_int32_column (im_column index) t of
         (Inl e, t) \<Rightarrow> (Inl e, close_table (im_table index) t db)
       | (Inr entries, t) \<Rightarrow>
           (case on_dir TE_Index (replace_index_entries (im_name index) entries) db of
              (r, db) \<Rightarrow> (r, close_table (im_table index) t db))))"

fun rebuild_all :: "index_meta list \<Rightarrow> database \<Rightarrow> (table_error + unit) \<times> database" where
  "rebuild_all [] db = (Inr (), db)"
| "rebuild_all (meta # metas) db = and_then_st (rebuild_index (im_name meta) db) (\<lambda>_. rebuild_all metas)"

definition rebuild_indexes_for_table :: "string \<Rightarrow> database \<Rightarrow> (table_error + unit) \<times> database" where
  "rebuild_indexes_for_table table db = rebuild_all (indexes_for_table table (db_indexes db)) db"

definition index_key_type_of :: "column_type \<Rightarrow> table_error + index_key_type" where
  "index_key_type_of ty =
     (case ty of CT_Int32 \<Rightarrow> Inr IK_Int32 | _ \<Rightarrow> Inl (TE_Index (UnsupportedKeyType (column_kind_name ty))))"

definition create_index :: "string \<Rightarrow> string \<Rightarrow> string \<Rightarrow> database \<Rightarrow> (table_error + index_meta) \<times> database" where
  "create_index name table column db =
     and_then_st (validate_identifier name, db) (\<lambda>_ db.
     and_then_st (ok_or (TableNotFound table) (map_of (db_catalog db) table), db) (\<lambda>schema db.
     and_then_st (compile_schema schema, db) (\<lambda>layout db.
     and_then_st (layout_column_of layout column, db) (\<lambda>layout_column db.
     and_then_st (index_key_type_of (lc_type layout_column), db) (\<lambda>key_type db.
       let meta = \<lparr>im_name = name, im_table = table, im_column = column, im_key_type = key_type\<rparr> in
       and_then_st (on_dir TE_Index (create_index_file meta) db) (\<lambda>_ db.
       case index_catalog_insert meta (db_indexes db) of
         (r, m) \<Rightarrow>
           and_then_st (map_err TE_Index r, db\<lparr>db_indexes := m\<rparr>) (\<lambda>_ db.
           and_then_st (on_dir TE_Index (index_catalog_save (db_indexes db)) db) (\<lambda>_ db.
           and_then_st (rebuild_index (im_name meta) db) (\<lambda>_ db. (Inr meta, db))))))))))"

definition drop_index :: "string \<Rightarrow> database \<Rightarrow> (table_error + unit) \<times> database" where
  "drop_index name db =
     (case index_catalog_remove name (db_indexes db) of
        (r, m) \<Rightarrow>
          and_then_st (map_err TE_Index r, db\<lparr>db_indexes := m\<rparr>) (\<lambda>meta db.
          and_then_st (on_dir TE_Index (delete_index_file (im_name meta)) db) (\<lambda>_ db.
            on_dir TE_Index (index_catalog_save (db_indexes db)) db)))"

definition list_indexes :: "database \<Rightarrow> index_meta list" where
  "list_indexes db = index_catalog_list (db_indexes db)"

definition find_index :: "string \<Rightarrow> string \<Rightarrow> database \<Rightarrow> index_meta option" where
  "find_index table column db = find (\<lambda>meta. im_column meta = column) (indexes_for_table table (db_indexes db))"

definition lookup_index_eq :: "string \<Rightarrow> i32 \<Rightarrow> database \<Rightarrow> (table_error + rid list) \<times> database" where
  "lookup_index_eq name key db = on_dir TE_Index (lookup_eq name key) db"

subsection \<open>Reading the catalog\<close>

text \<open>
  \<open>Database::catalog\<close> hands out a copy of the catalog of tables: a manager answers from the
  time of the call, whatever is created or dropped afterwards.
\<close>

record catalog_manager =
  cm_catalog :: catalog

definition catalog_of :: "database \<Rightarrow> catalog_manager" where
  "catalog_of db = \<lparr>cm_catalog = db_catalog db\<rparr>"

definition manager_list_tables :: "catalog_manager \<Rightarrow> string list" where
  "manager_list_tables cm = list_tables (cm_catalog cm)"

definition manager_get_relation :: "string \<Rightarrow> catalog_manager \<Rightarrow> table_error + relation_meta" where
  "manager_get_relation name cm = get_relation name (cm_catalog cm)"

definition manager_get_attributes :: "string \<Rightarrow> catalog_manager \<Rightarrow> table_error + attribute_meta list" where
  "manager_get_attributes name cm = get_attributes name (cm_catalog cm)"

definition manager_get_table_schema :: "string \<Rightarrow> catalog_manager \<Rightarrow> table_error + table_schema" where
  "manager_get_table_schema name cm = get_table_schema name (cm_catalog cm)"

end
