(* ===== verification/Query_Plan.thy ===== *)
theory Query_Plan
  imports Database
begin

section \<open>Requests and their plans (\<open>src/query/mod.rs\<close>)\<close>

text \<open>
  The query layer checks a request against the schema of its table and turns it into a plan:
  a complete row for an insertion, column indexes for a projection, an ordering and the
  assignments of an update.  These functions do not touch the database.
\<close>

subsection \<open>Errors, requests and plans\<close>

datatype query_error =
    QE_Table table_error
  | UnknownTable string
  | QE_DuplicateIndex string
  | UnknownIndex string
  | UnsupportedIndexColumnType string string string
  | UnknownColumn string string
  | DuplicateUpdateColumn string string
  | DuplicateOrderColumn string string
  | DuplicateRequestColumn string string
  | MissingRequestColumn string string
  | InvalidLimit string nat
  | EmptyAssignments string
  | QE_ValueCountMismatch string nat nat
  | QE_ValueTypeMismatch string string string string
  | QE_Panic \<comment> \<open>not a value of the source: an index outside a row, where \<open>expect\<close> panics\<close>

record insert_request =
  in_table :: string
  in_values :: "val list"

record named_value =
  nv_column :: string
  nv_value :: val

datatype insert_input = FullRow "val list" | Named "named_value list"

record extended_insert_request =
  ir_table :: string
  ir_input :: insert_input

record assignment =
  as_column :: string
  as_value :: val

record select_request =
  sel_table :: string
  sel_filter :: "expr option"

datatype projection = P_All | P_Columns "string list"

datatype sort_direction = Asc | Desc

record order_by =
  ob_column :: string
  ob_direction :: sort_direction

record extended_select_request =
  sr_table :: string
  sr_filter :: "expr option"
  sr_projection :: projection
  sr_order_by :: "order_by list"
  sr_limit :: "nat option"

record update_request =
  ur_table :: string
  ur_assignments :: "assignment list"
  ur_filter :: "expr option"

record delete_request =
  dr_table :: string
  dr_filter :: "expr option"

record projection_plan =
  pp_columns :: "column_schema list"
  pp_indices :: "nat list"

record order_key_plan =
  ok_index :: nat
  ok_direction :: sort_direction

record select_plan =
  sp_projection :: projection_plan
  sp_order_by :: "order_key_plan list"
  sp_limit :: "nat option"

record normalized_assignment =
  na_index :: nat
  na_column :: string
  na_value :: val

record index_lookup_plan =
  il_index_name :: string
  il_key :: i32

subsection \<open>Columns and types\<close>

definition resolve_schema_column :: "table_schema \<Rightarrow> string \<Rightarrow> string \<Rightarrow> query_error + nat \<times> column_schema" where
  "resolve_schema_column schema table column =
     (case column_index column (ts_columns schema) of
        None \<Rightarrow> Inl (UnknownColumn table column)
      | Some i \<Rightarrow> Inr (i, ts_columns schema ! i))"

definition require_column :: "table_schema \<Rightarrow> string \<Rightarrow> string \<Rightarrow> query_error + unit" where
  "require_column schema table column =
     (if list_ex (\<lambda>item. cs_name item = column) (ts_columns schema) then Inr ()
      else Inl (UnknownColumn table column))"

fun value_matches_type :: "column_type \<Rightarrow> val \<Rightarrow> bool" where
  "value_matches_type CT_Int32 (V_Int32 n) = True"
| "value_matches_type CT_Float32 (V_Float32 x) = True"
| "value_matches_type (CT_Char n) (V_Char s) = True"
| "value_matches_type _ _ = False"

fun column_type_name :: "column_type \<Rightarrow> string" where
  "column_type_name CT_Int32 = ''Int32''"
| "column_type_name CT_Float32 = ''Float32''"
| "column_type_name (CT_Char n) = ''Char''"

fun value_type_name :: "val \<Rightarrow> string" where
  "value_type_name (V_Int32 n) = ''Int32''"
| "value_type_name (V_Float32 x) = ''Float32''"
| "value_type_name (V_Char s) = ''Char''"

definition check_value_type :: "string \<Rightarrow> string \<Rightarrow> column_type \<Rightarrow> val \<Rightarrow> query_error + unit" where
  "check_value_type table column ty v =
     (if value_matches_type ty v then Inr ()
      else Inl (QE_ValueTypeMismatch table column (column_type_name ty) (value_type_name v)))"

fun row_types_loop :: "string \<Rightarrow> column_schema list \<Rightarrow> val list \<Rightarrow> query_error + unit" where
  "row_types_loop table (c # cs) (v # vs) =
     and_then (check_value_type table (cs_name c) (cs_type c) v) (\<lambda>_. row_types_loop table cs vs)"
| "row_types_loop table _ _ = Inr ()"

definition validate_row_types :: "string \<Rightarrow> table_schema \<Rightarrow> val list \<Rightarrow> query_error + unit" where
  "validate_row_types table schema vs =
     (if length vs \<noteq> length (ts_columns schema)
      then Inl (QE_ValueCountMismatch table (length (ts_columns schema)) (length vs))
      else row_types_loop table (ts_columns schema) vs)"

fun validate_expr_columns :: "string \<Rightarrow> table_schema \<Rightarrow> expr \<Rightarrow> query_error + unit"
  and validate_exprs_columns :: "string \<Rightarrow> table_schema \<Rightarrow> expr list \<Rightarrow> query_error + unit" where
  "validate_expr_columns table schema (E_CmpValue c op v) = require_column schema table c"
| "validate_expr_columns table schema (E_CmpColumns l op r) =
     and_then (require_column schema table l) (\<lambda>_. require_column schema table r)"
| "validate_expr_columns table schema (E_And es) = validate_exprs_columns table schema es"
| "validate_expr_columns table schema (E_Or es) = validate_exprs_columns table schema es"
| "validate_expr_columns table schema (E_Not e) = validate_expr_columns table schema e"
| "validate_exprs_columns table schema [] = Inr ()"
| "validate_exprs_columns table schema (e # es) =
     and_then (validate_expr_columns table schema e) (\<lambda>_. validate_exprs_columns table schema es)"

definition validate_filter :: "string \<Rightarrow> table_schema \<Rightarrow> expr option \<Rightarrow> query_error + unit" where
  "validate_filter table schema e = (case e of None \<Rightarrow> Inr () | Some e \<Rightarrow> validate_expr_columns table schema e)"

subsection \<open>Insertions\<close>

fun named_values :: "string \<Rightarrow> table_schema \<Rightarrow> named_value list \<Rightarrow> (string, unit) btree \<Rightarrow> (string, val) btree \<Rightarrow>
    query_error + (string, val) btree" where
  "named_values table schema [] seen vals = Inr vals"
| "named_values table schema (e # es) seen vals =
     and_then (require_column schema table (nv_column e)) (\<lambda>_.
       if bt_contains (nv_column e) seen then Inl (DuplicateRequestColumn table (nv_column e))
       else named_values table schema es (bt_insert (nv_column e) () seen) (bt_insert (nv_column e) (nv_value e) vals))"

fun ordered_values :: "string \<Rightarrow> column_schema list \<Rightarrow> (string, val) btree \<Rightarrow> query_error + val list" where
  "ordered_values table [] vals = Inr []"
| "ordered_values table (c # cs) vals =
     and_then (ok_or (MissingRequestColumn table (cs_name c)) (map_of vals (cs_name c))) (\<lambda>v.
     and_then (check_value_type table (cs_name c) (cs_type c) v) (\<lambda>_.
     and_then (ordered_values table cs (bt_remove (cs_name c) vals)) (\<lambda>vs. Inr (v # vs))))"

definition normalize_named_insert :: "string \<Rightarrow> table_schema \<Rightarrow> named_value list \<Rightarrow> query_error + val list" where
  "normalize_named_insert table schema es =
     and_then (named_values table schema es [] []) (ordered_values table (ts_columns schema))"

definition normalize_insert_input :: "string \<Rightarrow> table_schema \<Rightarrow> insert_input \<Rightarrow> query_error + val list" where
  "normalize_insert_input table schema input =
     (case input of
        FullRow vs \<Rightarrow> and_then (validate_row_types table schema vs) (\<lambda>_. Inr vs)
      | Named es \<Rightarrow> normalize_named_insert table schema es)"

subsection \<open>Selections\<close>

fun resolve_columns :: "string \<Rightarrow> table_schema \<Rightarrow> string list \<Rightarrow> (string, unit) btree \<Rightarrow>
    query_error + (nat \<times> column_schema) list" where
  "resolve_columns table schema [] seen = Inr []"
| "resolve_columns table schema (c # cs) seen =
     (if bt_contains c seen then Inl (DuplicateRequestColumn table c)
      else and_then (resolve_schema_column schema table c) (\<lambda>ic.
           and_then (resolve_columns table schema cs (bt_insert c () seen)) (\<lambda>ics. Inr (ic # ics))))"

definition resolve_projection :: "string \<Rightarrow> table_schema \<Rightarrow> projection \<Rightarrow> query_error + projection_plan" where
  "resolve_projection table schema p =
     (case p of
        P_All \<Rightarrow> Inr \<lparr>pp_columns = ts_columns schema, pp_indices = [0..<length (ts_columns schema)]\<rparr>
      | P_Columns cs \<Rightarrow> and_then (resolve_columns table schema cs []) (\<lambda>ics.
          Inr \<lparr>pp_columns = map snd ics, pp_indices = map fst ics\<rparr>))"

fun resolve_order_items :: "string \<Rightarrow> table_schema \<Rightarrow> order_by list \<Rightarrow> (string, unit) btree \<Rightarrow>
    query_error + order_key_plan list" where
  "resolve_order_items table schema [] seen = Inr []"
| "resolve_order_items table schema (o1 # os) seen =
     (if bt_contains (ob_column o1) seen then Inl (DuplicateOrderColumn table (ob_column o1))
      else and_then (resolve_schema_column schema table (ob_column o1)) (\<lambda>(i, _).
           and_then (resolve_order_items table schema os (bt_insert (ob_column o1) () seen)) (\<lambda>ks.
             Inr (\<lparr>ok_index = i, ok_direction = ob_direction o1\<rparr> # ks))))"

definition resolve_order_by :: "string \<Rightarrow> table_schema \<Rightarrow> order_by list \<Rightarrow> query_error + order_key_plan list" where
  "resolve_order_by table schema os = resolve_order_items table schema os []"

definition normalize_limit :: "string \<Rightarrow> nat option \<Rightarrow> query_error + nat option" where
  "normalize_limit table limit =
     (case limit of
        Some n \<Rightarrow> if n = 0 then Inl (InvalidLimit table 0) else Inr (Some n)
      | None \<Rightarrow> Inr None)"

definition resolve_select_plan :: "string \<Rightarrow> table_schema \<Rightarrow> extended_select_request \<Rightarrow> query_error + select_plan" where
  "resolve_select_plan table schema request =
     and_then (resolve_projection table schema (sr_projection request)) (\<lambda>p.
     and_then (resolve_order_by table schema (sr_order_by request)) (\<lambda>os.
     and_then (normalize_limit table (sr_limit request)) (\<lambda>l.
       Inr \<lparr>sp_projection = p, sp_order_by = os, sp_limit = l\<rparr>)))"

definition resolve_index_lookup :: "string \<Rightarrow> expr option \<Rightarrow> database \<Rightarrow> index_lookup_plan option" where
  "resolve_index_lookup table flt db =
     (case flt of
        Some (E_CmpValue column op (V_Int32 key)) \<Rightarrow>
          if op = Op_Eq
          then map_option (\<lambda>index. \<lparr>il_index_name = im_name index, il_key = key\<rparr>) (find_index table column db)
          else None
      | _ \<Rightarrow> None)"

subsection \<open>Updates and deletions\<close>

fun assignments_loop :: "string \<Rightarrow> table_schema \<Rightarrow> assignment list \<Rightarrow> (string, unit) btree \<Rightarrow>
    query_error + normalized_assignment list" where
  "assignments_loop table schema [] seen = Inr []"
| "assignments_loop table schema (a # as) seen =
     (if bt_contains (as_column a) seen then Inl (DuplicateUpdateColumn table (as_column a))
      else
        and_then (resolve_schema_column schema table (as_column a)) (\<lambda>(i, c).
        and_then (check_value_type table (as_column a) (cs_type c) (as_value a)) (\<lambda>_.
        and_then (assignments_loop table schema as (bt_insert (as_column a) () seen)) (\<lambda>ns.
          Inr (\<lparr>na_index = i, na_column = as_column a, na_value = as_value a\<rparr> # ns)))))"

definition normalize_assignments :: "string \<Rightarrow> table_schema \<Rightarrow> assignment list \<Rightarrow>
    query_error + normalized_assignment list" where
  "normalize_assignments table schema as =
     (if as = [] then Inl (EmptyAssignments table) else assignments_loop table schema as [])"

definition resolve_update_plan :: "string \<Rightarrow> table_schema \<Rightarrow> update_request \<Rightarrow>
    query_error + normalized_assignment list" where
  "resolve_update_plan table schema request =
     and_then (validate_filter table schema (ur_filter request)) (\<lambda>_.
       normalize_assignments table schema (ur_assignments request))"

definition resolve_delete_plan :: "string \<Rightarrow> table_schema \<Rightarrow> delete_request \<Rightarrow> query_error + unit" where
  "resolve_delete_plan table schema request = validate_filter table schema (dr_filter request)"

subsection \<open>Ordering, limiting and projecting rows\<close>

fun compare_values :: "val \<Rightarrow> val \<Rightarrow> ordering" where
  "compare_values (V_Int32 a) (V_Int32 b) = cmp_i32 a b"
| "compare_values (V_Float32 a) (V_Float32 b) = total_cmp a b"
| "compare_values (V_Char a) (V_Char b) = cmp a b"
| "compare_values _ _ = Equal"

definition compare_row_value_at :: "row \<Rightarrow> row \<Rightarrow> nat \<Rightarrow> ordering" where
  "compare_row_value_at lhs rhs i = compare_values (lhs ! i) (rhs ! i)"

fun compare_rows :: "order_key_plan list \<Rightarrow> row \<Rightarrow> row \<Rightarrow> ordering" where
  "compare_rows [] lhs rhs = Equal"
| "compare_rows (k # ks) lhs rhs =
     (let ord = compare_row_value_at lhs rhs (ok_index k);
          ord = (case ok_direction k of Asc \<Rightarrow> ord | Desc \<Rightarrow> reverse_ordering ord)
      in if ord \<noteq> Equal then ord else compare_rows ks lhs rhs)"

text \<open>\<open>slice::sort_by\<close>, a stable sort by a comparison function.\<close>

fun insert_by :: "('a \<Rightarrow> 'a \<Rightarrow> ordering) \<Rightarrow> 'a \<Rightarrow> 'a list \<Rightarrow> 'a list" where
  "insert_by c x [] = [x]"
| "insert_by c x (y # ys) = (if c x y = Greater then y # insert_by c x ys else x # y # ys)"

definition sort_by :: "('a \<Rightarrow> 'a \<Rightarrow> ordering) \<Rightarrow> 'a list \<Rightarrow> 'a list" where
  "sort_by c xs = foldr (insert_by c) xs []"

text \<open>
  The comparison takes the values at the plan's indexes with \<open>expect\<close>.  The check for indexes
  outside a row is made here before the sort.
\<close>

definition apply_order_by :: "row list \<Rightarrow> order_key_plan list \<Rightarrow> query_error + row list" where
  "apply_order_by rows order_by =
     (if order_by = [] then Inr rows
      else if list_ex (\<lambda>row. list_ex (\<lambda>k. length row \<le> ok_index k) order_by) rows then Inl QE_Panic
      else Inr (sort_by (compare_rows order_by) rows))"

definition apply_limit :: "row list \<Rightarrow> nat option \<Rightarrow> row list" where
  "apply_limit rows limit = (case limit of None \<Rightarrow> rows | Some n \<Rightarrow> take n rows)"

definition value_from_row :: "row \<Rightarrow> nat \<Rightarrow> query_error + val" where
  "value_from_row row i = (if i < length row then Inr (row ! i) else Inl QE_Panic)"

fun project_row :: "row \<Rightarrow> nat list \<Rightarrow> query_error + row" where
  "project_row row [] = Inr []"
| "project_row row (i # is) =
     and_then (value_from_row row i) (\<lambda>v. and_then (project_row row is) (\<lambda>vs. Inr (v # vs)))"

fun project_rows :: "row list \<Rightarrow> nat list \<Rightarrow> query_error + row list" where
  "project_rows [] is = Inr []"
| "project_rows (row # rows) is =
     and_then (project_row row is) (\<lambda>r. and_then (project_rows rows is) (\<lambda>rs. Inr (r # rs)))"

end
