(* ===== verification/Query_Engine.thy ===== *)
theory Query_Engine
  imports Query_Plan
begin

section \<open>The query engine (\<open>src/query/mod.rs\<close>)\<close>

text \<open>
  The engine owns a database; every method runs one request on it.  The error conversions
  that a method makes are its own: an unknown table is reported as such, other errors of the
  table layer are passed on.
\<close>

record select_result =
  se_schema :: table_schema
  se_rows :: "row list"

record projected_select_result =
  ps_schema :: table_schema
  ps_columns :: "column_schema list"
  ps_rows :: "row list"

text \<open>A call of the table layer, its error passed on.\<close>

definition on_database :: "(database \<Rightarrow> (table_error + 'a) \<times> database) \<Rightarrow> database \<Rightarrow> (query_error + 'a) \<times> database" where
  "on_database m db = (case m db of (r, db) \<Rightarrow> (map_err QE_Table r, db))"

definition unknown_table :: "string \<Rightarrow> table_error \<Rightarrow> query_error" where
  "unknown_table table e = (case e of TableNotFound _ \<Rightarrow> UnknownTable table | _ \<Rightarrow> QE_Table e)"

definition load_schema :: "string \<Rightarrow> database \<Rightarrow> query_error + table_schema" where
  "load_schema table db = map_err (unknown_table table) (get_table_schema table (db_catalog db))"

definition engine_open :: "disk \<Rightarrow> (query_error + database) \<times> disk" where
  "engine_open d = (case database_open d of (r, d) \<Rightarrow> (map_err QE_Table r, d))"

definition execute_insert :: "extended_insert_request \<Rightarrow> database \<Rightarrow> (query_error + rid) \<times> database" where
  "execute_insert request db =
     (let table = ir_table request in
      and_then_st (load_schema table db, db) (\<lambda>schema db.
      and_then_st (normalize_insert_input table schema (ir_input request), db) (\<lambda>vs db.
      and_then_st (on_database (with_table table (table_insert vs)) db) (\<lambda>rid db.
      and_then_st (on_database (rebuild_indexes_for_table table) db) (\<lambda>_ db. (Inr rid, db))))))"

definition insert_into :: "insert_request \<Rightarrow> database \<Rightarrow> (query_error + rid) \<times> database" where
  "insert_into request db =
     execute_insert \<lparr>ir_table = in_table request, ir_input = FullRow (in_values request)\<rparr> db"

definition execute_create_table :: "table_schema \<Rightarrow> database \<Rightarrow> (query_error + unit) \<times> database" where
  "execute_create_table schema db = on_database (create_table schema) db"

definition create_index_error :: "string \<Rightarrow> string \<Rightarrow> column_type \<Rightarrow> table_error \<Rightarrow> query_error" where
  "create_index_error table column ty e =
     (case e of
        TE_Index (DuplicateIndex name) \<Rightarrow> QE_DuplicateIndex name
      | TE_Index (UnsupportedKeyType _) \<Rightarrow> UnsupportedIndexColumnType table column (column_type_name ty)
      | TableNotFound _ \<Rightarrow> UnknownTable table
      | ColumnNotFound _ \<Rightarrow> UnknownColumn table column
      | _ \<Rightarrow> QE_Table e)"

definition execute_create_index :: "string \<Rightarrow> string \<Rightarrow> string \<Rightarrow> database \<Rightarrow> (query_error + unit) \<times> database" where
  "execute_create_index name table column db =
     and_then_st (load_schema table db, db) (\<lambda>schema db.
     and_then_st (ok_or (UnknownColumn table column)
                    (find (\<lambda>item. cs_name item = column) (ts_columns schema)), db) (\<lambda>item db.
       if cs_type item \<noteq> CT_Int32
       then (Inl (UnsupportedIndexColumnType table column (column_type_name (cs_type item))), db)
       else (case create_index name table column db of
               (r, db) \<Rightarrow> (map_err (create_index_error table column (cs_type item)) (and_then r (\<lambda>_. Inr ())), db))))"

text \<open>The rows of a selection: through an index when the plan has one, else by a scan.\<close>

definition select_rows :: "extended_select_request \<Rightarrow> index_lookup_plan option \<Rightarrow> table \<Rightarrow> database \<Rightarrow>
    (table_error + row list) \<times> table \<times> database" where
  "select_rows request plan t db =
     (case plan of
        Some plan \<Rightarrow>
          (case lookup_index_eq (il_index_name plan) (il_key plan) db of
             (Inl e, db) \<Rightarrow> (Inl e, t, db)
           | (Inr rids, db) \<Rightarrow> (case rows_by_rids rids t of (r, t) \<Rightarrow> (r, t, db)))
      | None \<Rightarrow> (case table_scan (sr_filter request) t of (r, t) \<Rightarrow> (r, t, db)))"

definition present_rows :: "table_schema \<Rightarrow> select_plan \<Rightarrow> row list \<Rightarrow> query_error + projected_select_result" where
  "present_rows schema plan rows =
     and_then (apply_order_by rows (sp_order_by plan)) (\<lambda>rows.
     and_then (project_rows (apply_limit rows (sp_limit plan)) (pp_indices (sp_projection plan))) (\<lambda>rows.
       Inr \<lparr>ps_schema = schema, ps_columns = pp_columns (sp_projection plan), ps_rows = rows\<rparr>))"

definition execute_select :: "extended_select_request \<Rightarrow> database \<Rightarrow> (query_error + projected_select_result) \<times> database" where
  "execute_select request db =
     (let table = sr_table request in
      and_then_st (load_schema table db, db) (\<lambda>schema db.
      and_then_st (validate_filter table schema (sr_filter request), db) (\<lambda>_ db.
      and_then_st (resolve_select_plan table schema request, db) (\<lambda>plan db.
        let lookup = resolve_index_lookup table (sr_filter request) db in
        and_then_st (on_database (open_table table) db) (\<lambda>t db.
          case select_rows request lookup t db of
            (r, t, db) \<Rightarrow>
              (and_then (map_err QE_Table r) (present_rows schema plan), close_table table t db))))))"

definition select_from :: "select_request \<Rightarrow> database \<Rightarrow> (query_error + select_result) \<times> database" where
  "select_from request db =
     and_then_st (execute_select \<lparr>sr_table = sel_table request, sr_filter = sel_filter request, sr_projection = P_All,
                                 sr_order_by = [], sr_limit = None\<rparr> db) (\<lambda>result db.
       (Inr \<lparr>se_schema = ps_schema result, se_rows = ps_rows result\<rparr>, db))"

definition execute_update :: "update_request \<Rightarrow> database \<Rightarrow> (query_error + nat) \<times> database" where
  "execute_update request db =
     (let table = ur_table request in
      and_then_st (load_schema table db, db) (\<lambda>schema db.
      and_then_st (resolve_update_plan table schema request, db) (\<lambda>plan db.
        let assignments = map (\<lambda>a. (na_column a, na_value a)) plan in
        and_then_st (on_database (with_table table (update_where (ur_filter request) assignments)) db) (\<lambda>n db.
        and_then_st (on_database (rebuild_indexes_for_table table) db) (\<lambda>_ db. (Inr n, db))))))"

definition execute_delete :: "delete_request \<Rightarrow> database \<Rightarrow> (query_error + nat) \<times> database" where
  "execute_delete request db =
     (let table = dr_table request in
      and_then_st (load_schema table db, db) (\<lambda>schema db.
      and_then_st (resolve_delete_plan table schema request, db) (\<lambda>_ db.
      and_then_st (on_database (with_table table (delete_where (dr_filter request))) db) (\<lambda>n db.
      and_then_st (on_database (rebuild_indexes_for_table table) db) (\<lambda>_ db. (Inr n, db))))))"

definition execute_drop_table :: "string \<Rightarrow> database \<Rightarrow> (query_error + unit) \<times> database" where
  "execute_drop_table table db = (case drop_table table db of (r, db) \<Rightarrow> (map_err (unknown_table table) r, db))"

definition drop_index_error :: "table_error \<Rightarrow> query_error" where
  "drop_index_error e = (case e of TE_Index (IndexNotFound name) \<Rightarrow> UnknownIndex name | _ \<Rightarrow> QE_Table e)"

definition execute_drop_index :: "string \<Rightarrow> database \<Rightarrow> (query_error + unit) \<times> database" where
  "execute_drop_index name db = (case drop_index name db of (r, db) \<Rightarrow> (map_err drop_index_error r, db))"

definition show_tables :: "database \<Rightarrow> string list" where
  "show_tables db = list_tables (db_catalog db)"

definition show_indexes :: "database \<Rightarrow> index_meta list" where
  "show_indexes db = list_indexes db"

definition describe_table :: "string \<Rightarrow> database \<Rightarrow> query_error + relation_meta \<times> attribute_meta list" where
  "describe_table table db =
     and_then (map_err (unknown_table table) (get_relation table (db_catalog db))) (\<lambda>relation.
     and_then (map_err (unknown_table table) (get_attributes table (db_catalog db))) (\<lambda>attributes.
       Inr (relation, attributes)))"

end
