(* ===== verification/Database_Spec.thy ===== *)
theory Database_Spec
  imports Query_Engine
begin

section \<open>What a database holds\<close>

text \<open>
  The content of a database is, for each table of the catalog, a map from record identifiers to
  rows.  \<open>db_holds\<close> states that the directory stores this content, the two catalogs and, for
  each index, a list of entries; it has no file for a table that the catalog does not have.
  \<open>db_ok\<close> adds that the entries of every index are those of its table's rows.
\<close>

subsection \<open>Paths\<close>

lemma path_inject [simp]:
  "table_path a = table_path b \<longleftrightarrow> a = b" "index_file_path a = index_file_path b \<longleftrightarrow> a = b"
  by (simp_all add: table_path_def index_file_path_def)

lemma path_last:
  "last (table_path a) = CHR ''l''" "last (index_file_path a) = CHR ''x''"
  "last catalog_path = CHR ''t''" "last index_catalog_path = CHR ''t''"
  by (simp_all add: table_path_def index_file_path_def catalog_path_def index_catalog_path_def
      TABLE_FILE_EXTENSION_def INDEX_FILE_EXTENSION_def CATALOG_FILE_NAME_def INDEX_CATALOG_FILE_NAME_def)

lemma path_distinct [simp]:
  "table_path a \<noteq> index_file_path b" "table_path a \<noteq> catalog_path" "table_path a \<noteq> index_catalog_path"
  "index_file_path a \<noteq> catalog_path" "index_file_path a \<noteq> index_catalog_path" "catalog_path \<noteq> index_catalog_path"
  "index_file_path b \<noteq> table_path a" "catalog_path \<noteq> table_path a" "index_catalog_path \<noteq> table_path a"
  "catalog_path \<noteq> index_file_path a" "index_catalog_path \<noteq> index_file_path a" "index_catalog_path \<noteq> catalog_path"
proof -
  show "table_path a \<noteq> index_file_path b" "table_path a \<noteq> catalog_path" "table_path a \<noteq> index_catalog_path"
    "index_file_path a \<noteq> catalog_path" "index_file_path a \<noteq> index_catalog_path"
    by (auto dest!: arg_cong [where f = last] simp: path_last)
  show "catalog_path \<noteq> index_catalog_path"
    by (simp add: catalog_path_def index_catalog_path_def CATALOG_FILE_NAME_def INDEX_CATALOG_FILE_NAME_def)
  then show "index_catalog_path \<noteq> catalog_path" by simp
  show "index_file_path b \<noteq> table_path a" "catalog_path \<noteq> table_path a" "index_catalog_path \<noteq> table_path a"
    "catalog_path \<noteq> index_file_path a" "index_catalog_path \<noteq> index_file_path a"
    by (auto dest!: arg_cong [where f = last] simp: path_last)
qed

subsection \<open>Content\<close>

type_synonym content = "string \<Rightarrow> rows"

definition table_stored :: "disk \<Rightarrow> table_schema \<Rightarrow> rows \<Rightarrow> nat \<Rightarrow> bool" where
  "table_stored d s M n \<longleftrightarrow> rows_ok (ts_columns s) M \<and>
     (\<exists>f. stored_records d (table_path (ts_name s)) = Some f \<and>
        holds_records f (total_len (ts_columns s)) (row_map_bytes (ts_columns s) M) n)"

definition index_stored :: "disk \<Rightarrow> index_meta \<Rightarrow> index_entry list \<Rightarrow> bool" where
  "index_stored d meta es \<longleftrightarrow>
     dk_files d (index_file_path (im_name meta)) = Some (as_bytes (index_file.file_text (meta, es)))"

definition index_position :: "catalog \<Rightarrow> index_meta \<Rightarrow> nat option" where
  "index_position cat meta =
     (case map_of cat (im_table meta) of
        None \<Rightarrow> None
      | Some s \<Rightarrow>
          (case column_index (im_column meta) (ts_columns s) of
             None \<Rightarrow> None
           | Some i \<Rightarrow> if cs_type (ts_columns s ! i) = CT_Int32 then Some i else None))"

definition current_entries :: "catalog \<Rightarrow> content \<Rightarrow> index_meta \<Rightarrow> index_entry list" where
  "current_entries cat T meta = entries_of (the (index_position cat meta)) (T (im_table meta))"

definition catalogs_stored :: "disk \<Rightarrow> catalog \<Rightarrow> index_catalog \<Rightarrow> bool" where
  "catalogs_stored d cat idx \<longleftrightarrow> catalog_ok cat \<and> index_catalog_ok idx \<and>
     (case dk_files d catalog_path of None \<Rightarrow> cat = [] | Some bs \<Rightarrow> bs = as_bytes (table_cat.file_text cat)) \<and>
     (case dk_files d index_catalog_path of None \<Rightarrow> idx = [] | Some bs \<Rightarrow> bs = as_bytes (index_cat.file_text idx))"

definition db_holds :: "database \<Rightarrow> content \<Rightarrow> (index_meta \<Rightarrow> index_entry list) \<Rightarrow> nat \<Rightarrow> bool" where
  "db_holds db T E n \<longleftrightarrow>
     disk_healthy (db_disk db) \<and> catalogs_stored (db_disk db) (db_catalog db) (db_indexes db) \<and>
     (\<forall>name s. map_of (db_catalog db) name = Some s \<longrightarrow> table_stored (db_disk db) s (T name) n) \<and>
     (\<forall>name. map_of (db_catalog db) name = None \<longrightarrow> dk_files (db_disk db) (table_path name) = None) \<and>
     (\<forall>meta \<in> set (bt_values (db_indexes db)).
        index_position (db_catalog db) meta \<noteq> None \<and> index_stored (db_disk db) meta (E meta))"

definition db_ok :: "database \<Rightarrow> content \<Rightarrow> nat \<Rightarrow> bool" where
  "db_ok db T n \<longleftrightarrow> db_holds db T (current_entries (db_catalog db) T) n"

lemma db_holdsD:
  assumes "db_holds db T E n"
  shows "disk_healthy (db_disk db)" and "catalogs_stored (db_disk db) (db_catalog db) (db_indexes db)"
    and "catalog_ok (db_catalog db)" and "index_catalog_ok (db_indexes db)"
    and "map_of (db_catalog db) name = Some s \<Longrightarrow> table_stored (db_disk db) s (T name) n"
    and "map_of (db_catalog db) name = Some s \<Longrightarrow> ts_name s = name \<and> schema_ok s"
    and "map_of (db_catalog db) name = None \<Longrightarrow> dk_files (db_disk db) (table_path name) = None"
    and "meta \<in> set (bt_values (db_indexes db)) \<Longrightarrow>
      index_position (db_catalog db) meta \<noteq> None \<and> index_stored (db_disk db) meta (E meta)"
proof -
  have D: "disk_healthy (db_disk db)" "catalogs_stored (db_disk db) (db_catalog db) (db_indexes db)"
    "\<forall>name s. map_of (db_catalog db) name = Some s \<longrightarrow> table_stored (db_disk db) s (T name) n"
    "\<forall>name. map_of (db_catalog db) name = None \<longrightarrow> dk_files (db_disk db) (table_path name) = None"
    "\<forall>meta \<in> set (bt_values (db_indexes db)).
        index_position (db_catalog db) meta \<noteq> None \<and> index_stored (db_disk db) meta (E meta)"
    using assms unfolding db_holds_def by (blast elim: conjE)+
  show "disk_healthy (db_disk db)" "catalogs_stored (db_disk db) (db_catalog db) (db_indexes db)" by fact+
  show cat: "catalog_ok (db_catalog db)" and "index_catalog_ok (db_indexes db)"
    using D(2) by (simp_all add: catalogs_stored_def)
  show "map_of (db_catalog db) name = Some s \<Longrightarrow> table_stored (db_disk db) s (T name) n" using D(3) by simp
  show "map_of (db_catalog db) name = Some s \<Longrightarrow> ts_name s = name \<and> schema_ok s"
    by (rule catalog_ok_lookup [OF cat])
  show "map_of (db_catalog db) name = None \<Longrightarrow> dk_files (db_disk db) (table_path name) = None" using D(4) by simp
  show "meta \<in> set (bt_values (db_indexes db)) \<Longrightarrow>
      index_position (db_catalog db) meta \<noteq> None \<and> index_stored (db_disk db) meta (E meta)" using D(5) by simp
qed

lemma table_stored_cong:
  "dk_files d (table_path (ts_name s)) = dk_files e (table_path (ts_name s)) \<Longrightarrow>
     table_stored d s M n = table_stored e s M n"
  unfolding table_stored_def using stored_records_cong by metis

lemma table_stored_mono: "table_stored d s M n \<Longrightarrow> n \<le> n' \<Longrightarrow> table_stored d s M n'"
  unfolding table_stored_def holds_records_def rf_state_def using le_trans by blast

lemma index_meta_in:
  assumes "index_catalog_ok m"
  shows "meta \<in> set (bt_values m) \<longleftrightarrow> map_of m (im_name meta) = Some meta"
    and "meta \<in> set (bt_values m) \<Longrightarrow> meta_ok meta"
    and "meta \<in> set (bt_values m) \<Longrightarrow> find (\<lambda>x. im_name x = im_name meta) (index_catalog_list m) = Some meta"
proof -
  have m: "bt_ok m" "\<And>k x. (k, x) \<in> set m \<Longrightarrow> k = im_name x \<and> meta_ok x" using assms by (auto simp: index_catalog_ok_def)
  have iff: "x \<in> set (bt_values m) \<longleftrightarrow> map_of m (im_name x) = Some x" for x
  proof
    assume "x \<in> set (bt_values m)"
    then obtain k where k: "(k, x) \<in> set m" by (auto simp: bt_values_def)
    then show "map_of m (im_name x) = Some x" using m(2) [OF k] by (simp add: map_of_in [OF m(1)])
  next
    assume "map_of m (im_name x) = Some x"
    then show "x \<in> set (bt_values m)" by (force simp: map_of_in [OF m(1)] bt_values_def)
  qed
  show "meta \<in> set (bt_values m) \<longleftrightarrow> map_of m (im_name meta) = Some meta" by (rule iff)
  show "meta \<in> set (bt_values m) \<Longrightarrow> meta_ok meta" using m(2) by (auto simp: bt_values_def)
  assume meta: "meta \<in> set (bt_values m)"
  then obtain x where x: "find (\<lambda>x. im_name x = im_name meta) (bt_values m) = Some x"
    by (cases "find (\<lambda>x. im_name x = im_name meta) (bt_values m)") (auto simp: find_None_iff)
  then have "x \<in> set (bt_values m)" "im_name x = im_name meta" by (auto simp: find_Some_iff)
  then have "x = meta" using meta iff by (metis option.inject)
  then show "find (\<lambda>x. im_name x = im_name meta) (index_catalog_list m) = Some meta"
    using x by (simp add: index_catalog_list_def)
qed

lemma db_holds_cong:
  "db_holds db T E n \<Longrightarrow> (\<And>meta. meta \<in> set (bt_values (db_indexes db)) \<Longrightarrow> E meta = E' meta) \<Longrightarrow> db_holds db T E' n"
  by (simp add: db_holds_def)

subsection \<open>Writing a table or an index\<close>

text \<open>The files of a table and of an index are replaced without touching any other.\<close>

lemma catalogs_stored_put:
  "catalogs_stored (dk_put (table_path name) bs d) cat idx = catalogs_stored d cat idx"
  "catalogs_stored (dk_put (index_file_path name) bs d) cat idx = catalogs_stored d cat idx"
  "catalogs_stored (d\<lparr>dk_files := (dk_files d)(table_path name := None)\<rparr>) cat idx = catalogs_stored d cat idx"
  "catalogs_stored (d\<lparr>dk_files := (dk_files d)(index_file_path name := None)\<rparr>) cat idx = catalogs_stored d cat idx"
  by (simp_all add: catalogs_stored_def)

lemma db_holds_table:
  assumes db: "db_holds db T E n" and s: "map_of (db_catalog db) name = Some s"
    and stored: "table_stored (dk_put (table_path name) bs (db_disk db)) s M n'" and le: "n \<le> n'"
  shows "db_holds (db\<lparr>db_disk := dk_put (table_path name) bs (db_disk db)\<rparr>) (T(name := M)) E n'"
proof -
  note D = db_holdsD [OF db]
  let ?d = "dk_put (table_path name) bs (db_disk db)"
  have "table_stored ?d x ((T(name := M)) y) n'" if x: "map_of (db_catalog db) y = Some x" for x y
  proof (cases "y = name")
    case False
    then have "table_stored ?d x (T y) n = table_stored (db_disk db) x (T y) n"
      using D(6) [OF x] by (intro table_stored_cong) simp
    then show ?thesis using D(5) [OF x] table_stored_mono le False by fastforce
  qed (use x s stored in simp)
  then show ?thesis
    using D(1,2,7,8) s by (auto simp: db_holds_def catalogs_stored_put index_stored_def)
qed

lemma db_holds_index:
  assumes db: "db_holds db T E n" and meta: "meta \<in> set (bt_values (db_indexes db))"
  shows "db_holds (db\<lparr>db_disk := dk_put (index_file_path (im_name meta)) (as_bytes (index_file.file_text (meta, es))) (db_disk db)\<rparr>)
    T (E(meta := es)) n"
proof -
  note D = db_holdsD [OF db]
  let ?d = "dk_put (index_file_path (im_name meta)) (as_bytes (index_file.file_text (meta, es))) (db_disk db)"
  have "index_stored ?d x ((E(meta := es)) x)" if x: "x \<in> set (bt_values (db_indexes db))" for x
  proof (cases "x = meta")
    case False
    then have "im_name x \<noteq> im_name meta" using x meta index_meta_in(1) [OF D(4)] by (metis option.inject)
    then show ?thesis using D(8) [OF x] False by (simp add: index_stored_def)
  qed (simp add: index_stored_def)
  moreover have "table_stored ?d x (T y) n" if x: "map_of (db_catalog db) y = Some x" for x y
    using D(5) [OF x] table_stored_cong [of ?d x "db_disk db"] by simp
  ultimately show ?thesis
    using D(1,2,7,8) by (simp add: db_holds_def catalogs_stored_put)
qed

subsection \<open>Opening and closing tables\<close>

lemma open_table_ok:
  assumes db: "db_holds db T E n" and s: "map_of (db_catalog db) name = Some s"
  obtains t where "open_table name db = (Inr t, db)" and "table_holds t s (T name) n"
proof -
  note D = db_holdsD [OF db]
  have name: "ts_name s = name" and ok: "schema_ok s" using D(6) [OF s] by simp_all
  obtain f where f: "stored_records (db_disk db) (table_path name) = Some f"
    "holds_records f (total_len (ts_columns s)) (row_map_bytes (ts_columns s) (T name)) n" "rows_ok (ts_columns s) (T name)"
    using D(5) [OF s] name by (auto simp: table_stored_def)
  show thesis
  proof (rule that)
    show "open_table name db = (Inr \<lparr>tb_schema = s, tb_layout = layout_of s, tb_file = f\<rparr>, db)"
      using s compile_schema_ok [OF ok] record_manager_open_healthy [OF D(1) f(1)]
      by (simp add: open_table_def on_dir_def)
    show "table_holds \<lparr>tb_schema = s, tb_layout = layout_of s, tb_file = f\<rparr> s (T name) n"
      using f(2,3) ok by (simp add: table_holds_def)
  qed
qed

lemma close_table_ok:
  assumes db: "db_holds db T E n" and s: "map_of (db_catalog db) name = Some s"
    and t: "table_holds t s M n'" and le: "n \<le> n'"
  obtains db' where "close_table name t db = db'" and "db_holds db' (T(name := M)) E n'"
    and "db_catalog db' = db_catalog db" and "db_indexes db' = db_indexes db"
proof -
  note T = table_holdsD [OF t]
  have name: "ts_name s = name" using db_holdsD(6) [OF db s] by simp
  obtain bs g where g: "drop_records (table_path name) (tb_file t) (db_disk db) = dk_put (table_path name) bs (db_disk db)"
    "stored_records (dk_put (table_path name) bs (db_disk db)) (table_path name) = Some g"
    "holds_records g (total_len (ts_columns s)) (row_map_bytes (ts_columns s) M) n'"
    by (rule drop_records_ok [OF T(5)])
  have "table_stored (dk_put (table_path name) bs (db_disk db)) s M n'"
    using g(2,3) T(4) name by (simp add: table_stored_def)
  from db_holds_table [OF db s this le] g(1) show thesis
    by (intro that [where db' = "db\<lparr>db_disk := dk_put (table_path name) bs (db_disk db)\<rparr>"]) (simp_all add: close_table_def)
qed

lemma with_table_ok:
  assumes db: "db_holds db T E n" and s: "map_of (db_catalog db) name = Some s" and le: "n \<le> n'"
    and body: "\<And>t. table_holds t s (T name) n \<Longrightarrow>
      \<exists>x M t'. body t = (Inr x, t') \<and> table_holds t' s M n' \<and> Q x M"
  obtains x M db' where "with_table name body db = (Inr x, db')" and "Q x M" and "db_holds db' (T(name := M)) E n'"
    and "db_catalog db' = db_catalog db" and "db_indexes db' = db_indexes db"
proof -
  obtain t where t: "open_table name db = (Inr t, db)" "table_holds t s (T name) n" by (rule open_table_ok [OF db s])
  obtain x M t' where t': "body t = (Inr x, t')" "table_holds t' s M n'" "Q x M" using body [OF t(2)] by blast
  obtain db' where "close_table name t' db = db'" "db_holds db' (T(name := M)) E n'"
    "db_catalog db' = db_catalog db" "db_indexes db' = db_indexes db"
    by (rule close_table_ok [OF db s t'(2) le])
  then show thesis using that t(1) t'(1,3) by (simp add: with_table_def)
qed

subsection \<open>Rebuilding indexes\<close>

lemma index_positionD:
  assumes "index_position cat meta = Some i"
  obtains s where "map_of cat (im_table meta) = Some s" and "column_index (im_column meta) (ts_columns s) = Some i"
    and "cs_type (ts_columns s ! i) = CT_Int32"
  using assms by (auto simp: index_position_def split: option.splits if_splits)

lemma rebuild_index_ok:
  assumes db: "db_holds db T E n" and meta: "meta \<in> set (bt_values (db_indexes db))"
  obtains db' where "rebuild_index (im_name meta) db = (Inr (), db')"
    and "db_holds db' T (E(meta := current_entries (db_catalog db) T meta)) n"
    and "db_catalog db' = db_catalog db" and "db_indexes db' = db_indexes db"
proof -
  note D = db_holdsD [OF db]
  obtain i where i: "index_position (db_catalog db) meta = Some i" using D(8) [OF meta] by auto
  obtain s where s: "map_of (db_catalog db) (im_table meta) = Some s"
    "column_index (im_column meta) (ts_columns s) = Some i" "cs_type (ts_columns s ! i) = CT_Int32"
    by (rule index_positionD [OF i])
  obtain t where t: "open_table (im_table meta) db = (Inr t, db)" "table_holds t s (T (im_table meta)) n"
    by (rule open_table_ok [OF db s(1)])
  let ?es = "current_entries (db_catalog db) T meta"
  have es: "?es = entries_of i (T (im_table meta))" using i by (simp add: current_entries_def)
  obtain t' where t': "index_entries_for_int32_column (im_column meta) t = (Inr ?es, t')"
    "table_holds t' s (T (im_table meta)) n"
    unfolding es by (rule index_entries_ok [OF t(2) s(2,3)])
  let ?d = "dk_put (index_file_path (im_name meta)) (as_bytes (index_file.file_text (meta, ?es))) (db_disk db)"
  have ok: "meta_ok meta" using index_meta_in(2) [OF D(4) meta] .
  have "replace_index_entries (im_name meta) ?es (db_disk db) = (Inr (), ?d)"
    using D(8) [OF meta] load_index_file_ok [OF D(1) _ ok] write_index_file_ok [OF D(1)]
    by (simp add: replace_index_entries_def index_stored_def)
  then have put: "on_dir TE_Index (replace_index_entries (im_name meta) ?es) db = (Inr (), db\<lparr>db_disk := ?d\<rparr>)"
    by (simp add: on_dir_def)
  obtain db' where db': "close_table (im_table meta) t' (db\<lparr>db_disk := ?d\<rparr>) = db'"
    "db_holds db' (T(im_table meta := T (im_table meta))) (E(meta := ?es)) n"
    "db_catalog db' = db_catalog (db\<lparr>db_disk := ?d\<rparr>)" "db_indexes db' = db_indexes (db\<lparr>db_disk := ?d\<rparr>)"
  proof (rule close_table_ok [OF db_holds_index [OF db meta, of ?es] _ t'(2) order_refl])
    show "map_of (db_catalog (db\<lparr>db_disk := ?d\<rparr>)) (im_table meta) = Some s" using s(1) by simp
  qed
  have "rebuild_index (im_name meta) db = (Inr (), db')"
    using index_meta_in(3) [OF D(4) meta] t(1) t'(1) put db'(1) by (simp add: rebuild_index_def)
  then show thesis using that db' by simp
qed

lemma rebuild_all_ok:
  "db_holds db T E n \<Longrightarrow> set metas \<subseteq> set (bt_values (db_indexes db)) \<Longrightarrow>
     \<exists>db'. rebuild_all metas db = (Inr (), db') \<and>
       db_holds db' T (\<lambda>meta. if meta \<in> set metas then current_entries (db_catalog db) T meta else E meta) n \<and>
       db_catalog db' = db_catalog db \<and> db_indexes db' = db_indexes db"
proof (induction metas arbitrary: db E)
  case (Cons meta metas)
  obtain db1 where db1: "rebuild_index (im_name meta) db = (Inr (), db1)"
    "db_holds db1 T (E(meta := current_entries (db_catalog db) T meta)) n"
    "db_catalog db1 = db_catalog db" "db_indexes db1 = db_indexes db"
    using rebuild_index_ok [OF Cons.prems(1), of meta] Cons.prems(2) by auto
  have sub: "set metas \<subseteq> set (bt_values (db_indexes db1))" using Cons.prems(2) db1(4) by simp
  obtain db2 where db2: "rebuild_all metas db1 = (Inr (), db2)"
    "db_holds db2 T (\<lambda>x. if x \<in> set metas then current_entries (db_catalog db1) T x
       else (E(meta := current_entries (db_catalog db) T meta)) x) n"
    "db_catalog db2 = db_catalog db1" "db_indexes db2 = db_indexes db1"
    using Cons.IH [OF db1(2) sub] by blast
  have "db_holds db2 T (\<lambda>x. if x \<in> set (meta # metas) then current_entries (db_catalog db) T x else E x) n"
    by (rule db_holds_cong [OF db2(2)]) (simp add: db1(3))
  then show ?case using db1 db2 by simp
qed simp

text \<open>A table changes and its indexes are rebuilt: the database is consistent again.\<close>

lemma rebuild_indexes_ok:
  assumes db: "db_holds db (T(name := M)) (current_entries (db_catalog db) T) n"
  obtains db' where "rebuild_indexes_for_table name db = (Inr (), db')" and "db_ok db' (T(name := M)) n"
    and "db_catalog db' = db_catalog db" and "db_indexes db' = db_indexes db"
proof -
  let ?metas = "indexes_for_table name (db_indexes db)"
  have sub: "set ?metas \<subseteq> set (bt_values (db_indexes db))" by (auto simp: indexes_for_table_def)
  obtain db' where db': "rebuild_all ?metas db = (Inr (), db')"
    "db_holds db' (T(name := M)) (\<lambda>meta. if meta \<in> set ?metas then current_entries (db_catalog db) (T(name := M)) meta
       else current_entries (db_catalog db) T meta) n"
    "db_catalog db' = db_catalog db" "db_indexes db' = db_indexes db"
    using rebuild_all_ok [OF db sub] by blast
  have "db_holds db' (T(name := M)) (current_entries (db_catalog db') (T(name := M))) n"
    by (rule db_holds_cong [OF db'(2)]) (auto simp: db'(3,4) indexes_for_table_def current_entries_def)
  then show thesis using that db' by (simp add: rebuild_indexes_for_table_def db_ok_def)
qed

end
