(* ===== verification/Row_Order.thy ===== *)
theory Row_Order
  imports Database_Spec
begin

section \<open>The order of the rows of a selection\<close>

text \<open>
  \<open>sort_by\<close> sorts with any comparison function.  What it promises to its caller is stated for
  a comparison that is a total preorder on the elements to sort; the comparison of rows by the
  order keys of a selection is one on the rows of a schema.
\<close>

subsection \<open>Sorting by a comparison\<close>

locale comparator =
  fixes compare :: "'a \<Rightarrow> 'a \<Rightarrow> ordering"
    and carrier :: "'a set"
  assumes reverse: "x \<in> carrier \<Longrightarrow> y \<in> carrier \<Longrightarrow> compare y x = reverse_ordering (compare x y)"
    and trans: "x \<in> carrier \<Longrightarrow> y \<in> carrier \<Longrightarrow> z \<in> carrier \<Longrightarrow>
      compare x y \<noteq> Greater \<Longrightarrow> compare y z \<noteq> Greater \<Longrightarrow> compare x z \<noteq> Greater"
begin

abbreviation sorted_by :: "'a list \<Rightarrow> bool" where
  "sorted_by \<equiv> sorted_wrt (\<lambda>x y. compare x y \<noteq> Greater)"

lemma mset_insert_by [simp]: "mset (insert_by compare x xs) = add_mset x (mset xs)"
  by (induction xs) auto

lemma set_insert_by [simp]: "set (insert_by compare x xs) = insert x (set xs)"
  using mset_eq_setD [of "insert_by compare x xs" "x # xs"] by simp

lemma mset_sort_by: "mset (sort_by compare xs) = mset xs"
  by (induction xs) (simp_all add: sort_by_def)

lemma set_sort_by [simp]: "set (sort_by compare xs) = set xs"
  by (rule mset_eq_setD) (rule mset_sort_by)

lemma sort_by_simps: "sort_by compare [] = []" "sort_by compare (x # xs) = insert_by compare x (sort_by compare xs)"
  by (simp_all add: sort_by_def)

lemma not_after: "x \<in> carrier \<Longrightarrow> y \<in> carrier \<Longrightarrow> compare x y = Greater \<Longrightarrow> compare y x = Less"
  using reverse [of x y] by simp

lemma sorted_insert_by:
  "x \<in> carrier \<Longrightarrow> set xs \<subseteq> carrier \<Longrightarrow> sorted_by xs \<Longrightarrow> sorted_by (insert_by compare x xs)"
proof (induction xs)
  case (Cons y ys)
  show ?case
  proof (cases "compare x y = Greater")
    case True
    then have "compare y x \<noteq> Greater" using not_after Cons.prems by simp
    then show ?thesis using Cons True by simp
  next
    case False
    have "compare x z \<noteq> Greater" if z: "z \<in> set ys" for z
      using trans [of x y z] False Cons.prems z by auto
    then show ?thesis using Cons.prems False by simp
  qed
qed simp

lemma sorted_sort_by: "set xs \<subseteq> carrier \<Longrightarrow> sorted_by (sort_by compare xs)"
  by (induction xs) (simp_all add: sort_by_simps sorted_insert_by)

lemma equal_trans:
  assumes "x \<in> carrier" "y \<in> carrier" "z \<in> carrier" "compare x z = Equal" "compare y z = Equal"
  shows "compare x y = Equal"
proof -
  have z: "compare z x = Equal" "compare z y = Equal"
    using assms reverse [of x z] reverse [of y z] by simp_all
  have "compare x y \<noteq> Greater" using trans [of x z y] assms z by simp
  moreover have "compare y x \<noteq> Greater" using trans [of y z x] assms z by simp
  then have "compare x y \<noteq> Less" using reverse [of x y] assms by auto
  ultimately show ?thesis by (cases "compare x y") simp_all
qed

lemma filter_insert_by:
  assumes "x \<in> carrier" and "z \<in> carrier"
  shows "set xs \<subseteq> carrier \<Longrightarrow>
    filter (\<lambda>y. compare y z = Equal) (insert_by compare x xs) = filter (\<lambda>y. compare y z = Equal) (x # xs)"
proof (induction xs)
  case (Cons y ys)
  have "\<not> (compare x z = Equal \<and> compare y z = Equal)" if "compare x y = Greater"
    using equal_trans [of x y z] assms Cons.prems that by auto
  then show ?case using Cons by auto
qed simp

lemma stable_sort_by:
  assumes "z \<in> carrier"
  shows "set xs \<subseteq> carrier \<Longrightarrow>
    filter (\<lambda>y. compare y z = Equal) (sort_by compare xs) = filter (\<lambda>y. compare y z = Equal) xs"
proof (induction xs)
  case (Cons x xs)
  then show ?case using filter_insert_by [of x z "sort_by compare xs"] assms by (simp add: sort_by_simps)
qed (simp add: sort_by_simps)

end

subsection \<open>The comparison of rows\<close>

text \<open>Three comparisons that a total preorder can give for \<open>x y\<close>, \<open>y z\<close> and \<open>x z\<close>.\<close>

definition coherent :: "ordering \<Rightarrow> ordering \<Rightarrow> ordering \<Rightarrow> bool" where
  "coherent xy yz xz \<longleftrightarrow> (xy = Equal \<longrightarrow> xz = yz) \<and> (yz = Equal \<longrightarrow> xz = xy) \<and> (xy = yz \<longrightarrow> xz = xy)"

lemma coherent_cmp: "coherent (cmp x y) (cmp y z) (cmp x z)"
  by (auto simp: coherent_def cmp_def)

lemma coherent_reverse: "coherent a b c \<Longrightarrow> coherent (reverse_ordering a) (reverse_ordering b) (reverse_ordering c)"
  by (cases a; cases b; cases c) (simp_all add: coherent_def)

lemma coherent_lex:
  "coherent a b c \<Longrightarrow> coherent a' b' c' \<Longrightarrow>
     coherent (if a \<noteq> Equal then a else a') (if b \<noteq> Equal then b else b') (if c \<noteq> Equal then c else c')"
  by (cases a; cases b; cases c) (auto simp: coherent_def)

lemma coherent_trans: "coherent a b c \<Longrightarrow> a \<noteq> Greater \<Longrightarrow> b \<noteq> Greater \<Longrightarrow> c \<noteq> Greater"
  by (cases a; cases b) (simp_all add: coherent_def)

lemma compare_values_order: "compare_values v w = val_order v w"
  by (cases "(v, w)" rule: compare_values.cases) simp_all

lemma val_order_laws:
  "value_typed ct u \<Longrightarrow> value_typed ct v \<Longrightarrow> val_order v u = reverse_ordering (val_order u v)"
  "value_typed ct u \<Longrightarrow> value_typed ct v \<Longrightarrow> value_typed ct w \<Longrightarrow>
     coherent (val_order u v) (val_order v w) (val_order u w)"
  by (cases ct; cases u; cases v; cases w; simp add: cmp_i32_def total_cmp_def coherent_cmp)+

definition comparable :: "order_key_plan list \<Rightarrow> column_schema list \<Rightarrow> row set" where
  "comparable ks cs = {vs. list_all2 (\<lambda>c v. value_typed (cs_type c) v) cs vs \<and> (\<forall>k \<in> set ks. ok_index k < length cs)}"

lemma comparable_nth: "vs \<in> comparable ks cs \<Longrightarrow> k \<in> set ks \<Longrightarrow> value_typed (cs_type (cs ! ok_index k)) (vs ! ok_index k)"
  by (auto simp: comparable_def list_all2_conv_all_nth)

lemma comparable_Cons: "vs \<in> comparable (k # ks) cs \<Longrightarrow> vs \<in> comparable ks cs"
  by (simp add: comparable_def)

lemma compare_rows_reverse:
  "x \<in> comparable ks cs \<Longrightarrow> y \<in> comparable ks cs \<Longrightarrow> compare_rows ks y x = reverse_ordering (compare_rows ks x y)"
proof (induction ks)
  case (Cons k ks)
  have "val_order (y ! ok_index k) (x ! ok_index k) = reverse_ordering (val_order (x ! ok_index k) (y ! ok_index k))"
    by (rule val_order_laws(1)) (rule comparable_nth [OF Cons.prems(1)] comparable_nth [OF Cons.prems(2)], simp)+
  then show ?case
    using Cons.IH comparable_Cons Cons.prems
    by (cases "ok_direction k"; cases "val_order (x ! ok_index k) (y ! ok_index k)")
      (auto simp: compare_row_value_at_def compare_values_order)
qed simp

lemma compare_rows_coherent:
  "x \<in> comparable ks cs \<Longrightarrow> y \<in> comparable ks cs \<Longrightarrow> z \<in> comparable ks cs \<Longrightarrow>
     coherent (compare_rows ks x y) (compare_rows ks y z) (compare_rows ks x z)"
proof (induction ks)
  case Nil
  then show ?case by (simp add: coherent_def)
next
  case (Cons k ks)
  let ?o = "\<lambda>x y. val_order (x ! ok_index k) (y ! ok_index k)"
  have "coherent (?o x y) (?o y z) (?o x z)"
    by (rule val_order_laws(2))
      (rule comparable_nth [OF Cons.prems(1)] comparable_nth [OF Cons.prems(2)] comparable_nth [OF Cons.prems(3)], simp)+
  then have "coherent (case ok_direction k of Asc \<Rightarrow> ?o x y | Desc \<Rightarrow> reverse_ordering (?o x y))
      (case ok_direction k of Asc \<Rightarrow> ?o y z | Desc \<Rightarrow> reverse_ordering (?o y z))
      (case ok_direction k of Asc \<Rightarrow> ?o x z | Desc \<Rightarrow> reverse_ordering (?o x z))"
    by (cases "ok_direction k") (simp_all add: coherent_reverse)
  from coherent_lex [OF this Cons.IH] Cons.prems comparable_Cons show ?case
    by (simp add: compare_row_value_at_def compare_values_order Let_def)
qed

interpretation rows: comparator "compare_rows ks" "comparable ks cs" for ks cs
proof
  show "compare_rows ks y x = reverse_ordering (compare_rows ks x y)"
    if "x \<in> comparable ks cs" "y \<in> comparable ks cs" for x y
    using that by (rule compare_rows_reverse)
  show "compare_rows ks x z \<noteq> Greater"
    if "x \<in> comparable ks cs" "y \<in> comparable ks cs" "z \<in> comparable ks cs"
      "compare_rows ks x y \<noteq> Greater" "compare_rows ks y z \<noteq> Greater" for x y z
    using compare_rows_coherent [OF that(1,2,3)] that(4,5) by (rule coherent_trans)
qed

lemma row_fits_comparable:
  "row_fits cs vs \<Longrightarrow> \<forall>k \<in> set ks. ok_index k < length cs \<Longrightarrow> vs \<in> comparable ks cs"
  by (auto simp: comparable_def row_fits_def value_fits_typed elim: list_all2_mono)

end
