(* ===== verification/Query_Spec.thy ===== *)
theory Query_Spec
  imports Row_Order
begin

section \<open>Requests that are accepted, and the rows they select\<close>

text \<open>
  Which requests are accepted, stated on the column names and types of the schema, and which
  plan an accepted request gets.
\<close>

subsection \<open>Columns by name\<close>

definition column_names :: "column_schema list \<Rightarrow> string list" where
  "column_names cs = map cs_name cs"

definition position_of :: "column_schema list \<Rightarrow> string \<Rightarrow> nat" where
  "position_of cs name = the (column_index name cs)"

lemma column_index_position: "column_index name cs = Some i \<longleftrightarrow> name \<in> set (column_names cs) \<and> i = position_of cs name"
  using column_index_None [of name cs] by (cases "column_index name cs") (auto simp: position_of_def column_names_def)

lemma column_index_if: "column_index name cs = (if name \<in> set (column_names cs) then Some (position_of cs name) else None)"
  using column_index_position [of name cs] column_index_None [of name cs] by (auto simp: column_names_def)

lemma position_of_less: "name \<in> set (column_names cs) \<Longrightarrow> position_of cs name < length cs \<and> cs_name (cs ! position_of cs name) = name"
  using column_index_position column_index_less by blast

lemma position_of_nth: "distinct (column_names cs) \<Longrightarrow> i < length cs \<Longrightarrow> position_of cs (cs_name (cs ! i)) = i"
  by (simp add: position_of_def column_names_def column_index_nth)

lemma schema_ok_distinct: "schema_ok s \<Longrightarrow> distinct (column_names (ts_columns s))"
  by (simp add: schema_ok_def columns_ok_def column_names_def)

lemma resolve_schema_column_iff:
  "resolve_schema_column s table name = Inr x \<longleftrightarrow>
     name \<in> set (column_names (ts_columns s)) \<and>
     x = (position_of (ts_columns s) name, ts_columns s ! position_of (ts_columns s) name)"
  by (auto simp: resolve_schema_column_def column_index_if)

lemma require_column_iff: "require_column s table name = Inr u \<longleftrightarrow> name \<in> set (column_names (ts_columns s))"
  by (auto simp: require_column_def column_names_def list_ex_iff)

text \<open>The loops over names reject a name seen before.\<close>

lemma not_Some_unit [simp]: "x \<noteq> Some () \<longleftrightarrow> x = None"
  by (cases x) simp_all

lemma seen_step:
  "bt_ok seen \<Longrightarrow> (\<forall>y \<in> A. map_of (bt_insert x () seen) y = None) \<longleftrightarrow> x \<notin> A \<and> (\<forall>y \<in> A. map_of seen y = None)"
  by auto

subsection \<open>Projections, orders and limits\<close>

lemma resolve_columns_iff:
  "bt_ok seen \<Longrightarrow> resolve_columns table s ns seen = Inr ics \<longleftrightarrow>
     distinct ns \<and> set ns \<subseteq> set (column_names (ts_columns s)) \<and> (\<forall>n \<in> set ns. map_of seen n = None) \<and>
     ics = map (\<lambda>n. (position_of (ts_columns s) n, ts_columns s ! position_of (ts_columns s) n)) ns"
proof (induction ns arbitrary: seen ics)
  case (Cons n ns)
  show ?case
    using Cons.IH [of "bt_insert n () seen"] Cons.prems seen_step [OF Cons.prems, of "set ns" n]
    by (auto simp: and_then_Inr_iff resolve_schema_column_iff bt_contains_def)
qed auto

definition projected_names :: "column_schema list \<Rightarrow> projection \<Rightarrow> string list" where
  "projected_names cs p = (case p of P_All \<Rightarrow> column_names cs | P_Columns ns \<Rightarrow> ns)"

definition projection_ok :: "column_schema list \<Rightarrow> projection \<Rightarrow> bool" where
  "projection_ok cs p \<longleftrightarrow> distinct (projected_names cs p) \<and> set (projected_names cs p) \<subseteq> set (column_names cs)"

definition projection_of :: "column_schema list \<Rightarrow> projection \<Rightarrow> projection_plan" where
  "projection_of cs p =
     \<lparr>pp_columns = map (\<lambda>n. cs ! position_of cs n) (projected_names cs p), pp_indices = map (position_of cs) (projected_names cs p)\<rparr>"

lemma resolve_projection_iff:
  assumes "schema_ok s"
  shows "resolve_projection table s p = Inr plan \<longleftrightarrow>
    projection_ok (ts_columns s) p \<and> plan = projection_of (ts_columns s) p"
proof (cases p)
  case P_All
  note d = schema_ok_distinct [OF assms]
  have "map (\<lambda>n. ts_columns s ! position_of (ts_columns s) n) (column_names (ts_columns s)) = ts_columns s"
    "map (position_of (ts_columns s)) (column_names (ts_columns s)) = [0..<length (ts_columns s)]"
    by (rule nth_equalityI; simp add: column_names_def position_of_nth [OF d, unfolded column_names_def])+
  then show ?thesis
    using P_All d by (auto simp: resolve_projection_def projection_ok_def projected_names_def projection_of_def)
next
  case (P_Columns ns)
  then show ?thesis
    by (auto simp: resolve_projection_def and_then_Inr_iff resolve_columns_iff projection_ok_def projected_names_def
        projection_of_def o_def)
qed

definition order_keys :: "column_schema list \<Rightarrow> order_by list \<Rightarrow> order_key_plan list" where
  "order_keys cs os = map (\<lambda>o1. \<lparr>ok_index = position_of cs (ob_column o1), ok_direction = ob_direction o1\<rparr>) os"

definition order_ok :: "column_schema list \<Rightarrow> order_by list \<Rightarrow> bool" where
  "order_ok cs os \<longleftrightarrow> distinct (map ob_column os) \<and> ob_column ` set os \<subseteq> set (column_names cs)"

lemma resolve_order_items_iff:
  "bt_ok seen \<Longrightarrow> resolve_order_items table s os seen = Inr ks \<longleftrightarrow>
     order_ok (ts_columns s) os \<and> (\<forall>n \<in> ob_column ` set os. map_of seen n = None) \<and> ks = order_keys (ts_columns s) os"
proof (induction os arbitrary: seen ks)
  case (Cons o1 os)
  show ?case
    using Cons.IH [of "bt_insert (ob_column o1) () seen"] Cons.prems
      seen_step [OF Cons.prems, of "ob_column ` set os" "ob_column o1"]
    by (auto simp: and_then_Inr_iff resolve_schema_column_iff bt_contains_def order_ok_def order_keys_def)
qed (auto simp: order_ok_def order_keys_def)

definition select_ok :: "column_schema list \<Rightarrow> extended_select_request \<Rightarrow> bool" where
  "select_ok cs request \<longleftrightarrow>
     projection_ok cs (sr_projection request) \<and> order_ok cs (sr_order_by request) \<and> sr_limit request \<noteq> Some 0 \<and>
     filter_typed cs (sr_filter request)"

definition plan_of :: "column_schema list \<Rightarrow> extended_select_request \<Rightarrow> select_plan" where
  "plan_of cs request =
     \<lparr>sp_projection = projection_of cs (sr_projection request), sp_order_by = order_keys cs (sr_order_by request),
      sp_limit = sr_limit request\<rparr>"

lemma resolve_select_plan_iff:
  assumes "schema_ok s"
  shows "resolve_select_plan table s request = Inr plan \<longleftrightarrow>
    projection_ok (ts_columns s) (sr_projection request) \<and> order_ok (ts_columns s) (sr_order_by request) \<and>
    sr_limit request \<noteq> Some 0 \<and> plan = plan_of (ts_columns s) request"
proof -
  have "normalize_limit table l = Inr l' \<longleftrightarrow> l \<noteq> Some 0 \<and> l' = l" for l l'
    by (auto simp: normalize_limit_def split: option.split)
  then show ?thesis
    using resolve_order_items_iff [of "[]"]
    by (auto simp: resolve_select_plan_def and_then_Inr_iff resolve_projection_iff [OF assms] resolve_order_by_def plan_of_def)
qed

text \<open>The filters that are typed refer to columns of the schema.\<close>

lemma validate_typed: "expr_typed (ts_columns s) e \<Longrightarrow> validate_expr_columns table s e = Inr ()"
proof (induction e)
  case (E_CmpValue c op v)
  then show ?case
    by (auto simp: column_type_of_def require_column_iff column_index_if split: option.splits if_splits)
next
  case (E_CmpColumns l op r)
  then show ?case
    by (auto simp: column_type_of_def require_column_iff column_index_if split: option.splits if_splits)
next
  case (E_And es)
  have "list_all (\<lambda>e. validate_expr_columns table s e = Inr ()) es" using E_And by (simp add: list_all_iff)
  then have "validate_exprs_columns table s es = Inr ()" by (induction es) simp_all
  then show ?case by simp
next
  case (E_Or es)
  have "list_all (\<lambda>e. validate_expr_columns table s e = Inr ()) es" using E_Or by (simp add: list_all_iff)
  then have "validate_exprs_columns table s es = Inr ()" by (induction es) simp_all
  then show ?case by simp
qed simp_all

lemma validate_filter_typed: "filter_typed (ts_columns s) e \<Longrightarrow> validate_filter table s e = Inr ()"
  by (auto simp: validate_filter_def filter_typed_def validate_typed split: option.splits)

subsection \<open>Insertions and assignments\<close>

lemma value_matches_typed: "value_matches_type ct v = value_typed ct v"
  by (cases ct; cases v) simp_all

lemma check_value_type_iff [simp]: "check_value_type table name ct v = Inr u \<longleftrightarrow> value_typed ct v"
  by (auto simp: check_value_type_def value_matches_typed)

definition row_typed :: "column_schema list \<Rightarrow> row \<Rightarrow> bool" where
  "row_typed cs vs \<longleftrightarrow> list_all2 (\<lambda>c v. value_typed (cs_type c) v) cs vs"

lemma row_fits_typed: "row_fits cs vs \<Longrightarrow> row_typed cs vs"
  by (auto simp: row_typed_def row_fits_def value_fits_typed elim: list_all2_mono)

lemma validate_row_types_iff: "validate_row_types table s vs = Inr u \<longleftrightarrow> row_typed (ts_columns s) vs"
proof -
  have "length vs = length cs \<Longrightarrow> row_types_loop table cs vs = Inr u \<longleftrightarrow> row_typed cs vs" for cs
    by (induction vs cs rule: list_induct2) (auto simp: row_typed_def)
  then show ?thesis by (auto simp: validate_row_types_def row_typed_def dest: list_all2_lengthD)
qed

definition named_map :: "named_value list \<Rightarrow> string \<Rightarrow> val option" where
  "named_map es = map_of (map (\<lambda>e. (nv_column e, nv_value e)) es)"

lemma named_values_iff:
  "bt_ok seen \<Longrightarrow> bt_ok vals \<Longrightarrow> named_values table s es seen vals = Inr m \<Longrightarrow>
     distinct (map nv_column es) \<and> nv_column ` set es \<subseteq> set (column_names (ts_columns s)) \<and>
     (\<forall>n \<in> nv_column ` set es. map_of seen n = None) \<and> bt_ok m \<and> map_of m = map_of vals ++ named_map es"
proof (induction es arbitrary: seen vals)
  case (Cons e es)
  let ?n = "nv_column e"
  have n: "?n \<in> set (column_names (ts_columns s))" "map_of seen ?n = None"
    "named_values table s es (bt_insert ?n () seen) (bt_insert ?n (nv_value e) vals) = Inr m"
    using Cons.prems(3) by (auto simp: require_column_iff bt_contains_def split: if_splits)
  have ih: "distinct (map nv_column es)" "nv_column ` set es \<subseteq> set (column_names (ts_columns s))"
    "\<forall>x \<in> nv_column ` set es. map_of (bt_insert ?n () seen) x = None" "bt_ok m"
    "map_of m = map_of (bt_insert ?n (nv_value e) vals) ++ named_map es"
    using Cons.IH [OF bt_ok_insert [OF Cons.prems(1)] bt_ok_insert [OF Cons.prems(2)] n(3)] by simp_all
  have seen: "?n \<notin> nv_column ` set es" "\<forall>x \<in> nv_column ` set es. map_of seen x = None"
    using ih(3) seen_step [OF Cons.prems(1), of "nv_column ` set es" ?n] by simp_all
  then have "named_map es ?n = None" by (auto simp: named_map_def map_of_eq_None_iff)
  then have "map_of m = map_of vals ++ named_map (e # es)"
    using ih(5) Cons.prems(2) map_add_upd_left [of ?n "named_map es"] by (simp add: named_map_def domIff)
  then show ?case using ih(1,2,4) seen n(1,2) by simp
qed (auto simp: named_map_def)

lemma named_values_total:
  "bt_ok seen \<Longrightarrow> distinct (map nv_column es) \<Longrightarrow> nv_column ` set es \<subseteq> set (column_names (ts_columns s)) \<Longrightarrow>
     \<forall>n \<in> nv_column ` set es. map_of seen n = None \<Longrightarrow> \<exists>m. named_values table s es seen vals = Inr m"
proof (induction es arbitrary: seen vals)
  case (Cons e es)
  have "\<forall>n \<in> nv_column ` set es. map_of (bt_insert (nv_column e) () seen) n = None"
    using seen_step [OF Cons.prems(1), of "nv_column ` set es"] Cons.prems(2,4) by simp
  then show ?case
    using Cons.IH [OF bt_ok_insert [OF Cons.prems(1)]] Cons.prems(2,3,4)
    by (auto simp: require_column_iff bt_contains_def)
qed simp

lemma ordered_values_iff:
  "distinct (column_names cs) \<Longrightarrow> ordered_values table cs m = Inr vs \<longleftrightarrow>
     set (column_names cs) \<subseteq> dom (map_of m) \<and> vs = map (\<lambda>n. the (map_of m n)) (column_names cs) \<and> row_typed cs vs"
proof (induction cs arbitrary: m vs)
  case (Cons c cs)
  have ne: "n \<noteq> cs_name c" if "n \<in> set (column_names cs)" for n
  proof -
    have "cs_name c \<notin> set (column_names cs)" using Cons.prems by (simp add: column_names_def)
    then show ?thesis using that by metis
  qed
  have rest: "map (\<lambda>n. the (map_of (bt_remove (cs_name c) m) n)) (column_names cs) =
      map (\<lambda>n. the (map_of m n)) (column_names cs)"
    "set (column_names cs) \<subseteq> dom (map_of (bt_remove (cs_name c) m)) \<longleftrightarrow> set (column_names cs) \<subseteq> dom (map_of m)"
    using ne by (auto split: if_splits)
  have "distinct (column_names cs)" using Cons.prems by (simp add: column_names_def)
  note ih = Cons.IH [OF this, of "bt_remove (cs_name c) m", unfolded rest]
  show ?case
  proof (cases "map_of m (cs_name c)")
    case None
    then show ?thesis by (auto simp: column_names_def)
  next
    case (Some v)
    then show ?thesis using ih by (auto simp: column_names_def row_typed_def)
  qed
qed (auto simp: column_names_def row_typed_def)

lemma normalize_named_insert_iff:
  assumes "schema_ok s"
  shows "normalize_named_insert table s es = Inr vs \<longleftrightarrow>
    distinct (map nv_column es) \<and> nv_column ` set es = set (column_names (ts_columns s)) \<and>
    vs = map (\<lambda>n. the (named_map es n)) (column_names (ts_columns s)) \<and> row_typed (ts_columns s) vs"
proof -
  have dom: "dom (named_map es) = nv_column ` set es" by (force simp: named_map_def dom_map_of_conv_image_fst)
  note ordered = ordered_values_iff [OF schema_ok_distinct [OF assms]]
  show ?thesis
  proof (cases "distinct (map nv_column es) \<and> nv_column ` set es \<subseteq> set (column_names (ts_columns s))")
    case True
    then obtain m where m: "named_values table s es [] [] = Inr m" using named_values_total [of "[]" es s table "[]"] by auto
    have "map_of m = named_map es" using named_values_iff [OF bt_ok_Nil bt_ok_Nil m] by simp
    then show ?thesis using True m ordered [of table m vs] dom by (auto simp: normalize_named_insert_def)
  next
    case False
    then have "\<nexists>m. named_values table s es [] [] = Inr m" using named_values_iff [OF bt_ok_Nil bt_ok_Nil] by blast
    then show ?thesis using False by (auto simp: normalize_named_insert_def)
  qed
qed

definition assignment_pairs :: "assignment list \<Rightarrow> (string \<times> val) list" where
  "assignment_pairs as = map (\<lambda>a. (as_column a, as_value a)) as"

lemma assigns_fit_Cons:
  "assigns_fit cs ((name, v) # as) \<longleftrightarrow>
     name \<in> set (column_names cs) \<and> value_fits (cs_type (cs ! position_of cs name)) v \<and> assigns_fit cs as"
  by (auto simp: assigns_fit_def column_index_position)

lemma assignments_loop_ok:
  "bt_ok seen \<Longrightarrow> distinct (map as_column as) \<Longrightarrow> assigns_fit (ts_columns s) (assignment_pairs as) \<Longrightarrow>
     \<forall>n \<in> as_column ` set as. map_of seen n = None \<Longrightarrow>
     \<exists>ns. assignments_loop table s as seen = Inr ns \<and> map (\<lambda>a. (na_column a, na_value a)) ns = assignment_pairs as"
proof (induction as arbitrary: seen)
  case (Cons a as)
  have a: "as_column a \<in> set (column_names (ts_columns s))"
    "value_typed (cs_type (ts_columns s ! position_of (ts_columns s) (as_column a))) (as_value a)"
    "assigns_fit (ts_columns s) (assignment_pairs as)"
    using Cons.prems(3) value_fits_typed by (auto simp: assignment_pairs_def assigns_fit_Cons)
  have "\<forall>n \<in> as_column ` set as. map_of (bt_insert (as_column a) () seen) n = None"
    using seen_step [OF Cons.prems(1), of "as_column ` set as"] Cons.prems(2,4) by simp
  then obtain ns where "assignments_loop table s as (bt_insert (as_column a) () seen) = Inr ns"
    "map (\<lambda>a. (na_column a, na_value a)) ns = assignment_pairs as"
    using Cons.IH [OF bt_ok_insert [OF Cons.prems(1)] _ a(3), of "as_column a" "()"] Cons.prems(2) by auto
  moreover have "resolve_schema_column s table (as_column a) =
      Inr (position_of (ts_columns s) (as_column a), ts_columns s ! position_of (ts_columns s) (as_column a))"
    using a(1) by (simp add: resolve_schema_column_iff)
  moreover have "check_value_type table (as_column a)
      (cs_type (ts_columns s ! position_of (ts_columns s) (as_column a))) (as_value a) = Inr ()"
    using a(2) by simp
  ultimately show ?case using Cons.prems(4) by (simp add: bt_contains_def assignment_pairs_def)
qed (simp add: assignment_pairs_def)

end
