(* ===== verification/Query_Ops.thy ===== *)
theory Query_Ops
  imports Query_Spec
begin

section \<open>What the requests do to the content of a database\<close>

text \<open>
  Each request of the engine as a change of the map that a table is: the rows that a selection
  presents, and what insertions, updates and deletions leave, with the indexes rebuilt.
\<close>

subsection \<open>The rows of a selection\<close>

lemma sort_by_no_keys: "sort_by (compare_rows []) rs = rs"
proof -
  have "insert_by (compare_rows []) r rs = r # rs" for r rs by (cases rs) simp_all
  then show ?thesis by (induction rs) (simp_all add: sort_by_def)
qed

definition projected :: "column_schema list \<Rightarrow> projection \<Rightarrow> row \<Rightarrow> row" where
  "projected cs p vs = map (column_value cs vs) (projected_names cs p)"

definition presented :: "column_schema list \<Rightarrow> extended_select_request \<Rightarrow> row list \<Rightarrow> row list" where
  "presented cs request rs =
     map (projected cs (sr_projection request))
       (apply_limit (sort_by (compare_rows (order_keys cs (sr_order_by request))) rs) (sr_limit request))"

lemma project_row_ok:
  "length vs = length cs \<Longrightarrow> set ns \<subseteq> set (column_names cs) \<Longrightarrow>
     project_row vs (map (position_of cs) ns) = Inr (map (column_value cs vs) ns)"
  by (induction ns) (auto simp: value_from_row_def position_of_less column_value_def position_of_def [symmetric])

lemma project_rows_ok:
  "\<forall>vs \<in> set rs. length vs = length cs \<Longrightarrow> set ns \<subseteq> set (column_names cs) \<Longrightarrow>
     project_rows rs (map (position_of cs) ns) = Inr (map (\<lambda>vs. map (column_value cs vs) ns) rs)"
  by (induction rs) (simp_all add: project_row_ok)

lemma order_keys_less: "order_ok cs os \<Longrightarrow> k \<in> set (order_keys cs os) \<Longrightarrow> ok_index k < length cs"
  using position_of_less by (auto simp: order_ok_def order_keys_def)

lemma apply_order_by_ok:
  assumes "order_ok cs os" and "\<forall>vs \<in> set rs. length vs = length cs"
  shows "apply_order_by rs (order_keys cs os) = Inr (sort_by (compare_rows (order_keys cs os)) rs)"
proof -
  have "\<not> list_ex (\<lambda>vs. list_ex (\<lambda>k. length vs \<le> ok_index k) (order_keys cs os)) rs"
    using order_keys_less [OF assms(1)] assms(2) by (auto simp: list_ex_iff not_le)
  then show ?thesis by (simp add: apply_order_by_def sort_by_no_keys)
qed

lemma present_rows_ok:
  assumes ok: "projection_ok cs (sr_projection request)" "order_ok cs (sr_order_by request)"
    and rs: "\<forall>vs \<in> set rs. row_fits cs vs"
  shows "present_rows s (plan_of cs request) rs =
    Inr \<lparr>ps_schema = s, ps_columns = map (\<lambda>n. cs ! position_of cs n) (projected_names cs (sr_projection request)),
         ps_rows = presented cs request rs\<rparr>"
proof -
  let ?sorted = "sort_by (compare_rows (order_keys cs (sr_order_by request))) rs"
  let ?rs = "apply_limit ?sorted (sr_limit request)"
  have len: "\<forall>vs \<in> set rs. length vs = length cs" using rs row_fits_length by blast
  have "set ?rs \<subseteq> set ?sorted"
    by (auto simp: apply_limit_def split: option.split dest: in_set_takeD)
  then have "\<forall>vs \<in> set ?rs. length vs = length cs" using len rows.set_sort_by by blast
  then have "project_rows ?rs (map (position_of cs) (projected_names cs (sr_projection request))) =
      Inr (presented cs request rs)"
    using ok(1) project_rows_ok by (simp add: projection_ok_def presented_def projected_def [abs_def])
  then show ?thesis
    using apply_order_by_ok [OF ok(2) len] by (simp add: present_rows_def plan_of_def projection_of_def)
qed

subsection \<open>Selections through an index\<close>

text \<open>The lookup of a key in an index gives the records that a scan selects, in the same order.\<close>

lemma index_selects:
  assumes M: "finite (dom M)" "rows_ok cs M" and i: "column_index name cs = Some i" "cs_type (cs ! i) = CT_Int32"
  shows "map ie_rid (filter (\<lambda>e. ie_key e = k) (sort_key entry_order (entries_of i M))) =
    selected cs (Some (E_CmpValue name Op_Eq (V_Int32 k))) M"
proof -
  let ?mk = "\<lambda>r. \<lparr>ie_key = int_key (the (M r) ! i), ie_rid = r\<rparr>"
  let ?rs = "filter (\<lambda>r. int_key (the (M r) ! i) = k) (rids_of M)"
  have es: "filter (\<lambda>e. ie_key e = k) (entries_of i M) = map ?mk ?rs"
    by (simp add: entries_of_def filter_map o_def)
  have "sorted_wrt (\<lambda>r s. rid_key r < rid_key s) ?rs"
    using rids_of_facts(2) [OF M(1)] by (rule sorted_wrt_filter)
  then have "sorted_wrt (\<lambda>r s. entry_order (?mk r) \<le> entry_order (?mk s)) ?rs"
    by (rule sorted_wrt_mono_rel [rotated]) (auto simp: entry_order_def rid_key_def less_eq_prod_def less_prod_def)
  then have "sorted (map entry_order (map ?mk ?rs))" by (simp add: sorted_map sorted_wrt_map)
  then have "sort_key entry_order (map ?mk ?rs) = map ?mk ?rs" by (rule sort_key_id_if_sorted)
  then have "map ie_rid (filter (\<lambda>e. ie_key e = k) (sort_key entry_order (entries_of i M))) = ?rs"
    using es by (simp add: filter_sort o_def)
  also have "?rs = selected cs (Some (E_CmpValue name Op_Eq (V_Int32 k))) M"
    unfolding selected_def
  proof (rule filter_cong [OF refl])
    fix r
    assume "r \<in> set (rids_of M)"
    then obtain vs where vs: "M r = Some vs" using rids_of_facts(1) [OF M(1)] by auto
    have "value_fits CT_Int32 (vs ! i)"
      using row_fits_nth [OF row_okD(1) [OF rows_okD [OF M(2) vs]]] i column_index_less by metis
    then obtain n where n: "vs ! i = V_Int32 n" by (cases "vs ! i") simp_all
    have "cmp_i32 n k = Equal \<longleftrightarrow> n = k" by (auto simp: cmp_i32_def signed_word_eqI)
    then show "(int_key (the (M r) ! i) = k) = row_selected cs (Some (E_CmpValue name Op_Eq (V_Int32 k))) (the (M r))"
      using vs n i(1) by (simp add: row_selected_def column_value_def)
  qed
  finally show ?thesis .
qed

lemma find_SomeD: "find P xs = Some x \<Longrightarrow> x \<in> set xs \<and> P x"
  by (auto simp: find_Some_iff)

lemma resolve_index_lookup_facts:
  assumes "resolve_index_lookup table flt db = Some plan"
  obtains name key meta where "flt = Some (E_CmpValue name Op_Eq (V_Int32 key))" and "il_key plan = key"
    and "meta \<in> set (bt_values (db_indexes db))" and "im_table meta = table" and "im_column meta = name"
    and "il_index_name plan = im_name meta"
proof -
  obtain name op key where flt: "flt = Some (E_CmpValue name op (V_Int32 key))" "op = Op_Eq"
    "map_option (\<lambda>index. \<lparr>il_index_name = im_name index, il_key = key\<rparr>) (find_index table name db) = Some plan"
    using assms by (auto simp: resolve_index_lookup_def split: option.splits expr.splits val.splits if_splits)
  then obtain meta where "find_index table name db = Some meta" "plan = \<lparr>il_index_name = im_name meta, il_key = key\<rparr>"
    by auto
  then show thesis
    using that [of name key meta] flt(1,2) by (auto simp: find_index_def indexes_for_table_def dest!: find_SomeD)
qed

lemma select_rows_ok:
  assumes db: "db_ok db T n" and s: "map_of (db_catalog db) table = Some s"
    and t: "table_holds t s (T table) n" and typed: "filter_typed (ts_columns s) (sr_filter request)"
  obtains t' where "select_rows request (resolve_index_lookup table (sr_filter request) db) t db =
      (Inr (rows_at (T table) (selected (ts_columns s) (sr_filter request) (T table))), t', db)"
    and "table_holds t' s (T table) n"
proof (cases "resolve_index_lookup table (sr_filter request) db")
  case None
  obtain t' where "table_scan (sr_filter request) t =
      (Inr (rows_at (T table) (selected (ts_columns s) (sr_filter request) (T table))), t')" "table_holds t' s (T table) n"
    by (rule table_scan_ok [OF t typed])
  then show thesis using that None by (simp add: select_rows_def)
next
  case (Some plan)
  note D = db_holdsD [OF db [unfolded db_ok_def]]
  obtain name key meta where plan: "sr_filter request = Some (E_CmpValue name Op_Eq (V_Int32 key))" "il_key plan = key"
    "meta \<in> set (bt_values (db_indexes db))" "im_table meta = table" "im_column meta = name" "il_index_name plan = im_name meta"
    by (rule resolve_index_lookup_facts [OF Some])
  obtain i where pos: "index_position (db_catalog db) meta = Some i" using D(8) [OF plan(3)] by auto
  then have i: "column_index name (ts_columns s) = Some i" "cs_type (ts_columns s ! i) = CT_Int32"
    using s plan(4,5) by (auto elim: index_positionD)
  let ?rs = "selected (ts_columns s) (sr_filter request) (T table)"
  have "index_stored (db_disk db) meta (entries_of i (T table))"
    using D(8) [OF plan(3)] pos plan(4) by (simp add: current_entries_def)
  then have "lookup_eq (im_name meta) key (db_disk db) = (Inr ?rs, db_disk db)"
    using lookup_eq_stored [OF D(1) _ index_meta_in(2) [OF D(4) plan(3)]] plan(1)
      index_selects [OF finite_rows [OF t] table_holdsD(4) [OF t] i]
    by (simp add: index_stored_def)
  then have look: "lookup_index_eq (il_index_name plan) (il_key plan) db = (Inr ?rs, db)"
    using plan(2,6) by (simp add: lookup_index_eq_def on_dir_def)
  have "set ?rs \<subseteq> dom (T table)" using selected_facts(1) [OF finite_rows [OF t]] by auto
  then obtain t' where "rows_by_rids ?rs t = (Inr (rows_at (T table) ?rs), t')" "table_holds t' s (T table) n"
    using rows_by_rids_ok [OF t] by blast
  then show thesis using that Some look by (simp add: select_rows_def)
qed

lemma untyped_scan_of:
  assumes t: "table_holds t s M n" and "\<not> filter_typed (ts_columns s) e"
  obtains err where "table_scan_of e t = Inl err"
proof -
  note T = table_holdsD [OF t]
  obtain x where x: "e = Some x" "\<not> expr_typed (ts_columns s) x"
    using assms(2) by (auto simp: filter_typed_def split: option.splits)
  have rs: "rf_record_size (tb_file t) = total_len (ts_columns s)" using t by (rule table_holdsE)
  have "\<nexists>sc. table_scan_of e t = Inr sc"
    using x accepted_typed [OF T(3), of x] rs T(2)
    by (auto simp: table_scan_of_def scan_with_logic_def accepted_def)
  then show thesis using that by (cases "table_scan_of e t") auto
qed

lemma untyped_scan:
  assumes "table_holds t s M n" and "\<not> filter_typed (ts_columns s) e"
  obtains err where "table_scan e t = (Inl err, t)" and "collect_records e t = (Inl err, t)"
proof -
  obtain err where "table_scan_of e t = Inl err" by (rule untyped_scan_of [OF assms])
  then show thesis using that by (simp add: table_scan_def collect_records_def)
qed

subsection \<open>Selections\<close>

text \<open>The content after a request: the catalogs are as before.\<close>

definition same_catalogs :: "database \<Rightarrow> database \<Rightarrow> bool" where
  "same_catalogs db db' \<longleftrightarrow> db_catalog db' = db_catalog db \<and> db_indexes db' = db_indexes db"

lemma db_ok_holds: "db_ok db T n \<Longrightarrow> db_holds db T (current_entries (db_catalog db) T) n"
  by (simp add: db_ok_def)

lemma load_schema_ok: "map_of (db_catalog db) table = Some s \<Longrightarrow> load_schema table db = Inr s"
  by (simp add: load_schema_def get_table_schema_def)

lemma close_same_ok:
  assumes db: "db_ok db T n" and s: "map_of (db_catalog db) table = Some s" and t: "table_holds t s (T table) n"
  obtains db' where "close_table table t db = db'" and "db_ok db' T n" and "same_catalogs db db'"
proof -
  obtain db' where "close_table table t db = db'" "db_holds db' (T(table := T table)) (current_entries (db_catalog db) T) n"
    "db_catalog db' = db_catalog db" "db_indexes db' = db_indexes db"
    by (rule close_table_ok [OF db_ok_holds [OF db] s t order_refl])
  then show thesis using that by (simp add: db_ok_def same_catalogs_def)
qed

lemma execute_select_ok:
  assumes db: "db_ok db T n" and s: "map_of (db_catalog db) (sr_table request) = Some s"
    and ok: "select_ok (ts_columns s) request"
  obtains db' where "execute_select request db =
      (Inr \<lparr>ps_schema = s,
            ps_columns = map (\<lambda>n. ts_columns s ! position_of (ts_columns s) n) (projected_names (ts_columns s) (sr_projection request)),
            ps_rows = presented (ts_columns s) request (rows_at (T (sr_table request))
              (selected (ts_columns s) (sr_filter request) (T (sr_table request))))\<rparr>, db')"
    and "db_ok db' T n" and "same_catalogs db db'"
proof -
  let ?cs = "ts_columns s" and ?M = "T (sr_table request)"
  have sel: "projection_ok ?cs (sr_projection request)" "order_ok ?cs (sr_order_by request)"
    "sr_limit request \<noteq> Some 0" "filter_typed ?cs (sr_filter request)"
    using ok by (simp_all add: select_ok_def)
  have schema: "schema_ok s" using db_holdsD(6) [OF db_ok_holds [OF db] s] by simp
  have plan: "resolve_select_plan (sr_table request) s request = Inr (plan_of ?cs request)"
    using sel resolve_select_plan_iff [OF schema] by simp
  obtain t where t: "open_table (sr_table request) db = (Inr t, db)" "table_holds t s ?M n"
    by (rule open_table_ok [OF db_ok_holds [OF db] s])
  let ?rs = "rows_at ?M (selected ?cs (sr_filter request) ?M)"
  obtain t' where t': "select_rows request (resolve_index_lookup (sr_table request) (sr_filter request) db) t db =
      (Inr ?rs, t', db)" "table_holds t' s ?M n"
    by (rule select_rows_ok [OF db s t(2) sel(4)])
  have "\<forall>vs \<in> set ?rs. row_fits ?cs vs"
    using selected_facts(1) [OF finite_rows [OF t(2)], of ?cs "sr_filter request"] rows_okD [OF table_holdsD(4) [OF t(2)]]
      row_okD(1)
    by (fastforce simp: rows_at_def)
  note present = present_rows_ok [OF sel(1,2) this]
  obtain db' where "close_table (sr_table request) t' db = db'" "db_ok db' T n" "same_catalogs db db'"
    by (rule close_same_ok [OF db s t'(2)])
  then show thesis
    using that load_schema_ok [OF s] validate_filter_typed [OF sel(4)] plan t(1) t'(1) present
    by (simp add: execute_select_def on_database_def Let_def)
qed

lemma execute_select_refused:
  assumes db: "db_ok db T n" and s: "map_of (db_catalog db) (sr_table request) = Some s"
    and bad: "\<not> select_ok (ts_columns s) request"
  obtains e db' where "execute_select request db = (Inl e, db')" and "db_ok db' T n" and "same_catalogs db db'"
proof (cases "validate_filter (sr_table request) s (sr_filter request)")
  case (Inl e)
  then show thesis using that [of e db] db load_schema_ok [OF s] by (simp add: execute_select_def same_catalogs_def)
next
  case valid: (Inr u)
  have schema: "schema_ok s" using db_holdsD(6) [OF db_ok_holds [OF db] s] by simp
  show thesis
  proof (cases "resolve_select_plan (sr_table request) s request")
    case (Inl e)
    then show thesis
      using that [of e db] db load_schema_ok [OF s] valid by (simp add: execute_select_def same_catalogs_def)
  next
    case plan: (Inr plan)
    then have untyped: "\<not> filter_typed (ts_columns s) (sr_filter request)"
      using bad resolve_select_plan_iff [OF schema] by (auto simp: select_ok_def)
    have none: "resolve_index_lookup (sr_table request) (sr_filter request) db = None"
    proof (rule ccontr)
      assume "resolve_index_lookup (sr_table request) (sr_filter request) db \<noteq> None"
      then obtain p where p: "resolve_index_lookup (sr_table request) (sr_filter request) db = Some p" by auto
      obtain name key meta where m: "sr_filter request = Some (E_CmpValue name Op_Eq (V_Int32 key))"
        "meta \<in> set (bt_values (db_indexes db))" "im_table meta = sr_table request" "im_column meta = name"
        using p by (rule resolve_index_lookup_facts)
      obtain i where "index_position (db_catalog db) meta = Some i"
        using db_holdsD(8) [OF db_ok_holds [OF db] m(2)] by auto
      then have "column_index name (ts_columns s) = Some i" "cs_type (ts_columns s ! i) = CT_Int32"
        using s m(3,4) by (auto elim: index_positionD)
      then show False using untyped m(1) by (simp add: filter_typed_def column_type_of_def)
    qed
    obtain t where t: "open_table (sr_table request) db = (Inr t, db)" "table_holds t s (T (sr_table request)) n"
      by (rule open_table_ok [OF db_ok_holds [OF db] s])
    obtain e where e: "table_scan (sr_filter request) t = (Inl e, t)" by (rule untyped_scan [OF t(2) untyped])
    obtain db' where "close_table (sr_table request) t db = db'" "db_ok db' T n" "same_catalogs db db'"
      by (rule close_same_ok [OF db s t(2)])
    then show thesis
      using that load_schema_ok [OF s] valid plan none t(1) e
      by (simp add: execute_select_def on_database_def Let_def select_rows_def)
  qed
qed

subsection \<open>Insertions, updates and deletions\<close>

text \<open>A table is changed and its indexes are rebuilt.\<close>

lemma modify_ok:
  assumes db: "db_ok db T n" and s: "map_of (db_catalog db) name = Some s" and le: "n \<le> n'"
    and body: "\<And>t. table_holds t s (T name) n \<Longrightarrow>
      \<exists>x M t'. body t = (Inr x, t') \<and> table_holds t' s M n' \<and> Q x M"
  obtains x M db1 db2 where "on_database (with_table name body) db = (Inr x, db1)" and "Q x M"
    and "on_database (rebuild_indexes_for_table name) db1 = (Inr (), db2)"
    and "db_ok db2 (T(name := M)) n'" and "same_catalogs db db2"
proof -
  obtain x M db1 where db1: "with_table name body db = (Inr x, db1)" "Q x M"
    "db_holds db1 (T(name := M)) (current_entries (db_catalog db) T) n'"
    "db_catalog db1 = db_catalog db" "db_indexes db1 = db_indexes db"
    by (rule with_table_ok [OF db_ok_holds [OF db] s le body])
  obtain db2 where "rebuild_indexes_for_table name db1 = (Inr (), db2)" "db_ok db2 (T(name := M)) n'"
    "db_catalog db2 = db_catalog db1" "db_indexes db2 = db_indexes db1"
    by (rule rebuild_indexes_ok [OF db1(3) [folded db1(4)]])
  then show thesis using that db1 by (simp add: on_database_def same_catalogs_def)
qed

definition input_row :: "column_schema list \<Rightarrow> insert_input \<Rightarrow> row" where
  "input_row cs input =
     (case input of FullRow vs \<Rightarrow> vs | Named es \<Rightarrow> map (\<lambda>n. the (named_map es n)) (column_names cs))"

definition insert_ok :: "column_schema list \<Rightarrow> insert_input \<Rightarrow> bool" where
  "insert_ok cs input \<longleftrightarrow> row_fits cs (input_row cs input) \<and>
     (case input of FullRow vs \<Rightarrow> True
      | Named es \<Rightarrow> distinct (map nv_column es) \<and> nv_column ` set es = set (column_names cs))"

lemma normalize_insert_ok:
  "schema_ok s \<Longrightarrow> insert_ok (ts_columns s) input \<Longrightarrow>
     normalize_insert_input table s input = Inr (input_row (ts_columns s) input)"
  using row_fits_typed [of "ts_columns s" "input_row (ts_columns s) input"]
  by (auto simp: normalize_insert_input_def insert_ok_def input_row_def validate_row_types_iff
      normalize_named_insert_iff split: insert_input.splits)

lemma execute_insert_ok:
  assumes db: "db_ok db T n" and s: "map_of (db_catalog db) (ir_table request) = Some s"
    and ok: "insert_ok (ts_columns s) (ir_input request)" and room: "n < 2147483647"
  obtains r db' where "execute_insert request db = (Inr r, db')" and "T (ir_table request) r = None"
    and "db_ok db' (T(ir_table request := (T (ir_table request))
           (r \<mapsto> map stored_value (input_row (ts_columns s) (ir_input request))))) (Suc n)"
    and "same_catalogs db db'"
proof -
  let ?cs = "ts_columns s" and ?M = "T (ir_table request)"
  let ?vs = "input_row ?cs (ir_input request)"
  have schema: "schema_ok s" using db_holdsD(6) [OF db_ok_holds [OF db] s] by simp
  have fits: "row_fits ?cs ?vs" using ok by (simp add: insert_ok_def)
  obtain r M db1 db2 where m: "on_database (with_table (ir_table request) (table_insert ?vs)) db = (Inr r, db1)"
    "?M r = None \<and> M = ?M(r \<mapsto> map stored_value ?vs)"
    "on_database (rebuild_indexes_for_table (ir_table request)) db1 = (Inr (), db2)"
    "db_ok db2 (T(ir_table request := M)) (Suc n)" "same_catalogs db db2"
  proof (rule modify_ok [OF db s, of "Suc n"
        "table_insert ?vs" "\<lambda>r M. ?M r = None \<and> M = ?M(r \<mapsto> map stored_value ?vs)"])
    show "n \<le> Suc n" by simp
    fix t
    assume t: "table_holds t s ?M n"
    obtain r t' where "table_insert ?vs t = (Inr r, t')" "?M r = None"
      "table_holds t' s (?M(r \<mapsto> map stored_value ?vs)) (Suc n)"
      by (rule table_insert_ok [OF t fits room])
    then show "\<exists>r M t'. table_insert ?vs t = (Inr r, t') \<and> table_holds t' s M (Suc n) \<and>
        (?M r = None \<and> M = ?M(r \<mapsto> map stored_value ?vs))" by blast
  qed
  then show thesis
    using that [of r db2] load_schema_ok [OF s] normalize_insert_ok [OF schema ok]
    by (simp add: execute_insert_def Let_def)
qed

definition update_ok :: "column_schema list \<Rightarrow> update_request \<Rightarrow> bool" where
  "update_ok cs request \<longleftrightarrow> ur_assignments request \<noteq> [] \<and> distinct (map as_column (ur_assignments request)) \<and>
     assigns_fit cs (assignment_pairs (ur_assignments request)) \<and> filter_typed cs (ur_filter request)"

lemma execute_update_ok:
  assumes db: "db_ok db T n" and s: "map_of (db_catalog db) (ur_table request) = Some s"
    and ok: "update_ok (ts_columns s) request"
  defines "rs \<equiv> selected (ts_columns s) (ur_filter request) (T (ur_table request))"
  obtains db' where "execute_update request db = (Inr (length rs), db')"
    and "db_ok db' (T(ur_table request := updated (ts_columns s) (assignment_pairs (ur_assignments request))
           (set rs) (T (ur_table request)))) n"
    and "same_catalogs db db'"
proof -
  let ?cs = "ts_columns s" and ?M = "T (ur_table request)"
  let ?as = "assignment_pairs (ur_assignments request)"
  let ?N = "updated ?cs ?as (set rs) ?M"
  have up: "ur_assignments request \<noteq> []" "distinct (map as_column (ur_assignments request))" "assigns_fit ?cs ?as"
    "filter_typed ?cs (ur_filter request)" using ok by (simp_all add: update_ok_def)
  obtain ns where ns: "assignments_loop (ur_table request) s (ur_assignments request) [] = Inr ns"
    "map (\<lambda>a. (na_column a, na_value a)) ns = ?as"
    using assignments_loop_ok [OF bt_ok_Nil up(2,3)] by auto
  obtain x M db1 db2 where m: "on_database (with_table (ur_table request) (update_where (ur_filter request) ?as)) db = (Inr x, db1)"
    "x = length rs \<and> M = ?N" "on_database (rebuild_indexes_for_table (ur_table request)) db1 = (Inr (), db2)"
    "db_ok db2 (T(ur_table request := M)) n" "same_catalogs db db2"
  proof (rule modify_ok [OF db s order_refl, of "update_where (ur_filter request) ?as" "\<lambda>x M. x = length rs \<and> M = ?N"])
    fix t
    assume t: "table_holds t s ?M n"
    obtain t' where "update_where (ur_filter request) ?as t = (Inr (length rs), t')" "table_holds t' s ?N n"
      unfolding rs_def by (rule update_where_ok [OF t up(4,3)])
    then show "\<exists>x M t'. update_where (ur_filter request) ?as t = (Inr x, t') \<and> table_holds t' s M n \<and>
        (x = length rs \<and> M = ?N)" by blast
  qed
  then show thesis
    using that [of db2] load_schema_ok [OF s] validate_filter_typed [OF up(4)] ns up(1)
    by (simp add: execute_update_def Let_def resolve_update_plan_def normalize_assignments_def)
qed

lemma execute_delete_ok:
  assumes db: "db_ok db T n" and s: "map_of (db_catalog db) (dr_table request) = Some s"
    and typed: "filter_typed (ts_columns s) (dr_filter request)"
  defines "rs \<equiv> selected (ts_columns s) (dr_filter request) (T (dr_table request))"
  obtains db' where "execute_delete request db = (Inr (length rs), db')"
    and "db_ok db' (T(dr_table request := without (set rs) (T (dr_table request)))) n" and "same_catalogs db db'"
proof -
  let ?M = "T (dr_table request)"
  let ?N = "without (set rs) ?M"
  obtain x M db1 db2 where m: "on_database (with_table (dr_table request) (delete_where (dr_filter request))) db = (Inr x, db1)"
    "x = length rs \<and> M = ?N" "on_database (rebuild_indexes_for_table (dr_table request)) db1 = (Inr (), db2)"
    "db_ok db2 (T(dr_table request := M)) n" "same_catalogs db db2"
  proof (rule modify_ok [OF db s order_refl, of "delete_where (dr_filter request)" "\<lambda>x M. x = length rs \<and> M = ?N"])
    fix t
    assume t: "table_holds t s ?M n"
    obtain t' where "delete_where (dr_filter request) t = (Inr (length rs), t')" "table_holds t' s ?N n"
      unfolding rs_def by (rule delete_where_ok [OF t typed])
    then show "\<exists>x M t'. delete_where (dr_filter request) t = (Inr x, t') \<and> table_holds t' s M n \<and>
        (x = length rs \<and> M = ?N)" by blast
  qed
  then show thesis
    using that [of db2] load_schema_ok [OF s] validate_filter_typed [OF typed]
    by (simp add: execute_delete_def Let_def resolve_delete_plan_def)
qed

end
