(* ===== verification/Database_Ddl.thy ===== *)
theory Database_Ddl
  imports Query_Ops
begin

section \<open>Opening a database; tables and indexes that come and go\<close>

text \<open>
  Opening a directory, and creating and dropping tables and indexes: each of them leaves a
  directory that holds the database it is meant to.
\<close>

subsection \<open>Opening\<close>

text \<open>Opening reads the two catalogs and nothing else.\<close>

lemma database_open_catalogs:
  assumes d: "disk_healthy d" and c: "catalogs_stored d cat idx"
  shows "database_open d = (Inr \<lparr>db_disk = d, db_catalog = cat, db_indexes = idx\<rparr>, d)"
proof -
  have ok: "catalog_ok cat" "index_catalog_ok idx" using c by (simp_all add: catalogs_stored_def)
  have "catalog_load d = (Inr cat, d)"
  proof (cases "dk_files d catalog_path")
    case None
    then show ?thesis using c by (simp add: catalogs_stored_def catalog_load_def path_exists_def)
  next
    case (Some bs)
    then show ?thesis using c by (intro catalog_load_ok [OF d _ ok(1)]) (simp add: catalogs_stored_def)
  qed
  moreover have "index_catalog_load d = (Inr idx, d)"
  proof (cases "dk_files d index_catalog_path")
    case None
    then show ?thesis using c by (simp add: catalogs_stored_def index_catalog_load_def path_exists_def)
  next
    case (Some bs)
    then show ?thesis using c by (intro index_catalog_load_ok [OF d _ ok(2)]) (simp add: catalogs_stored_def)
  qed
  ultimately show ?thesis using fs_healthy(1) [OF d] by (simp add: database_open_def)
qed

lemma database_open_ok: "db_holds db T E n \<Longrightarrow> database_open (db_disk db) = (Inr db, db_disk db)"
  using database_open_catalogs [OF db_holdsD(1,2)] by simp

definition empty_database :: "disk \<Rightarrow> database" where
  "empty_database d = \<lparr>db_disk = d, db_catalog = [], db_indexes = []\<rparr>"

text \<open>A directory without files is an empty database.\<close>

lemma empty_database_ok:
  "disk_healthy d \<Longrightarrow> dk_files d = Map.empty \<Longrightarrow> db_ok (empty_database d) T n"
  by (simp add: db_ok_def db_holds_def empty_database_def catalogs_stored_def bt_values_def)

subsection \<open>Tables\<close>

text \<open>The catalogs are written last: what the files of tables and indexes hold is not touched.\<close>

lemma db_holds_saved:
  assumes "disk_healthy d" and "catalog_ok cat" and "index_catalog_ok idx"
    and "\<And>name s. map_of cat name = Some s \<Longrightarrow> table_stored d s (T name) n"
    and "\<And>name. map_of cat name = None \<Longrightarrow> dk_files d (table_path name) = None"
    and "\<And>meta. meta \<in> set (bt_values idx) \<Longrightarrow> index_position cat meta \<noteq> None \<and> index_stored d meta (E meta)"
    and "dk_files e = (dk_files d)(catalog_path := a, index_catalog_path := b)" and "disk_healthy e"
    and "case a of None \<Rightarrow> cat = [] | Some bs \<Rightarrow> bs = as_bytes (table_cat.file_text cat)"
    and "case b of None \<Rightarrow> idx = [] | Some bs \<Rightarrow> bs = as_bytes (index_cat.file_text idx)"
  shows "db_holds \<lparr>db_disk = e, db_catalog = cat, db_indexes = idx\<rparr> T E n"
proof -
  have "table_stored e s M n = table_stored d s M n" for s M
    by (rule table_stored_cong) (simp add: assms(7))
  then show ?thesis
    using assms(1-6,8-10) by (simp add: db_holds_def catalogs_stored_def index_stored_def assms(7))
qed

lemma index_position_insert:
  assumes "catalog_ok cat" and "map_of cat name = None" and "index_position cat meta \<noteq> None"
  shows "index_position (bt_insert name s cat) meta = index_position cat meta"
proof -
  have "im_table meta \<noteq> name" using assms(2,3) by (auto simp: index_position_def)
  then show ?thesis using assms(1) by (simp add: index_position_def catalog_ok_def)
qed

lemma create_table_ok:
  assumes db: "db_ok db T n" and s: "schema_ok s" and new: "map_of (db_catalog db) (ts_name s) = None"
    and slots: "compute_slots_per_page (total_len (ts_columns s)) = Inr k"
  obtains db' where "create_table s db = (Inr (), db')" and "db_ok db' (T(ts_name s := Map.empty)) n"
    and "db_catalog db' = bt_insert (ts_name s) s (db_catalog db)" and "db_indexes db' = db_indexes db"
proof -
  note D = db_holdsD [OF db_ok_holds [OF db]]
  let ?d = "db_disk db" and ?cat = "bt_insert (ts_name s) s (db_catalog db)"
  obtain bs g where g: "record_manager_create (table_path (ts_name s)) (total_len (ts_columns s)) ?d =
      (Inr (), dk_put (table_path (ts_name s)) bs ?d)"
    "stored_records (dk_put (table_path (ts_name s)) bs ?d) (table_path (ts_name s)) = Some g"
    "holds_records g (total_len (ts_columns s)) Map.empty 0"
    by (rule record_manager_create_ok [OF D(1) D(7) [OF new] slots])
  let ?d1 = "dk_put (table_path (ts_name s)) bs ?d"
  let ?d2 = "dk_put catalog_path (as_bytes (table_cat.file_text ?cat)) ?d1"
  let ?db = "\<lparr>db_disk = ?d2, db_catalog = ?cat, db_indexes = db_indexes db\<rparr>"
  have run: "create_table s db = (Inr (), ?db)"
    using compile_schema_ok [OF s] new g(1) catalog_save_ok [of ?d1] D(1)
    by (simp add: create_table_def bt_contains_def layout_of_def on_dir_def Let_def)
  have ok: "catalog_ok ?cat" by (rule catalog_ok_insert [OF D(3) s])
  have map: "map_of ?cat = (map_of (db_catalog db))(ts_name s \<mapsto> s)" using D(3) by (simp add: catalog_ok_def)
  have fresh: "table_stored ?d1 s Map.empty 0"
    using g(2,3) by (auto simp: table_stored_def rows_ok_def)
  have pos: "index_position ?cat meta = index_position (db_catalog db) meta"
    if "meta \<in> set (bt_values (db_indexes db))" for meta
    using index_position_insert [OF D(3) new] D(8) [OF that] by blast
  have tables: "table_stored ?d1 x ((T(ts_name s := Map.empty)) name) n" if x: "map_of ?cat name = Some x" for name x
  proof (cases "name = ts_name s")
    case True
    then show ?thesis using x map table_stored_mono [OF fresh] by simp
  next
    case False
    then have x: "map_of (db_catalog db) name = Some x" using x map by simp
    then have "table_stored ?d1 x (T name) n = table_stored ?d x (T name) n"
      using D(6) [OF x] False by (intro table_stored_cong) simp
    then show ?thesis using D(5) [OF x] False by simp
  qed
  have idx: "current_entries ?cat (T(ts_name s := Map.empty)) meta = current_entries (db_catalog db) T meta"
    if m: "meta \<in> set (bt_values (db_indexes db))" for meta
  proof -
    have "im_table meta \<noteq> ts_name s" using D(8) [OF m] new by (auto simp: index_position_def)
    then show ?thesis using pos [OF m] by (simp add: current_entries_def)
  qed
  have "db_holds ?db (T(ts_name s := Map.empty)) (current_entries ?cat (T(ts_name s := Map.empty))) n"
  proof (rule db_holds_saved [where d = ?d1 and a = "Some (as_bytes (table_cat.file_text ?cat))"
        and b = "dk_files ?d index_catalog_path"])
    show "index_position ?cat meta \<noteq> None \<and>
        index_stored ?d1 meta (current_entries ?cat (T(ts_name s := Map.empty)) meta)"
      if "meta \<in> set (bt_values (db_indexes db))" for meta
      using D(8) [OF that] pos [OF that] idx [OF that] by (simp add: index_stored_def)
    show "dk_files ?d1 (table_path name) = None" if "map_of ?cat name = None" for name
      using that map D(7) by (simp split: if_splits)
    show "dk_files ?d2 = (dk_files ?d1)(catalog_path := Some (as_bytes (table_cat.file_text ?cat)),
        index_catalog_path := dk_files ?d index_catalog_path)" by (simp add: fun_eq_iff)
    show "case dk_files ?d index_catalog_path of None \<Rightarrow> db_indexes db = []
        | Some bs \<Rightarrow> bs = as_bytes (index_cat.file_text (db_indexes db))"
      using D(2) by (simp add: catalogs_stored_def)
  qed (use D(1) ok D(4) tables in simp_all)
  then show thesis using that [of ?db] run by (simp add: db_ok_def)
qed

text \<open>The files of a list of indexes are removed, and the indexes from the catalog in memory.\<close>

definition without_files :: "string set \<Rightarrow> disk \<Rightarrow> disk" where
  "without_files A d = d\<lparr>dk_files := (\<lambda>p. if p \<in> A then None else dk_files d p)\<rparr>"

lemma without_files_simps [simp]:
  "disk_healthy (without_files A d) = disk_healthy d" "without_files {} d = d"
  "dk_files (without_files A d) p = (if p \<in> A then None else dk_files d p)"
  by (simp_all add: without_files_def disk_healthy_def)

definition index_files :: "index_meta set \<Rightarrow> string set" where
  "index_files A = (\<lambda>meta. index_file_path (im_name meta)) ` A"

lemma in_index_files [simp]:
  "table_path name \<notin> index_files A" "catalog_path \<notin> index_files A" "index_catalog_path \<notin> index_files A"
  "index_file_path name \<in> index_files A \<longleftrightarrow> name \<in> im_name ` A"
  by (auto simp: index_files_def)

definition without_names :: "string set \<Rightarrow> index_catalog \<Rightarrow> index_catalog" where
  "without_names A m = filter (\<lambda>e. fst e \<notin> A) m"

lemma bt_ok_filter: "bt_ok m \<Longrightarrow> bt_ok (filter P m)"
  unfolding bt_ok_def sorted_wrt_map by (rule sorted_wrt_filter)

lemma index_catalog_ok_without: "index_catalog_ok m \<Longrightarrow> index_catalog_ok (without_names A m)"
  by (auto simp: index_catalog_ok_def without_names_def bt_ok_filter)

lemma values_without:
  "index_catalog_ok m \<Longrightarrow> bt_values (without_names A m) = filter (\<lambda>meta. im_name meta \<notin> A) (bt_values m)"
proof (induction m)
  case (Cons e m)
  have "index_catalog_ok m" "fst e = im_name (snd e)"
    using Cons.prems by (auto simp: index_catalog_ok_def bt_ok_def)
  then show ?case using Cons.IH by (auto simp: without_names_def bt_values_def)
qed (simp add: without_names_def bt_values_def)

lemma drop_indexes_ok:
  "disk_healthy (db_disk db) \<Longrightarrow> distinct (map im_name metas) \<Longrightarrow>
     \<forall>meta \<in> set metas. map_of (db_indexes db) (im_name meta) = Some meta \<and>
       dk_files (db_disk db) (index_file_path (im_name meta)) \<noteq> None \<Longrightarrow>
     drop_indexes metas db = (Inr (), db\<lparr>db_disk := without_files (index_files (set metas)) (db_disk db),
       db_indexes := without_names (im_name ` set metas) (db_indexes db)\<rparr>)"
proof (induction metas arbitrary: db)
  case Nil
  then show ?case by (simp add: index_files_def without_names_def)
next
  case (Cons meta metas)
  let ?p = "index_file_path (im_name meta)"
  let ?d = "(db_disk db)\<lparr>dk_files := (dk_files (db_disk db))(?p := None)\<rparr>"
  let ?db = "db\<lparr>db_disk := ?d, db_indexes := bt_remove (im_name meta) (db_indexes db)\<rparr>"
  have meta: "map_of (db_indexes db) (im_name meta) = Some meta" "dk_files (db_disk db) ?p \<noteq> None"
    using Cons.prems(3) by simp_all
  have other: "im_name x \<noteq> im_name meta" if "x \<in> set metas" for x
  proof -
    have "im_name meta \<notin> im_name ` set metas" using Cons.prems(2) by simp
    then show ?thesis using that by (metis image_eqI)
  qed
  have "drop_indexes (meta # metas) db = drop_indexes metas ?db"
    using Cons.prems(1) meta fs_remove_healthy [OF Cons.prems(1) meta(2)]
    by (simp add: on_dir_def delete_index_file_def index_catalog_remove_def)
  moreover have "drop_indexes metas ?db = (Inr (), ?db\<lparr>db_disk := without_files (index_files (set metas)) (db_disk ?db),
       db_indexes := without_names (im_name ` set metas) (db_indexes ?db)\<rparr>)"
    using Cons.prems other by (intro Cons.IH) simp_all
  moreover have "without_files (index_files (set metas)) ?d = without_files (index_files (set (meta # metas))) (db_disk db)"
    by (auto simp: without_files_def index_files_def fun_eq_iff)
  moreover have "without_names (im_name ` set metas) (bt_remove (im_name meta) (db_indexes db)) =
      without_names (im_name ` set (meta # metas)) (db_indexes db)"
    by (auto simp: without_names_def bt_remove_def intro: filter_cong)
  ultimately show ?case by simp
qed

lemma index_names_distinct: "index_catalog_ok m \<Longrightarrow> distinct (map im_name (bt_values m))"
proof -
  assume m: "index_catalog_ok m"
  then have "map im_name (bt_values m) = map fst m"
    by (auto simp: bt_values_def index_catalog_ok_def intro!: map_cong)
  then show ?thesis using m by (simp add: index_catalog_ok_def bt_ok_distinct)
qed

lemma drop_table_ok:
  assumes db: "db_ok db T n" and s: "map_of (db_catalog db) name = Some s"
  obtains db' where "drop_table name db = (Inr (), db')" and "db_ok db' T n"
    and "db_catalog db' = bt_remove name (db_catalog db)"
    and "bt_values (db_indexes db') = filter (\<lambda>meta. im_table meta \<noteq> name) (bt_values (db_indexes db))"
proof -
  note D = db_holdsD [OF db_ok_holds [OF db]]
  let ?d = "db_disk db" and ?metas = "indexes_for_table name (db_indexes db)"
  let ?cat = "bt_remove name (db_catalog db)"
  let ?names = "im_name ` set ?metas"
  let ?idx = "without_names ?names (db_indexes db)"
  have metas: "set ?metas \<subseteq> set (bt_values (db_indexes db))" by (auto simp: indexes_for_table_def)
  have dist: "distinct (map im_name ?metas)"
    using index_names_distinct [OF D(4)] by (auto simp: indexes_for_table_def distinct_map intro: inj_on_subset)
  have stored: "\<forall>meta \<in> set ?metas. map_of (db_indexes db) (im_name meta) = Some meta \<and>
      dk_files ?d (index_file_path (im_name meta)) \<noteq> None"
    using metas D(8) index_meta_in(1) [OF D(4)] by (fastforce simp: index_stored_def)
  have vals: "bt_values ?idx = filter (\<lambda>meta. im_table meta \<noteq> name) (bt_values (db_indexes db))"
  proof -
    have names: "im_name meta \<in> ?names \<longleftrightarrow> im_table meta = name" if m: "meta \<in> set (bt_values (db_indexes db))" for meta
    proof
      assume "im_name meta \<in> ?names"
      then obtain x where x: "x \<in> set ?metas" "im_name x = im_name meta" by auto
      then have "x = meta" using metas m index_meta_in(1) [OF D(4)] by (metis option.inject subsetD)
      then show "im_table meta = name" using x(1) by (simp add: indexes_for_table_def)
    qed (use m in \<open>auto simp: indexes_for_table_def\<close>)
    show ?thesis unfolding values_without [OF D(4)] by (rule filter_cong [OF refl]) (simp only: names)
  qed
  let ?d1 = "without_files (index_files (set ?metas)) ?d"
  obtain f where f: "dk_files ?d (table_path name) = Some f"
    using D(5) [OF s] D(6) [OF s] by (auto simp: table_stored_def stored_records_iff)
  let ?d2 = "?d1\<lparr>dk_files := (dk_files ?d1)(table_path name := None)\<rparr>"
  let ?d3 = "dk_put catalog_path (as_bytes (table_cat.file_text ?cat)) ?d2"
  let ?d4 = "dk_put index_catalog_path (as_bytes (index_cat.file_text ?idx)) ?d3"
  let ?db = "\<lparr>db_disk = ?d4, db_catalog = ?cat, db_indexes = ?idx\<rparr>"
  have remove: "fs_remove_file (table_path name) ?d1 = (Inr (), ?d2)"
    using D(1) f by (intro fs_remove_healthy) simp_all
  have run: "drop_table name db = (Inr (), ?db)"
    using s drop_indexes_ok [OF D(1) dist stored] remove catalog_save_ok [of ?d2 ?cat] index_catalog_save_ok [of ?d3 ?idx] D(1)
    by (simp add: drop_table_def on_dir_def Let_def)
  have map: "map_of ?cat = (map_of (db_catalog db))(name := None)" by simp
  have keep: "im_table meta \<noteq> name \<and> meta \<in> set (bt_values (db_indexes db)) \<and> im_name meta \<notin> ?names"
    if "meta \<in> set (bt_values ?idx)" for meta
  proof -
    have "meta \<in> set (filter (\<lambda>meta. im_name meta \<notin> ?names) (bt_values (db_indexes db)))"
      using that by (simp only: values_without [OF D(4)])
    moreover have "meta \<in> set (filter (\<lambda>meta. im_table meta \<noteq> name) (bt_values (db_indexes db)))"
      using that by (simp only: vals)
    ultimately show ?thesis by simp
  qed
  have "db_holds ?db T (current_entries ?cat T) n"
  proof (rule db_holds_saved [where d = ?d2 and a = "Some (as_bytes (table_cat.file_text ?cat))"
        and b = "Some (as_bytes (index_cat.file_text ?idx))"])
    show "catalog_ok ?cat" by (rule catalog_ok_remove [OF D(3)])
    show "index_catalog_ok ?idx" by (rule index_catalog_ok_without [OF D(4)])
    show "table_stored ?d2 x (T y) n" if "map_of ?cat y = Some x" for y x
    proof -
      have x: "map_of (db_catalog db) y = Some x" "y \<noteq> name" using that by (simp_all split: if_splits)
      then have "table_stored ?d2 x (T y) n = table_stored ?d x (T y) n"
        using D(6) [OF x(1)] by (intro table_stored_cong) simp
      then show ?thesis using D(5) [OF x(1)] by simp
    qed
    show "dk_files ?d2 (table_path y) = None" if "map_of ?cat y = None" for y
      using that D(7) by (auto split: if_splits)
    show "index_position ?cat meta \<noteq> None \<and> index_stored ?d2 meta (current_entries ?cat T meta)"
      if "meta \<in> set (bt_values ?idx)" for meta
    proof -
      note k = keep [OF that]
      have pos: "index_position ?cat meta = index_position (db_catalog db) meta" using k by (simp add: index_position_def)
      then have "current_entries ?cat T meta = current_entries (db_catalog db) T meta" by (simp add: current_entries_def)
      then show ?thesis using D(8) [of meta] pos k by (simp add: index_stored_def)
    qed
    show "dk_files ?d4 = (dk_files ?d2)(catalog_path := Some (as_bytes (table_cat.file_text ?cat)),
        index_catalog_path := Some (as_bytes (index_cat.file_text ?idx)))" by simp
  qed (use D(1) in simp_all)
  then show thesis using that [of ?db] run vals by (simp add: db_ok_def)
qed

subsection \<open>Indexes\<close>

lemma drop_index_ok:
  assumes db: "db_ok db T n" and meta: "map_of (db_indexes db) name = Some meta"
  obtains db' where "drop_index name db = (Inr (), db')" and "db_ok db' T n"
    and "db_catalog db' = db_catalog db" and "db_indexes db' = bt_remove name (db_indexes db)"
proof -
  note D = db_holdsD [OF db_ok_holds [OF db]]
  let ?d = "db_disk db" and ?idx = "bt_remove name (db_indexes db)"
  have m: "meta \<in> set (bt_values (db_indexes db))" "im_name meta = name"
    using meta D(4) by (auto simp: index_catalog_ok_def bt_values_def map_of_in intro!: rev_image_eqI)
  let ?p = "index_file_path name"
  have f: "dk_files ?d ?p \<noteq> None" using D(8) [OF m(1)] m(2) by (simp add: index_stored_def)
  let ?d1 = "?d\<lparr>dk_files := (dk_files ?d)(?p := None)\<rparr>"
  let ?d2 = "dk_put index_catalog_path (as_bytes (index_cat.file_text ?idx)) ?d1"
  let ?db = "\<lparr>db_disk = ?d2, db_catalog = db_catalog db, db_indexes = ?idx\<rparr>"
  have run: "drop_index name db = (Inr (), ?db)"
    using meta m(2) fs_remove_healthy [OF D(1) f] index_catalog_save_ok [of ?d1 ?idx] D(1)
    by (simp add: drop_index_def index_catalog_remove_def on_dir_def delete_index_file_def)
  have sub: "x \<in> set (bt_values (db_indexes db)) \<and> im_name x \<noteq> name" if "x \<in> set (bt_values ?idx)" for x
    using that index_meta_in(1) [OF D(4)] index_meta_in(1) [OF index_catalog_ok_remove [OF D(4)]]
    by (auto split: if_splits)
  have "db_holds ?db T (current_entries (db_catalog db) T) n"
  proof (rule db_holds_saved [where d = ?d1 and a = "dk_files ?d catalog_path"
        and b = "Some (as_bytes (index_cat.file_text ?idx))"])
    show "index_catalog_ok ?idx" by (rule index_catalog_ok_remove [OF D(4)])
    show "table_stored ?d1 x (T y) n" if "map_of (db_catalog db) y = Some x" for y x
      using D(5) [OF that] table_stored_cong [of ?d1 x ?d] by simp
    show "index_position (db_catalog db) x \<noteq> None \<and> index_stored ?d1 x (current_entries (db_catalog db) T x)"
      if "x \<in> set (bt_values ?idx)" for x
      using sub [OF that] D(8) [of x] by (simp add: index_stored_def)
    show "case dk_files ?d catalog_path of None \<Rightarrow> db_catalog db = []
        | Some bs \<Rightarrow> bs = as_bytes (table_cat.file_text (db_catalog db))"
      using D(2) by (simp add: catalogs_stored_def)
  qed (use D(1,3,7) in \<open>simp_all add: fun_eq_iff\<close>)
  then show thesis using that [of ?db] run by (simp add: db_ok_def)
qed

lemma create_index_ok:
  assumes db: "db_ok db T n" and name: "is_identifier name" and new: "map_of (db_indexes db) name = None"
    and s: "map_of (db_catalog db) table = Some s" and i: "column_index column (ts_columns s) = Some i"
    and ty: "cs_type (ts_columns s ! i) = CT_Int32"
  defines "meta \<equiv> \<lparr>im_name = name, im_table = table, im_column = column, im_key_type = IK_Int32\<rparr>"
  obtains db' where "create_index name table column db = (Inr meta, db')" and "db_ok db' T n"
    and "db_catalog db' = db_catalog db" and "db_indexes db' = bt_insert name meta (db_indexes db)"
proof -
  note D = db_holdsD [OF db_ok_holds [OF db]]
  have schema: "ts_name s = table" "schema_ok s" using D(6) [OF s] by simp_all
  let ?d = "db_disk db" and ?idx = "bt_insert name meta (db_indexes db)"
  have column: "i < length (ts_columns s)" "cs_name (ts_columns s ! i) = column" using column_index_less [OF i] by simp_all
  have "is_identifier column" "is_identifier table"
    using schema column by (auto simp: schema_ok_def columns_ok_def list_all_length)
  then have ok: "meta_ok meta" using name by (simp add: meta_def meta_ok_def identifier_plain)
  have idx: "index_catalog_ok ?idx" using index_catalog_ok_insert [OF D(4) ok] by (simp add: meta_def)
  let ?d1 = "dk_put (index_file_path name) (as_bytes (index_file.file_text (meta, []))) ?d"
  let ?d2 = "dk_put index_catalog_path (as_bytes (index_cat.file_text ?idx)) ?d1"
  let ?db = "\<lparr>db_disk = ?d2, db_catalog = db_catalog db, db_indexes = ?idx\<rparr>"
  have vals: "x = meta \<or> (x \<in> set (bt_values (db_indexes db)) \<and> im_name x \<noteq> name)" if "x \<in> set (bt_values ?idx)" for x
    using that index_meta_in(1) [OF D(4)] index_meta_in(1) [OF idx] new D(4)
    by (auto simp: index_catalog_ok_def split: if_splits)
  have pos: "index_position (db_catalog db) meta = Some i" using s i ty by (simp add: index_position_def meta_def)
  have holds: "db_holds ?db T ((current_entries (db_catalog db) T)(meta := [])) n"
  proof (rule db_holds_saved [where d = ?d1 and a = "dk_files ?d catalog_path"
        and b = "Some (as_bytes (index_cat.file_text ?idx))"])
    show "table_stored ?d1 x (T y) n" if "map_of (db_catalog db) y = Some x" for y x
      using D(5) [OF that] table_stored_cong [of ?d1 x ?d] by simp
    show "index_position (db_catalog db) x \<noteq> None \<and>
        index_stored ?d1 x (((current_entries (db_catalog db) T)(meta := [])) x)"
      if "x \<in> set (bt_values ?idx)" for x
      using vals [OF that] D(8) [of x] pos by (auto simp: index_stored_def meta_def)
    show "case dk_files ?d catalog_path of None \<Rightarrow> db_catalog db = []
        | Some bs \<Rightarrow> bs = as_bytes (table_cat.file_text (db_catalog db))"
      using D(2) by (simp add: catalogs_stored_def)
  qed (use D(1,3,7) idx in \<open>simp_all add: fun_eq_iff\<close>)
  have "meta \<in> set (bt_values (db_indexes ?db))"
    using index_meta_in(1) [OF idx, of meta] D(4) by (simp add: index_catalog_ok_def meta_def)
  note rebuild = rebuild_index_ok [OF holds this]
  have im_name: "im_name meta = name" by (simp add: meta_def)
  obtain db' where db': "rebuild_index name ?db = (Inr (), db')"
    "db_holds db' T (((current_entries (db_catalog db) T)(meta := []))(meta := current_entries (db_catalog db) T meta)) n"
    "db_catalog db' = db_catalog db" "db_indexes db' = ?idx"
    using rebuild im_name by auto
  have "create_index name table column db = (Inr meta, db')"
  proof -
    have "layout_column_of (layout_of s) column = Inr (field_of (ts_columns s) i)"
      using i by (simp add: layout_column_of_layout)
    moreover have "index_key_type_of (lc_type (field_of (ts_columns s) i)) = Inr IK_Int32"
      using column(1) ty by (simp add: index_key_type_of_def)
    moreover have "create_index_file meta ?d = (Inr (), ?d1)"
      using write_index_file_ok [OF D(1), of meta "[]"] by (simp add: create_index_file_def meta_def)
    moreover have "index_catalog_save ?idx ?d1 = (Inr (), ?d2)"
      using D(1) by (intro index_catalog_save_ok) simp
    moreover have "validate_identifier name = Inr ()" using name by (simp add: validate_identifier_def)
    moreover have "index_catalog_insert meta (db_indexes db) = (Inr (), ?idx)"
      using new by (simp add: index_catalog_insert_def meta_def)
    moreover have "rebuild_index name (db\<lparr>db_indexes := ?idx, db_disk := ?d2\<rparr>) = (Inr (), db')"
    proof -
      have "db\<lparr>db_indexes := ?idx, db_disk := ?d2\<rparr> = ?db" by simp
      then show ?thesis using db'(1) by (rule ssubst)
    qed
    ultimately show ?thesis
      using s compile_schema_ok [OF schema(2)]
      by (simp add: create_index_def on_dir_def Let_def meta_def)
  qed
  then show thesis using that [of db'] db' by (simp add: db_ok_def fun_upd_idem)
qed

end
