(* ===== verification/Database_Runs.thy ===== *)
theory Database_Runs
  imports Database_Ddl
begin

section \<open>Sequences of requests\<close>

text \<open>
  \<open>reached db T n\<close>: from an empty directory, a sequence of requests that are well formed for the
  schemas of their tables, with reopenings of the directory in between, leads to the database
  \<open>db\<close>, in which the tables hold \<open>T\<close>.  The number \<open>n\<close> counts the insertions, which bound the pages
  of a file.
\<close>

inductive reached :: "database \<Rightarrow> content \<Rightarrow> nat \<Rightarrow> bool" where
  run_open: "disk_healthy d \<Longrightarrow> dk_files d = Map.empty \<Longrightarrow> engine_open d = (Inr db, d') \<Longrightarrow>
    reached db (\<lambda>_. Map.empty) 0"
| run_reopen: "reached db T n \<Longrightarrow> engine_open (db_disk db) = (Inr db', d') \<Longrightarrow> reached db' T n"
| run_create_table: "reached db T n \<Longrightarrow> schema_ok s \<Longrightarrow> map_of (db_catalog db) (ts_name s) = None \<Longrightarrow>
    compute_slots_per_page (total_len (ts_columns s)) = Inr k \<Longrightarrow> execute_create_table s db = (r, db') \<Longrightarrow>
    reached db' (T(ts_name s := Map.empty)) n"
| run_drop_table: "reached db T n \<Longrightarrow> map_of (db_catalog db) name = Some s \<Longrightarrow> execute_drop_table name db = (r, db') \<Longrightarrow>
    reached db' T n"
| run_create_index: "reached db T n \<Longrightarrow> is_identifier name \<Longrightarrow> map_of (db_indexes db) name = None \<Longrightarrow>
    map_of (db_catalog db) table = Some s \<Longrightarrow> column_index column (ts_columns s) = Some i \<Longrightarrow>
    cs_type (ts_columns s ! i) = CT_Int32 \<Longrightarrow> execute_create_index name table column db = (r, db') \<Longrightarrow> reached db' T n"
| run_drop_index: "reached db T n \<Longrightarrow> map_of (db_indexes db) name = Some meta \<Longrightarrow>
    execute_drop_index name db = (r, db') \<Longrightarrow> reached db' T n"
| run_insert: "reached db T n \<Longrightarrow> map_of (db_catalog db) (ir_table ins) = Some s \<Longrightarrow>
    insert_ok (ts_columns s) (ir_input ins) \<Longrightarrow> n < 2147483647 \<Longrightarrow> execute_insert ins db = (Inr r, db') \<Longrightarrow>
    reached db' (T(ir_table ins := (T (ir_table ins))(r \<mapsto> map stored_value (input_row (ts_columns s) (ir_input ins))))) (Suc n)"
| run_update: "reached db T n \<Longrightarrow> map_of (db_catalog db) (ur_table up) = Some s \<Longrightarrow> update_ok (ts_columns s) up \<Longrightarrow>
    execute_update up db = (r, db') \<Longrightarrow>
    reached db' (T(ur_table up := updated (ts_columns s) (assignment_pairs (ur_assignments up))
      (set (selected (ts_columns s) (ur_filter up) (T (ur_table up)))) (T (ur_table up)))) n"
| run_delete: "reached db T n \<Longrightarrow> map_of (db_catalog db) (dr_table del) = Some s \<Longrightarrow>
    filter_typed (ts_columns s) (dr_filter del) \<Longrightarrow> execute_delete del db = (r, db') \<Longrightarrow>
    reached db' (T(dr_table del := without (set (selected (ts_columns s) (dr_filter del) (T (dr_table del)))) (T (dr_table del)))) n"
| run_select: "reached db T n \<Longrightarrow> map_of (db_catalog db) (sr_table sel) = Some s \<Longrightarrow> execute_select sel db = (r, db') \<Longrightarrow>
    reached db' T n"

lemma execute_create_index_ok:
  assumes db: "db_ok db T n" and "is_identifier name" and "map_of (db_indexes db) name = None"
    and s: "map_of (db_catalog db) table = Some s" and i: "column_index column (ts_columns s) = Some i"
    and ty: "cs_type (ts_columns s ! i) = CT_Int32"
  defines "meta \<equiv> \<lparr>im_name = name, im_table = table, im_column = column, im_key_type = IK_Int32\<rparr>"
  obtains db' where "execute_create_index name table column db = (Inr (), db')" and "db_ok db' T n"
    and "db_catalog db' = db_catalog db" and "db_indexes db' = bt_insert name meta (db_indexes db)"
proof -
  obtain db' where db': "create_index name table column db = (Inr meta, db')" "db_ok db' T n"
    "db_catalog db' = db_catalog db" "db_indexes db' = bt_insert name meta (db_indexes db)"
    unfolding meta_def by (rule create_index_ok [OF assms(1-6)])
  have schema: "schema_ok s" using db_holdsD(6) [OF db_ok_holds [OF db] s] by simp
  show thesis
    using that db' load_schema_ok [OF s] i ty by (simp add: execute_create_index_def column_find)
qed

lemma engine_open_ok: "db_ok db T n \<Longrightarrow> engine_open (db_disk db) = (Inr db, db_disk db)"
  using database_open_ok [OF db_ok_holds] by (simp add: engine_open_def)

text \<open>The invariant of the run.\<close>

lemma reached_ok: "reached db T n \<Longrightarrow> db_ok db T n"
proof (induction rule: reached.induct)
  case (run_open d db d')
  have "engine_open d = (Inr (empty_database d), d)"
    using engine_open_ok [OF empty_database_ok [OF run_open(1,2)]] by (simp add: empty_database_def)
  then show ?case using run_open empty_database_ok by simp
next
  case (run_reopen db T n db' d')
  then show ?case using engine_open_ok [of db T n] by simp
next
  case (run_create_table db T n s k r db')
  show ?case
    by (rule create_table_ok [OF run_create_table.IH run_create_table.hyps(2-4)])
      (use run_create_table.hyps(5) in \<open>simp add: execute_create_table_def on_database_def fun_upd_def\<close>)
next
  case (run_drop_table db T n name s r db')
  show ?case
    by (rule drop_table_ok [OF run_drop_table.IH run_drop_table.hyps(2)])
      (use run_drop_table.hyps(3) in \<open>simp add: execute_drop_table_def\<close>)
next
  case (run_create_index db T n name table s column i r db')
  show ?case
    by (rule execute_create_index_ok [OF run_create_index.IH run_create_index.hyps(2-6)])
      (use run_create_index.hyps(7) in simp)
next
  case (run_drop_index db T n name meta r db')
  show ?case
    by (rule drop_index_ok [OF run_drop_index.IH run_drop_index.hyps(2)])
      (use run_drop_index.hyps(3) in \<open>simp add: execute_drop_index_def\<close>)
next
  case (run_insert db T n ins s r db')
  show ?case
    by (rule execute_insert_ok [OF run_insert.IH run_insert.hyps(2-4)]) (use run_insert.hyps(5) in \<open>simp add: fun_upd_def\<close>)
next
  case (run_update db T n up s r db')
  show ?case
    by (rule execute_update_ok [OF run_update.IH run_update.hyps(2-3)]) (use run_update.hyps(4) in \<open>simp add: fun_upd_def\<close>)
next
  case (run_delete db T n del s r db')
  show ?case
    by (rule execute_delete_ok [OF run_delete.IH run_delete.hyps(2-3)]) (use run_delete.hyps(4) in \<open>simp add: fun_upd_def\<close>)
next
  case (run_select db T n sel s r db')
  show ?case
  proof (cases "select_ok (ts_columns s) sel")
    case True
    show ?thesis
      by (rule execute_select_ok [OF run_select.IH run_select.hyps(2) True]) (use run_select.hyps(3) in simp)
  next
    case False
    show ?thesis
      by (rule execute_select_refused [OF run_select.IH run_select.hyps(2) False]) (use run_select.hyps(3) in simp)
  qed
qed

end
