(* ===== verification/Query_Refusals.thy ===== *)
theory Query_Refusals
  imports Database_Runs
begin

section \<open>Refused requests\<close>

text \<open>
  A request that does not suit the schema of its table is refused, and a refusal leaves the
  content of the database as it was: every row, both catalogs and the entries of all indexes.
  For an update whose text is too long for its column this needs an argument: the first selected
  row already refuses it, so no row has been changed.
\<close>

definition refused :: "database \<Rightarrow> content \<Rightarrow> nat \<Rightarrow> (query_error + 'a) \<times> database \<Rightarrow> bool" where
  "refused db T n res \<longleftrightarrow> (\<exists>e. fst res = Inl e) \<and> db_ok (snd res) T n \<and> same_catalogs db (snd res)"

lemma refused_here: "db_ok db T n \<Longrightarrow> refused db T n (Inl e, db)"
  by (simp add: refused_def same_catalogs_def)

subsection \<open>Values that do not fit\<close>

text \<open>A string of the source is valid UTF-8 by its type.\<close>

definition text_ok :: "val \<Rightarrow> bool" where
  "text_ok v \<longleftrightarrow> (case v of V_Char t \<Rightarrow> is_str t | _ \<Rightarrow> True)"

lemma value_fits_text: "value_fits ty v \<Longrightarrow> text_ok v"
  by (cases ty; cases v) (simp_all add: text_ok_def)

lemma encode_value_fits: "encode_value bs col ty v = Inr bs' \<Longrightarrow> text_ok v \<Longrightarrow> value_fits ty v"
  by (cases ty; cases v) (auto simp: text_ok_def Let_def split: if_splits)

lemma encode_values_fit:
  "encode_values (layout_columns off cs) vs bs = Inr bs' \<Longrightarrow> list_all text_ok vs \<Longrightarrow> length vs = length cs \<Longrightarrow>
     row_fits cs vs"
proof (induction cs arbitrary: off vs bs)
  case (Cons c cs)
  then show ?case by (cases vs) (auto dest: encode_value_fits)
qed simp

lemma encode_row_fits: "encode_row (layout_of s) vs = Inr bs \<Longrightarrow> list_all text_ok vs \<Longrightarrow> row_fits (ts_columns s) vs"
  by (auto simp: encode_row_def layout_of_def intro: encode_values_fit split: if_splits)

lemma row_fits_text: "row_fits cs vs \<Longrightarrow> list_all text_ok vs"
  by (auto simp: row_fits_def list_all_length list_all2_conv_all_nth value_fits_text)

subsection \<open>Assignments that do not fit\<close>

lemma assign_values_result:
  "assign_values (layout_of s) as vs = Inr ws \<Longrightarrow> distinct (map fst as) \<Longrightarrow>
     length ws = length vs \<and> set ws \<subseteq> set vs \<union> snd ` set as \<and>
     (\<forall>(name, v) \<in> set as. \<exists>i < length ws. column_index name (ts_columns s) = Some i \<and> ws ! i = v) \<and>
     (\<forall>i < length ws. (\<forall>name \<in> fst ` set as. column_index name (ts_columns s) \<noteq> Some i) \<longrightarrow> ws ! i = vs ! i)"
proof (induction as arbitrary: vs)
  case (Cons a as)
  let ?cs = "ts_columns s"
  obtain name v where a: "a = (name, v)" by fastforce
  then obtain i where i: "column_index name ?cs = Some i" "i < length vs"
    "assign_values (layout_of s) as (vs[i := v]) = Inr ws"
    using Cons.prems(1) by (auto simp: layout_column_index_of split: option.splits if_splits)
  have "distinct (map fst as)" using Cons.prems(2) by simp
  note IH = Cons.IH [OF i(3) this]
  note ih = conjunct1 [OF IH, unfolded length_list_update] conjunct1 [OF conjunct2 [OF IH]]
    conjunct1 [OF conjunct2 [OF conjunct2 [OF IH]]] conjunct2 [OF conjunct2 [OF conjunct2 [OF IH]]]
  have other: "column_index n ?cs \<noteq> Some i" if "n \<in> fst ` set as" for n
  proof
    assume "column_index n ?cs = Some i"
    then have "n = name" using column_index_less [OF i(1)] column_index_less by metis
    then show False using \<open>n \<in> fst ` set as\<close> Cons.prems(2) a by simp
  qed
  have "ws ! i = v" using ih(1,4) i(2) other by simp
  moreover have "set ws \<subseteq> set vs \<union> snd ` set (a # as)" using ih(2) set_update_subset_insert [of vs i v] a by auto
  moreover have "ws ! j = vs ! j" if "j < length ws" "\<forall>n \<in> fst ` set (a # as). column_index n ?cs \<noteq> Some j" for j
    using that ih(4) i(1) a by auto
  ultimately show ?case using ih(1,3) i(1,2) a by auto
qed auto

lemma update_records_refused:
  assumes t: "table_holds t s M n" and r: "M r = Some vs" and d: "distinct (map fst as)" and tx: "\<forall>(n, v) \<in> set as. text_ok v"
    and bad: "\<not> assigns_fit (ts_columns s) as"
  obtains e where "update_records as (record_of (row_map_bytes (ts_columns s) M) r # recs) t = (Inl e, t)"
proof -
  let ?cs = "ts_columns s"
  note T = table_holdsD [OF t]
  have vs: "row_ok ?cs vs" using rows_okD [OF T(4) r] .
  have dec: "decode_record (tb_layout t) (record_of (row_map_bytes ?cs M) r) = Inr vs"
    using decode_row_ok [OF vs] T(2) r by (simp add: record_of_rows)
  show thesis
  proof (cases "assign_values (layout_of s) as vs")
    case (Inl e)
    then show thesis using that dec T(2) by simp
  next
    case (Inr ws)
    note A = assign_values_result [OF Inr d]
    have placed: "\<exists>i < length ws. column_index name ?cs = Some i \<and> ws ! i = v" if "(name, v) \<in> set as" for name v
      using conjunct1 [OF conjunct2 [OF conjunct2 [OF A]]] that by auto
    have "set ws \<subseteq> set vs \<union> snd ` set as" by (rule conjunct1 [OF conjunct2 [OF A]])
    moreover have "\<forall>v \<in> set vs. text_ok v" using row_fits_text [OF row_okD(1) [OF vs]] by (simp add: list_all_iff)
    moreover have "\<forall>v \<in> snd ` set as. text_ok v" using tx by auto
    ultimately have tok: "list_all text_ok ws" unfolding list_all_iff by blast
    have "\<nexists>bs. encode_row (layout_of s) ws = Inr bs"
    proof
      assume "\<exists>bs. encode_row (layout_of s) ws = Inr bs"
      then have fits: "row_fits ?cs ws" using encode_row_fits tok by blast
      have "assigns_fit ?cs as"
        unfolding assigns_fit_def
      proof safe
        fix name v
        assume "(name, v) \<in> set as"
        then obtain i where "i < length ws" "column_index name ?cs = Some i" "ws ! i = v" using placed by blast
        then show "\<exists>i. column_index name ?cs = Some i \<and> value_fits (cs_type (?cs ! i)) v"
          using row_fits_nth [OF fits, of i] row_fits_length [OF fits] by simp
      qed
      then show False using bad by simp
    qed
    then obtain e where "encode_row (layout_of s) ws = Inl e" by (cases "encode_row (layout_of s) ws") auto
    then show thesis using that dec Inr T(2) by simp
  qed
qed

lemma assignments_loop_result:
  "bt_ok seen \<Longrightarrow> assignments_loop table s as seen = Inr ns \<Longrightarrow>
     distinct (map as_column as) \<and> (\<forall>n \<in> as_column ` set as. map_of seen n = None) \<and>
     map (\<lambda>a. (na_column a, na_value a)) ns = assignment_pairs as"
proof (induction as arbitrary: seen ns)
  case (Cons a as)
  let ?seen = "bt_insert (as_column a) () seen"
  obtain ns' where ns: "map_of seen (as_column a) = None" "assignments_loop table s as ?seen = Inr ns'"
    "map (\<lambda>a. (na_column a, na_value a)) ns = (as_column a, as_value a) # map (\<lambda>a. (na_column a, na_value a)) ns'"
  proof -
    have "map_of seen (as_column a) = None" using Cons.prems(2) by (simp add: bt_contains_def split: if_splits)
    then show thesis
      using that Cons.prems(2)
      by (cases "resolve_schema_column s table (as_column a)"; cases "assignments_loop table s as ?seen")
        (auto simp: bt_contains_def)
  qed
  note IH = Cons.IH [OF bt_ok_insert [OF Cons.prems(1)] ns(2)]
  note ih = conjunct1 [OF IH] conjunct1 [OF conjunct2 [OF IH]] conjunct2 [OF conjunct2 [OF IH]]
  have "as_column a \<notin> as_column ` set as" "\<forall>n \<in> as_column ` set as. map_of seen n = None"
    using ih(2) seen_step [OF Cons.prems(1), of "as_column ` set as"] by simp_all
  then show ?case using ih ns by (simp add: assignment_pairs_def)
qed (simp add: assignment_pairs_def)

subsection \<open>A table that refuses\<close>

lemma with_table_refused:
  assumes db: "db_ok db T n" and s: "map_of (db_catalog db) name = Some s"
    and body: "\<And>t. table_holds t s (T name) n \<Longrightarrow> \<exists>e t'. body t = (Inl e, t') \<and> table_holds t' s (T name) n"
  obtains e db' where "on_database (with_table name body) db = (Inl e, db')" and "refused db T n (Inl e, db')"
proof -
  obtain t where t: "open_table name db = (Inr t, db)" "table_holds t s (T name) n"
    by (rule open_table_ok [OF db_ok_holds [OF db] s])
  obtain e t' where t': "body t = (Inl e, t')" "table_holds t' s (T name) n" using body [OF t(2)] by blast
  obtain db' where "close_table name t' db = db'" "db_ok db' T n" "same_catalogs db db'"
    by (rule close_same_ok [OF db s t'(2)])
  then show thesis using that t(1) t'(1) by (simp add: on_database_def with_table_def refused_def)
qed

definition input_values :: "insert_input \<Rightarrow> val list" where
  "input_values input = (case input of FullRow vs \<Rightarrow> vs | Named es \<Rightarrow> map nv_value es)"

lemma normalized_values:
  assumes schema: "schema_ok s" and norm: "normalize_insert_input table s input = Inr vs"
  shows "vs = input_row (ts_columns s) input" and "set vs \<subseteq> set (input_values input)"
    and "row_fits (ts_columns s) vs \<Longrightarrow> insert_ok (ts_columns s) input"
proof -
  show row: "vs = input_row (ts_columns s) input"
    using norm by (auto simp: normalize_insert_input_def input_row_def normalize_named_insert_iff [OF schema]
        split: insert_input.splits)
  show "row_fits (ts_columns s) vs \<Longrightarrow> insert_ok (ts_columns s) input"
    using row norm by (auto simp: insert_ok_def normalize_insert_input_def normalize_named_insert_iff [OF schema]
        split: insert_input.splits)
  show "set vs \<subseteq> set (input_values input)"
  proof (cases input)
    case (FullRow ws)
    then show ?thesis using row by (simp add: input_row_def input_values_def)
  next
    case (Named es)
    have "the (named_map es name) \<in> nv_value ` set es" if "name \<in> nv_column ` set es" for name
    proof -
      have "named_map es name \<noteq> None" using that by (simp add: named_map_def map_of_eq_None_iff image_image)
      then obtain v where "named_map es name = Some v" by auto
      then show ?thesis by (auto simp: named_map_def dest!: map_of_SomeD)
    qed
    then show ?thesis
      using norm Named by (auto simp: normalize_insert_input_def normalize_named_insert_iff [OF schema] input_values_def)
  qed
qed

lemma execute_insert_refused:
  assumes db: "db_ok db T n" and s: "map_of (db_catalog db) (ir_table request) = Some s"
    and bad: "\<not> insert_ok (ts_columns s) (ir_input request)"
    and tx: "list_all text_ok (input_values (ir_input request))"
  shows "refused db T n (execute_insert request db)"
proof (cases "normalize_insert_input (ir_table request) s (ir_input request)")
  case (Inl e)
  then show ?thesis using refused_here [OF db] load_schema_ok [OF s] by (simp add: execute_insert_def Let_def)
next
  case (Inr vs)
  have schema: "schema_ok s" using db_holdsD(6) [OF db_ok_holds [OF db] s] by simp
  note N = normalized_values [OF schema Inr]
  have "list_all text_ok vs" using N(2) tx by (auto simp: list_all_iff)
  then have enc: "\<exists>e. encode_row (layout_of s) vs = Inl e"
    using encode_row_fits [of s vs] N(3) bad by (cases "encode_row (layout_of s) vs") auto
  obtain e db' where "on_database (with_table (ir_table request) (table_insert vs)) db = (Inl e, db')"
    "refused db T n (Inl e :: query_error + rid, db')"
  proof (rule with_table_refused [OF db s, of "table_insert vs"])
    show "\<exists>e t'. table_insert vs t = (Inl e, t') \<and> table_holds t' s (T (ir_table request)) n"
      if t: "table_holds t s (T (ir_table request)) n" for t
      using enc table_insert_error table_holdsD(2) [OF t] t by metis
  qed
  then show ?thesis using Inr load_schema_ok [OF s] by (simp add: execute_insert_def Let_def)
qed

lemma execute_delete_refused:
  assumes db: "db_ok db T n" and s: "map_of (db_catalog db) (dr_table request) = Some s"
    and bad: "\<not> filter_typed (ts_columns s) (dr_filter request)"
  shows "refused db T n (execute_delete request db)"
proof (cases "resolve_delete_plan (dr_table request) s request")
  case (Inl e)
  then show ?thesis using refused_here [OF db] load_schema_ok [OF s] by (simp add: execute_delete_def Let_def)
next
  case (Inr u)
  obtain e db' where "on_database (with_table (dr_table request) (delete_where (dr_filter request))) db = (Inl e, db')"
    "refused db T n (Inl e :: query_error + nat, db')"
  proof (rule with_table_refused [OF db s, of "delete_where (dr_filter request)"])
    fix t
    assume t: "table_holds t s (T (dr_table request)) n"
    obtain e where "collect_records (dr_filter request) t = (Inl e, t)" by (rule untyped_scan [OF t bad])
    then show "\<exists>e t'. delete_where (dr_filter request) t = (Inl e, t') \<and> table_holds t' s (T (dr_table request)) n"
      using t by (auto simp: delete_where_def)
  qed
  then show ?thesis using Inr load_schema_ok [OF s] by (simp add: execute_delete_def Let_def)
qed

text \<open>An update that selects no row does nothing, whatever the values are.\<close>

lemma update_where_refused:
  assumes t: "table_holds t s M n" and d: "distinct (map fst as)" and tx: "\<forall>(n, v) \<in> set as. text_ok v"
    and bad: "\<not> (filter_typed (ts_columns s) flt \<and> assigns_fit (ts_columns s) as)"
    and some: "filter_typed (ts_columns s) flt \<Longrightarrow> selected (ts_columns s) flt M \<noteq> []"
  obtains e t' where "update_where flt as t = (Inl e, t')" and "table_holds t' s M n"
proof (cases "filter_typed (ts_columns s) flt")
  case False
  obtain e where "collect_records flt t = (Inl e, t)" by (rule untyped_scan [OF t False])
  then show thesis using that t by (simp add: update_where_def)
next
  case True
  obtain t1 where t1: "collect_records flt t =
      (Inr (map (record_of (row_map_bytes (ts_columns s) M)) (selected (ts_columns s) flt M)), t1)" "table_holds t1 s M n"
    by (rule collect_records_ok [OF t True])
  obtain r rs where rs: "selected (ts_columns s) flt M = r # rs"
    using some [OF True] by (cases "selected (ts_columns s) flt M") auto
  then obtain vs where r: "M r = Some vs" using selected_facts(1) [OF finite_rows [OF t], of "ts_columns s" flt] by auto
  obtain e where "update_records as (record_of (row_map_bytes (ts_columns s) M) r
      # map (record_of (row_map_bytes (ts_columns s) M)) rs) t1 = (Inl e, t1)"
    by (rule update_records_refused [OF t1(2) r d tx]) (use bad True in auto)
  then show thesis using that t1 rs by (simp add: update_where_def)
qed

lemma update_where_none:
  assumes t: "table_holds t s M n" and typed: "filter_typed (ts_columns s) flt" and none: "selected (ts_columns s) flt M = []"
  obtains t' where "update_where flt as t = (Inr 0, t')" and "table_holds t' s M n"
proof -
  obtain t1 where "collect_records flt t =
      (Inr (map (record_of (row_map_bytes (ts_columns s) M)) (selected (ts_columns s) flt M)), t1)" "table_holds t1 s M n"
    by (rule collect_records_ok [OF t typed])
  then show thesis using that none by (simp add: update_where_def)
qed

lemma execute_update_refused:
  assumes db: "db_ok db T n" and s: "map_of (db_catalog db) (ur_table request) = Some s"
    and bad: "\<not> update_ok (ts_columns s) request"
    and tx: "list_all (\<lambda>a. text_ok (as_value a)) (ur_assignments request)"
    and some: "filter_typed (ts_columns s) (ur_filter request) \<Longrightarrow>
      selected (ts_columns s) (ur_filter request) (T (ur_table request)) \<noteq> []"
  shows "refused db T n (execute_update request db)"
proof (cases "resolve_update_plan (ur_table request) s request")
  case (Inl e)
  then show ?thesis using refused_here [OF db] load_schema_ok [OF s] by (simp add: execute_update_def Let_def)
next
  case (Inr ns)
  let ?as = "assignment_pairs (ur_assignments request)" and ?flt = "ur_filter request"
  have loop: "ur_assignments request \<noteq> []" "assignments_loop (ur_table request) s (ur_assignments request) [] = Inr ns"
    using Inr by (auto simp: resolve_update_plan_def normalize_assignments_def split: if_splits)
  note A = assignments_loop_result [OF bt_ok_Nil loop(2)]
  have d: "distinct (map fst ?as)" using A by (simp add: assignment_pairs_def o_def)
  have tx': "\<forall>(n, v) \<in> set ?as. text_ok v" using tx by (auto simp: assignment_pairs_def list_all_iff)
  have bad': "\<not> (filter_typed (ts_columns s) ?flt \<and> assigns_fit (ts_columns s) ?as)"
    using bad loop(1) A by (auto simp: update_ok_def)
  obtain e db' where "on_database (with_table (ur_table request) (update_where ?flt ?as)) db = (Inl e, db')"
    "refused db T n (Inl e :: query_error + nat, db')"
  proof (rule with_table_refused [OF db s, of "update_where ?flt ?as"])
    fix t
    assume t: "table_holds t s (T (ur_table request)) n"
    obtain e t' where "update_where ?flt ?as t = (Inl e, t')" "table_holds t' s (T (ur_table request)) n"
      by (rule update_where_refused [OF t d tx' bad' some])
    then show "\<exists>e t'. update_where ?flt ?as t = (Inl e, t') \<and> table_holds t' s (T (ur_table request)) n" by blast
  qed
  then show ?thesis using Inr load_schema_ok [OF s] A by (simp add: execute_update_def Let_def)
qed

subsection \<open>Unknown names\<close>

lemma unknown_table_refused:
  assumes "map_of (db_catalog db) table = None"
  shows "load_schema table db = Inl (UnknownTable table)" and "drop_table table db = (Inl (TableNotFound table), db)"
  using assms by (simp_all add: load_schema_def get_table_schema_def unknown_table_def drop_table_def bt_contains_def)

lemma bt_remove_absent: "map_of m k = None \<Longrightarrow> bt_remove k m = m"
  by (induction m) (auto simp: bt_remove_def split: if_splits)

lemma unknown_table_requests:
  assumes "map_of (db_catalog db) table = None"
  shows "ir_table ins = table \<Longrightarrow> execute_insert ins db = (Inl (UnknownTable table), db)"
    and "sr_table sel = table \<Longrightarrow> execute_select sel db = (Inl (UnknownTable table), db)"
    and "ur_table up = table \<Longrightarrow> execute_update up db = (Inl (UnknownTable table), db)"
    and "dr_table del = table \<Longrightarrow> execute_delete del db = (Inl (UnknownTable table), db)"
    and "execute_create_index name table column db = (Inl (UnknownTable table), db)"
    and "execute_drop_table table db = (Inl (UnknownTable table), db)"
  using unknown_table_refused [OF assms]
  by (simp_all add: execute_insert_def execute_select_def execute_update_def execute_delete_def execute_create_index_def
      execute_drop_table_def unknown_table_def Let_def)

lemma create_table_refused:
  assumes "\<not> schema_ok s \<or> map_of (db_catalog db) (ts_name s) \<noteq> None"
  obtains e where "execute_create_table s db = (Inl e, db)"
proof (cases "compile_schema s")
  case (Inl e)
  then show thesis using that by (simp add: execute_create_table_def on_database_def create_table_def)
next
  case (Inr layout)
  then have "map_of (db_catalog db) (ts_name s) \<noteq> None" using assms by (simp add: compile_schema_iff)
  then show thesis using that Inr by (simp add: execute_create_table_def on_database_def create_table_def bt_contains_def)
qed

lemma create_index_refused:
  assumes s: "map_of (db_catalog db) table = Some s" and bad: "\<not> is_identifier name \<or> column_type_of (ts_columns s) column \<noteq> Some CT_Int32"
  obtains e where "execute_create_index name table column db = (Inl e, db)"
proof (cases "column_type_of (ts_columns s) column = Some CT_Int32")
  case True
  then have "\<not> is_identifier name" using bad by simp
  then have "create_index name table column db = (Inl (InvalidName name), db)"
    by (simp add: create_index_def validate_identifier_def)
  then show thesis
    using that True load_schema_ok [OF s] by (auto simp: execute_create_index_def column_find column_type_of_def)
next
  case False
  then show thesis
    using that load_schema_ok [OF s]
    by (cases "column_index column (ts_columns s)") (auto simp: execute_create_index_def column_find column_type_of_def)
qed

lemma drop_index_refused:
  assumes "map_of (db_indexes db) name = None"
  shows "execute_drop_index name db = (Inl (UnknownIndex name), db)"
  using assms
  by (simp add: execute_drop_index_def drop_index_def index_catalog_remove_def drop_index_error_def bt_remove_absent)

end
