(* ===== verification/Query_Properties.thy ===== *)
theory Query_Properties
  imports Query_Refusals Table_Properties
begin

section \<open>Properties of the database and the query engine\<close>

text \<open>
  What a caller of the query engine can rely on, per request and over whole runs.
\<close>

text \<open>A database with one table, for the witnesses.\<close>

definition new_database :: database where
  "new_database = empty_database empty_disk"

lemma new_database_ok: "db_ok new_database (\<lambda>_. Map.empty) 0"
  unfolding new_database_def by (rule empty_database_ok [OF empty_disk_healthy]) (simp add: empty_disk_def)

lemma new_database_catalogs [simp]: "db_catalog new_database = []" "db_indexes new_database = []"
  by (simp_all add: new_database_def empty_database_def)

lemma student_slots:
  obtains k where "compute_slots_per_page (total_len (ts_columns student_schema)) = Inr k"
proof -
  have "slots_fit 12 1" by (simp add: slots_fit_def bitmap_bytes_def RECORD_PAGE_HEADER_SIZE_def)
  then have "\<exists>k. compute_slots_per_page 12 = Inr k"
    using compute_slots_result [of 12] by (cases "compute_slots_per_page 12") auto
  then show thesis using that by (auto simp: student_columns)
qed

lemma student_database:
  obtains db where "db_ok db (\<lambda>_. Map.empty) 0" and "db_catalog db = [(''student'', student_schema)]" and "db_indexes db = []"
proof -
  obtain k where k: "compute_slots_per_page (total_len (ts_columns student_schema)) = Inr k" by (rule student_slots)
  obtain db where "create_table student_schema new_database = (Inr (), db)"
    "db_ok db ((\<lambda>_. Map.empty)(ts_name student_schema := Map.empty)) 0"
    "db_catalog db = bt_insert (ts_name student_schema) student_schema (db_catalog new_database)"
    "db_indexes db = db_indexes new_database"
    by (rule create_table_ok [OF new_database_ok student_schema_ok _ k]) simp
  then show thesis using that by (simp add: student_columns fun_upd_idem)
qed



text \<open>C38: A named insertion is normalised exactly if it names every column of the schema once and no other, with
  values of the columns' types; the row then has the named values in the order of the columns.\<close>

theorem named_insert_complete:
  assumes "schema_ok s"
  shows "normalize_named_insert table s es = Inr vs \<longleftrightarrow>
    distinct (map nv_column es) \<and> nv_column ` set es = cs_name ` set (ts_columns s) \<and>
    length vs = length (ts_columns s) \<and>
    (\<forall>i < length vs. \<lparr>nv_column = cs_name (ts_columns s ! i), nv_value = vs ! i\<rparr> \<in> set es \<and>
       value_typed (cs_type (ts_columns s ! i)) (vs ! i))"
proof -
  let ?cs = "ts_columns s"
  have entry: "named_map es n = Some v \<longleftrightarrow> \<lparr>nv_column = n, nv_value = v\<rparr> \<in> set es" if d: "distinct (map nv_column es)" for n v
  proof -
    have "distinct (map fst (map (\<lambda>e. (nv_column e, nv_value e)) es))" using d by (simp add: o_def)
    then have "named_map es n = Some v \<longleftrightarrow> (\<exists>e \<in> set es. n = nv_column e \<and> v = nv_value e)"
      unfolding named_map_def by (subst map_of_eq_Some_iff) auto
    then show ?thesis by (metis named_value.cases named_value.select_convs)
  qed
  have dom: "dom (named_map es) = nv_column ` set es" by (force simp: named_map_def dom_map_of_conv_image_fst)
  have nth: "vs = map (\<lambda>n. the (named_map es n)) (column_names ?cs) \<longleftrightarrow> length vs = length ?cs \<and>
      (\<forall>i < length vs. \<lparr>nv_column = cs_name (?cs ! i), nv_value = vs ! i\<rparr> \<in> set es)"
    if d: "distinct (map nv_column es)" "nv_column ` set es = cs_name ` set ?cs"
  proof -
    have "(v = the (named_map es (cs_name (?cs ! i)))) \<longleftrightarrow> \<lparr>nv_column = cs_name (?cs ! i), nv_value = v\<rparr> \<in> set es"
      if i: "i < length ?cs" for i v
    proof -
      have "cs_name (?cs ! i) \<in> dom (named_map es)" using dom d(2) i by auto
      then show ?thesis using entry [OF d(1), of "cs_name (?cs ! i)" v] by (metis domD option.sel)
    qed
    then show ?thesis by (simp add: list_eq_iff_nth_eq column_names_def cong: conj_cong)
  qed
  show ?thesis
  proof (cases "distinct (map nv_column es) \<and> nv_column ` set es = cs_name ` set ?cs")
    case True
    then show ?thesis
      unfolding normalize_named_insert_iff [OF assms] nth [OF conjunct1 [OF True] conjunct2 [OF True]]
      by (auto simp: column_names_def row_typed_def list_all2_conv_all_nth)
  next
    case False
    then show ?thesis unfolding normalize_named_insert_iff [OF assms] by (auto simp: column_names_def)
  qed
qed

definition student_named :: "named_value list" where
  "student_named = [\<lparr>nv_column = ''name'', nv_value = V_Char ''Ann''\<rparr>, \<lparr>nv_column = ''id'', nv_value = V_Int32 7\<rparr>]"

theorem named_insert_complete_witness:
  "normalize_named_insert ''student'' student_schema student_named = Inr [V_Int32 7, V_Char ''Ann''] \<and>
   length [V_Int32 7, V_Char ''Ann''] = length (ts_columns student_schema)"
proof -
  have "normalize_named_insert ''student'' student_schema student_named = Inr [V_Int32 7, V_Char ''Ann'']"
    unfolding named_insert_complete [OF student_schema_ok]
    by (auto simp: student_named_def student_columns All_less_Suc less_Suc_eq)
  then show ?thesis by (simp add: student_columns)
qed

subsection \<open>Selections\<close>

text \<open>The student table with one row and an index on its first column.\<close>

definition by_id :: index_meta where
  "by_id = \<lparr>im_name = ''by_id'', im_table = ''student'', im_column = ''id'', im_key_type = IK_Int32\<rparr>"

lemma student_column_index [simp]:
  "column_index ''id'' (ts_columns student_schema) = Some 0" "column_index ''name'' (ts_columns student_schema) = Some 1"
  by (simp_all add: student_columns)

lemma by_id_identifier: "is_identifier ''by_id''"
  by (simp add: is_identifier_def identifier_char_def Let_def of_char_byte word_le_nat_alt)

lemma filled_database:
  obtains db r where "db_ok db ((\<lambda>_. Map.empty)(''student'' := [r \<mapsto> student_row])) 1"
    and "db_catalog db = [(''student'', student_schema)]" and "db_indexes db = [(''by_id'', by_id)]"
proof -
  obtain db0 where db0: "db_ok db0 (\<lambda>_. Map.empty) 0" "db_catalog db0 = [(''student'', student_schema)]" "db_indexes db0 = []"
    by (rule student_database)
  let ?request = "\<lparr>ir_table = ''student'', ir_input = FullRow student_row\<rparr>"
  have ok: "insert_ok (ts_columns student_schema) (ir_input ?request)"
    using student_row_fits by (simp add: insert_ok_def input_row_def)
  have s0: "map_of (db_catalog db0) (ir_table ?request) = Some student_schema" using db0(2) by simp
  have stored: "map stored_value student_row = student_row" by (simp add: student_row_def strip_nuls_def)
  have "\<exists>r db1. db_ok db1 ((\<lambda>_. Map.empty)(''student'' := [r \<mapsto> student_row])) 1 \<and> same_catalogs db0 db1"
    by (rule execute_insert_ok [OF db0(1) s0 ok]) (use stored in \<open>auto simp: input_row_def\<close>)
  then obtain r db1 where db1: "db_ok db1 ((\<lambda>_. Map.empty)(''student'' := [r \<mapsto> student_row])) 1" "same_catalogs db0 db1"
    by blast
  have cat: "db_catalog db1 = [(''student'', student_schema)]" "db_indexes db1 = []"
    using db0(2,3) db1(2) by (simp_all add: same_catalogs_def)
  obtain db2 where "db_ok db2 ((\<lambda>_. Map.empty)(''student'' := [r \<mapsto> student_row])) 1" "db_catalog db2 = db_catalog db1"
    "db_indexes db2 = bt_insert ''by_id'' \<lparr>im_name = ''by_id'', im_table = ''student'', im_column = ''id'', im_key_type = IK_Int32\<rparr>
       (db_indexes db1)"
    by (rule create_index_ok [OF db1(1) by_id_identifier, where table = "''student''" and column = "''id''" and s = student_schema and i = 0])
      (use cat in \<open>simp_all add: student_columns\<close>)
  then show thesis using that cat by (simp add: by_id_def)
qed

lemma rids_of_single: "rids_of [r \<mapsto> x] = [r]"
  by (simp add: rids_of_def)

text \<open>C2: A selection returns exactly what it asks for, and is refused exactly if it is not well formed for the
  schema: the rows for which the filter holds, in the order of pages and slots, sorted stably by the order keys, cut
  to the limit, with the values of the named columns.  This holds whether the plan uses an index or a scan.  The
  content of the database does not change.\<close>

theorem select_exact:
  assumes "db_ok db T n" and "map_of (db_catalog db) (sr_table request) = Some s"
  shows "\<exists>r db'. execute_select request db = (r, db') \<and> db_ok db' T n \<and> same_catalogs db db' \<and>
    (if select_ok (ts_columns s) request
     then r = Inr \<lparr>ps_schema = s,
            ps_columns = map (\<lambda>n. ts_columns s ! position_of (ts_columns s) n) (projected_names (ts_columns s) (sr_projection request)),
            ps_rows = presented (ts_columns s) request (rows_at (T (sr_table request))
              (selected (ts_columns s) (sr_filter request) (T (sr_table request))))\<rparr>
     else \<exists>e. r = Inl e)"
proof (cases "select_ok (ts_columns s) request")
  case True
  then show ?thesis using execute_select_ok [OF assms True] by (metis (no_types, lifting))
next
  case False
  then show ?thesis using execute_select_refused [OF assms False] by (metis (no_types, lifting))
qed

definition select_by_id :: extended_select_request where
  "select_by_id = \<lparr>sr_table = ''student'', sr_filter = Some (E_CmpValue ''id'' Op_Eq (V_Int32 7)),
     sr_projection = P_Columns [''name''], sr_order_by = [\<lparr>ob_column = ''id'', ob_direction = Desc\<rparr>], sr_limit = Some 1\<rparr>"

lemma select_by_id_ok: "select_ok (ts_columns student_schema) select_by_id"
  by (simp add: select_ok_def select_by_id_def projection_ok_def projected_names_def order_ok_def column_names_def
      student_columns filter_typed_def column_type_of_def)

lemma select_by_id_rows:
  "presented (ts_columns student_schema) select_by_id (rows_at [r \<mapsto> student_row]
     (selected (ts_columns student_schema) (sr_filter select_by_id) [r \<mapsto> student_row])) = [[V_Char ''Ann'']]"
  by (simp add: presented_def projected_def projected_names_def select_by_id_def selected_def row_selected_def rids_of_single
      rows_at_def apply_limit_def sort_by_def student_row_def column_value_def cmp_i32_def)

theorem select_exact_witness:
  "\<exists>db result db'. resolve_index_lookup ''student'' (sr_filter select_by_id) db \<noteq> None \<and>
     execute_select select_by_id db = (Inr result, db') \<and> ps_rows result = [[V_Char ''Ann'']]"
proof -
  obtain db r where db: "db_ok db ((\<lambda>_. Map.empty)(''student'' := [r \<mapsto> student_row])) 1"
    "db_catalog db = [(''student'', student_schema)]" "db_indexes db = [(''by_id'', by_id)]"
    by (rule filled_database)
  have s: "map_of (db_catalog db) (sr_table select_by_id) = Some student_schema" using db(2) by (simp add: select_by_id_def)
  have "resolve_index_lookup ''student'' (sr_filter select_by_id) db \<noteq> None"
    using db(3) by (simp add: resolve_index_lookup_def select_by_id_def find_index_def indexes_for_table_def bt_values_def by_id_def)
  moreover have "sr_table select_by_id = ''student''" by (simp add: select_by_id_def)
  ultimately show ?thesis
    using select_exact [OF db(1) s] select_by_id_ok select_by_id_rows [of r] by fastforce
qed

subsection \<open>Changes\<close>

text \<open>C3: An insertion whose row fits the schema succeeds: the row is stored under an identifier that held none, every
  other row of every table is as before, and the indexes of the table are up to date.\<close>

theorem insert_exact:
  assumes "db_ok db T n" and "map_of (db_catalog db) (ir_table request) = Some s"
    and "insert_ok (ts_columns s) (ir_input request)" and "n < 2147483647"
  shows "\<exists>r db'. execute_insert request db = (Inr r, db') \<and> T (ir_table request) r = None \<and> same_catalogs db db' \<and>
    db_ok db' (T(ir_table request := (T (ir_table request))
      (r \<mapsto> map stored_value (input_row (ts_columns s) (ir_input request))))) (Suc n)"
  by (rule execute_insert_ok [OF assms]) blast

theorem insert_exact_witness:
  "\<exists>db r db'. execute_insert \<lparr>ir_table = ''student'', ir_input = Named student_named\<rparr> db = (Inr r, db') \<and>
     db_ok db' ((\<lambda>_. Map.empty)(''student'' := [r \<mapsto> student_row])) 1"
proof -
  obtain db where db: "db_ok db (\<lambda>_. Map.empty) 0" "db_catalog db = [(''student'', student_schema)]" "db_indexes db = []"
    by (rule student_database)
  let ?request = "\<lparr>ir_table = ''student'', ir_input = Named student_named\<rparr>"
  have row: "input_row (ts_columns student_schema) (Named student_named) = student_row"
    by (simp add: input_row_def student_columns column_names_def named_map_def student_named_def student_row_def)
  have "insert_ok (ts_columns student_schema) (ir_input ?request)"
    using student_row_fits row by (auto simp: insert_ok_def student_named_def student_columns column_names_def)
  moreover have "map_of (db_catalog db) (ir_table ?request) = Some student_schema" using db(2) by simp
  moreover have "map stored_value student_row = student_row" by (simp add: student_row_def strip_nuls_def)
  ultimately show ?thesis using insert_exact [OF db(1), of ?request student_schema] row by fastforce
qed

text \<open>C4: An update that suits the schema changes exactly the rows for which its filter holds, by exactly its
  assignments, and reports their number; a deletion removes exactly the rows for which its filter holds and reports
  their number.  The indexes of the table are up to date afterwards.\<close>

theorem update_delete_exact:
  assumes "db_ok db T n" and "map_of (db_catalog db) table = Some s"
  shows "(ur_table up = table \<and> update_ok (ts_columns s) up \<longrightarrow>
      (\<exists>db'. execute_update up db = (Inr (length (selected (ts_columns s) (ur_filter up) (T table))), db') \<and>
        same_catalogs db db' \<and>
        db_ok db' (T(table := \<lambda>r. if r \<in> set (selected (ts_columns s) (ur_filter up) (T table))
          then map_option (assigned (ts_columns s) (assignment_pairs (ur_assignments up))) (T table r) else T table r)) n)) \<and>
    (dr_table del = table \<and> filter_typed (ts_columns s) (dr_filter del) \<longrightarrow>
      (\<exists>db'. execute_delete del db = (Inr (length (selected (ts_columns s) (dr_filter del) (T table))), db') \<and>
        same_catalogs db db' \<and>
        db_ok db' (T(table := \<lambda>r. if r \<in> set (selected (ts_columns s) (dr_filter del) (T table)) then None else T table r)) n))"
proof (intro conjI impI)
  assume up: "ur_table up = table \<and> update_ok (ts_columns s) up"
  then have s: "map_of (db_catalog db) (ur_table up) = Some s" and ok: "update_ok (ts_columns s) up" using assms(2) by simp_all
  show "\<exists>db'. execute_update up db = (Inr (length (selected (ts_columns s) (ur_filter up) (T table))), db') \<and>
      same_catalogs db db' \<and>
      db_ok db' (T(table := \<lambda>r. if r \<in> set (selected (ts_columns s) (ur_filter up) (T table))
        then map_option (assigned (ts_columns s) (assignment_pairs (ur_assignments up))) (T table r) else T table r)) n"
    by (rule execute_update_ok [OF assms(1) s ok]) (use up in \<open>auto simp: updated_def\<close>)
next
  assume del: "dr_table del = table \<and> filter_typed (ts_columns s) (dr_filter del)"
  then have s: "map_of (db_catalog db) (dr_table del) = Some s" and ok: "filter_typed (ts_columns s) (dr_filter del)"
    using assms(2) by simp_all
  show "\<exists>db'. execute_delete del db = (Inr (length (selected (ts_columns s) (dr_filter del) (T table))), db') \<and>
      same_catalogs db db' \<and>
      db_ok db' (T(table := \<lambda>r. if r \<in> set (selected (ts_columns s) (dr_filter del) (T table)) then None else T table r)) n"
    by (rule execute_delete_ok [OF assms(1) s ok]) (use del in \<open>auto simp: without_def\<close>)
qed

definition rename_by_id :: update_request where
  "rename_by_id = \<lparr>ur_table = ''student'', ur_assignments = [\<lparr>as_column = ''name'', as_value = V_Char ''Bob''\<rparr>],
     ur_filter = Some (E_CmpValue ''id'' Op_Ge (V_Int32 7))\<rparr>"

lemma rename_by_id_ok: "update_ok (ts_columns student_schema) rename_by_id"
  by (simp add: update_ok_def rename_by_id_def assigns_fit_def assignment_pairs_def filter_typed_def column_type_of_def
      student_columns is_str_def utf8_width_def)

theorem update_delete_exact_witness:
  "\<exists>db db' r. execute_update rename_by_id db = (Inr 1, db') \<and>
     db_ok db' ((\<lambda>_. Map.empty)(''student'' := [r \<mapsto> [V_Int32 7, V_Char ''Bob'']])) 1"
proof -
  obtain db r where db: "db_ok db ((\<lambda>_. Map.empty)(''student'' := [r \<mapsto> student_row])) 1"
    "db_catalog db = [(''student'', student_schema)]" "db_indexes db = [(''by_id'', by_id)]"
    by (rule filled_database)
  let ?M = "[r \<mapsto> student_row]"
  have s: "map_of (db_catalog db) ''student'' = Some student_schema" using db(2) by simp
  have sel: "selected (ts_columns student_schema) (ur_filter rename_by_id) ?M = [r]"
    by (simp add: selected_def row_selected_def rids_of_single rename_by_id_def student_row_def column_value_def cmp_i32_def)
  have new: "(\<lambda>x. if x \<in> set [r] then map_option (assigned (ts_columns student_schema)
      (assignment_pairs (ur_assignments rename_by_id))) (?M x) else ?M x) = [r \<mapsto> [V_Int32 7, V_Char ''Bob'']]"
    by (auto simp: fun_eq_iff rename_by_id_def assignment_pairs_def student_row_def strip_nuls_def)
  have "ur_table rename_by_id = ''student''" by (simp add: rename_by_id_def)
  with update_delete_exact [OF db(1) s, of rename_by_id] rename_by_id_ok
  obtain db' where "execute_update rename_by_id db = (Inr (length [r]), db')"
    "db_ok db' (((\<lambda>_. Map.empty)(''student'' := ?M))(''student'' := (\<lambda>x. if x \<in> set [r] then map_option (assigned
       (ts_columns student_schema) (assignment_pairs (ur_assignments rename_by_id))) (?M x) else ?M x))) 1"
    unfolding fun_upd_same sel by blast
  then show ?thesis unfolding new by auto
qed

subsection \<open>Definitions\<close>

text \<open>C9: The definition requests that are well formed succeed and change what they name and nothing else.  A new table
  is empty; a dropped table takes its indexes with it; a new index has the entries of the table's rows; dropping an
  index leaves every table and every other index as it is.\<close>

theorem definitions_exact:
  assumes db: "db_ok db T n"
  shows "(schema_ok s \<and> map_of (db_catalog db) (ts_name s) = None \<and>
      (\<exists>k. compute_slots_per_page (total_len (ts_columns s)) = Inr k) \<longrightarrow>
      (\<exists>db'. execute_create_table s db = (Inr (), db') \<and> db_ok db' (T(ts_name s := Map.empty)) n \<and>
         map_of (db_catalog db') = (map_of (db_catalog db))(ts_name s \<mapsto> s) \<and> db_indexes db' = db_indexes db)) \<and>
    (map_of (db_catalog db) table \<noteq> None \<longrightarrow>
      (\<exists>db'. execute_drop_table table db = (Inr (), db') \<and> db_ok db' T n \<and>
         map_of (db_catalog db') = (map_of (db_catalog db))(table := None) \<and>
         show_indexes db' = filter (\<lambda>meta. im_table meta \<noteq> table) (show_indexes db))) \<and>
    (is_identifier name \<and> map_of (db_indexes db) name = None \<and>
      (\<exists>t. map_of (db_catalog db) table = Some t \<and> column_type_of (ts_columns t) column = Some CT_Int32) \<longrightarrow>
      (\<exists>db'. execute_create_index name table column db = (Inr (), db') \<and> db_ok db' T n \<and>
         db_catalog db' = db_catalog db \<and> map_of (db_indexes db') = (map_of (db_indexes db))
           (name \<mapsto> \<lparr>im_name = name, im_table = table, im_column = column, im_key_type = IK_Int32\<rparr>))) \<and>
    (map_of (db_indexes db) name \<noteq> None \<longrightarrow>
      (\<exists>db'. execute_drop_index name db = (Inr (), db') \<and> db_ok db' T n \<and>
         db_catalog db' = db_catalog db \<and> map_of (db_indexes db') = (map_of (db_indexes db))(name := None)))"
proof (intro conjI impI)
  note D = db_holdsD [OF db_ok_holds [OF db]]
  have bt: "bt_ok (db_catalog db)" "bt_ok (db_indexes db)" using D(3,4) by (simp_all add: catalog_ok_def index_catalog_ok_def)
  {
    assume "schema_ok s \<and> map_of (db_catalog db) (ts_name s) = None \<and>
      (\<exists>k. compute_slots_per_page (total_len (ts_columns s)) = Inr k)"
    then obtain k where s: "schema_ok s" "map_of (db_catalog db) (ts_name s) = None"
      "compute_slots_per_page (total_len (ts_columns s)) = Inr k" by blast
    show "\<exists>db'. execute_create_table s db = (Inr (), db') \<and> db_ok db' (T(ts_name s := Map.empty)) n \<and>
       map_of (db_catalog db') = (map_of (db_catalog db))(ts_name s \<mapsto> s) \<and> db_indexes db' = db_indexes db"
      by (rule create_table_ok [OF db s]) (simp add: execute_create_table_def on_database_def bt)
  next
    assume "map_of (db_catalog db) table \<noteq> None"
    then obtain t where t: "map_of (db_catalog db) table = Some t" by auto
    show "\<exists>db'. execute_drop_table table db = (Inr (), db') \<and> db_ok db' T n \<and>
       map_of (db_catalog db') = (map_of (db_catalog db))(table := None) \<and>
       show_indexes db' = filter (\<lambda>meta. im_table meta \<noteq> table) (show_indexes db)"
      by (rule drop_table_ok [OF db t])
        (simp add: execute_drop_table_def show_indexes_def list_indexes_def index_catalog_list_def)
  next
    assume "is_identifier name \<and> map_of (db_indexes db) name = None \<and>
      (\<exists>t. map_of (db_catalog db) table = Some t \<and> column_type_of (ts_columns t) column = Some CT_Int32)"
    then obtain t i where t: "is_identifier name" "map_of (db_indexes db) name = None" "map_of (db_catalog db) table = Some t"
      "column_index column (ts_columns t) = Some i" "cs_type (ts_columns t ! i) = CT_Int32"
      by (auto simp: column_type_of_def)
    show "\<exists>db'. execute_create_index name table column db = (Inr (), db') \<and> db_ok db' T n \<and>
       db_catalog db' = db_catalog db \<and> map_of (db_indexes db') = (map_of (db_indexes db))
         (name \<mapsto> \<lparr>im_name = name, im_table = table, im_column = column, im_key_type = IK_Int32\<rparr>)"
      by (rule execute_create_index_ok [OF db t]) (simp add: bt)
  next
    assume "map_of (db_indexes db) name \<noteq> None"
    then obtain meta where meta: "map_of (db_indexes db) name = Some meta" by auto
    show "\<exists>db'. execute_drop_index name db = (Inr (), db') \<and> db_ok db' T n \<and>
       db_catalog db' = db_catalog db \<and> map_of (db_indexes db') = (map_of (db_indexes db))(name := None)"
      by (rule drop_index_ok [OF db meta]) (simp add: execute_drop_index_def)
  }
qed

theorem definitions_exact_witness:
  "\<exists>db'. execute_create_table student_schema new_database = (Inr (), db') \<and> db_ok db' (\<lambda>_. Map.empty) 0 \<and>
     map_of (db_catalog db') = [''student'' \<mapsto> student_schema]"
proof -
  obtain k where "compute_slots_per_page (total_len (ts_columns student_schema)) = Inr k" by (rule student_slots)
  then have "schema_ok student_schema \<and> map_of (db_catalog new_database) (ts_name student_schema) = None \<and>
      (\<exists>k. compute_slots_per_page (total_len (ts_columns student_schema)) = Inr k)" using student_schema_ok by simp
  with definitions_exact [OF new_database_ok, of student_schema]
  show ?thesis by (auto simp: student_columns fun_upd_idem)
qed

subsection \<open>Refusals\<close>


definition rename_too_long :: update_request where
  "rename_too_long = \<lparr>ur_table = ''student'', ur_assignments = [\<lparr>as_column = ''name'', as_value = V_Char ''Bartholomew''\<rparr>],
     ur_filter = Some (E_CmpValue ''id'' Op_Ge (V_Int32 7))\<rparr>"


text \<open>C40: Names are checked before anything is touched: a request for an unknown table, a definition that is not
  well formed and the drop of an unknown index are refused with the error that names them, and the directory and the
  catalogs are exactly as before.\<close>

theorem unknown_names_refused:
  "(map_of (db_catalog db) table = None \<longrightarrow>
      (ir_table ins = table \<longrightarrow> execute_insert ins db = (Inl (UnknownTable table), db)) \<and>
      (sr_table sel = table \<longrightarrow> execute_select sel db = (Inl (UnknownTable table), db)) \<and>
      (ur_table up = table \<longrightarrow> execute_update up db = (Inl (UnknownTable table), db)) \<and>
      (dr_table del = table \<longrightarrow> execute_delete del db = (Inl (UnknownTable table), db)) \<and>
      execute_create_index name table column db = (Inl (UnknownTable table), db) \<and>
      execute_drop_table table db = (Inl (UnknownTable table), db)) \<and>
   (\<not> schema_ok s \<or> map_of (db_catalog db) (ts_name s) \<noteq> None \<longrightarrow> (\<exists>e. execute_create_table s db = (Inl e, db))) \<and>
   (map_of (db_catalog db) table = Some t \<and> (\<not> is_identifier name \<or> column_type_of (ts_columns t) column \<noteq> Some CT_Int32) \<longrightarrow>
      (\<exists>e. execute_create_index name table column db = (Inl e, db))) \<and>
   (map_of (db_indexes db) name = None \<longrightarrow> execute_drop_index name db = (Inl (UnknownIndex name), db))"
  using unknown_table_requests [of db table] create_table_refused [of s db] create_index_refused [of db table t name column]
    drop_index_refused [of db name]
  by metis

theorem unknown_names_refused_witness:
  "execute_drop_table ''course'' new_database = (Inl (UnknownTable ''course''), new_database) \<and>
   execute_drop_index ''by_id'' new_database = (Inl (UnknownIndex ''by_id''), new_database) \<and>
   (\<exists>e. execute_create_table \<lparr>ts_name = ''course'', ts_columns = []\<rparr> new_database = (Inl e, new_database)) \<and>
   (\<exists>db e. db_catalog db = [(''student'', student_schema)] \<and>
      execute_create_index ''by_name'' ''student'' ''name'' db = (Inl e, db))"
proof -
  obtain db where "db_ok db (\<lambda>_. Map.empty) 0" and db: "db_catalog db = [(''student'', student_schema)]" and "db_indexes db = []"
    by (rule student_database)
  then have "map_of (db_catalog db) ''student'' = Some student_schema" by simp
  moreover have "column_type_of (ts_columns student_schema) ''name'' \<noteq> Some CT_Int32"
    by (simp add: column_type_of_def student_columns)
  ultimately have "\<exists>e. execute_create_index ''by_name'' ''student'' ''name'' db = (Inl e, db)"
    using unknown_names_refused [of db "''student''" _ _ _ _ "''by_name''" "''name''" _ student_schema] by blast
  moreover have "\<not> schema_ok \<lparr>ts_name = ''course'', ts_columns = []\<rparr>" by (simp add: schema_ok_def)
  then have "execute_drop_table ''course'' new_database = (Inl (UnknownTable ''course''), new_database)"
    "execute_drop_index ''by_id'' new_database = (Inl (UnknownIndex ''by_id''), new_database)"
    "\<exists>e. execute_create_table \<lparr>ts_name = ''course'', ts_columns = []\<rparr> new_database = (Inl e, new_database)"
    using unknown_names_refused [of new_database "''course''" _ _ _ _ "''by_id''" _ "\<lparr>ts_name = ''course'', ts_columns = []\<rparr>"]
    by simp_all
  ultimately show ?thesis using db by blast
qed

subsection \<open>Runs\<close>



end
