(* ===== verification/Database_Findings.thy ===== *)
theory Database_Findings
  imports Database_Runs
begin

section \<open>Requests that fail and still change the directory\<close>

text \<open>
  Two requests are refused only after a file has been written.  The theorems state what the
  directory holds after the refusal.
\<close>

subsection \<open>An index name that is in use\<close>

text \<open>
  \<open>create_index\<close> writes an empty index file before it looks for the name in the catalog.  When
  the name belongs to an index already, the request is refused with \<open>DuplicateIndex\<close>, but the file
  of that index has been replaced: its entries are lost, and a lookup of any key finds nothing.
\<close>

theorem duplicate_index_destroys_entries:
  assumes db: "db_ok db T n" and name: "is_identifier name" and used: "map_of (db_indexes db) name = Some old"
    and s: "map_of (db_catalog db) table = Some s" and i: "column_index column (ts_columns s) = Some i"
    and ty: "cs_type (ts_columns s ! i) = CT_Int32"
  shows "\<exists>db'. execute_create_index name table column db = (Inl (QE_DuplicateIndex name), db') \<and>
    db_indexes db' = db_indexes db \<and> (\<forall>key. lookup_index_eq name key db' = (Inr [], db'))"
proof -
  note D = db_holdsD [OF db_ok_holds [OF db]]
  have schema: "ts_name s = table" "schema_ok s" using D(6) [OF s] by simp_all
  define meta where "meta = \<lparr>im_name = name, im_table = table, im_column = column, im_key_type = IK_Int32\<rparr>"
  let ?d = "dk_put (index_file_path name) (as_bytes (index_file.file_text (meta, []))) (db_disk db)"
  have column: "i < length (ts_columns s)" "cs_name (ts_columns s ! i) = column" using column_index_less [OF i] by simp_all
  have "is_identifier column" "is_identifier table"
    using schema column by (auto simp: schema_ok_def columns_ok_def list_all_length)
  then have ok: "meta_ok meta" using name by (simp add: meta_def meta_ok_def identifier_plain)
  have put: "create_index_file meta (db_disk db) = (Inr (), ?d)"
    using write_index_file_ok [OF D(1), of meta "[]"] by (simp add: create_index_file_def meta_def)
  have create: "create_index name table column db = (Inl (TE_Index (DuplicateIndex name)), db\<lparr>db_disk := ?d\<rparr>)"
    using s compile_schema_ok [OF schema(2)] i column ty put used name
    by (simp add: create_index_def layout_column_of_layout index_key_type_of_def validate_identifier_def on_dir_def Let_def
        index_catalog_insert_def meta_def)
  have run: "execute_create_index name table column db = (Inl (QE_DuplicateIndex name), db\<lparr>db_disk := ?d\<rparr>)"
    using create load_schema_ok [OF s] i ty by (simp add: execute_create_index_def create_index_error_def column_find)
  have "lookup_index_eq name key (db\<lparr>db_disk := ?d\<rparr>) = (Inr [], db\<lparr>db_disk := ?d\<rparr>)" for key
    using lookup_eq_stored [of ?d name meta "[]" key] D(1) ok by (simp add: lookup_index_eq_def on_dir_def)
  then show ?thesis using run by auto
qed

subsection \<open>A table whose records are too large\<close>

text \<open>
  \<open>create_table\<close> creates the page file before the record size is checked against the page size.
  When a record does not fit on a page, the request is refused, but the file stays; every later
  attempt to create a table of this name fails because the file exists.
\<close>

lemma record_manager_create_too_large:
  assumes d: "disk_healthy d" and new: "dk_files d name = None" and slots: "compute_slots_per_page rs = Inl err"
  obtains e d' where "record_manager_create name rs d = (Inl e, d')" and "disk_healthy d'" and "dk_files d' name \<noteq> None"
proof -
  obtain p0 where p0: "page_create (io_of []) = (Inr (), p0)" "page_refines p0 sp_empty" "on_disk p0"
    unfolding io_of_def by (rule page_create_refines)
  obtain p1 where p1: "page_flush p0 = (Inr (), p1)" "page_refines p1 sp_empty" "on_disk p1"
    using p0(2) by (rule page_flush_refines)
  obtain p2 where p2: "page_flush p1 = (Inr (), p2)" "page_refines p2 sp_empty" "on_disk p2"
    using p1(2) by (rule page_flush_refines)
  let ?d = "dk_put name (io_bytes (pf_io p2)) d"
  have create: "page_manager_create name d = (Inr (), ?d)"
    using d new p0(1) p1(1) p2(1)
    by (simp add: page_manager_create_def disk_create_new_def drop_page_file_def page_file_drop_def)
  obtain p3 where p3: "page_open (pf_io p2) = Inr p3" "page_refines p3 sp_empty" "on_disk p3"
    using page_open_refines [OF p2(2,3)] .
  have "page_manager_open name ?d = (Inr p3, ?d)"
    using d p3(1) page_refines_io [OF p2(2)] by (simp add: page_manager_open_def disk_open_def)
  moreover obtain e s where "create_records p3 DEFAULT_BUFFER_CAPACITY rs = (Inl e, s)"
  proof (cases "create_records p3 DEFAULT_BUFFER_CAPACITY rs")
    case (Pair r s)
    then show thesis using that create_records_slots [of p3 DEFAULT_BUFFER_CAPACITY rs] slots by (cases r) auto
  qed
  ultimately have "record_manager_create name rs d = (Inl e, drop_pool name s ?d)"
    using create by (simp add: record_manager_create_def)
  moreover have "disk_healthy (drop_pool name s ?d)" "dk_files (drop_pool name s ?d) name \<noteq> None"
    using d by (simp_all add: drop_pool_def drop_page_file_def split: option.split)
  ultimately show thesis by (rule that)
qed

theorem oversized_table_blocks_name:
  assumes db: "db_ok db T n" and s: "schema_ok s" and new: "map_of (db_catalog db) (ts_name s) = None"
    and slots: "compute_slots_per_page (total_len (ts_columns s)) = Inl err"
    and again: "schema_ok s'" "ts_name s' = ts_name s"
  shows "\<exists>e db'. create_table s db = (Inl e, db') \<and> db_catalog db' = db_catalog db \<and>
    create_table s' db' = (Inl (TE_Record (RE_PageStore (PS_Io AlreadyExists))), db')"
proof -
  note D = db_holdsD [OF db_ok_holds [OF db]]
  obtain e d' where d': "record_manager_create (table_path (ts_name s)) (total_len (ts_columns s)) (db_disk db) = (Inl e, d')"
    "disk_healthy d'" "dk_files d' (table_path (ts_name s)) \<noteq> None"
    by (rule record_manager_create_too_large [OF D(1) D(7) [OF new] slots])
  let ?db = "db\<lparr>db_disk := d'\<rparr>"
  have first: "create_table s db = (Inl (TE_Record e), ?db)"
    using compile_schema_ok [OF s] new d'(1) by (simp add: create_table_def layout_of_def on_dir_def)
  obtain bs where "dk_files d' (table_path (ts_name s)) = Some bs" using d'(3) by auto
  then have "page_manager_create (table_path (ts_name s)) d' = (Inl (PS_Io AlreadyExists), d')"
    using d'(2) by (simp add: page_manager_create_def disk_create_new_def)
  then have "create_table s' ?db = (Inl (TE_Record (RE_PageStore (PS_Io AlreadyExists))), ?db)"
    using compile_schema_ok [OF again(1)] again(2) new
    by (simp add: create_table_def record_manager_create_def on_dir_def)
  then show ?thesis using first by auto
qed

end
