(* ===== verification/Error_Text.thy ===== *)
theory Error_Text
  imports Query_Engine
begin

section \<open>Error texts and their causes\<close>

text \<open>
  The \<open>Display\<close> and \<open>Error\<close> implementations of the error types.  The text of an \<open>io::Error\<close>
  comes from the standard library and the operating system: it is the argument \<open>io\<close>.  The
  constructors of the models that are no values of the source have no text; they stand for a
  panic or a loop that does not end.
\<close>

fun page_store_text :: "(io_error \<Rightarrow> string) \<Rightarrow> page_store_error \<Rightarrow> string" where
  "page_store_text io (PS_Io e) = ''I/O error: '' @ io e"
| "page_store_text io (InvalidPageId p) = ''invalid page id: '' @ show_u32 p"
| "page_store_text io (PageAlreadyFree p) = ''page '' @ show_u32 p @ '' is already free''"
| "page_store_text io (PS_Corrupted m) = ''corrupted page store: '' @ m"

fun buffer_pool_text :: "(io_error \<Rightarrow> string) \<Rightarrow> buffer_pool_error \<Rightarrow> string" where
  "buffer_pool_text io (BP_PageStore e) = page_store_text io e"
| "buffer_pool_text io (UnknownFile f) = ''unknown file id: '' @ show_u32 f"
| "buffer_pool_text io (FileHasPinnedPages f) = ''file '' @ show_u32 f @ '' still has pinned pages''"
| "buffer_pool_text io NoFrameAvailable = ''no buffer frame available''"
| "buffer_pool_text io (BP_Corrupted m) = ''corrupted buffer pool state: '' @ m"
| "buffer_pool_text io (LockPoisoned m) = ''lock poisoned: '' @ m"
| "buffer_pool_text io BP_Diverges = []"

fun record_text :: "(io_error \<Rightarrow> string) \<Rightarrow> record_error \<Rightarrow> string" where
  "record_text io (RE_PageStore e) = page_store_text io e"
| "record_text io (RE_BufferPool e) = buffer_pool_text io e"
| "record_text io (InvalidRecordSize n) = ''invalid record size: '' @ show_nat n"
| "record_text io (RecordTooLarge n) = ''record size '' @ show_nat n @ '' does not fit in one page''"
| "record_text io (InvalidPredicate m) = ''invalid predicate: '' @ m"
| "record_text io (PredicateOutOfBounds offset len record_size) =
     ''predicate range ['' @ show_nat offset @ '', '' @ show_nat (offset + len) @ '') exceeds record size '' @ show_nat record_size"
| "record_text io (InvalidRid r) =
     ''invalid rid: page '' @ show_u32 (rid_page_id r) @ '', slot '' @ show_u32 (rid_slot_id r)"
| "record_text io (EmptySlot r) =
     ''rid points to an empty slot: ('' @ show_u32 (rid_page_id r) @ '', '' @ show_u32 (rid_slot_id r) @ '')''"
| "record_text io (SizeMismatch expected actual) =
     ''record size mismatch: expected '' @ show_nat expected @ '', got '' @ show_nat actual"
| "record_text io (RE_Corrupted m) = ''corrupted record file: '' @ m"
| "record_text io RE_Diverges = []"

fun index_text :: "(io_error \<Rightarrow> string) \<Rightarrow> index_error \<Rightarrow> string" where
  "index_text io (IE_Io e) = io e"
| "index_text io (DuplicateIndex name) = ''index already exists: '' @ name"
| "index_text io (IndexNotFound name) = ''index not found: '' @ name"
| "index_text io (UnsupportedKeyType kind) = ''unsupported index key type: '' @ kind"
| "index_text io (IE_Corrupted m) = ''index corrupted: '' @ m"
| "index_text io IE_Panic = []"

fun table_text :: "(io_error \<Rightarrow> string) \<Rightarrow> table_error \<Rightarrow> string" where
  "table_text io (TE_Io e) = io e"
| "table_text io (TE_Index e) = index_text io e"
| "table_text io (TE_Record e) = record_text io e"
| "table_text io (InvalidName name) = ''invalid identifier: '' @ name"
| "table_text io (InvalidSchema m) = ''invalid schema: '' @ m"
| "table_text io (DuplicateTable name) = ''table already exists: '' @ name"
| "table_text io (DuplicateColumn name) = ''duplicate column: '' @ name"
| "table_text io (TableNotFound name) = ''table not found: '' @ name"
| "table_text io (ColumnNotFound name) = ''column not found: '' @ name"
| "table_text io (TE_ValueCountMismatch expected actual) =
     ''row value count mismatch: expected '' @ show_nat expected @ '', got '' @ show_nat actual"
| "table_text io (TE_ValueTypeMismatch column expected actual) =
     ''value type mismatch for column '' @ column @ '': expected '' @ expected @ '', got '' @ actual"
| "table_text io (CatalogCorrupted m) = ''catalog corrupted: '' @ m"
| "table_text io TE_Panic = []"

fun query_text :: "(io_error \<Rightarrow> string) \<Rightarrow> query_error \<Rightarrow> string" where
  "query_text io (QE_Table e) = table_text io e"
| "query_text io (UnknownTable t) = ''unknown table: '' @ t"
| "query_text io (QE_DuplicateIndex name) = ''duplicate index: '' @ name"
| "query_text io (UnknownIndex name) = ''unknown index: '' @ name"
| "query_text io (UnsupportedIndexColumnType t c actual) =
     ''unsupported index column type for '' @ t @ ''.'' @ c @ '': '' @ actual"
| "query_text io (UnknownColumn t c) = ''unknown column '' @ c @ '' on table '' @ t"
| "query_text io (DuplicateUpdateColumn t c) = ''duplicate update column '' @ c @ '' on table '' @ t"
| "query_text io (DuplicateOrderColumn t c) = ''duplicate order column '' @ c @ '' on table '' @ t"
| "query_text io (DuplicateRequestColumn t c) = ''duplicate request column '' @ c @ '' on table '' @ t"
| "query_text io (MissingRequestColumn t c) = ''missing request column '' @ c @ '' on table '' @ t"
| "query_text io (InvalidLimit t n) = ''invalid limit '' @ show_nat n @ '' for table '' @ t"
| "query_text io (EmptyAssignments t) = ''empty assignments for table '' @ t"
| "query_text io (QE_ValueCountMismatch t expected actual) =
     ''value count mismatch for table '' @ t @ '': expected '' @ show_nat expected @ '', got '' @ show_nat actual"
| "query_text io (QE_ValueTypeMismatch t c expected actual) =
     ''value type mismatch for '' @ t @ ''.'' @ c @ '': expected '' @ expected @ '', got '' @ actual"
| "query_text io QE_Panic = []"

subsection \<open>Causes\<close>

text \<open>An error behind the trait object that \<open>Error::source\<close> returns.\<close>

datatype any_error =
    Any_Io io_error
  | Any_PageStore page_store_error
  | Any_BufferPool buffer_pool_error
  | Any_Record record_error
  | Any_Index index_error
  | Any_Table table_error

fun page_store_source :: "page_store_error \<Rightarrow> any_error option" where
  "page_store_source (PS_Io e) = Some (Any_Io e)"
| "page_store_source _ = None"

fun buffer_pool_source :: "buffer_pool_error \<Rightarrow> any_error option" where
  "buffer_pool_source (BP_PageStore e) = Some (Any_PageStore e)"
| "buffer_pool_source _ = None"

fun record_source :: "record_error \<Rightarrow> any_error option" where
  "record_source (RE_PageStore e) = Some (Any_PageStore e)"
| "record_source (RE_BufferPool e) = Some (Any_BufferPool e)"
| "record_source _ = None"

fun index_source :: "index_error \<Rightarrow> any_error option" where
  "index_source (IE_Io e) = Some (Any_Io e)"
| "index_source _ = None"

fun table_source :: "table_error \<Rightarrow> any_error option" where
  "table_source (TE_Io e) = Some (Any_Io e)"
| "table_source (TE_Index e) = Some (Any_Index e)"
| "table_source (TE_Record e) = Some (Any_Record e)"
| "table_source _ = None"

fun query_source :: "query_error \<Rightarrow> any_error option" where
  "query_source (QE_Table e) = Some (Any_Table e)"
| "query_source _ = None"

text \<open>The chain of sources that a caller follows: it ends, and the text of every error shows its root.\<close>

fun source_of :: "any_error \<Rightarrow> any_error option" where
  "source_of (Any_Io e) = None"
| "source_of (Any_PageStore e) = page_store_source e"
| "source_of (Any_BufferPool e) = buffer_pool_source e"
| "source_of (Any_Record e) = record_source e"
| "source_of (Any_Index e) = index_source e"
| "source_of (Any_Table e) = table_source e"

fun error_level :: "any_error \<Rightarrow> nat" where
  "error_level (Any_Io e) = 0"
| "error_level (Any_PageStore e) = 1"
| "error_level (Any_BufferPool e) = 2"
| "error_level (Any_Record e) = 3"
| "error_level (Any_Index e) = 1"
| "error_level (Any_Table e) = 4"

lemma source_of_level: "source_of e = Some e' \<Longrightarrow> error_level e' < error_level e"
  by (cases e rule: source_of.cases; simp;
      elim page_store_source.elims buffer_pool_source.elims record_source.elims index_source.elims table_source.elims) auto

function root_cause :: "any_error \<Rightarrow> any_error" where
  "root_cause e = (case source_of e of None \<Rightarrow> e | Some e' \<Rightarrow> root_cause e')"
  by pat_completeness auto
termination by (relation "measure error_level") (auto dest: source_of_level)

declare root_cause.simps [simp del]

fun any_text :: "(io_error \<Rightarrow> string) \<Rightarrow> any_error \<Rightarrow> string" where
  "any_text io (Any_Io e) = io e"
| "any_text io (Any_PageStore e) = page_store_text io e"
| "any_text io (Any_BufferPool e) = buffer_pool_text io e"
| "any_text io (Any_Record e) = record_text io e"
| "any_text io (Any_Index e) = index_text io e"
| "any_text io (Any_Table e) = table_text io e"

lemma source_text: "source_of e = Some e' \<Longrightarrow> \<exists>prefix. any_text io e = prefix @ any_text io e'"
  by (cases e rule: source_of.cases; simp;
      elim page_store_source.elims buffer_pool_source.elims record_source.elims index_source.elims table_source.elims) auto

lemma root_cause_text: "\<exists>prefix. any_text io e = prefix @ any_text io (root_cause e)"
proof (induction e rule: root_cause.induct)
  case (1 e)
  show ?case
  proof (cases "source_of e")
    case None
    then show ?thesis by (simp add: root_cause.simps [of e])
  next
    case (Some e')
    then obtain p where "any_text io e = p @ any_text io e'" using source_text by blast
    moreover obtain p' where "any_text io e' = p' @ any_text io (root_cause e')" using 1 Some by blast
    ultimately show ?thesis using Some by (simp add: root_cause.simps [of e])
  qed
qed

text \<open>An input or output error is never hidden: the text of a query error ends with that of its cause.\<close>

lemma query_text_shows_cause:
  assumes "query_source e = Some e'"
  shows "\<exists>prefix. query_text io e = prefix @ any_text io (root_cause e')"
  using assms root_cause_text [of io e'] by (cases e) auto

end
