(* ===== verification/Fault_Rules.thy ===== *)
theory Fault_Rules
  imports Redbase_Prelude
begin

section \<open>Operations on a device that may fail\<close>

text \<open>
  Three properties of an operation on a state, with rules that carry them through its code.

  \<open>or_fault heal flt m\<close>: a run of \<open>m\<close> ends with an error that reports a fault, or it is the run
  that the healed state has, the state without pending faults.  So an operation with this
  property never returns a wrong result because of a fault that it has passed over.

  \<open>keeps I m\<close>: \<open>m\<close> keeps the invariant \<open>I\<close> on all its exits.

  \<open>stops I m\<close>: on a device that fails at every call, \<open>I n\<close> being the states with \<open>n\<close> failures
  ahead, \<open>m\<close> makes no call, or makes one and returns an error.
\<close>

definition or_fault :: "('s \<Rightarrow> 's) \<Rightarrow> ('e \<Rightarrow> bool) \<Rightarrow> ('s \<Rightarrow> ('e + 'a) \<times> 's) \<Rightarrow> bool" where
  "or_fault heal flt m \<longleftrightarrow> (\<forall>s. (\<exists>e s'. m s = (Inl e, s') \<and> flt e) \<or> m (heal s) = apsnd heal (m s))"

definition keeps :: "('s \<Rightarrow> bool) \<Rightarrow> ('s \<Rightarrow> 'r \<times> 's) \<Rightarrow> bool" where
  "keeps I m \<longleftrightarrow> (\<forall>s. I s \<longrightarrow> I (snd (m s)))"

definition stops :: "(nat \<Rightarrow> 's \<Rightarrow> bool) \<Rightarrow> ('s \<Rightarrow> ('e + 'a) \<times> 's) \<Rightarrow> bool" where
  "stops I m \<longleftrightarrow> (\<forall>n s. I (Suc n) s \<longrightarrow> I (Suc n) (snd (m s)) \<or> I n (snd (m s)) \<and> (\<exists>e. fst (m s) = Inl e))"

named_theorems fault_rules "operations that report a fault or run as without faults"
named_theorems keeps_rules "operations that keep an invariant"

subsection \<open>Faults are reported\<close>

lemma or_faultI:
  "(\<And>s. (\<exists>e s'. m s = (Inl e, s') \<and> flt e) \<or> m (heal s) = apsnd heal (m s)) \<Longrightarrow> or_fault heal flt m"
  by (simp add: or_fault_def)

lemma or_faultD:
  "or_fault heal flt m \<Longrightarrow> m s = (r, s') \<Longrightarrow> (\<exists>e. r = Inl e \<and> flt e) \<or> m (heal s) = (r, heal s')"
  unfolding or_fault_def by (metis Pair_inject apsnd_conv)

lemma or_faultE [consumes 1, case_names fault healthy]:
  assumes "or_fault heal flt m"
  obtains (fault) e s' where "m s = (Inl e, s')" and "flt e"
    | (healthy) r s' where "m s = (r, s')" and "m (heal s) = (r, heal s')"
  using assms unfolding or_fault_def by (metis apsnd_conv surj_pair)

lemma or_fault_bind:
  assumes m: "or_fault heal flt m" and k: "\<And>x. or_fault heal flt (k x)"
  shows "or_fault heal flt (\<lambda>s. and_then_st (m s) k)"
proof (rule or_faultI)
  fix s
  show "(\<exists>e s'. and_then_st (m s) k = (Inl e, s') \<and> flt e) \<or>
      and_then_st (m (heal s)) k = apsnd heal (and_then_st (m s) k)"
    using m
  proof (cases rule: or_faultE [where s = s])
    case (healthy r s')
    then show ?thesis
    proof (cases r)
      case (Inr x)
      show ?thesis using k [of x] by (cases rule: or_faultE [where s = s']) (simp_all add: healthy Inr)
    qed simp
  qed auto
qed

lemma or_fault_return:
  "(\<And>s. g (heal s) = g s) \<Longrightarrow> (\<And>s. u (heal s) = heal (u s)) \<Longrightarrow> or_fault heal flt (\<lambda>s. (g s, u s))"
  by (simp add: or_fault_def)

lemma or_fault_if:
  "(\<And>s. b (heal s) = b s) \<Longrightarrow> or_fault heal flt m \<Longrightarrow> or_fault heal flt m' \<Longrightarrow>
     or_fault heal flt (\<lambda>s. if b s then m s else m' s)"
  by (simp add: or_fault_def)

lemma or_fault_let:
  "(\<And>s. g (heal s) = g s) \<Longrightarrow> (\<And>x. or_fault heal flt (m x)) \<Longrightarrow> or_fault heal flt (\<lambda>s. m (g s) s)"
  by (simp add: or_fault_def)

lemma or_fault_after:
  "(\<And>s. u (heal s) = heal (u s)) \<Longrightarrow> or_fault heal flt m \<Longrightarrow> or_fault heal flt (\<lambda>s. m (u s))"
  by (simp add: or_fault_def)

lemma or_fault_option:
  "(\<And>s. g (heal s) = g s) \<Longrightarrow> or_fault heal flt m \<Longrightarrow> (\<And>x. or_fault heal flt (n x)) \<Longrightarrow>
     or_fault heal flt (\<lambda>s. case g s of None \<Rightarrow> m s | Some x \<Rightarrow> n x s)"
  by (simp add: or_fault_def split: option.split)

text \<open>An operation on a part of the state, its errors converted.\<close>

lemma or_fault_lift:
  assumes m: "or_fault heal flt m" and get: "\<And>s. get (heal' s) = heal (get s)"
    and put: "\<And>p s. put (heal p) (heal' s) = heal' (put p s)" and conv: "\<And>e. flt e \<Longrightarrow> flt' (conv e)"
  shows "or_fault heal' flt' (\<lambda>s. case m (get s) of (r, p) \<Rightarrow> (map_err conv r, put p s))"
proof (rule or_faultI)
  fix s
  show "(\<exists>e s'. (case m (get s) of (r, p) \<Rightarrow> (map_err conv r, put p s)) = (Inl e, s') \<and> flt' e) \<or>
      (case m (get (heal' s)) of (r, p) \<Rightarrow> (map_err conv r, put p (heal' s))) =
        apsnd heal' (case m (get s) of (r, p) \<Rightarrow> (map_err conv r, put p s))"
    using m by (cases rule: or_faultE [where s = "get s"]) (auto simp: get put conv)
qed

subsection \<open>Invariants are kept\<close>

lemma keepsI: "(\<And>s. I s \<Longrightarrow> I (snd (m s))) \<Longrightarrow> keeps I m"
  by (simp add: keeps_def)

lemma keepsD: "keeps I m \<Longrightarrow> I s \<Longrightarrow> m s = (r, s') \<Longrightarrow> I s'"
  unfolding keeps_def by (metis snd_conv)

lemma keeps_bind:
  assumes m: "keeps I m" and k: "\<And>x. keeps I (k x)"
  shows "keeps I (\<lambda>s. and_then_st (m s) k)"
proof (rule keepsI)
  fix s
  assume "I s"
  obtain r s' where r: "m s = (r, s')" by (cases "m s")
  then have "I s'" by (rule keepsD [OF m \<open>I s\<close>])
  then show "I (snd (and_then_st (m s) k))" using k by (cases r) (simp_all add: r keeps_def)
qed

lemma keeps_return: "(\<And>s. I s \<Longrightarrow> I (u s)) \<Longrightarrow> keeps I (\<lambda>s. (g s, u s))"
  by (simp add: keeps_def)

lemma keeps_if: "keeps I m \<Longrightarrow> keeps I n \<Longrightarrow> keeps I (\<lambda>s. if b s then m s else n s)"
  by (simp add: keeps_def)

subsection \<open>A device on which everything fails\<close>

lemma stopsI:
  "(\<And>n s r s'. I (Suc n) s \<Longrightarrow> m s = (r, s') \<Longrightarrow> I (Suc n) s' \<or> I n s' \<and> (\<exists>e. r = Inl e)) \<Longrightarrow> stops I m"
  unfolding stops_def by (metis prod.collapse)

lemma stopsD:
  "stops I m \<Longrightarrow> I (Suc n) s \<Longrightarrow> m s = (r, s') \<Longrightarrow> I (Suc n) s' \<or> I n s' \<and> (\<exists>e. r = Inl e)"
  unfolding stops_def by (metis fst_conv snd_conv)

lemma stops_bind:
  assumes m: "stops I m" and k: "\<And>x. stops I (k x)"
  shows "stops I (\<lambda>s. and_then_st (m s) k)"
proof (rule stopsI)
  fix n s r s'
  assume I: "I (Suc n) s" and run: "and_then_st (m s) k = (r, s')"
  obtain q t where q: "m s = (q, t)" by (cases "m s")
  show "I (Suc n) s' \<or> I n s' \<and> (\<exists>e. r = Inl e)"
    using stopsD [OF m I q] stopsD [OF k, of n t] run by (cases q) (auto simp: q)
qed

lemma stops_return: "(\<And>n s. I n s \<Longrightarrow> I n (u s)) \<Longrightarrow> stops I (\<lambda>s. (g s, u s))"
  by (simp add: stops_def)

lemma stops_if: "stops I m \<Longrightarrow> stops I m' \<Longrightarrow> stops I (\<lambda>s. if b s then m s else m' s)"
  by (simp add: stops_def)

lemma stops_option: "stops I m \<Longrightarrow> (\<And>x. stops I (k x)) \<Longrightarrow> stops I (\<lambda>s. case g s of None \<Rightarrow> m s | Some x \<Rightarrow> k x s)"
  by (simp add: stops_def split: option.split)

lemma stops_dependent: "(\<And>x. stops I (m x)) \<Longrightarrow> stops I (\<lambda>s. m (g s) s)"
  by (simp add: stops_def)

lemma stops_after: "(\<And>n s. I n s \<Longrightarrow> I n (u s)) \<Longrightarrow> stops I m \<Longrightarrow> stops I (\<lambda>s. m (u s))"
  by (simp add: stops_def)

end
