(* ===== verification/Fault_Pages.thy ===== *)
theory Fault_Pages
  imports Fault_Rules Record_Scan
begin

section \<open>Page files and the buffer pool on a failing device\<close>

text \<open>
  Every operation of a page file and of the buffer pool reports a fault of the device, or runs
  as it does without faults.  \<open>heal_io\<close>, \<open>heal_pf\<close> and \<open>heal_pool\<close> drop the pending faults;
  \<open>ps_fault\<close> and \<open>bp_fault\<close> are the errors that report one.
\<close>

definition heal_io :: "page_io \<Rightarrow> page_io" where
  "heal_io io = io\<lparr>io_faults := []\<rparr>"

definition heal_pf :: "page_file \<Rightarrow> page_file" where
  "heal_pf f = f\<lparr>pf_io := heal_io (pf_io f)\<rparr>"

text \<open>A change of the files of a pool that leaves the pool itself alone.\<close>

definition map_files :: "(page_file \<Rightarrow> page_file) \<Rightarrow> buffer_pool \<Rightarrow> buffer_pool" where
  "map_files g s = s\<lparr>bp_files := \<lambda>fid. map_option g (bp_files s fid)\<rparr>"

definition heal_pool :: "buffer_pool \<Rightarrow> buffer_pool" where
  "heal_pool = map_files heal_pf"

fun ps_fault :: "page_store_error \<Rightarrow> bool" where
  "ps_fault (PS_Io e) \<longleftrightarrow> e = DeviceFault"
| "ps_fault _ \<longleftrightarrow> False"

fun bp_fault :: "buffer_pool_error \<Rightarrow> bool" where
  "bp_fault (BP_PageStore e) \<longleftrightarrow> ps_fault e"
| "bp_fault _ \<longleftrightarrow> False"

subsection \<open>The device\<close>

lemma heal_io_simps [simp]: "io_bytes (heal_io io) = io_bytes io" "io_faults (heal_io io) = []"
  by (simp_all add: heal_io_def)

lemma io_or_fault [fault_rules]:
  "or_fault heal_io (\<lambda>e. e = DeviceFault) (write_all_at off buf)"
  "or_fault heal_io (\<lambda>e. e = DeviceFault) (io_set_len n)"
  "or_fault heal_io (\<lambda>e. e = DeviceFault) io_len"
  "or_fault heal_io (\<lambda>e. e = DeviceFault) io_sync_all"
  by (auto simp: or_fault_def write_all_at_def io_set_len_def io_len_def io_sync_all_def heal_io_def
      split: prod.splits option.splits)

lemma read_or_fault:
  obtains (fault) buf' io' where "read_exact_at off buf io = (Inl DeviceFault, buf', io')"
    | (healthy) r buf' io' where "read_exact_at off buf io = (r, buf', io')"
      and "read_exact_at off buf (heal_io io) = (r, buf', heal_io io')"
proof (cases "take_fault (io_faults io)")
  case (Pair x fs)
  show thesis
  proof (cases x)
    case None
    then have "read_exact_at off buf (heal_io io) = apsnd (apsnd heal_io) (read_exact_at off buf io)"
      by (simp add: read_exact_at_def heal_io_def Pair)
    then show thesis by (cases "read_exact_at off buf io") (auto intro: healthy)
  next
    case (Some n)
    then show thesis using fault by (simp add: read_exact_at_def Pair)
  qed
qed

lemma heal_pf_simps [simp]:
  "pf_header (heal_pf f) = pf_header f" "pf_header_dirty (heal_pf f) = pf_header_dirty f"
  "pf_loaded_page_id (heal_pf f) = pf_loaded_page_id f" "pf_loaded_page_dirty (heal_pf f) = pf_loaded_page_dirty f"
  "pf_loaded_page (heal_pf f) = pf_loaded_page f" "pf_io (heal_pf f) = heal_io (pf_io f)"
  "(heal_pf f)\<lparr>pf_header := h\<rparr> = heal_pf (f\<lparr>pf_header := h\<rparr>)"
  "(heal_pf f)\<lparr>pf_header_dirty := b\<rparr> = heal_pf (f\<lparr>pf_header_dirty := b\<rparr>)"
  "(heal_pf f)\<lparr>pf_loaded_page_id := i\<rparr> = heal_pf (f\<lparr>pf_loaded_page_id := i\<rparr>)"
  "(heal_pf f)\<lparr>pf_loaded_page_dirty := b\<rparr> = heal_pf (f\<lparr>pf_loaded_page_dirty := b\<rparr>)"
  "(heal_pf f)\<lparr>pf_loaded_page := p\<rparr> = heal_pf (f\<lparr>pf_loaded_page := p\<rparr>)"
  "(heal_pf f)\<lparr>pf_io := heal_io io\<rparr> = heal_pf (f\<lparr>pf_io := io\<rparr>)"
  by (simp_all add: heal_pf_def)

lemma page_helpers_heal [simp]:
  "current_page_header (heal_pf f) = current_page_header f"
  "page_data (heal_pf f) = page_data f"
  "ensure_page_id_in_range pid (heal_pf f) = ensure_page_id_in_range pid f"
  "ensure_current_page_is_used pid (heal_pf f) = ensure_current_page_is_used pid f"
  "write_current_page_header h (heal_pf f) = heal_pf (write_current_page_header h f)"
  "page_guard_store d (heal_pf f) = heal_pf (page_guard_store d f)"
  by (simp_all add: current_page_header_def page_data_def ensure_page_id_in_range_def ensure_current_page_is_used_def
      write_current_page_header_def page_guard_store_def)

lemma on_device_or_fault [fault_rules]:
  assumes "or_fault heal_io (\<lambda>e. e = DeviceFault) m"
  shows "or_fault heal_pf ps_fault (on_device m)"
  unfolding on_device_def
  by (rule or_fault_lift [OF assms, where put = "\<lambda>io f. f\<lparr>pf_io := io\<rparr>"]) simp_all

subsection \<open>The page file\<close>

lemmas or_fault_intros = or_fault_bind or_fault_return or_fault_if or_fault_option

lemma write_loaded_or_fault [fault_rules]:
  "or_fault heal_pf ps_fault (\<lambda>f. on_device (write_all_at off (pf_loaded_page f)) f)"
  by (rule or_fault_let [where g = pf_loaded_page]) (simp, intro fault_rules)

lemma write_header_or_fault [fault_rules]:
  "or_fault heal_pf ps_fault (\<lambda>f. on_device (write_all_at 0 (file_header_encode (pf_header f))) f)"
  by (rule or_fault_let [where g = pf_header]) (simp, intro fault_rules)

lemma flush_loaded_page_or_fault [fault_rules]: "or_fault heal_pf ps_fault flush_loaded_page"
  unfolding flush_loaded_page_def by (intro or_fault_intros fault_rules) simp_all

lemma flush_header_or_fault [fault_rules]: "or_fault heal_pf ps_fault flush_header"
  unfolding flush_header_def by (intro or_fault_intros fault_rules) simp_all

lemma page_flush_or_fault [fault_rules]: "or_fault heal_pf ps_fault page_flush"
  unfolding page_flush_def by (intro or_fault_intros fault_rules)

lemma load_rest_or_fault:
  "or_fault heal_pf ps_fault (\<lambda>f.
     case read_exact_at off (pf_loaded_page f) (pf_io f) of
       (r, buf, io) \<Rightarrow>
         and_then_st (map_err PS_Io r, f\<lparr>pf_loaded_page := buf, pf_io := io\<rparr>) (\<lambda>_ f.
           (Inr (), f\<lparr>pf_loaded_page_id := Some pid, pf_loaded_page_dirty := False\<rparr>)))"
proof (rule or_faultI)
  fix f
  let ?m = "\<lambda>f. case read_exact_at off (pf_loaded_page f) (pf_io f) of
       (r, buf, io) \<Rightarrow>
         and_then_st (map_err PS_Io r, f\<lparr>pf_loaded_page := buf, pf_io := io\<rparr>) (\<lambda>_ f.
           (Inr (), f\<lparr>pf_loaded_page_id := Some pid, pf_loaded_page_dirty := False\<rparr>))"
  show "(\<exists>e s'. ?m f = (Inl e, s') \<and> ps_fault e) \<or> ?m (heal_pf f) = apsnd heal_pf (?m f)"
  proof (cases rule: read_or_fault [of off "pf_loaded_page f" "pf_io f"])
    case (healthy r buf' io')
    then show ?thesis by (cases r) simp_all
  qed simp
qed

lemma load_page_or_fault [fault_rules]: "or_fault heal_pf ps_fault (load_page pid)"
  unfolding load_page_def
  by (intro or_fault_intros fault_rules load_rest_or_fault) simp_all

lemma read_page_or_fault [fault_rules]: "or_fault heal_pf ps_fault (read_page pid)"
  unfolding read_page_def by (intro or_fault_intros fault_rules) simp_all

lemma write_page_or_fault [fault_rules]: "or_fault heal_pf ps_fault (write_page pid)"
  unfolding write_page_def by (intro or_fault_intros fault_rules) simp_all

lemma dispose_page_or_fault [fault_rules]: "or_fault heal_pf ps_fault (dispose_page pid)"
  unfolding dispose_page_def Let_def by (intro or_fault_intros fault_rules) simp_all

lemma store_page_or_fault [fault_rules]: "or_fault heal_pf ps_fault (store_page pid d)"
  unfolding store_page_def by (intro or_fault_intros fault_rules) simp_all

lemma resize_or_fault [fault_rules]:
  "or_fault heal_pf ps_fault (\<lambda>f. on_device (io_set_len (FILE_HEADER_SIZE + unat (pf_num_pages f) * PAGE_SIZE)) f)"
  by (rule or_fault_let [where g = pf_num_pages]) (simp, intro fault_rules)

lemma allocate_reused_or_fault:
  "or_fault heal_pf ps_fault (\<lambda>f.
     let pid = pf_first_free_page f in
     and_then_st (load_page pid f) (\<lambda>_ f.
       let nxt = current_page_header f;
           f = f\<lparr>pf_header := (pf_header f)\<lparr>fh_first_free_page := nxt\<rparr>\<rparr>;
           f = write_current_page_header PAGE_USED f;
           f = page_guard_store (replicate PAGE_DATA_SIZE 0) f
       in (Inr pid, f)))"
  unfolding Let_def
  by (rule or_fault_let [where g = pf_first_free_page], simp, intro or_fault_intros fault_rules) simp_all

lemma allocate_new_or_fault:
  "or_fault heal_pf ps_fault (\<lambda>f.
     let pid = pf_num_pages f in
     and_then_st (flush_loaded_page f) (\<lambda>_ f.
     and_then_st (ok_or (PS_Corrupted ''page count overflow'') (checked_add_u32 (pf_num_pages f) 1), f) (\<lambda>num f.
       let f = f\<lparr>pf_header := (pf_header f)\<lparr>fh_num_pages := num\<rparr>\<rparr> in
       and_then_st (on_device (io_set_len (FILE_HEADER_SIZE + unat (pf_num_pages f) * PAGE_SIZE)) f) (\<lambda>_ f.
         let f = f\<lparr>pf_loaded_page := replicate PAGE_SIZE 0, pf_loaded_page_id := Some pid,
                   pf_loaded_page_dirty := True\<rparr>
         in (Inr pid, write_current_page_header PAGE_USED f)))))"
proof -
  have step: "or_fault heal_pf ps_fault (\<lambda>f.
       and_then_st (on_device (io_set_len (FILE_HEADER_SIZE + unat (pf_num_pages f) * PAGE_SIZE)) f) (\<lambda>_ f.
         (Inr pid, write_current_page_header PAGE_USED
            (f\<lparr>pf_loaded_page := replicate PAGE_SIZE 0, pf_loaded_page_id := Some pid, pf_loaded_page_dirty := True\<rparr>))))" for pid
    by (intro or_fault_intros fault_rules) simp_all
  show ?thesis
    unfolding Let_def
    by (rule or_fault_let [where g = pf_num_pages], simp,
        intro or_fault_intros fault_rules or_fault_after [where u = "\<lambda>f. f\<lparr>pf_header := _ f\<rparr>", OF _ step]) simp_all
qed

lemma allocate_page_or_fault [fault_rules]: "or_fault heal_pf ps_fault allocate_page"
  unfolding allocate_page_def
  by (intro or_fault_bind or_fault_if allocate_reused_or_fault allocate_new_or_fault or_fault_return) simp_all

text \<open>Opening takes the device and returns the file that owns it.\<close>

lemma io_len_cases:
  obtains (fault) io' where "io_len io = (Inl DeviceFault, io')"
    | (healthy) io' where "io_len io = (Inr (length (io_bytes io)), io')" and "heal_io io' = heal_io io"
  by (cases "take_fault (io_faults io)"; cases "fst (take_fault (io_faults io))")
    (auto simp: io_len_def heal_io_def)

lemma page_open_or_fault:
  "page_open io = Inl (PS_Io DeviceFault) \<or> page_open (heal_io io) = map_sum id heal_pf (page_open io)"
proof (cases rule: io_len_cases [of io])
  case fault
  then show ?thesis by (simp add: page_open_def)
next
  case (healthy io1)
  have len: "io_len (heal_io io) = (Inr (length (io_bytes io)), heal_io io)"
    by (simp add: io_len_def heal_io_def)
  let ?buf = "replicate FILE_HEADER_SIZE (0 :: u8)"
  show ?thesis
  proof (cases rule: read_or_fault [of 0 ?buf io1])
    case fault
    then show ?thesis
      by (simp add: page_open_def healthy len)
  next
    case read: (healthy r buf' io2)
    then have "read_exact_at 0 ?buf (heal_io io) = (r, buf', heal_io io2)" using healthy(2) by simp
    then show ?thesis
      using read(1)
      by (cases r; cases "file_header_decode buf'") (simp_all add: page_open_def healthy(1) len heal_pf_def)
  qed
qed

subsection \<open>The buffer pool\<close>

lemma map_files_simps [simp]:
  "bp_next_file_id (map_files h s) = bp_next_file_id s" "bp_page_table (map_files h s) = bp_page_table s"
  "bp_frames (map_files h s) = bp_frames s" "bp_free_list (map_files h s) = bp_free_list s"
  "bp_mru_head (map_files h s) = bp_mru_head s" "bp_lru_tail (map_files h s) = bp_lru_tail s"
  "bp_files (map_files h s) fid = map_option h (bp_files s fid)"
  "(map_files h s)\<lparr>bp_next_file_id := n\<rparr> = map_files h (s\<lparr>bp_next_file_id := n\<rparr>)"
  "(map_files h s)\<lparr>bp_page_table := t\<rparr> = map_files h (s\<lparr>bp_page_table := t\<rparr>)"
  "(map_files h s)\<lparr>bp_frames := fr\<rparr> = map_files h (s\<lparr>bp_frames := fr\<rparr>)"
  "(map_files h s)\<lparr>bp_free_list := l\<rparr> = map_files h (s\<lparr>bp_free_list := l\<rparr>)"
  "(map_files h s)\<lparr>bp_mru_head := x\<rparr> = map_files h (s\<lparr>bp_mru_head := x\<rparr>)"
  "(map_files h s)\<lparr>bp_lru_tail := x\<rparr> = map_files h (s\<lparr>bp_lru_tail := x\<rparr>)"
  by (simp_all add: map_files_def)

lemma map_files_file [simp]:
  "(map_files h s)\<lparr>bp_files := (bp_files (map_files h s))(fid \<mapsto> h f)\<rparr> = map_files h (s\<lparr>bp_files := (bp_files s)(fid \<mapsto> f)\<rparr>)"
  by (simp add: map_files_def fun_eq_iff)

lemma map_files_frames [simp]:
  "frame_at (map_files h s) i = frame_at s i"
  "update_frame i g (map_files h s) = map_files h (update_frame i g s)"
  "guard_read i (map_files h s) = guard_read i s"
  "guard_write i d (map_files h s) = map_files h (guard_write i d s)"
  by (simp_all add: frame_at_def update_frame_def guard_read_def guard_write_def)

lemma map_files_recency [simp]:
  "link_head i (map_files h s) = map_files h (link_head i s)"
  "unlink i (map_files h s) = map_files h (unlink i s)"
  "touch i (map_files h s) = map_files h (touch i s)"
  "pin_frame i (map_files h s) = map_files h (pin_frame i s)"
  "unpin_frame i (map_files h s) = map_files h (unpin_frame i s)"
  "guard_drop i (map_files h s) = map_files h (guard_drop i s)"
proof -
  show link: "link_head i (map_files h s) = map_files h (link_head i s)" for s
    by (simp add: link_head_def Let_def split: option.split)
  show un: "unlink i (map_files h s) = map_files h (unlink i s)" for s
    by (simp add: unlink_def Let_def split: option.split)
  show to: "touch i (map_files h s) = map_files h (touch i s)" for s
    by (simp add: touch_def link un)
  show "pin_frame i (map_files h s) = map_files h (pin_frame i s)"
    "unpin_frame i (map_files h s) = map_files h (unpin_frame i s)"
    "guard_drop i (map_files h s) = map_files h (guard_drop i s)"
    by (simp_all add: pin_frame_def unpin_frame_def guard_drop_def Let_def to)
qed

lemma map_files_install: "install_frame i key d b (map_files h s) = apsnd (map_files h) (install_frame i key d b s)"
  by (simp add: install_frame_def Let_def)

lemma map_files_recycle: "recycle_frame i (map_files h s) = apsnd (map_files h) (recycle_frame i s)"
  by (simp add: recycle_frame_def Let_def split: option.split)

lemmas heal_pool_simps [simp] = map_files_simps [where h = heal_pf, folded heal_pool_def]
  map_files_file [where h = heal_pf, folded heal_pool_def] map_files_frames [where h = heal_pf, folded heal_pool_def]
  map_files_recency [where h = heal_pf, folded heal_pool_def]

lemma on_file_or_fault [fault_rules]:
  assumes m: "or_fault heal_pf ps_fault m"
  shows "or_fault heal_pool bp_fault (on_file fid m)"
proof (rule or_faultI)
  fix s
  show "(\<exists>e s'. on_file fid m s = (Inl e, s') \<and> bp_fault e) \<or>
      on_file fid m (heal_pool s) = apsnd heal_pool (on_file fid m s)"
  proof (cases "bp_files s fid")
    case (Some f)
    show ?thesis
      using m by (cases rule: or_faultE [where s = f]) (simp_all add: on_file_def Some)
  qed (simp add: on_file_def)
qed

lemma read_page_data_or_fault [fault_rules]: "or_fault heal_pool bp_fault (read_page_data key)"
  unfolding read_page_data_def by (intro fault_rules)

lemma allocate_page_id_or_fault [fault_rules]: "or_fault heal_pool bp_fault (allocate_page_id fid)"
  unfolding allocate_page_id_def by (intro fault_rules)

lemma flush_frame_or_fault [fault_rules]: "or_fault heal_pool bp_fault (flush_frame_if_dirty i)"
proof -
  have step: "or_fault heal_pool bp_fault (\<lambda>s.
      and_then_st (on_file (bk_file_id key)
        (\<lambda>f. and_then_st (store_page (bk_page_id key) (fr_data (frame_at s i)) f) (\<lambda>_. page_flush)) s) (\<lambda>_ s.
        (Inr (), update_frame i (\<lambda>f. f\<lparr>fr_dirty := False\<rparr>) s)))" for key
    by (rule or_fault_let [where g = "\<lambda>s. fr_data (frame_at s i)"], simp,
        intro or_fault_intros fault_rules) simp_all
  show ?thesis
    unfolding flush_frame_if_dirty_def Let_def
    by (intro or_fault_intros step) simp_all
qed

lemma recycle_frame_or_fault [fault_rules]: "or_fault heal_pool bp_fault (recycle_frame i)"
  by (simp add: or_fault_def heal_pool_def map_files_recycle)

lemma evict_frame_or_fault [fault_rules]: "or_fault heal_pool bp_fault (evict_frame i)"
  unfolding evict_frame_def by (intro or_fault_intros fault_rules) simp_all

lemma install_frame_or_fault [fault_rules]: "or_fault heal_pool bp_fault (install_frame i key d b)"
  by (simp add: or_fault_def heal_pool_def map_files_install)

lemma acquire_frame_or_fault [fault_rules]: "or_fault heal_pool bp_fault acquire_frame"
proof -
  have evict: "or_fault heal_pool bp_fault (\<lambda>s.
      and_then_st (flush_frame_if_dirty i s) (\<lambda>_ s. and_then_st (recycle_frame i s) (\<lambda>_ s. (Inr i, touch i s))))" for i
    by (intro or_fault_intros fault_rules) simp_all
  have victim: "or_fault heal_pool bp_fault (\<lambda>s. case x of None \<Rightarrow> (Inl NoFrameAvailable, s) | Some i \<Rightarrow>
      and_then_st (flush_frame_if_dirty i s) (\<lambda>_ s. and_then_st (recycle_frame i s) (\<lambda>_ s. (Inr i, touch i s))))" for x
    by (cases x) (simp_all add: evict or_fault_return)
  show ?thesis
    unfolding acquire_frame_def Let_def
    by (intro or_fault_if or_fault_return
        or_fault_option [where g = "\<lambda>s. find_victim (length (bp_frames s)) (bp_frames s) (bp_lru_tail s)"] victim)
      simp_all
qed

lemma flush_frames_or_fault [fault_rules]: "or_fault heal_pool bp_fault (flush_frames is)"
proof (induction "is")
  case (Cons i "is")
  have "flush_frames (i # is) = (\<lambda>s. and_then_st (flush_frame_if_dirty i s) (\<lambda>_. flush_frames is))" by auto
  then show ?case using Cons by (simp add: or_fault_bind fault_rules)
qed (simp add: or_fault_def)

lemma flush_and_evict_or_fault [fault_rules]: "or_fault heal_pool bp_fault (flush_and_evict_frames is)"
proof (induction "is")
  case (Cons i "is")
  have "flush_and_evict_frames (i # is) = (\<lambda>s. and_then_st (flush_frame_if_dirty i s) (\<lambda>_ s.
     and_then_st (evict_frame i s) (\<lambda>_. flush_and_evict_frames is)))" by auto
  then show ?case using Cons by (simp add: or_fault_bind fault_rules)
qed (simp add: or_fault_def)

lemma frames_of_heal [simp]: "frames_of fid p (heal_pool s) = frames_of fid p s"
  by (simp add: frames_of_def)

lemma flush_registered_or_fault [fault_rules]: "or_fault heal_pool bp_fault (flush_registered fid)"
  unfolding flush_registered_def
proof (rule or_faultI)
  fix s
  have "or_fault heal_pool bp_fault (on_file fid page_flush)" by (intro fault_rules)
  from or_faultD [OF this] show "(\<exists>e s'. (case bp_files s fid of None \<Rightarrow> (Inr (), s) | Some _ \<Rightarrow> on_file fid page_flush s) = (Inl e, s') \<and> bp_fault e) \<or>
      (case bp_files (heal_pool s) fid of None \<Rightarrow> (Inr (), heal_pool s) | Some _ \<Rightarrow> on_file fid page_flush (heal_pool s)) =
        apsnd heal_pool (case bp_files s fid of None \<Rightarrow> (Inr (), s) | Some _ \<Rightarrow> on_file fid page_flush s)"
    by (cases "bp_files s fid"; cases "on_file fid page_flush s") auto
qed

lemma force_file_or_fault [fault_rules]: "or_fault heal_pool bp_fault (force_file fid page)"
proof -
  have "or_fault heal_pool bp_fault (\<lambda>s. flush_frames (frames_of fid page s) s)"
    by (rule or_fault_let [where g = "frames_of fid page"]) (simp, intro fault_rules)
  then show ?thesis
    unfolding force_file_def by (intro or_fault_intros fault_rules) simp_all
qed

lemma flush_file_or_fault [fault_rules]: "or_fault heal_pool bp_fault (flush_file fid)"
proof -
  have "or_fault heal_pool bp_fault (\<lambda>s. flush_and_evict_frames (frames_of fid None s) s)"
    by (rule or_fault_let [where g = "frames_of fid None"]) (simp, intro fault_rules)
  then show ?thesis
    unfolding flush_file_def by (intro or_fault_intros fault_rules) simp_all
qed

lemma get_page_or_fault [fault_rules]: "or_fault heal_pool bp_fault (get_page fid pid)"
  unfolding get_page_def Let_def
proof (rule or_fault_let [where g = "\<lambda>s. bp_page_table s \<lparr>bk_file_id = fid, bk_page_id = pid\<rparr>"])
  fix x
  show "or_fault heal_pool bp_fault (\<lambda>s. case x of
      None \<Rightarrow> and_then_st (acquire_frame s) (\<lambda>i s.
        and_then_st (read_page_data \<lparr>bk_file_id = fid, bk_page_id = pid\<rparr> s) (\<lambda>data s.
        and_then_st (install_frame i \<lparr>bk_file_id = fid, bk_page_id = pid\<rparr> data False s) (\<lambda>_ s. (Inr i, s))))
    | Some i \<Rightarrow> (Inr i, pin_frame i s))"
  proof (cases x)
    case None
    show ?thesis unfolding None option.case by (intro or_fault_intros fault_rules) simp_all
  qed (simp add: or_fault_def)
qed simp

lemma get_page_mut_or_fault [fault_rules]: "or_fault heal_pool bp_fault (get_page_mut fid pid)"
  unfolding get_page_mut_def Let_def
proof (rule or_fault_let [where g = "\<lambda>s. bp_page_table s \<lparr>bk_file_id = fid, bk_page_id = pid\<rparr>"])
  fix x
  show "or_fault heal_pool bp_fault (\<lambda>s. case x of
      None \<Rightarrow> and_then_st (acquire_frame s) (\<lambda>i s.
        and_then_st (read_page_data \<lparr>bk_file_id = fid, bk_page_id = pid\<rparr> s) (\<lambda>data s.
        and_then_st (install_frame i \<lparr>bk_file_id = fid, bk_page_id = pid\<rparr> data True s) (\<lambda>_ s. (Inr i, s))))
    | Some i \<Rightarrow> (Inr i, update_frame i (\<lambda>f. f\<lparr>fr_dirty := True\<rparr>) (pin_frame i s)))"
  proof (cases x)
    case None
    show ?thesis unfolding None option.case by (intro or_fault_intros fault_rules) simp_all
  qed (simp add: or_fault_def)
qed simp

lemma pool_allocate_page_or_fault [fault_rules]: "or_fault heal_pool bp_fault (pool_allocate_page fid)"
  unfolding pool_allocate_page_def by (intro or_fault_intros fault_rules) simp_all

end
