(* ===== verification/Fault_Records.thy ===== *)
theory Fault_Records
  imports Fault_Pages
begin

section \<open>Record files on a failing device\<close>

text \<open>
  The operations of a record file report a fault of the device or run as they do without
  faults.  \<open>heal_rf\<close> drops the faults that are pending on the files of the pool, and
  \<open>re_fault\<close> are the errors that report one.
\<close>

definition heal_rf :: "record_file \<Rightarrow> record_file" where
  "heal_rf f = f\<lparr>rf_pool := heal_pool (rf_pool f)\<rparr>"

fun re_fault :: "record_error \<Rightarrow> bool" where
  "re_fault (RE_PageStore e) \<longleftrightarrow> ps_fault e"
| "re_fault (RE_BufferPool e) \<longleftrightarrow> bp_fault e"
| "re_fault _ \<longleftrightarrow> False"

lemma heal_rf_simps [simp]:
  "rf_pool (heal_rf f) = heal_pool (rf_pool f)" "rf_file_id (heal_rf f) = rf_file_id f"
  "rf_header (heal_rf f) = rf_header f" "rf_header_dirty (heal_rf f) = rf_header_dirty f"
  "(heal_rf f)\<lparr>rf_pool := heal_pool s\<rparr> = heal_rf (f\<lparr>rf_pool := s\<rparr>)"
  "(heal_rf f)\<lparr>rf_header := h\<rparr> = heal_rf (f\<lparr>rf_header := h\<rparr>)"
  "(heal_rf f)\<lparr>rf_header_dirty := b\<rparr> = heal_rf (f\<lparr>rf_header_dirty := b\<rparr>)"
  by (simp_all add: heal_rf_def)

lemma checks_pool [simp]:
  "validate_rid (f\<lparr>rf_pool := p\<rparr>) r = validate_rid f r"
  "ensure_record_length (f\<lparr>rf_pool := p\<rparr>) n = ensure_record_length f n"
  "ensure_slot_used (f\<lparr>rf_pool := p\<rparr>) r h bytes = ensure_slot_used f r h bytes"
  "record_range (f\<lparr>rf_pool := p\<rparr>) i = record_range f i"
  "advance_cursor (f\<lparr>rf_pool := p\<rparr>) sc = advance_cursor f sc"
  "rf_positions (f\<lparr>rf_pool := p\<rparr>) = rf_positions f"
  by (simp_all add: validate_rid_def ensure_record_length_def ensure_slot_used_def record_range_def advance_cursor_def
      rf_positions_def)

lemma read_used_slot_pool [simp]: "read_used_slot (f\<lparr>rf_pool := p\<rparr>) pid i = read_used_slot f pid i"
  by (rule ext) (simp add: read_used_slot_def cong: if_cong)

lemma checks_heal [simp]:
  "validate_rid (heal_rf f) r = validate_rid f r"
  "ensure_record_length (heal_rf f) n = ensure_record_length f n"
  "ensure_slot_used (heal_rf f) r h bytes = ensure_slot_used f r h bytes"
  "record_range (heal_rf f) i = record_range f i"
  "advance_cursor (heal_rf f) sc = advance_cursor f sc"
  "rf_positions (heal_rf f) = rf_positions f"
  "read_used_slot (heal_rf f) pid i = read_used_slot f pid i"
  unfolding heal_rf_def by (rule checks_pool read_used_slot_pool)+

subsection \<open>Guard scopes\<close>

lemma with_page_or_fault:
  assumes "\<And>f. body (heal_rf f) = body f"
  shows "or_fault heal_rf re_fault (\<lambda>f. with_page pid (body f) f)"
proof (rule or_faultI)
  fix f :: record_file
  have "or_fault heal_pool bp_fault (get_page (rf_file_id f) pid)" by (intro fault_rules)
  then show "(\<exists>e f'. with_page pid (body f) f = (Inl e, f') \<and> re_fault e) \<or>
      with_page pid (body (heal_rf f)) (heal_rf f) = apsnd heal_rf (with_page pid (body f) f)"
    by (cases rule: or_faultE [where s = "rf_pool f"]; cases "fst (get_page (rf_file_id f) pid (rf_pool f))")
      (simp_all add: with_page_def assms)
qed

text \<open>The body of a writing scope does not reach the pool.\<close>

definition pool_blind :: "(u8 list \<times> record_file \<Rightarrow> (record_error + 'a) \<times> (u8 list \<times> record_file)) \<Rightarrow> bool" where
  "pool_blind body \<longleftrightarrow> (\<forall>p. or_fault (apsnd (\<lambda>f. f\<lparr>rf_pool := p\<rparr>)) (\<lambda>_. False) body)"

lemma pool_blindD:
  "pool_blind body \<Longrightarrow> body (bytes, f) = (r, bytes', g) \<Longrightarrow> body (bytes, f\<lparr>rf_pool := p\<rparr>) = (r, bytes', g\<lparr>rf_pool := p\<rparr>)"
  unfolding pool_blind_def or_fault_def by (drule spec [of _ p], drule spec [of _ "(bytes, f)"]) simp

lemma pool_blind_pool:
  assumes "pool_blind body" and "body (bytes, f) = (r, bytes', g)"
  shows "rf_pool g = rf_pool f"
  using pool_blindD [OF assms, of "rf_pool f"] assms(2) by (cases g) simp

lemma pool_blindI:
  "(\<And>bytes f p. body (bytes, f\<lparr>rf_pool := p\<rparr>) = apsnd (apsnd (\<lambda>f. f\<lparr>rf_pool := p\<rparr>)) (body (bytes, f))) \<Longrightarrow> pool_blind body"
  by (auto simp: pool_blind_def or_fault_def)

lemma and_then_st_pure: "and_then_st (r, s) k = (case r of Inl e \<Rightarrow> (Inl e, s) | Inr x \<Rightarrow> k x s)"
  by (cases r) simp_all

lemma blind_bodies:
  "pool_blind (insert_into_page pid data)"
  "pool_blind (update_in_page r data)"
  "pool_blind (delete_from_page r)"
  "pool_blind (\<lambda>(bytes, f). (Inr (), (put_at 0 (record_header_encode (rf_header f)) bytes, f\<lparr>rf_header_dirty := False\<rparr>)))"
  by (rule pool_blindI, simp add: insert_into_page_def update_in_page_def delete_from_page_def Let_def and_then_st_pure
      split: sum.split)+

lemma with_page_mut_or_fault [fault_rules]:
  assumes body: "pool_blind body"
  shows "or_fault heal_rf re_fault (with_page_mut pid body)"
proof (rule or_faultI)
  fix f :: record_file
  have "or_fault heal_pool bp_fault (get_page_mut (rf_file_id f) pid)" by (intro fault_rules)
  then show "(\<exists>e f'. with_page_mut pid body f = (Inl e, f') \<and> re_fault e) \<or>
      with_page_mut pid body (heal_rf f) = apsnd heal_rf (with_page_mut pid body f)"
  proof (cases rule: or_faultE [where s = "rf_pool f"])
    case (healthy r s)
    show ?thesis
    proof (cases r)
      case (Inr i)
      obtain x bytes g where body_f: "body (guard_read i s, f\<lparr>rf_pool := s\<rparr>) = (x, bytes, g)" by (cases "body (guard_read i s, f\<lparr>rf_pool := s\<rparr>)") auto
      have "rf_pool g = s" using pool_blind_pool [OF body body_f] by simp
      then show ?thesis
        using body_f pool_blindD [OF body body_f, of "heal_pool s"]
        by (simp add: with_page_mut_def close_guard_def healthy Inr heal_rf_def)
    qed (simp add: with_page_mut_def healthy)
  qed (simp add: with_page_mut_def)
qed

subsection \<open>The operations of a record file\<close>

lemma persist_header_or_fault [fault_rules]: "or_fault heal_rf re_fault persist_header"
  unfolding persist_header_def by (intro or_fault_intros fault_rules blind_bodies) simp_all

lemma allocate_data_page_or_fault [fault_rules]: "or_fault heal_rf re_fault allocate_data_page"
proof (rule or_faultI)
  fix f :: record_file
  have "or_fault heal_pool bp_fault (pool_allocate_page (rf_file_id f))" by (intro fault_rules)
  then show "(\<exists>e f'. allocate_data_page f = (Inl e, f') \<and> re_fault e) \<or>
      allocate_data_page (heal_rf f) = apsnd heal_rf (allocate_data_page f)"
  proof (cases rule: or_faultE [where s = "rf_pool f"])
    case (healthy r s)
    show ?thesis
    proof (cases r)
      case (Inr ip)
      then show ?thesis
        by (cases ip; cases "initialize_page (guard_read (fst ip) s) (page_header_new (rf_slots f)) (rf_slots f) (rf_record_size f)")
          (simp add: allocate_data_page_def healthy Let_def and_then_st_pure close_guard_def split: sum.split)
    qed (simp add: allocate_data_page_def healthy)
  qed (simp add: allocate_data_page_def)
qed

lemma insert_record_or_fault [fault_rules]: "or_fault heal_rf re_fault (insert_record data)"
proof -
  have put: "or_fault heal_rf re_fault (\<lambda>f. with_page_mut (rf_first_free f) (insert_into_page (rf_first_free f) data) f)"
    by (rule or_fault_let [where g = rf_first_free]) (simp, intro fault_rules blind_bodies)
  show ?thesis
    unfolding insert_record_def Let_def by (intro or_fault_intros fault_rules put) simp_all
qed

lemma get_record_or_fault [fault_rules]: "or_fault heal_rf re_fault (get_record r)"
  unfolding get_record_def by (intro or_fault_intros with_page_or_fault) simp_all

lemma update_record_or_fault [fault_rules]: "or_fault heal_rf re_fault (update_record r data)"
  unfolding update_record_def by (intro or_fault_intros fault_rules blind_bodies) simp_all

lemma delete_record_or_fault [fault_rules]: "or_fault heal_rf re_fault (delete_record r)"
  unfolding delete_record_def by (intro or_fault_intros fault_rules blind_bodies) simp_all

lemma flush_records_or_fault [fault_rules]: "or_fault heal_rf re_fault flush_records"
proof -
  have force: "or_fault heal_rf re_fault (\<lambda>f.
      case force_file (rf_file_id f) None (rf_pool f) of (r, s) \<Rightarrow> (map_err RE_BufferPool r, f\<lparr>rf_pool := s\<rparr>))"
  proof (rule or_fault_let [where g = rf_file_id])
    fix fid
    have "or_fault heal_pool bp_fault (force_file fid None)" by (intro fault_rules)
    then show "or_fault heal_rf re_fault (\<lambda>f.
        case force_file fid None (rf_pool f) of (r, s) \<Rightarrow> (map_err RE_BufferPool r, f\<lparr>rf_pool := s\<rparr>))"
      by (rule or_fault_lift [where put = "\<lambda>s f. f\<lparr>rf_pool := s\<rparr>"]) simp_all
  qed simp
  show ?thesis unfolding flush_records_def by (intro or_fault_intros fault_rules force)
qed

lemma read_record_if_used_or_fault [fault_rules]: "or_fault heal_rf re_fault (read_record_if_used pid i)"
  unfolding read_record_if_used_def by (intro or_fault_intros with_page_or_fault) simp_all

subsection \<open>Scans\<close>

lemma next_record_loop_or_fault: "or_fault (apsnd heal_rf) re_fault (next_record_loop fuel)"
proof (induction fuel)
  case 0
  then show ?case by (auto simp: or_fault_def)
next
  case (Suc fuel)
  show ?case
  proof (rule or_faultI)
    fix st :: "record_scan \<times> record_file"
    obtain sc f where st: "st = (sc, f)" by (cases st)
    let ?sc = "advance_cursor f sc"
    show "(\<exists>e st'. next_record_loop (Suc fuel) st = (Inl e, st') \<and> re_fault e) \<or>
        next_record_loop (Suc fuel) (apsnd heal_rf st) = apsnd (apsnd heal_rf) (next_record_loop (Suc fuel) st)"
    proof (cases "rf_num_pages f < sc_page_id sc")
      case False
      have "or_fault heal_rf re_fault (read_record_if_used (sc_page_id sc) (unat (sc_slot_id sc)))" by (intro fault_rules)
      then show ?thesis
      proof (cases rule: or_faultE [where s = f])
        case (healthy r g)
        have next_step: "(\<exists>e st'. next_record_loop fuel (?sc, g) = (Inl e, st') \<and> re_fault e) \<or>
            next_record_loop fuel (?sc, heal_rf g) = apsnd (apsnd heal_rf) (next_record_loop fuel (?sc, g))"
          using Suc unfolding or_fault_def by (drule_tac spec [of _ "(?sc, g)"]) simp
        show ?thesis
          using next_step False
          by (cases r) (auto simp: st healthy Let_def split: option.split sum.split bool.split)
      qed (use False in \<open>simp add: st\<close>)
    qed (simp add: st)
  qed
qed

lemma next_record_or_fault [fault_rules]: "or_fault (apsnd heal_rf) re_fault next_record"
  unfolding next_record_def
  by (rule or_fault_let [where g = "\<lambda>st. unat (rf_num_pages (snd st)) * rf_slots (snd st)"])
    (simp_all add: next_record_loop_or_fault)

lemma drain_scan_or_fault [fault_rules]: "or_fault (apsnd heal_rf) re_fault (drain_scan fuel)"
proof (induction fuel)
  case 0
  then show ?case by (auto simp: or_fault_def)
next
  case (Suc fuel)
  have step: "or_fault (apsnd heal_rf) re_fault (\<lambda>st. case r of None \<Rightarrow> (Inr [], st)
      | Some rec \<Rightarrow> and_then_st (drain_scan fuel st) (\<lambda>recs st. (Inr (rec # recs), st)))" for r
    by (cases r) (auto intro!: or_fault_bind or_fault_return Suc)
  have "drain_scan (Suc fuel) = (\<lambda>st. and_then_st (next_record st) (\<lambda>r st. case r of None \<Rightarrow> (Inr [], st)
      | Some rec \<Rightarrow> and_then_st (drain_scan fuel st) (\<lambda>recs st. (Inr (rec # recs), st))))"
    by auto
  then show ?case using step by (simp add: or_fault_bind fault_rules)
qed

lemma collect_scan_or_fault [fault_rules]: "or_fault heal_rf re_fault (collect_scan sc)"
proof (rule or_faultI)
  fix f :: record_file
  define fuel where "fuel = Suc (rf_positions f)"
  have run: "collect_scan sc f = (case drain_scan fuel (sc, f) of (r, (sc, f)) \<Rightarrow> (r, f))"
    "collect_scan sc (heal_rf f) = (case drain_scan fuel (sc, heal_rf f) of (r, (sc, f)) \<Rightarrow> (r, f))"
    by (simp_all only: collect_scan_def checks_heal fuel_def)
  have "or_fault (apsnd heal_rf) re_fault (drain_scan fuel)" by (intro fault_rules)
  then show "(\<exists>e f'. collect_scan sc f = (Inl e, f') \<and> re_fault e) \<or>
      collect_scan sc (heal_rf f) = apsnd heal_rf (collect_scan sc f)"
    by (cases rule: or_faultE [where s = "(sc, f)"]) (auto simp: run)
qed

subsection \<open>Opening\<close>

lemma open_records_or_fault:
  "(\<exists>e. open_records pf n = Inl e \<and> re_fault e) \<or> open_records (heal_pf pf) n = map_sum id heal_rf (open_records pf n)"
proof -
  have reg: "register_file (heal_pf pf) (pool_new n) = apsnd heal_pool (register_file pf (pool_new n))"
    by (simp add: register_file_def pool_new_def heal_pool_def map_files_def fun_eq_iff checked_add_u32_def)
  obtain r s where r: "register_file pf (pool_new n) = (r, s)" by (cases "register_file pf (pool_new n)")
  show ?thesis
  proof (cases r)
    case (Inr fid)
    have "or_fault heal_pool bp_fault (get_page fid HEADER_PAGE_ID)" by (intro fault_rules)
    then show ?thesis
    proof (cases rule: or_faultE [where s = s])
      case (fault e s')
      then have "pf_num_pages pf \<noteq> 0 \<Longrightarrow> open_records pf n = Inl (RE_BufferPool e)" by (simp add: open_records_def r Inr)
      then show ?thesis using fault(2) by (cases "pf_num_pages pf = 0") (auto simp: open_records_def Let_def)
    next
      case (healthy q s')
      note healthy = healthy [simplified]
      show ?thesis
      proof (cases q)
        case (Inr i)
        let ?h = "record_header_decode (bytes_at 0 RECORD_FILE_HEADER_SIZE (guard_read i s'))"
        show ?thesis
          by (cases ?h; cases "checked_add_u32 (rh_num_pages (projr ?h)) 1")
            (simp_all add: open_records_def reg r \<open>r = Inr fid\<close> healthy Inr heal_rf_def Let_def)
      qed (simp add: open_records_def reg r Inr healthy Let_def)
    qed
  qed (simp add: open_records_def reg r Let_def)
qed

end
