(* ===== verification/Fault_Reads.thy ===== *)
theory Fault_Reads
  imports Fault_Records
begin

section \<open>Files that are only read\<close>

text \<open>
  A record file is clean when nothing waits to be written: no header, no cached page and no
  frame is dirty, and the device holds the bytes \<open>bs\<close>.  Reading keeps a file clean whatever the
  device does, and dropping a clean file leaves the bytes as they are.  The invariant also keeps
  the indexes that the pool's lists and its page table hold within the frames.
\<close>

definition clean_pf :: "u8 list \<Rightarrow> page_file \<Rightarrow> bool" where
  "clean_pf bs f \<longleftrightarrow> \<not> pf_header_dirty f \<and> \<not> pf_loaded_page_dirty f \<and> io_bytes (pf_io f) = bs"

definition below :: "nat \<Rightarrow> nat option \<Rightarrow> bool" where
  "below n x \<longleftrightarrow> (\<forall>i. x = Some i \<longrightarrow> i < n)"

definition clean_frame :: "nat \<Rightarrow> frame \<Rightarrow> bool" where
  "clean_frame n f \<longleftrightarrow> \<not> fr_dirty f \<and> below n (fr_prev f) \<and> below n (fr_next f)"

definition clean_pool :: "u32 \<Rightarrow> u8 list \<Rightarrow> buffer_pool \<Rightarrow> bool" where
  "clean_pool fid bs s \<longleftrightarrow>
     (\<forall>f \<in> set (bp_frames s). clean_frame (length (bp_frames s)) f) \<and>
     set (bp_free_list s) \<subseteq> {..<length (bp_frames s)} \<and>
     below (length (bp_frames s)) (bp_mru_head s) \<and> below (length (bp_frames s)) (bp_lru_tail s) \<and>
     (\<forall>k. below (length (bp_frames s)) (bp_page_table s k)) \<and>
     (\<exists>pf. bp_files s fid = Some pf \<and> clean_pf bs pf)"

definition clean_rf :: "u8 list \<Rightarrow> record_file \<Rightarrow> bool" where
  "clean_rf bs f \<longleftrightarrow> \<not> rf_header_dirty f \<and> clean_pool (rf_file_id f) bs (rf_pool f)"

lemma below_simps [simp]: "below n None" "below n (Some i) \<longleftrightarrow> i < n"
  by (simp_all add: below_def)

subsection \<open>The page file\<close>

lemma io_sync_all_bytes [simp]: "io_bytes (snd (io_sync_all io)) = io_bytes io"
  by (simp add: io_sync_all_def split: prod.split option.split)

lemma io_len_bytes [simp]: "io_bytes (snd (io_len io)) = io_bytes io"
  by (simp add: io_len_def split: prod.split option.split)

lemma read_exact_at_bytes [simp]: "io_bytes (snd (snd (read_exact_at off buf io))) = io_bytes io"
  by (simp add: read_exact_at_def split: prod.split option.split)

lemma page_flush_clean:
  assumes "clean_pf bs f"
  shows "clean_pf bs (snd (page_flush f))"
proof -
  have "flush_loaded_page f = (Inr (), f)" "flush_header f = (Inr (), f)"
    using assms by (simp_all add: flush_loaded_page_def flush_header_def clean_pf_def split: option.split)
  then show ?thesis
    using assms by (cases "io_sync_all (pf_io f)") (simp add: page_flush_def on_device_def clean_pf_def
        io_sync_all_bytes [of "pf_io f", symmetric] del: io_sync_all_bytes)
qed

lemma load_page_clean: "keeps (clean_pf bs) (load_page pid)"
proof (rule keepsI)
  fix f
  assume f: "clean_pf bs f"
  then have flush: "flush_loaded_page f = (Inr (), f)"
    by (simp add: flush_loaded_page_def clean_pf_def split: option.split)
  show "clean_pf bs (snd (load_page pid f))"
  proof (cases "ensure_page_id_in_range pid f")
    case Inr
    show ?thesis
    proof (cases "page_offset pid")
      case Inr: (Inr off)
      obtain r buf io where io: "read_exact_at off (pf_loaded_page f) (pf_io f) = (r, buf, io)"
        by (cases "read_exact_at off (pf_loaded_page f) (pf_io f)") auto
      have "io_bytes io = bs" using f read_exact_at_bytes [of off "pf_loaded_page f" "pf_io f"] by (simp add: io clean_pf_def)
      then show ?thesis
        using f Inr \<open>ensure_page_id_in_range pid f = _\<close> by (cases r) (simp_all add: load_page_def flush io clean_pf_def)
    qed (use f Inr in \<open>simp add: load_page_def flush\<close>)
  qed (use f in \<open>simp add: load_page_def\<close>)
qed

lemma read_page_clean: "keeps (clean_pf bs) (read_page pid)"
  unfolding read_page_def by (intro keeps_bind keeps_return load_page_clean)

lemma page_open_clean: "page_open io = Inr f \<Longrightarrow> clean_pf (io_bytes io) f"
proof -
  assume open_f: "page_open io = Inr f"
  obtain r io1 where len: "io_len io = (r, io1)" by (cases "io_len io")
  obtain q buf io2 where read: "read_exact_at 0 (replicate FILE_HEADER_SIZE 0) io1 = (q, buf, io2)"
    by (cases "read_exact_at 0 (replicate FILE_HEADER_SIZE 0) io1") auto
  have "io_bytes io1 = io_bytes io" "io_bytes io2 = io_bytes io1"
    using io_len_bytes [of io] read_exact_at_bytes [of 0 "replicate FILE_HEADER_SIZE 0" io1] by (simp_all only: len read snd_conv)
  then show ?thesis
    using open_f by (auto simp: page_open_def len read [simplified] clean_pf_def split: if_splits)
qed

subsection \<open>The buffer pool\<close>

lemma clean_poolD:
  assumes "clean_pool fid bs s"
  shows "i < length (bp_frames s) \<Longrightarrow> clean_frame (length (bp_frames s)) (frame_at s i)"
    and "i \<in> set (bp_free_list s) \<Longrightarrow> i < length (bp_frames s)"
    and "bp_mru_head s = Some i \<Longrightarrow> i < length (bp_frames s)" and "bp_lru_tail s = Some i \<Longrightarrow> i < length (bp_frames s)"
    and "bp_page_table s k = Some i \<Longrightarrow> i < length (bp_frames s)"
  using assms by (auto simp: clean_pool_def frame_at_def below_def)

lemma clean_update_frame:
  assumes s: "clean_pool fid bs s" and g: "\<And>f. clean_frame (length (bp_frames s)) f \<Longrightarrow> clean_frame (length (bp_frames s)) (g f)"
  shows "clean_pool fid bs (update_frame i g s)"
proof (cases "i < length (bp_frames s)")
  case True
  then have "clean_frame (length (bp_frames s)) f" if "f \<in> set ((bp_frames s)[i := g (bp_frames s ! i)])" for f
    using that s g by (auto simp: clean_pool_def dest!: set_update_subset_insert [THEN subsetD])
  then show ?thesis using s by (simp add: clean_pool_def update_frame_def)
qed (use s in \<open>simp add: update_frame_def list_update_beyond\<close>)

lemma clean_link_head:
  assumes s: "clean_pool fid bs s" and i: "i < length (bp_frames s)"
  shows "clean_pool fid bs (link_head i s)"
proof -
  let ?s = "update_frame i (\<lambda>f. f\<lparr>fr_prev := None, fr_next := bp_mru_head s\<rparr>) s"
  have s1: "clean_pool fid bs ?s"
    using s by (intro clean_update_frame) (auto simp: clean_pool_def clean_frame_def)
  show ?thesis
  proof (cases "bp_mru_head s")
    case None
    then show ?thesis using s1 i by (simp add: link_head_def Let_def clean_pool_def)
  next
    case (Some j)
    have "clean_pool fid bs (update_frame j (\<lambda>f. f\<lparr>fr_prev := Some i\<rparr>) ?s)"
      by (rule clean_update_frame [OF s1]) (use i in \<open>auto simp: clean_frame_def\<close>)
    then show ?thesis using Some i by (simp add: link_head_def Let_def clean_pool_def)
  qed
qed

lemma clean_unlink:
  assumes s: "clean_pool fid bs s" and i: "i < length (bp_frames s)"
  shows "clean_pool fid bs (unlink i s)"
proof -
  let ?p = "fr_prev (frame_at s i)" and ?n = "fr_next (frame_at s i)"
  have links: "below (length (bp_frames s)) ?p" "below (length (bp_frames s)) ?n"
    using clean_poolD(1) [OF s i] by (simp_all add: clean_frame_def)
  define s1 where "s1 = (case ?p of Some j \<Rightarrow> update_frame j (\<lambda>f. f\<lparr>fr_next := ?n\<rparr>) s
    | None \<Rightarrow> if bp_mru_head s = Some i then s\<lparr>bp_mru_head := ?n\<rparr> else s)"
  have s1: "clean_pool fid bs s1"
  proof (cases ?p)
    case None
    then show ?thesis using s links by (auto simp: s1_def clean_pool_def)
  next
    case (Some j)
    have "clean_pool fid bs (update_frame j (\<lambda>f. f\<lparr>fr_next := ?n\<rparr>) s)"
      by (rule clean_update_frame [OF s]) (use links in \<open>auto simp: clean_frame_def\<close>)
    then show ?thesis using Some by (simp add: s1_def)
  qed
  have len1: "length (bp_frames s1) = length (bp_frames s)" by (simp add: s1_def split: option.split)
  define s2 where "s2 = (case ?n of Some j \<Rightarrow> update_frame j (\<lambda>f. f\<lparr>fr_prev := ?p\<rparr>) s1
    | None \<Rightarrow> if bp_lru_tail s1 = Some i then s1\<lparr>bp_lru_tail := ?p\<rparr> else s1)"
  have s2: "clean_pool fid bs s2"
  proof (cases ?n)
    case None
    then show ?thesis using s1 links by (auto simp: s2_def clean_pool_def len1)
  next
    case (Some j)
    have "clean_pool fid bs (update_frame j (\<lambda>f. f\<lparr>fr_prev := ?p\<rparr>) s1)"
      by (rule clean_update_frame [OF s1]) (use links in \<open>auto simp: clean_frame_def len1\<close>)
    then show ?thesis using Some by (simp add: s2_def)
  qed
  have "unlink i s = update_frame i (\<lambda>f. f\<lparr>fr_prev := None, fr_next := None\<rparr>) s2"
    unfolding unlink_def Let_def s2_def s1_def by (rule refl)
  moreover have "clean_pool fid bs (update_frame i (\<lambda>f. f\<lparr>fr_prev := None, fr_next := None\<rparr>) s2)"
    by (rule clean_update_frame [OF s2]) (simp add: clean_frame_def)
  ultimately show ?thesis by simp
qed

lemma frames_unlink [simp]: "length (bp_frames (unlink i s)) = length (bp_frames s)"
  by (simp add: unlink_def Let_def split: option.split)

lemma frames_link_head [simp]: "length (bp_frames (link_head i s)) = length (bp_frames s)"
  by (simp add: link_head_def Let_def split: option.split)

lemma frames_touch [simp]: "length (bp_frames (touch i s)) = length (bp_frames s)"
  by (simp add: touch_def)

lemma clean_touch: "clean_pool fid bs s \<Longrightarrow> i < length (bp_frames s) \<Longrightarrow> clean_pool fid bs (touch i s)"
  unfolding touch_def by (intro clean_link_head clean_unlink) simp_all

lemma clean_pin: "clean_pool fid bs s \<Longrightarrow> i < length (bp_frames s) \<Longrightarrow> clean_pool fid bs (pin_frame i s)"
  unfolding pin_frame_def by (rule clean_touch) (auto intro!: clean_update_frame simp: clean_frame_def)

lemma clean_drop: "clean_pool fid bs s \<Longrightarrow> i < length (bp_frames s) \<Longrightarrow> clean_pool fid bs (guard_drop i s)"
  unfolding guard_drop_def unpin_frame_def Let_def
  by (auto intro!: clean_touch clean_update_frame simp: clean_frame_def)

lemma frames_drop [simp]: "length (bp_frames (guard_drop i s)) = length (bp_frames s)"
  by (simp add: guard_drop_def unpin_frame_def Let_def)

lemma clean_on_file:
  assumes s: "clean_pool fid bs s" and m: "keeps (clean_pf bs) m"
  shows "clean_pool fid bs (snd (on_file fid m s))" and "length (bp_frames (snd (on_file fid m s))) = length (bp_frames s)"
proof -
  obtain pf where pf: "bp_files s fid = Some pf" "clean_pf bs pf" using s by (auto simp: clean_pool_def)
  obtain r pf' where r: "m pf = (r, pf')" by (cases "m pf")
  have "clean_pf bs pf'" using keepsD [OF m pf(2) r] .
  then show "clean_pool fid bs (snd (on_file fid m s))"
    using s by (simp add: on_file_def pf(1) r clean_pool_def)
  show "length (bp_frames (snd (on_file fid m s))) = length (bp_frames s)" by (simp add: on_file_def pf(1) r)
qed

text \<open>A frame is acquired without a write: there is nothing to write back.\<close>

lemma find_victim_below:
  "find_victim fuel fs x = Some (Some i) \<Longrightarrow> below n x \<Longrightarrow> length fs = n \<Longrightarrow> \<forall>f \<in> set fs. clean_frame n f \<Longrightarrow> i < n"
  by (induction fuel fs x rule: find_victim.induct) (auto simp: clean_frame_def split: if_splits)

lemma clean_recycle:
  assumes s: "clean_pool fid bs s" and i: "i < length (bp_frames s)"
  shows "clean_pool fid bs (snd (recycle_frame i s))" and "length (bp_frames (snd (recycle_frame i s))) = length (bp_frames s)"
proof -
  let ?s1 = "update_frame i (\<lambda>f. f\<lparr>fr_key := None\<rparr>) s"
  define s2 where "s2 = (case fr_key (frame_at s i) of Some k \<Rightarrow> ?s1\<lparr>bp_page_table := (bp_page_table ?s1)(k := None)\<rparr> | None \<Rightarrow> ?s1)"
  have "clean_pool fid bs ?s1" by (rule clean_update_frame [OF s]) (simp add: clean_frame_def)
  then have s2: "clean_pool fid bs s2" by (auto simp: s2_def clean_pool_def split: option.split)
  have len: "length (bp_frames s2) = length (bp_frames s)" by (simp add: s2_def split: option.split)
  have s3: "clean_pool fid bs (update_frame i (\<lambda>f. f\<lparr>fr_dirty := False\<rparr>) s2)"
    by (rule clean_update_frame [OF s2]) (simp add: clean_frame_def)
  have run: "recycle_frame i s = (if fr_pin_count (frame_at s i) \<noteq> 0 then (Inl (BP_Corrupted ''attempted to recycle a pinned frame''), s)
      else (Inr (), unlink i (update_frame i (\<lambda>f. f\<lparr>fr_dirty := False\<rparr>) s2)))"
    by (simp add: recycle_frame_def Let_def s2_def)
  show "clean_pool fid bs (snd (recycle_frame i s))" using s i by (simp add: run clean_unlink [OF s3] len)
  show "length (bp_frames (snd (recycle_frame i s))) = length (bp_frames s)" by (simp add: run len)
qed

lemma clean_acquire:
  assumes s: "clean_pool fid bs s" and r: "acquire_frame s = (r, t)"
  shows "clean_pool fid bs t" and "length (bp_frames t) = length (bp_frames s)" and "r = Inr i \<Longrightarrow> i < length (bp_frames s)"
proof -
  have "clean_pool fid bs t \<and> length (bp_frames t) = length (bp_frames s) \<and> (\<forall>i. r = Inr i \<longrightarrow> i < length (bp_frames s))"
  proof (cases "bp_free_list s = []")
    case False
    have mem: "last (bp_free_list s) < length (bp_frames s)" using clean_poolD(2) [OF s] False by simp
    have "clean_pool fid bs (s\<lparr>bp_free_list := butlast (bp_free_list s)\<rparr>)"
      using s by (auto simp: clean_pool_def dest: in_set_butlastD)
    from clean_link_head [OF this, of "last (bp_free_list s)"] show ?thesis
      using r False mem by (auto simp: acquire_frame_def Let_def)
  next
    case True
    note start = True
    show ?thesis
    proof (cases "find_victim (length (bp_frames s)) (bp_frames s) (bp_lru_tail s)")
      case None
      then show ?thesis using r s start by (auto simp: acquire_frame_def)
    next
      case (Some x)
      show ?thesis
      proof (cases x)
        case None
        then show ?thesis using r s start Some by (auto simp: acquire_frame_def)
      next
        case x: (Some i)
        have i: "i < length (bp_frames s)"
          using find_victim_below [OF Some [unfolded x]] s by (auto simp: clean_pool_def)
        have flush: "flush_frame_if_dirty i s = (Inr (), s)"
          using clean_poolD(1) [OF s i] by (simp add: flush_frame_if_dirty_def clean_frame_def)
        obtain q u where u: "recycle_frame i s = (q, u)" by (cases "recycle_frame i s")
        have "clean_pool fid bs u" "length (bp_frames u) = length (bp_frames s)" using clean_recycle [OF s i] by (simp_all add: u)
        then show ?thesis
          using r i clean_touch [of fid bs u i] by (cases q) (auto simp: acquire_frame_def start Some x flush u)
      qed
    qed
  qed
  then show "clean_pool fid bs t" "length (bp_frames t) = length (bp_frames s)" "r = Inr i \<Longrightarrow> i < length (bp_frames s)" by auto
qed

lemma clean_install:
  assumes s: "clean_pool fid bs s" and i: "i < length (bp_frames s)"
  shows "clean_pool fid bs (snd (install_frame i key data False s))"
    and "length (bp_frames (snd (install_frame i key data False s))) = length (bp_frames s)"
proof -
  let ?s1 = "update_frame i (\<lambda>f. f\<lparr>fr_data := data\<rparr>) s"
  let ?s2 = "update_frame i (\<lambda>f. f\<lparr>fr_key := Some key, fr_dirty := False, fr_pin_count := 1\<rparr>) ?s1"
  have s1: "clean_pool fid bs ?s1" by (rule clean_update_frame [OF s]) (simp add: clean_frame_def)
  have s2: "clean_pool fid bs ?s2" by (rule clean_update_frame [OF s1]) (simp add: clean_frame_def)
  then have "clean_pool fid bs (?s2\<lparr>bp_page_table := (bp_page_table ?s2)(key \<mapsto> i)\<rparr>)"
    using i by (auto simp: clean_pool_def below_def)
  then show "clean_pool fid bs (snd (install_frame i key data False s))"
    using s i clean_touch [of fid bs "?s2\<lparr>bp_page_table := (bp_page_table ?s2)(key \<mapsto> i)\<rparr>" i]
    by (simp add: install_frame_def Let_def)
  show "length (bp_frames (snd (install_frame i key data False s))) = length (bp_frames s)"
    by (simp add: install_frame_def Let_def)
qed

lemma clean_get_page:
  assumes s: "clean_pool fid bs s" and r: "get_page fid pid s = (r, t)"
  shows "clean_pool fid bs t" and "r = Inr i \<Longrightarrow> i < length (bp_frames t)"
proof -
  let ?k = "\<lparr>bk_file_id = fid, bk_page_id = pid\<rparr>"
  have "clean_pool fid bs t \<and> (\<forall>i. r = Inr i \<longrightarrow> i < length (bp_frames t))"
  proof (cases "bp_page_table s ?k")
    case (Some i)
    then show ?thesis
      using r clean_poolD(5) [OF s Some] clean_pin [OF s] by (auto simp: get_page_def pin_frame_def)
  next
    case None
    obtain q1 s1 where s1: "acquire_frame s = (q1, s1)" by (cases "acquire_frame s")
    note a = clean_acquire [OF s s1]
    show ?thesis
    proof (cases q1)
      case (Inl e)
      then show ?thesis using r a s1 None by (auto simp: get_page_def)
    next
      case (Inr i)
      have i: "i < length (bp_frames s1)" using a(2,3) Inr by simp
      obtain q2 s2 where s2: "read_page_data ?k s1 = (q2, s2)" by (cases "read_page_data ?k s1")
      have b: "clean_pool fid bs s2" "length (bp_frames s2) = length (bp_frames s1)"
        using clean_on_file [OF a(1) read_page_clean] s2 by (simp_all add: read_page_data_def) (metis snd_conv)+
      show ?thesis
      proof (cases q2)
        case (Inl e)
        then show ?thesis using r b s1 s2 None \<open>q1 = Inr i\<close> by (auto simp: get_page_def)
      next
        case q2: (Inr data)
        obtain q3 s3 where s3: "install_frame i ?k data False s2 = (q3, s3)" by (cases "install_frame i ?k data False s2")
        have "clean_pool fid bs s3" "length (bp_frames s3) = length (bp_frames s2)"
          using clean_install [OF b(1), of i ?k data] i b(2) by (simp_all add: s3)
        then show ?thesis
          using r s1 s2 s3 None \<open>q1 = Inr i\<close> q2 i b(2) by (cases q3) (auto simp: get_page_def)
      qed
    qed
  qed
  then show "clean_pool fid bs t" "r = Inr i \<Longrightarrow> i < length (bp_frames t)" by auto
qed

text \<open>A flush of a clean file writes nothing.\<close>

lemma clean_force_file:
  assumes s: "clean_pool fid bs s"
  shows "clean_pool fid bs (snd (force_file fid None s))"
proof -
  obtain pf where pf: "bp_files s fid = Some pf" "clean_pf bs pf" using s by (auto simp: clean_pool_def)
  have frames: "set (frames_of fid None s) \<subseteq> {..<length (bp_frames s)}" by (auto simp: frames_of_def)
  have "flush_frames is s = (Inr (), s)" if "set is \<subseteq> {..<length (bp_frames s)}" for "is"
    using that clean_poolD(1) [OF s] by (induction "is") (simp_all add: flush_frame_if_dirty_def clean_frame_def)
  from this [OF frames] have "force_file fid None s = on_file fid page_flush s"
    by (simp add: force_file_def pf(1) flush_registered_def)
  moreover have "keeps (clean_pf bs) page_flush" by (rule keepsI) (rule page_flush_clean)
  ultimately show ?thesis using clean_on_file(1) [OF s] by simp
qed

subsection \<open>Record files\<close>

lemma clean_with_page: "keeps (clean_rf bs) (with_page pid body)"
proof (rule keepsI)
  fix f
  assume f: "clean_rf bs f"
  obtain r s where r: "get_page (rf_file_id f) pid (rf_pool f) = (r, s)" by (cases "get_page (rf_file_id f) pid (rf_pool f)")
  note c = clean_get_page [OF _ r, of bs]
  show "clean_rf bs (snd (with_page pid body f))"
    using f c clean_drop [of "rf_file_id f" bs s] by (cases r) (simp_all add: with_page_def r clean_rf_def)
qed

lemma keeps_dependent: "(\<And>x. keeps I (m x)) \<Longrightarrow> keeps I (\<lambda>s. m (g s) s)"
  by (simp add: keeps_def)

lemmas keeps_intros = keeps_bind keeps_return keeps_if

lemma clean_get_record [keeps_rules]: "keeps (clean_rf bs) (get_record r)"
  unfolding get_record_def
  by (intro keeps_bind keeps_return keeps_dependent [OF clean_with_page])

lemma clean_read_record [keeps_rules]: "keeps (clean_rf bs) (read_record_if_used pid i)"
  unfolding read_record_if_used_def
  by (intro keeps_if keeps_return keeps_dependent [OF clean_with_page])

lemma clean_next_record_loop: "clean_rf bs (snd st) \<Longrightarrow> clean_rf bs (snd (snd (next_record_loop fuel st)))"
proof (induction fuel st rule: next_record_loop.induct)
  case (2 fuel sc f)
  obtain r g where r: "read_record_if_used (sc_page_id sc) (unat (sc_slot_id sc)) f = (r, g)"
    by (cases "read_record_if_used (sc_page_id sc) (unat (sc_slot_id sc)) f")
  have g: "clean_rf bs g" using keepsD [OF clean_read_record _ r] 2(3) by simp
  show ?case
    using 2(1) [OF _ refl refl refl r [symmetric]] 2(2) [OF _ refl refl refl r [symmetric]] 2(3) g
    by (cases r) (auto simp: r Let_def split: option.split sum.split bool.split)
qed auto

lemma clean_next_record: "keeps (\<lambda>st. clean_rf bs (snd st)) next_record"
  unfolding next_record_def keeps_def by (blast intro: clean_next_record_loop)

lemma clean_drain_scan: "keeps (\<lambda>st. clean_rf bs (snd st)) (drain_scan fuel)"
proof (induction fuel)
  case (Suc fuel)
  have step: "keeps (\<lambda>st. clean_rf bs (snd st)) (\<lambda>st. case r of None \<Rightarrow> (Inr [], st)
      | Some rec \<Rightarrow> and_then_st (drain_scan fuel st) (\<lambda>recs st. (Inr (rec # recs), st)))" for r
    by (cases r) (auto intro!: keeps_bind keeps_return Suc)
  have "drain_scan (Suc fuel) = (\<lambda>st. and_then_st (next_record st) (\<lambda>r st. case r of None \<Rightarrow> (Inr [], st)
      | Some rec \<Rightarrow> and_then_st (drain_scan fuel st) (\<lambda>recs st. (Inr (rec # recs), st))))"
    by auto
  then show ?case using step by (simp add: keeps_bind clean_next_record)
qed (simp add: keeps_def)

lemma open_records_clean:
  assumes pf: "clean_pf bs pf" and f: "open_records pf n = Inr f"
  shows "clean_rf bs f"
proof -
  obtain fid s where s: "register_file pf (pool_new n) = (Inr fid, s)"
    using f by (auto simp: open_records_def Let_def split: prod.splits sum.splits if_splits)
  have cs: "clean_pool fid bs s"
    using s pf by (auto simp: register_file_def pool_new_def clean_pool_def clean_frame_def frame_new_def Let_def checked_add_u32_def
        split: if_splits)
  obtain i t where t: "get_page fid HEADER_PAGE_ID s = (Inr i, t)"
    using f by (auto simp: open_records_def Let_def s split: prod.splits sum.splits if_splits)
  note c = clean_get_page [OF cs t]
  show ?thesis
    using f c clean_drop [OF c(1), of i] by (auto simp: open_records_def Let_def s t [simplified] clean_rf_def split: if_splits)
qed

lemma record_file_drop_clean:
  assumes f: "clean_rf bs f"
  obtains pf where "record_file_drop f = Some pf" and "io_bytes (pf_io pf) = bs"
proof -
  have header: "persist_header f = (Inr (), f)" using f by (simp add: persist_header_def clean_rf_def)
  obtain r s where s: "force_file (rf_file_id f) None (rf_pool f) = (r, s)" by (cases "force_file (rf_file_id f) None (rf_pool f)")
  have "clean_pool (rf_file_id f) bs s" using clean_force_file f s by (metis clean_rf_def snd_conv)
  then obtain pf where pf: "bp_files s (rf_file_id f) = Some pf" "clean_pf bs pf" by (auto simp: clean_pool_def)
  have "io_bytes (pf_io (page_file_drop pf)) = bs"
    using page_flush_clean [OF pf(2)] by (simp add: page_file_drop_def clean_pf_def)
  then show thesis using that pf(1) by (simp add: record_file_drop_def flush_records_def header s)
qed

end
