(* ===== verification/Fault_Drops.thy ===== *)
theory Fault_Drops
  imports Fault_Reads
begin

section \<open>Dropping a record file on a device that fails\<close>

text \<open>
  The drop of a record file flushes it and ignores the outcome.  On a device on which every call
  fails, the drop leaves the bytes as they are, so that all that waits to be written is lost.
  \<open>frozen bs n\<close> are the states in which the device holds \<open>bs\<close> and fails at the next \<open>n\<close> calls.
\<close>

definition frozen :: "u8 list \<Rightarrow> nat \<Rightarrow> page_file \<Rightarrow> bool" where
  "frozen bs n f \<longleftrightarrow> io_bytes (pf_io f) = bs \<and> io_faults (pf_io f) = replicate n (Some 0) \<and>
     FILE_HEADER_SIZE + unat (pf_num_pages f) * PAGE_SIZE \<le> length bs \<and>
     (\<forall>pid. pf_loaded_page_id f = Some pid \<longrightarrow> pid < pf_num_pages f)"

definition frozen_pool :: "u32 \<Rightarrow> u8 list \<Rightarrow> nat \<Rightarrow> buffer_pool \<Rightarrow> bool" where
  "frozen_pool fid bs n s \<longleftrightarrow> (\<exists>pf. bp_files s fid = Some pf \<and> frozen bs n pf)"

definition frozen_rf :: "u8 list \<Rightarrow> nat \<Rightarrow> record_file \<Rightarrow> bool" where
  "frozen_rf bs n f \<longleftrightarrow> frozen_pool (rf_file_id f) bs n (rf_pool f)"

named_theorems stop_rules "operations that stop at the first call that fails"

subsection \<open>The page file\<close>

lemma frozen_device:
  assumes "frozen bs (Suc n) f" and "off \<le> length bs"
  shows "\<exists>g. on_device (write_all_at off buf) f = (Inl (PS_Io DeviceFault), g) \<and> frozen bs n g"
    and "\<exists>g. on_device io_sync_all f = (Inl (PS_Io DeviceFault), g) \<and> frozen bs n g"
  using assms by (simp_all add: frozen_def on_device_def write_all_at_def io_sync_all_def put_at_def)

lemma page_offset_within:
  assumes "frozen bs n f" and "pf_loaded_page_id f = Some pid"
  shows "4096 + unat pid * 4096 \<le> length bs"
proof -
  have "unat pid < unat (pf_num_pages f)" using assms by (simp add: frozen_def word_less_nat_alt)
  then show ?thesis using assms(1) by (simp add: frozen_def)
qed

lemma flush_loaded_page_stops [stop_rules]: "stops (frozen bs) flush_loaded_page"
proof (rule stopsI)
  fix n f r g
  assume f: "frozen bs (Suc n) f" and run: "flush_loaded_page f = (r, g)"
  show "frozen bs (Suc n) g \<or> frozen bs n g \<and> (\<exists>e. r = Inl e)"
  proof (cases "pf_loaded_page_id f")
    case (Some pid)
    obtain h where "on_device (write_all_at (4096 + unat pid * 4096) (pf_loaded_page f)) f = (Inl (PS_Io DeviceFault), h)"
      "frozen bs n h"
      using frozen_device(1) [OF f page_offset_within [OF f Some]] by blast
    then show ?thesis using run f by (auto simp: flush_loaded_page_def Some split: if_splits)
  qed (use run f in \<open>auto simp: flush_loaded_page_def\<close>)
qed

lemma flush_header_stops [stop_rules]: "stops (frozen bs) flush_header"
proof (rule stopsI)
  fix n f r g
  assume f: "frozen bs (Suc n) f" and run: "flush_header f = (r, g)"
  obtain h where "on_device (write_all_at 0 (file_header_encode (pf_header f))) f = (Inl (PS_Io DeviceFault), h)" "frozen bs n h"
    using frozen_device(1) [OF f, of 0] by auto
  then show "frozen bs (Suc n) g \<or> frozen bs n g \<and> (\<exists>e. r = Inl e)"
    using run f by (auto simp: flush_header_def split: if_splits)
qed

lemma io_sync_stops [stop_rules]: "stops (frozen bs) (on_device io_sync_all)"
  by (rule stopsI) (use frozen_device(2) [where off = 0] in fastforce)

lemma page_flush_stops [stop_rules]: "stops (frozen bs) page_flush"
  unfolding page_flush_def by (intro stops_bind stop_rules)

lemma load_rest_stops:
  "stops (frozen bs) (\<lambda>f.
     case read_exact_at off (pf_loaded_page f) (pf_io f) of
       (r, buf, io) \<Rightarrow>
         and_then_st (map_err PS_Io r, f\<lparr>pf_loaded_page := buf, pf_io := io\<rparr>) (\<lambda>_ f.
           (Inr (), f\<lparr>pf_loaded_page_id := Some pid, pf_loaded_page_dirty := False\<rparr>)))"
  by (rule stopsI) (auto simp: frozen_def read_exact_at_def)

lemma load_page_stops [stop_rules]: "stops (frozen bs) (load_page pid)"
  unfolding load_page_def
  by (intro stops_bind stops_return stops_if stop_rules load_rest_stops)

lemma store_page_stops [stop_rules]: "stops (frozen bs) (store_page pid d)"
  unfolding store_page_def write_page_def
  by (intro stops_bind stops_return stop_rules) (simp_all add: frozen_def page_guard_store_def)

lemma read_page_stops [stop_rules]: "stops (frozen bs) (read_page pid)"
  unfolding read_page_def by (intro stops_bind stops_return stop_rules)

subsection \<open>The buffer pool\<close>

lemma files_link_head [simp]: "bp_files (link_head i s) = bp_files s"
  by (simp add: link_head_def Let_def split: option.split)

lemma files_unlink [simp]: "bp_files (unlink i s) = bp_files s"
  by (simp add: unlink_def Let_def split: option.split)

lemma files_guards [simp]:
  "bp_files (touch i s) = bp_files s" "bp_files (pin_frame i s) = bp_files s"
  "bp_files (guard_drop i s) = bp_files s" "bp_files (guard_write i d s) = bp_files s"
  by (simp_all add: touch_def pin_frame_def guard_drop_def unpin_frame_def guard_write_def Let_def)

lemma on_file_stops [stop_rules]:
  assumes m: "stops (frozen bs) m"
  shows "stops (frozen_pool fid bs) (on_file fid' m)"
proof (rule stopsI)
  fix n s r t
  assume s: "frozen_pool fid bs (Suc n) s" and run: "on_file fid' m s = (r, t)"
  obtain pf where pf: "bp_files s fid = Some pf" "frozen bs (Suc n) pf" using s by (auto simp: frozen_pool_def)
  show "frozen_pool fid bs (Suc n) t \<or> frozen_pool fid bs n t \<and> (\<exists>e. r = Inl e)"
  proof (cases "fid' = fid")
    case True
    obtain q g where q: "m pf = (q, g)" by (cases "m pf")
    show ?thesis using stopsD [OF m pf(2) q] run pf(1) by (auto simp: on_file_def q True frozen_pool_def)
  next
    case False
    then show ?thesis using run pf by (auto simp: on_file_def frozen_pool_def split: option.splits prod.splits)
  qed
qed

lemma flush_frame_stops [stop_rules]: "stops (frozen_pool fid bs) (flush_frame_if_dirty i)"
proof -
  have step: "stops (frozen_pool fid bs) (\<lambda>s.
      and_then_st (on_file (bk_file_id key)
        (\<lambda>f. and_then_st (store_page (bk_page_id key) (fr_data (frame_at s i)) f) (\<lambda>_. page_flush)) s) (\<lambda>_ s.
        (Inr (), update_frame i (\<lambda>f. f\<lparr>fr_dirty := False\<rparr>) s)))" for key
    by (rule stops_dependent [where g = "\<lambda>s. fr_data (frame_at s i)"])
      (intro stops_bind stops_return stop_rules, simp add: frozen_pool_def)
  show ?thesis
    unfolding flush_frame_if_dirty_def Let_def by (intro stops_bind stops_return stops_if step)
qed

lemma recycle_frame_stops [stop_rules]: "stops (frozen_pool fid bs) (recycle_frame i)"
  by (rule stopsI) (auto simp: recycle_frame_def Let_def frozen_pool_def split: if_splits option.splits)

lemma install_frame_stops [stop_rules]: "stops (frozen_pool fid bs) (install_frame i key d b)"
  by (rule stopsI) (auto simp: install_frame_def Let_def frozen_pool_def split: if_splits)

lemma acquire_frame_stops [stop_rules]: "stops (frozen_pool fid bs) acquire_frame"
proof -
  have evict: "stops (frozen_pool fid bs) (\<lambda>s. case x of None \<Rightarrow> (Inl NoFrameAvailable, s) | Some i \<Rightarrow>
      and_then_st (flush_frame_if_dirty i s) (\<lambda>_ s. and_then_st (recycle_frame i s) (\<lambda>_ s. (Inr i, touch i s))))" for x
    by (cases x) (auto intro!: stops_bind stops_return stop_rules simp: frozen_pool_def)
  show ?thesis
    unfolding acquire_frame_def Let_def
    by (intro stops_if stops_return
        stops_option [where g = "\<lambda>s. find_victim (length (bp_frames s)) (bp_frames s) (bp_lru_tail s)"] evict)
      (simp_all add: frozen_pool_def)
qed

lemma get_page_mut_stops [stop_rules]: "stops (frozen_pool fid bs) (get_page_mut fid' pid)"
  unfolding get_page_mut_def Let_def read_page_data_def
proof (rule stops_dependent [where g = "\<lambda>s. bp_page_table s \<lparr>bk_file_id = fid', bk_page_id = pid\<rparr>"])
  fix x
  show "stops (frozen_pool fid bs) (\<lambda>s. case x of
      None \<Rightarrow> and_then_st (acquire_frame s) (\<lambda>i s.
        and_then_st (on_file (bk_file_id \<lparr>bk_file_id = fid', bk_page_id = pid\<rparr>)
          (read_page (bk_page_id \<lparr>bk_file_id = fid', bk_page_id = pid\<rparr>)) s) (\<lambda>data s.
        and_then_st (install_frame i \<lparr>bk_file_id = fid', bk_page_id = pid\<rparr> data True s) (\<lambda>_ s. (Inr i, s))))
    | Some i \<Rightarrow> (Inr i, update_frame i (\<lambda>f. f\<lparr>fr_dirty := True\<rparr>) (pin_frame i s)))"
    by (cases x) (auto intro!: stops_bind stops_return stop_rules simp: frozen_pool_def)
qed

lemma flush_frames_stops [stop_rules]: "stops (frozen_pool fid bs) (flush_frames is)"
proof (induction "is")
  case (Cons i "is")
  have "flush_frames (i # is) = (\<lambda>s. and_then_st (flush_frame_if_dirty i s) (\<lambda>_. flush_frames is))" by auto
  then show ?case using Cons by (simp add: stops_bind stop_rules)
qed (simp add: stops_def)

lemma force_file_stops [stop_rules]: "stops (frozen_pool fid bs) (force_file fid' p)"
proof -
  have frames: "stops (frozen_pool fid bs) (\<lambda>s. flush_frames (frames_of fid' p s) s)"
    by (rule stops_dependent) (intro stop_rules)
  have registered: "stops (frozen_pool fid bs) (flush_registered fid')"
    unfolding flush_registered_def
    by (rule stops_option [where g = "\<lambda>s. bp_files s fid'" and k = "\<lambda>_. on_file fid' page_flush"])
      (intro stops_return, assumption, intro stop_rules)
  show ?thesis
    unfolding force_file_def by (intro stops_if stops_bind stops_return frames registered)
qed

subsection \<open>The record file\<close>

lemma with_page_mut_stops [stop_rules]:
  assumes body: "pool_blind body" and fid: "\<And>bytes f r bytes' g. body (bytes, f) = (r, bytes', g) \<Longrightarrow> rf_file_id g = rf_file_id f"
  shows "stops (frozen_rf bs) (with_page_mut pid body)"
proof (rule stopsI)
  fix n f r g
  assume f: "frozen_rf bs (Suc n) f" and run: "with_page_mut pid body f = (r, g)"
  obtain q s where q: "get_page_mut (rf_file_id f) pid (rf_pool f) = (q, s)" by (cases "get_page_mut (rf_file_id f) pid (rf_pool f)")
  have s: "frozen_pool (rf_file_id f) bs (Suc n) s \<or> frozen_pool (rf_file_id f) bs n s \<and> (\<exists>e. q = Inl e)"
    using f stopsD [OF get_page_mut_stops _ q] by (simp add: frozen_rf_def)
  show "frozen_rf bs (Suc n) g \<or> frozen_rf bs n g \<and> (\<exists>e. r = Inl e)"
  proof (cases q)
    case (Inl e)
    then show ?thesis using run s by (auto simp: with_page_mut_def q frozen_rf_def)
  next
    case (Inr i)
    obtain x bytes h where x: "body (guard_read i s, f\<lparr>rf_pool := s\<rparr>) = (x, bytes, h)"
      by (cases "body (guard_read i s, f\<lparr>rf_pool := s\<rparr>)") auto
    show ?thesis
      using run s Inr x pool_blind_pool [OF body x] fid [OF x]
      by (auto simp: with_page_mut_def q close_guard_def frozen_rf_def frozen_pool_def)
  qed
qed

lemma flush_records_stops [stop_rules]: "stops (frozen_rf bs) flush_records"
proof -
  have persist: "stops (frozen_rf bs) persist_header"
    unfolding persist_header_def by (intro stops_if stops_return with_page_mut_stops blind_bodies) auto
  have force: "stops (frozen_rf bs) (\<lambda>f.
      case force_file (rf_file_id f) None (rf_pool f) of (r, s) \<Rightarrow> (map_err RE_BufferPool r, f\<lparr>rf_pool := s\<rparr>))"
  proof (rule stopsI)
    fix n f r g
    assume f: "frozen_rf bs (Suc n) f"
      and run: "(case force_file (rf_file_id f) None (rf_pool f) of (r, s) \<Rightarrow> (map_err RE_BufferPool r, f\<lparr>rf_pool := s\<rparr>)) = (r, g)"
    obtain q s where q: "force_file (rf_file_id f) None (rf_pool f) = (q, s)" by (cases "force_file (rf_file_id f) None (rf_pool f)")
    show "frozen_rf bs (Suc n) g \<or> frozen_rf bs n g \<and> (\<exists>e. r = Inl e)"
      using run f stopsD [OF force_file_stops _ q, of "rf_file_id f" bs n] by (auto simp: q frozen_rf_def)
  qed
  show ?thesis unfolding flush_records_def by (intro stops_bind persist force)
qed

lemma flush_records_file_id: "rf_file_id (snd (flush_records f)) = rf_file_id f"
proof -
  have "rf_file_id (snd (persist_header f)) = rf_file_id f"
    by (simp add: persist_header_def with_page_mut_def close_guard_def split: prod.split sum.split)
  then show ?thesis
    by (cases "persist_header f"; cases "fst (persist_header f)") (auto simp: flush_records_def split: prod.split)
qed

text \<open>The drop makes two calls at most.\<close>

lemma record_file_drop_frozen:
  assumes f: "frozen_rf bs 2 f"
  obtains pf where "record_file_drop f = Some pf" and "io_bytes (pf_io pf) = bs"
proof -
  obtain r g where g: "flush_records f = (r, g)" by (cases "flush_records f")
  have "frozen_rf bs 2 g \<or> frozen_rf bs 1 g"
    using stopsD [OF flush_records_stops _ g, of bs 1] f by (auto simp: numeral_2_eq_2)
  then obtain n where "frozen_rf bs (Suc n) g" by (auto simp: numeral_2_eq_2)
  then obtain pf where pf: "bp_files (rf_pool g) (rf_file_id g) = Some pf" "frozen bs (Suc n) pf"
    by (auto simp: frozen_rf_def frozen_pool_def)
  obtain q pf' where q: "page_flush pf = (q, pf')" by (cases "page_flush pf")
  have "io_bytes (pf_io pf') = bs" using stopsD [OF page_flush_stops pf(2) q] by (auto simp: frozen_def)
  then show thesis
    using that pf(1) flush_records_file_id [of f] by (simp add: record_file_drop_def g page_file_drop_def q)
qed

end
