(* ===== verification/Fault_Tables.thy ===== *)
theory Fault_Tables
  imports Fault_Reads Query_Engine
begin

section \<open>Tables and the directory on a failing device\<close>

text \<open>
  The operations of a table and the calls on the directory report a fault or run as they do
  without faults.  \<open>heal_table\<close>, \<open>heal_disk\<close> and \<open>heal_db\<close> drop the pending faults.
\<close>

definition heal_table :: "table \<Rightarrow> table" where
  "heal_table t = t\<lparr>tb_file := heal_rf (tb_file t)\<rparr>"

definition heal_disk :: "disk \<Rightarrow> disk" where
  "heal_disk d = d\<lparr>dk_faults := [], dk_handles := []\<rparr>"

definition heal_db :: "database \<Rightarrow> database" where
  "heal_db db = db\<lparr>db_disk := heal_disk (db_disk db)\<rparr>"

fun ie_fault :: "index_error \<Rightarrow> bool" where
  "ie_fault (IE_Io e) \<longleftrightarrow> e = DeviceFault"
| "ie_fault _ \<longleftrightarrow> False"

fun te_fault :: "table_error \<Rightarrow> bool" where
  "te_fault (TE_Io e) \<longleftrightarrow> e = DeviceFault"
| "te_fault (TE_Index e) \<longleftrightarrow> ie_fault e"
| "te_fault (TE_Record e) \<longleftrightarrow> re_fault e"
| "te_fault _ \<longleftrightarrow> False"

fun qe_fault :: "query_error \<Rightarrow> bool" where
  "qe_fault (QE_Table e) \<longleftrightarrow> te_fault e"
| "qe_fault _ \<longleftrightarrow> False"

lemma heal_table_simps [simp]:
  "tb_schema (heal_table t) = tb_schema t" "tb_layout (heal_table t) = tb_layout t"
  "tb_file (heal_table t) = heal_rf (tb_file t)"
  "(heal_table t)\<lparr>tb_file := heal_rf f\<rparr> = heal_table (t\<lparr>tb_file := f\<rparr>)"
  by (simp_all add: heal_table_def)

lemma heal_disk_simps [simp]:
  "dk_files (heal_disk d) = dk_files d" "dk_faults (heal_disk d) = []" "dk_handles (heal_disk d) = []"
  "dk_put name bs (heal_disk d) = heal_disk (dk_put name bs d)"
  by (simp_all add: heal_disk_def dk_put_def)

lemma heal_db_simps [simp]:
  "db_disk (heal_db db) = heal_disk (db_disk db)" "db_catalog (heal_db db) = db_catalog db"
  "db_indexes (heal_db db) = db_indexes db"
  "(heal_db db)\<lparr>db_disk := heal_disk d\<rparr> = heal_db (db\<lparr>db_disk := d\<rparr>)"
  by (simp_all add: heal_db_def)

subsection \<open>Tables\<close>

lemma on_records_or_fault [fault_rules]:
  "or_fault heal_rf re_fault m \<Longrightarrow> or_fault heal_table te_fault (on_records m)"
  unfolding on_records_def
  by (rule or_fault_lift [where put = "\<lambda>f t. t\<lparr>tb_file := f\<rparr>"]) (simp_all add: heal_table_def)

lemma table_insert_or_fault [fault_rules]: "or_fault heal_table te_fault (table_insert values)"
  unfolding table_insert_def by (intro or_fault_intros fault_rules) simp_all

lemma scan_rows_or_fault [fault_rules]: "or_fault (apsnd heal_rf) te_fault (scan_rows layout fuel)"
proof (induction fuel)
  case 0
  then show ?case by (auto simp: or_fault_def)
next
  case (Suc fuel)
  have first: "or_fault (apsnd heal_rf) te_fault (\<lambda>st. case next_record st of (r, st) \<Rightarrow> (map_err TE_Record r, st))"
    by (rule or_fault_lift [OF next_record_or_fault, where get = id and put = "\<lambda>p _. p", simplified]) simp_all
  have row: "or_fault (apsnd heal_rf) te_fault (\<lambda>st. case r of
         None \<Rightarrow> (Inr [], st)
       | Some rec \<Rightarrow>
           and_then_st (decode_record layout rec, st) (\<lambda>row st.
           and_then_st (scan_rows layout fuel st) (\<lambda>rows st. (Inr (row # rows), st))))" for r
    by (cases r) (auto intro!: or_fault_bind or_fault_return Suc)
  have "scan_rows layout (Suc fuel) = (\<lambda>st.
     and_then_st (case next_record st of (r, st) \<Rightarrow> (map_err TE_Record r, st)) (\<lambda>r st. case r of
         None \<Rightarrow> (Inr [], st)
       | Some rec \<Rightarrow>
           and_then_st (decode_record layout rec, st) (\<lambda>row st.
           and_then_st (scan_rows layout fuel st) (\<lambda>rows st. (Inr (row # rows), st)))))"
    by (rule ext) (rule scan_rows.simps)
  then show ?case using or_fault_bind [OF first row] by simp
qed

lemma table_scan_of_heal [simp]: "table_scan_of e (heal_table t) = table_scan_of e t"
  by (simp add: table_scan_of_def scan_with_logic_def split: option.split)

lemma run_scan_or_fault:
  "or_fault heal_table te_fault (\<lambda>t.
     case scan_rows (tb_layout t) (Suc (rf_positions (tb_file t))) (sc, tb_file t) of
       (r, (sc, f)) \<Rightarrow> (r, t\<lparr>tb_file := f\<rparr>))"
proof (rule or_faultI)
  fix t :: table
  define fuel where "fuel = Suc (rf_positions (tb_file t))"
  have fuel: "Suc (rf_positions (tb_file (heal_table t))) = fuel" by (simp add: fuel_def)
  have "or_fault (apsnd heal_rf) te_fault (scan_rows (tb_layout t) fuel)" by (intro fault_rules)
  then show "(\<exists>e s'. (case scan_rows (tb_layout t) (Suc (rf_positions (tb_file t))) (sc, tb_file t) of
       (r, (sc, f)) \<Rightarrow> (r, t\<lparr>tb_file := f\<rparr>)) = (Inl e, s') \<and> te_fault e) \<or>
     (case scan_rows (tb_layout (heal_table t)) (Suc (rf_positions (tb_file (heal_table t)))) (sc, tb_file (heal_table t)) of
       (r, (sc, f)) \<Rightarrow> (r, (heal_table t)\<lparr>tb_file := f\<rparr>)) = apsnd heal_table
     (case scan_rows (tb_layout t) (Suc (rf_positions (tb_file t))) (sc, tb_file t) of
       (r, (sc, f)) \<Rightarrow> (r, t\<lparr>tb_file := f\<rparr>))"
    unfolding fuel fuel_def [symmetric]
    by (cases rule: or_faultE [where s = "(sc, tb_file t)"]) auto
qed

lemma table_scan_or_fault [fault_rules]: "or_fault heal_table te_fault (table_scan e)"
  unfolding table_scan_def by (intro or_fault_bind or_fault_return run_scan_or_fault) simp_all

lemma rows_by_rids_or_fault [fault_rules]: "or_fault heal_table te_fault (rows_by_rids rids)"
proof (induction rids)
  case (Cons r rids)
  have "or_fault heal_table te_fault (\<lambda>t. and_then_st (decode_record (tb_layout t) rec, t) (\<lambda>row t.
     and_then_st (rows_by_rids rids t) (\<lambda>rows t. (Inr (row # rows), t))))" for rec
    by (intro or_fault_bind or_fault_return Cons) simp_all
  moreover have "rows_by_rids (r # rids) = (\<lambda>t. and_then_st (on_records (get_record r) t) (\<lambda>rec t.
     and_then_st (decode_record (tb_layout t) rec, t) (\<lambda>row t.
     and_then_st (rows_by_rids rids t) (\<lambda>rows t. (Inr (row # rows), t)))))"
    by (rule ext) (rule rows_by_rids.simps)
  ultimately show ?case by (simp add: or_fault_bind fault_rules)
qed (simp add: or_fault_def)

lemma collect_records_or_fault [fault_rules]: "or_fault heal_table te_fault (collect_records e)"
  unfolding collect_records_def by (intro or_fault_intros fault_rules) simp_all

lemma update_records_or_fault [fault_rules]: "or_fault heal_table te_fault (update_records as recs)"
proof (induction recs)
  case (Cons rec recs)
  have "or_fault heal_table te_fault (\<lambda>t.
     and_then_st (decode_record (tb_layout t) rec, t) (\<lambda>row t.
     and_then_st (assign_values (tb_layout t) as row, t) (\<lambda>row t.
     and_then_st (encode_row (tb_layout t) row, t) (\<lambda>bytes t.
     and_then_st (on_records (update_record (rec_rid rec) bytes) t) (\<lambda>_ t.
     and_then_st (update_records as recs t) (\<lambda>n t. (Inr (Suc n), t)))))))"
    by (intro or_fault_bind or_fault_return Cons fault_rules) simp_all
  moreover have "update_records as (rec # recs) = (\<lambda>t.
     and_then_st (decode_record (tb_layout t) rec, t) (\<lambda>row t.
     and_then_st (assign_values (tb_layout t) as row, t) (\<lambda>row t.
     and_then_st (encode_row (tb_layout t) row, t) (\<lambda>bytes t.
     and_then_st (on_records (update_record (rec_rid rec) bytes) t) (\<lambda>_ t.
     and_then_st (update_records as recs t) (\<lambda>n t. (Inr (Suc n), t)))))))"
    by (rule ext) (rule update_records.simps)
  ultimately show ?case by simp
qed (simp add: or_fault_def)

lemma delete_records_or_fault [fault_rules]: "or_fault heal_table te_fault (delete_records recs)"
proof (induction recs)
  case (Cons rec recs)
  have "delete_records (rec # recs) = (\<lambda>t. and_then_st (on_records (delete_record (rec_rid rec)) t) (\<lambda>_ t.
     and_then_st (delete_records recs t) (\<lambda>n t. (Inr (Suc n), t))))"
    by (rule ext) (rule delete_records.simps)
  then show ?case by (simp add: or_fault_bind or_fault_return fault_rules Cons)
qed (simp add: or_fault_def)

lemma update_where_or_fault [fault_rules]: "or_fault heal_table te_fault (update_where e as)"
  unfolding update_where_def by (intro or_fault_bind fault_rules)

lemma delete_where_or_fault [fault_rules]: "or_fault heal_table te_fault (delete_where e)"
  unfolding delete_where_def by (intro or_fault_bind fault_rules)

lemma index_entries_column_or_fault [fault_rules]:
  "or_fault heal_table te_fault (index_entries_for_int32_column column)"
  unfolding index_entries_for_int32_column_def by (intro or_fault_bind or_fault_return fault_rules) simp_all

text \<open>The operations that read keep a table clean.\<close>

lemma clean_on_records: "keeps (clean_rf bs) m \<Longrightarrow> keeps (\<lambda>t. clean_rf bs (tb_file t)) (on_records m)"
  by (simp add: keeps_def on_records_def split: prod.split) (metis snd_conv)

lemma clean_scan_rows: "keeps (\<lambda>st. clean_rf bs (snd st)) (scan_rows layout fuel)"
proof (induction fuel)
  case (Suc fuel)
  have first: "keeps (\<lambda>st. clean_rf bs (snd st)) (\<lambda>st. case next_record st of (r, st) \<Rightarrow> (map_err TE_Record r, st))"
    using clean_next_record [of bs] by (auto simp: keeps_def split: prod.split) (metis snd_conv)
  have row: "keeps (\<lambda>st. clean_rf bs (snd st)) (\<lambda>st. case r of
         None \<Rightarrow> (Inr [], st)
       | Some rec \<Rightarrow>
           and_then_st (decode_record layout rec, st) (\<lambda>row st.
           and_then_st (scan_rows layout fuel st) (\<lambda>rows st. (Inr (row # rows), st))))" for r
    by (cases r) (auto intro!: keeps_bind keeps_return Suc)
  have "scan_rows layout (Suc fuel) = (\<lambda>st.
     and_then_st (case next_record st of (r, st) \<Rightarrow> (map_err TE_Record r, st)) (\<lambda>r st. case r of
         None \<Rightarrow> (Inr [], st)
       | Some rec \<Rightarrow>
           and_then_st (decode_record layout rec, st) (\<lambda>row st.
           and_then_st (scan_rows layout fuel st) (\<lambda>rows st. (Inr (row # rows), st)))))"
    by (rule ext) (rule scan_rows.simps)
  then show ?case using keeps_bind [OF first row] by simp
qed (simp add: keeps_def)

lemma clean_table_scan: "keeps (\<lambda>t. clean_rf bs (tb_file t)) (table_scan e)"
proof -
  have run: "keeps (\<lambda>t. clean_rf bs (tb_file t)) (\<lambda>t.
     case scan_rows (tb_layout t) (Suc (rf_positions (tb_file t))) (sc, tb_file t) of
       (r, (sc, f)) \<Rightarrow> (r, t\<lparr>tb_file := f\<rparr>))" for sc
  proof (rule keepsI)
    fix t
    assume t: "clean_rf bs (tb_file t)"
    obtain r sc' f where f: "scan_rows (tb_layout t) (Suc (rf_positions (tb_file t))) (sc, tb_file t) = (r, sc', f)"
      by (cases "scan_rows (tb_layout t) (Suc (rf_positions (tb_file t))) (sc, tb_file t)") auto
    show "clean_rf bs (tb_file (snd (case scan_rows (tb_layout t) (Suc (rf_positions (tb_file t))) (sc, tb_file t) of
       (r, (sc, f)) \<Rightarrow> (r, t\<lparr>tb_file := f\<rparr>))))"
      using keepsD [OF clean_scan_rows _ f, of bs] t by (simp only: f prod.case snd_conv) simp
  qed
  show ?thesis unfolding table_scan_def by (intro keeps_bind keeps_return run)
qed

lemma clean_rows_by_rids: "keeps (\<lambda>t. clean_rf bs (tb_file t)) (rows_by_rids rids)"
proof (induction rids)
  case (Cons r rids)
  have "keeps (\<lambda>t. clean_rf bs (tb_file t)) (\<lambda>t. and_then_st (decode_record (tb_layout t) rec, t) (\<lambda>row t.
     and_then_st (rows_by_rids rids t) (\<lambda>rows t. (Inr (row # rows), t))))" for rec
    by (intro keeps_bind keeps_return Cons)
  moreover have "rows_by_rids (r # rids) = (\<lambda>t. and_then_st (on_records (get_record r) t) (\<lambda>rec t.
     and_then_st (decode_record (tb_layout t) rec, t) (\<lambda>row t.
     and_then_st (rows_by_rids rids t) (\<lambda>rows t. (Inr (row # rows), t)))))"
    by (rule ext) (rule rows_by_rids.simps)
  ultimately show ?case using clean_on_records [OF clean_get_record] by (simp add: keeps_bind)
qed (simp add: keeps_def)

end
