(* ===== verification/Fault_Queries.thy ===== *)
theory Fault_Queries
  imports Fault_Tables Query_Properties
begin

section \<open>Selections on a failing device\<close>

text \<open>
  A selection only reads: whatever fails, the files and the catalogs stay as they are, and the
  selection reports the fault or has the result it has without faults.
\<close>

subsection \<open>The directory\<close>

lemma dk_fault_cases:
  obtains (fault) n d' where "dk_fault d = (Some n, d')" and "dk_files d' = dk_files d"
    | (healthy) d' where "dk_fault d = (None, d')" and "dk_files d' = dk_files d" and "heal_disk d' = heal_disk d"
  by (cases "take_fault (dk_faults d)"; cases "fst (take_fault (dk_faults d))") (auto simp: dk_fault_def heal_disk_def)

lemma dk_fault_heal [simp]: "dk_fault (heal_disk d) = (None, heal_disk d)"
  by (simp add: dk_fault_def heal_disk_def)

lemma fs_read_or_fault [fault_rules]: "or_fault heal_disk (\<lambda>e. e = DeviceFault) (fs_read_to_string name)"
proof (rule or_faultI)
  fix d
  show "(\<exists>e d'. fs_read_to_string name d = (Inl e, d') \<and> e = DeviceFault) \<or>
      fs_read_to_string name (heal_disk d) = apsnd heal_disk (fs_read_to_string name d)"
    by (cases rule: dk_fault_cases [of d]) (auto simp: fs_read_to_string_def split: option.split)
qed

lemma fs_read_files: "dk_files (snd (fs_read_to_string name d)) = dk_files d"
  by (cases rule: dk_fault_cases [of d]) (auto simp: fs_read_to_string_def split: option.split)

lemma load_index_file_or_fault [fault_rules]: "or_fault heal_disk ie_fault (load_index_file name)"
proof (rule or_faultI)
  fix d
  show "(\<exists>e d'. load_index_file name d = (Inl e, d') \<and> ie_fault e) \<or>
      load_index_file name (heal_disk d) = apsnd heal_disk (load_index_file name d)"
    using fs_read_or_fault [of "index_file_path name"]
    by (cases rule: or_faultE [where s = d]) (auto simp: load_index_file_def)
qed

lemma load_index_file_files: "dk_files (snd (load_index_file name d)) = dk_files d"
  using fs_read_files [of "index_file_path name" d]
  by (cases "fs_read_to_string (index_file_path name) d") (simp add: load_index_file_def)

lemma lookup_eq_or_fault [fault_rules]: "or_fault heal_disk ie_fault (lookup_eq name key)"
proof -
  have "or_fault heal_disk ie_fault (\<lambda>d.
      let start = partition_point (\<lambda>e. sint (ie_key e) < sint key) (snd x);
          fin = partition_point (\<lambda>e. sint (ie_key e) \<le> sint key) (snd x)
      in if fin < start \<or> length (snd x) < fin then (Inl IE_Panic, d)
         else (Inr (map ie_rid (take (fin - start) (drop start (snd x)))), d))" for x :: "index_meta \<times> index_entry list"
    by (simp add: or_fault_def Let_def)
  then show ?thesis
    unfolding lookup_eq_def by (intro or_fault_bind fault_rules) (simp add: case_prod_beta)
qed

lemma lookup_eq_files: "dk_files (snd (lookup_eq name key d)) = dk_files d"
  using load_index_file_files [of name d]
  by (cases "load_index_file name d"; cases "fst (load_index_file name d)") (auto simp: lookup_eq_def Let_def split: prod.split)

lemma disk_open_cases:
  obtains (fault) d' where "disk_open name d = (Inl DeviceFault, d')" and "dk_files d' = dk_files d"
    | (missing) d' where "disk_open name d = (Inl NotFound, d')" and "disk_open name (heal_disk d) = (Inl NotFound, heal_disk d')"
      and "dk_files d' = dk_files d"
    | (opened) bs io d' where "disk_open name d = (Inr io, d')"
      and "disk_open name (heal_disk d) = (Inr (heal_io io), heal_disk d')"
      and "dk_files d' = dk_files d" and "dk_files d name = Some bs" and "io_bytes io = bs"
proof (cases rule: dk_fault_cases [of d])
  case fault
  then show thesis using that(1) by (simp add: disk_open_def)
next
  case (healthy d1)
  show thesis
  proof (cases "dk_files d name")
    case None
    then show thesis using that(2) healthy by (simp add: disk_open_def)
  next
    case (Some bs)
    obtain fs hs where h: "take_handle (dk_handles d1) = (fs, hs)" by (cases "take_handle (dk_handles d1)")
    have open_d: "disk_open name d = (Inr \<lparr>io_bytes = bs, io_faults = fs\<rparr>, d1\<lparr>dk_handles := hs\<rparr>)"
      using healthy Some by (simp add: disk_open_def dk_handle_def h)
    have "disk_open name (heal_disk d) = (Inr \<lparr>io_bytes = bs, io_faults = []\<rparr>, heal_disk d)"
      using Some by (simp add: disk_open_def dk_handle_def)
    moreover have "heal_disk (d1\<lparr>dk_handles := hs\<rparr>) = heal_disk d" using healthy(3) by (simp add: heal_disk_def)
    ultimately show thesis
      using that(3) [OF open_d] healthy(2) Some by (simp add: heal_io_def)
  qed
qed

subsection \<open>Opening tables\<close>

lemma record_manager_open_or_fault:
  assumes run: "record_manager_open name d = (r, d')"
  shows "dk_files d' = dk_files d"
    and "(\<exists>e. r = Inl e \<and> re_fault e) \<or> record_manager_open name (heal_disk d) = (map_sum id heal_rf r, heal_disk d')"
    and "r = Inr f \<Longrightarrow> \<exists>bs. dk_files d name = Some bs \<and> clean_rf bs f"
proof -
  have "dk_files d' = dk_files d \<and>
    ((\<exists>e. r = Inl e \<and> re_fault e) \<or> record_manager_open name (heal_disk d) = (map_sum id heal_rf r, heal_disk d')) \<and>
    (\<forall>f. r = Inr f \<longrightarrow> (\<exists>bs. dk_files d name = Some bs \<and> clean_rf bs f))"
  proof (cases rule: disk_open_cases [of name d])
    case (opened bs io d1)
    show ?thesis
    proof (cases "page_open io")
      case (Inl e)
      then show ?thesis
        using run opened page_open_or_fault [of io] by (auto simp: record_manager_open_def page_manager_open_def)
    next
      case (Inr pf)
      have healed: "page_open (heal_io io) = Inr (heal_pf pf)" using page_open_or_fault [of io] Inr by simp
      have r: "r = open_records pf DEFAULT_BUFFER_CAPACITY" "d' = d1"
        using run opened Inr by (simp_all add: record_manager_open_def page_manager_open_def)
      have "record_manager_open name (heal_disk d) = (open_records (heal_pf pf) DEFAULT_BUFFER_CAPACITY, heal_disk d1)"
        using opened healed by (simp add: record_manager_open_def page_manager_open_def)
      moreover have "clean_pf bs pf" using page_open_clean [OF Inr] opened(5) by simp
      ultimately show ?thesis
        using open_records_or_fault [of pf DEFAULT_BUFFER_CAPACITY] open_records_clean [of bs pf] opened(3,4) r by auto
    qed
  qed (use run in \<open>auto simp: record_manager_open_def page_manager_open_def\<close>)
  then show "dk_files d' = dk_files d"
    and "(\<exists>e. r = Inl e \<and> re_fault e) \<or> record_manager_open name (heal_disk d) = (map_sum id heal_rf r, heal_disk d')"
    and "r = Inr f \<Longrightarrow> \<exists>bs. dk_files d name = Some bs \<and> clean_rf bs f"
    by auto
qed

definition same_files :: "database \<Rightarrow> database \<Rightarrow> bool" where
  "same_files db db' \<longleftrightarrow> dk_files (db_disk db') = dk_files (db_disk db) \<and> same_catalogs db db'"

lemma same_files_trans: "same_files a b \<Longrightarrow> same_files b c \<Longrightarrow> same_files a c"
  by (simp add: same_files_def same_catalogs_def)

lemma open_table_or_fault:
  assumes run: "open_table name db = (r, db')"
  shows "same_files db db'"
    and "(\<exists>e. r = Inl e \<and> te_fault e) \<or> open_table name (heal_db db) = (map_sum id heal_table r, heal_db db')"
    and "r = Inr t \<Longrightarrow> \<exists>bs. dk_files (db_disk db) (table_path name) = Some bs \<and> clean_rf bs (tb_file t)"
proof -
  obtain q d where q: "record_manager_open (table_path name) (db_disk db) = (q, d)"
    by (cases "record_manager_open (table_path name) (db_disk db)")
  note o = record_manager_open_or_fault [OF q]
  have "same_files db db' \<and>
    ((\<exists>e. r = Inl e \<and> te_fault e) \<or> open_table name (heal_db db) = (map_sum id heal_table r, heal_db db')) \<and>
    (\<forall>t. r = Inr t \<longrightarrow> (\<exists>bs. dk_files (db_disk db) (table_path name) = Some bs \<and> clean_rf bs (tb_file t)))"
  proof (cases "map_of (db_catalog db) name")
    case None
    then show ?thesis using run by (auto simp: open_table_def same_files_def same_catalogs_def)
  next
    case (Some s)
    show ?thesis
    proof (cases "compile_schema s")
      case (Inl e)
      then show ?thesis using run Some by (auto simp: open_table_def same_files_def same_catalogs_def)
    next
      case (Inr layout)
      show ?thesis
        using run Some Inr o by (cases q) (auto simp: open_table_def on_dir_def q same_files_def same_catalogs_def heal_table_def)
    qed
  qed
  then show "same_files db db'"
    and "(\<exists>e. r = Inl e \<and> te_fault e) \<or> open_table name (heal_db db) = (map_sum id heal_table r, heal_db db')"
    and "r = Inr t \<Longrightarrow> \<exists>bs. dk_files (db_disk db) (table_path name) = Some bs \<and> clean_rf bs (tb_file t)"
    by auto
qed

lemma close_table_clean:
  assumes "clean_rf bs (tb_file t)" and "dk_files (db_disk db) (table_path name) = Some bs"
  shows "close_table name t db = db"
proof -
  obtain pf where "record_file_drop (tb_file t) = Some pf" "io_bytes (pf_io pf) = bs"
    using record_file_drop_clean [OF assms(1)] by blast
  then show ?thesis
    using assms(2) by (simp add: close_table_def drop_records_def dk_put_def fun_upd_idem)
qed

lemma clean_heal [simp]: "clean_rf bs (heal_rf f) = clean_rf bs f"
proof -
  have "clean_pool fid bs (heal_pool s) = clean_pool fid bs s" for fid s
    by (cases "bp_files s fid") (simp_all add: clean_pool_def clean_pf_def)
  then show ?thesis by (simp add: clean_rf_def)
qed

subsection \<open>Selections\<close>

lemma select_rows_or_fault:
  assumes run: "select_rows request plan t db = (r, t', db')"
  shows "same_files db db'" and "clean_rf bs (tb_file t) \<Longrightarrow> clean_rf bs (tb_file t')"
    and "(\<exists>e. r = Inl e \<and> te_fault e) \<or> select_rows request plan (heal_table t) (heal_db db) = (r, heal_table t', heal_db db')"
proof -
  have "same_files db db' \<and> (clean_rf bs (tb_file t) \<longrightarrow> clean_rf bs (tb_file t')) \<and>
    ((\<exists>e. r = Inl e \<and> te_fault e) \<or> select_rows request plan (heal_table t) (heal_db db) = (r, heal_table t', heal_db db'))"
  proof (cases plan)
    case None
    obtain q u where q: "table_scan (sr_filter request) t = (q, u)" by (cases "table_scan (sr_filter request) t")
    have res: "r = q" "t' = u" "db' = db" using run None by (simp_all add: select_rows_def q)
    show ?thesis
      using or_faultD [OF table_scan_or_fault q] keepsD [OF clean_table_scan _ q, of bs] None
      by (auto simp: select_rows_def res same_files_def same_catalogs_def)
  next
    case (Some p)
    obtain q d where q: "lookup_eq (il_index_name p) (il_key p) (db_disk db) = (q, d)"
      by (cases "lookup_eq (il_index_name p) (il_key p) (db_disk db)")
    have d: "dk_files d = dk_files (db_disk db)" using lookup_eq_files [of "il_index_name p" "il_key p" "db_disk db"] by (simp add: q)
    have look: "lookup_index_eq (il_index_name p) (il_key p) db = (map_err TE_Index q, db\<lparr>db_disk := d\<rparr>)"
      by (simp add: lookup_index_eq_def on_dir_def q)
    from or_faultD [OF lookup_eq_or_fault q] show ?thesis
    proof
      assume "\<exists>e. q = Inl e \<and> ie_fault e"
      then show ?thesis using run Some d by (auto simp: select_rows_def look same_files_def same_catalogs_def)
    next
      assume "lookup_eq (il_index_name p) (il_key p) (heal_disk (db_disk db)) = (q, heal_disk d)"
      then have healed: "lookup_index_eq (il_index_name p) (il_key p) (heal_db db) = (map_err TE_Index q, heal_db (db\<lparr>db_disk := d\<rparr>))"
        by (simp add: lookup_index_eq_def on_dir_def)
      show ?thesis
      proof (cases q)
        case (Inl e)
        then show ?thesis using run Some d by (auto simp: select_rows_def look healed same_files_def same_catalogs_def)
      next
        case (Inr rids)
        obtain q2 u where q2: "rows_by_rids rids t = (q2, u)" by (cases "rows_by_rids rids t")
        have res: "r = q2" "t' = u" "db' = db\<lparr>db_disk := d\<rparr>" using run Some Inr by (simp_all add: select_rows_def look q2)
        show ?thesis
          using or_faultD [OF rows_by_rids_or_fault q2] keepsD [OF clean_rows_by_rids _ q2, of bs] Some Inr d
          by (auto simp: select_rows_def res healed same_files_def same_catalogs_def)
      qed
    qed
  qed
  then show "same_files db db'" and "clean_rf bs (tb_file t) \<Longrightarrow> clean_rf bs (tb_file t')"
    and "(\<exists>e. r = Inl e \<and> te_fault e) \<or> select_rows request plan (heal_table t) (heal_db db) = (r, heal_table t', heal_db db')"
    by auto
qed

lemma resolve_index_lookup_heal [simp]: "resolve_index_lookup table flt (heal_db db) = resolve_index_lookup table flt db"
proof -
  have "find_index t c (heal_db db) = find_index t c db" for t c by (simp add: find_index_def)
  then show ?thesis by (simp add: resolve_index_lookup_def split: option.split expr.split val.split)
qed

lemma load_schema_heal [simp]: "load_schema table (heal_db db) = load_schema table db"
  by (simp add: load_schema_def)

text \<open>The part of a selection that works on the opened table.\<close>

lemma select_body_or_fault:
  fixes request plan schema and table :: string
  defines "body \<equiv> \<lambda>lookup db. and_then_st (on_database (open_table table) db) (\<lambda>t db.
      case select_rows request lookup t db of
        (r, t, db) \<Rightarrow> (and_then (map_err QE_Table r) (present_rows schema plan), close_table table t db))"
  assumes run: "body lookup db = (r, db')"
  shows "same_files db db'" and "(\<exists>e. r = Inl e \<and> qe_fault e) \<or> body lookup (heal_db db) = (r, heal_db db')"
proof -
  obtain q db1 where q: "open_table table db = (q, db1)" by (cases "open_table table db")
  note o = open_table_or_fault [OF q]
  have "same_files db db' \<and> ((\<exists>e. r = Inl e \<and> qe_fault e) \<or> body lookup (heal_db db) = (r, heal_db db'))"
  proof (cases q)
    case (Inl e)
    then show ?thesis using run o(1,2) by (auto simp: body_def on_database_def q)
  next
    case (Inr t)
    obtain bs where bs: "dk_files (db_disk db) (table_path table) = Some bs" "clean_rf bs (tb_file t)"
      using o(3) [OF Inr] by blast
    have open_heal: "open_table table (heal_db db) = (Inr (heal_table t), heal_db db1)" using o(2) Inr by simp
    obtain q2 u db2 where q2: "select_rows request lookup t db1 = (q2, u, db2)"
      by (cases "select_rows request lookup t db1") auto
    note s = select_rows_or_fault [OF q2]
    have files: "same_files db db2" using same_files_trans [OF o(1) s(1)] .
    have close: "close_table table u db2 = db2" "close_table table (heal_table u) (heal_db db2) = heal_db db2"
      by (rule close_table_clean [of bs]; use s(2) [OF bs(2)] bs(1) files in \<open>simp add: same_files_def\<close>)+
    have res: "r = and_then (map_err QE_Table q2) (present_rows schema plan)" "db' = db2"
      using run by (simp_all add: body_def on_database_def q Inr q2 close)
    from s(3) show ?thesis
    proof
      assume "\<exists>e. q2 = Inl e \<and> te_fault e"
      then show ?thesis using files res by auto
    next
      assume "select_rows request lookup (heal_table t) (heal_db db1) = (q2, heal_table u, heal_db db2)"
      then show ?thesis
        using files by (simp add: body_def on_database_def open_heal close res)
    qed
  qed
  then show "same_files db db'" and "(\<exists>e. r = Inl e \<and> qe_fault e) \<or> body lookup (heal_db db) = (r, heal_db db')" by auto
qed

lemma execute_select_or_fault:
  assumes run: "execute_select request db = (r, db')"
  shows "same_files db db' \<and> ((\<exists>e. r = Inl e \<and> qe_fault e) \<or> execute_select request (heal_db db) = (r, heal_db db'))"
proof (cases "load_schema (sr_table request) db")
  case (Inl e)
  then show ?thesis using run by (auto simp: execute_select_def Let_def same_files_def same_catalogs_def)
next
  case (Inr schema)
  note schema = Inr
  show ?thesis
  proof (cases "validate_filter (sr_table request) schema (sr_filter request)")
    case (Inl e)
    then show ?thesis using run schema by (auto simp: execute_select_def Let_def same_files_def same_catalogs_def)
  next
    case valid: (Inr u)
    show ?thesis
    proof (cases "resolve_select_plan (sr_table request) schema request")
      case (Inl e)
      then show ?thesis using run schema valid by (auto simp: execute_select_def Let_def same_files_def same_catalogs_def)
    next
      case (Inr plan)
      show ?thesis
        using select_body_or_fault [where table = "sr_table request" and request = request and plan = plan and schema = schema
            and db = db and r = r and db' = db'] run schema valid Inr
        by (simp add: execute_select_def Let_def)
    qed
  qed
qed

end
