(* ===== verification/Fault_Insert.thy ===== *)
theory Fault_Insert
  imports Fault_Drops Fault_Queries
begin

section \<open>An acknowledged insertion that is lost\<close>

text \<open>
  An insertion changes a page in the buffer pool of the table it has opened; nothing flushes the
  pool before the request returns.  The page is written when the table is dropped, and the drop
  ignores failures.  So there are faults under which the insertion is acknowledged with the
  identifier of the new row, and the database is as it was before.
\<close>

definition pf_sched :: "nat option list \<Rightarrow> page_file \<Rightarrow> page_file" where
  "pf_sched fs f = f\<lparr>pf_io := (pf_io f)\<lparr>io_faults := fs\<rparr>\<rparr>"

definition rf_sched :: "nat option list \<Rightarrow> record_file \<Rightarrow> record_file" where
  "rf_sched fs f = f\<lparr>rf_pool := map_files (pf_sched fs) (rf_pool f)\<rparr>"

text \<open>A page file without pending faults and with nothing to write, the page \<open>x\<close> in its cache.\<close>

definition at_rest :: "u8 list \<Rightarrow> u32 option \<Rightarrow> page_file \<Rightarrow> bool" where
  "at_rest bs x f \<longleftrightarrow> clean_pf bs f \<and> io_faults (pf_io f) = [] \<and> pf_loaded_page_id f = x \<and>
     (\<forall>pid. x = Some pid \<longrightarrow> pid < pf_num_pages f) \<and> FILE_HEADER_SIZE + unat (pf_num_pages f) * PAGE_SIZE \<le> length bs"

lemma pf_sched_simps [simp]:
  "pf_header (pf_sched fs f) = pf_header f" "pf_loaded_page_id (pf_sched fs f) = pf_loaded_page_id f"
  "pf_loaded_page (pf_sched fs f) = pf_loaded_page f" "pf_loaded_page_dirty (pf_sched fs f) = pf_loaded_page_dirty f"
  "io_bytes (pf_io (pf_sched fs f)) = io_bytes (pf_io f)" "io_faults (pf_io (pf_sched fs f)) = fs"
  by (simp_all add: pf_sched_def)

lemma page_open_sched:
  assumes "page_open (io_of bs) = Inr pf"
  shows "page_open \<lparr>io_bytes = bs, io_faults = None # None # fs\<rparr> = Inr (pf_sched fs pf)" and "at_rest bs None pf"
proof -
  have len: "io_len (io_of bs) = (Inr (length bs), io_of bs)"
    "io_len \<lparr>io_bytes = bs, io_faults = None # None # fs\<rparr> = (Inr (length bs), \<lparr>io_bytes = bs, io_faults = None # fs\<rparr>)"
    by (simp_all add: io_len_def io_of_def)
  have read: "read_exact_at 0 buf (io_of bs) = (if length buf \<le> length bs
      then (Inr (), take (length buf) bs, io_of bs) else (Inl UnexpectedEof, put_at 0 bs buf, io_of bs))"
    "read_exact_at 0 buf \<lparr>io_bytes = bs, io_faults = None # fs\<rparr> = (if length buf \<le> length bs
      then (Inr (), take (length buf) bs, \<lparr>io_bytes = bs, io_faults = fs\<rparr>)
      else (Inl UnexpectedEof, put_at 0 bs buf, \<lparr>io_bytes = bs, io_faults = fs\<rparr>))" for buf
    by (simp_all add: read_exact_at_def io_of_def bytes_at_def)
  show "page_open \<lparr>io_bytes = bs, io_faults = None # None # fs\<rparr> = Inr (pf_sched fs pf)"
    using assms by (auto simp: page_open_def len read pf_sched_def split: if_splits) (auto simp: io_of_def)
  show "at_rest bs None pf"
    using assms by (auto simp: page_open_def len read at_rest_def clean_pf_def split: if_splits) (simp_all add: io_of_def)
qed

lemma load_page_sched:
  assumes f: "at_rest bs x f" and x: "x \<noteq> Some pid" and run: "load_page pid f = (Inr (), g)"
  shows "load_page pid (pf_sched (None # fs) f) = (Inr (), pf_sched fs g)" and "at_rest bs (Some pid) g"
proof -
  have flush: "flush_loaded_page f = (Inr (), f)" "flush_loaded_page (pf_sched (None # fs) f) = (Inr (), pf_sched (None # fs) f)"
    using f by (simp_all add: at_rest_def clean_pf_def flush_loaded_page_def split: option.split)
  have range: "ensure_page_id_in_range pid f = Inr ()" "pid < pf_num_pages f"
    using run by (auto simp: load_page_def ensure_page_id_in_range_def split: if_splits)
  obtain r buf io where io: "read_exact_at (4096 + unat pid * 4096) (pf_loaded_page f) (pf_io f) = (r, buf, io)"
    by (cases "read_exact_at (4096 + unat pid * 4096) (pf_loaded_page f) (pf_io f)") auto
  have g: "r = Inr ()" "g = f\<lparr>pf_loaded_page := buf, pf_io := io, pf_loaded_page_id := Some pid, pf_loaded_page_dirty := False\<rparr>"
    using run x f by (cases r; auto simp: load_page_def range flush io at_rest_def)+
  have io': "io = pf_io f" "read_exact_at (4096 + unat pid * 4096) (pf_loaded_page f) (pf_io (pf_sched (None # fs) f)) =
      (Inr (), buf, pf_io (pf_sched fs f))"
    using io g(1) f by (auto simp: read_exact_at_def at_rest_def pf_sched_def split: if_splits)
  show "load_page pid (pf_sched (None # fs) f) = (Inr (), pf_sched fs g)"
    using x f range flush(2) io'
    by (simp add: load_page_def ensure_page_id_in_range_def at_rest_def g(2)) (simp add: pf_sched_def)
  show "at_rest bs (Some pid) g" using f range(2) by (simp add: at_rest_def clean_pf_def g(2) io'(1))
qed

lemma read_page_sched:
  assumes f: "at_rest bs x f" and x: "x \<noteq> Some pid" and run: "read_page pid f = (Inr d, g)"
  shows "read_page pid (pf_sched (None # fs) f) = (Inr d, pf_sched fs g)" and "at_rest bs (Some pid) g"
proof -
  obtain h where h: "load_page pid f = (Inr (), h)" "ensure_current_page_is_used pid h = Inr ()" "d = page_data h" "g = h"
    using run by (auto simp: read_page_def and_then_st_Inr_iff)
  have "ensure_current_page_is_used pid (pf_sched fs h) = Inr ()" "page_data (pf_sched fs h) = page_data h"
    using h(2) by (simp_all add: ensure_current_page_is_used_def current_page_header_def page_data_def)
  then show "read_page pid (pf_sched (None # fs) f) = (Inr d, pf_sched fs g)" "at_rest bs (Some pid) g"
    using load_page_sched [OF f x h(1)] h(3,4) by (simp_all add: read_page_def)
qed

subsection \<open>The pool\<close>

text \<open>A pool with one file, that has a free frame and does not hold the page \<open>pid\<close>.\<close>

definition fresh_for :: "u32 \<Rightarrow> u8 list \<Rightarrow> u32 option \<Rightarrow> u32 \<Rightarrow> buffer_pool \<Rightarrow> bool" where
  "fresh_for fid bs x pid s \<longleftrightarrow> bp_free_list s \<noteq> [] \<and> bp_page_table s \<lparr>bk_file_id = fid, bk_page_id = pid\<rparr> = None \<and>
     x \<noteq> Some pid \<and> (\<exists>pf. bp_files s = [fid \<mapsto> pf] \<and> at_rest bs x pf)"

lemma fetch_sched:
  fixes b :: bool
  assumes s: "fresh_for fid bs x pid s"
  defines "key \<equiv> \<lparr>bk_file_id = fid, bk_page_id = pid\<rparr>"
  defines "fetch \<equiv> \<lambda>s. and_then_st (acquire_frame s) (\<lambda>i s. and_then_st (read_page_data key s) (\<lambda>data s.
    and_then_st (install_frame i key data b s) (\<lambda>_ s. (Inr i, s))))"
  assumes run: "fetch s = (Inr i, t)"
  shows "fetch (map_files (pf_sched (None # fs)) s) = (Inr i, map_files (pf_sched fs) t)"
    and "bp_free_list t = butlast (bp_free_list s)" and "bp_page_table t = (bp_page_table s)(key \<mapsto> i)"
    and "\<exists>g. bp_files t = [fid \<mapsto> g] \<and> at_rest bs (Some pid) g"
proof -
  have free: "bp_free_list s \<noteq> []" "bp_page_table s key = None" "x \<noteq> Some pid"
    using s by (simp_all add: fresh_for_def key_def)
  obtain pf where pf: "bp_files s = [fid \<mapsto> pf]" "at_rest bs x pf" using s by (auto simp: fresh_for_def)
  define s1 where "s1 = link_head (last (bp_free_list s)) (s\<lparr>bp_free_list := butlast (bp_free_list s)\<rparr>)"
  have acquire: "acquire_frame s = (Inr (last (bp_free_list s)), s1)"
    "acquire_frame (map_files h s) = (Inr (last (bp_free_list s)), map_files h s1)" for h
    using free(1) by (simp_all add: acquire_frame_def s1_def Let_def)
  have s1: "bp_files s1 = bp_files s" "bp_page_table s1 = bp_page_table s" "bp_free_list s1 = butlast (bp_free_list s)"
    by (simp_all add: s1_def link_head_def Let_def split: option.split)
  obtain d s2 where s2: "read_page_data key s1 = (Inr d, s2)" "install_frame i key d b s2 = (Inr (), t)" "i = last (bp_free_list s)"
    using run by (auto simp: fetch_def acquire(1) and_then_st_Inr_iff)
  obtain g where g: "read_page pid pf = (Inr d, g)" "s2 = s1\<lparr>bp_files := [fid \<mapsto> g]\<rparr>"
    using s2(1) pf(1) s1(1) by (auto simp: read_page_data_def on_file_def key_def split: prod.splits)
  note r = read_page_sched [OF pf(2) free(3) g(1)]
  have "(map_files (pf_sched (None # fs)) s1)\<lparr>bp_files := [fid \<mapsto> pf_sched fs g]\<rparr> = map_files (pf_sched fs) s2"
    by (simp add: g(2) map_files_def fun_eq_iff)
  then have "read_page_data key (map_files (pf_sched (None # fs)) s1) = (Inr d, map_files (pf_sched fs) s2)"
    using pf(1) s1(1) r(1) by (simp add: read_page_data_def on_file_def key_def map_files_def fun_upd_def fun_eq_iff cong: if_cong)
  then show "fetch (map_files (pf_sched (None # fs)) s) = (Inr i, map_files (pf_sched fs) t)"
    using s2(2,3) by (simp add: fetch_def acquire(2) map_files_install)
  have t: "bp_free_list t = bp_free_list s2" "bp_files t = bp_files s2" "bp_page_table t = (bp_page_table s2)(key \<mapsto> i)"
    using s2(2) by (auto simp: install_frame_def Let_def touch_def link_head_def unlink_def split: if_splits option.splits)
  then show "bp_free_list t = butlast (bp_free_list s)" "bp_page_table t = (bp_page_table s)(key \<mapsto> i)"
    "\<exists>g. bp_files t = [fid \<mapsto> g] \<and> at_rest bs (Some pid) g"
    using g(2) s1 r(2) by auto
qed

subsection \<open>The record file\<close>

lemma rf_sched_simps [simp]:
  "rf_header (rf_sched fs f) = rf_header f" "rf_file_id (rf_sched fs f) = rf_file_id f"
  "rf_pool (rf_sched fs f) = map_files (pf_sched fs) (rf_pool f)"
  by (simp_all add: rf_sched_def)

lemma guard_drop_fields [simp]:
  "bp_free_list (guard_drop i s) = bp_free_list s" "bp_page_table (guard_drop i s) = bp_page_table s"
  by (simp_all add: guard_drop_def unpin_frame_def touch_def link_head_def unlink_def Let_def split: option.split)

lemma open_records_sched:
  assumes pf: "at_rest bs None pf" and f: "open_records pf DEFAULT_BUFFER_CAPACITY = Inr f"
  shows "open_records (pf_sched (None # fs) pf) DEFAULT_BUFFER_CAPACITY = Inr (rf_sched fs f)"
    and "pid \<noteq> 0 \<Longrightarrow> fresh_for (rf_file_id f) bs (Some 0) pid (rf_pool f)"
proof -
  define s where "s = (pool_new DEFAULT_BUFFER_CAPACITY)\<lparr>bp_next_file_id := 1, bp_files := [0 \<mapsto> pf]\<rparr>"
  have reg: "register_file pf (pool_new DEFAULT_BUFFER_CAPACITY) = (Inr 0, s)"
    "register_file (pf_sched (None # fs) pf) (pool_new DEFAULT_BUFFER_CAPACITY) = (Inr 0, map_files (pf_sched (None # fs)) s)"
    by (simp_all add: register_file_def pool_new_def s_def checked_add_u32_def map_files_def fun_eq_iff)
  have fresh: "fresh_for 0 bs None 0 s"
    using pf by (auto simp: fresh_for_def s_def pool_new_def DEFAULT_BUFFER_CAPACITY_def)
  have unmapped: "bp_page_table s k = None" for k by (simp add: s_def pool_new_def)
  obtain i t where t: "get_page 0 0 s = (Inr i, t)"
    using f by (auto simp: open_records_def Let_def reg split: prod.splits sum.splits if_splits)
  note fetch = fetch_sched [OF fresh t [unfolded get_page_def Let_def unmapped option.case]]
  have t': "get_page 0 0 (map_files (pf_sched (None # fs)) s) = (Inr i, map_files (pf_sched fs) t)"
    using fetch(1) by (simp add: get_page_def unmapped)
  obtain h k where h: "record_header_decode (bytes_at 0 RECORD_FILE_HEADER_SIZE (guard_read i t)) = Inr h"
    "checked_add_u32 (rh_num_pages h) 1 = Some k" "\<not> pf_num_pages pf < k" "pf_num_pages pf \<noteq> 0"
    and res: "f = \<lparr>rf_pool = guard_drop i t, rf_file_id = 0, rf_header = h, rf_header_dirty = False\<rparr>"
    using f by (auto simp: open_records_def Let_def reg t split: if_splits)
  show "open_records (pf_sched (None # fs) pf) DEFAULT_BUFFER_CAPACITY = Inr (rf_sched fs f)"
    using h by (simp add: open_records_def Let_def reg(2) t' rf_sched_def res)
  assume "pid \<noteq> 0"
  then have "fresh_for 0 bs (Some 0) pid (guard_drop i t)"
    using fetch(2-4) by (auto simp: fresh_for_def s_def pool_new_def DEFAULT_BUFFER_CAPACITY_def)
  then show "fresh_for (rf_file_id f) bs (Some 0) pid (rf_pool f)" by (simp add: res)
qed

lemma insert_record_sched:
  assumes f: "fresh_for (rf_file_id f) bs x (rf_first_free f) (rf_pool f)" and p: "rf_first_free f \<noteq> RECORD_PAGE_LIST_END"
    and run: "insert_record data f = (Inr rid, g)"
  shows "insert_record data (rf_sched (None # fs) f) = (Inr rid, rf_sched fs g)"
    and "\<exists>pf. bp_files (rf_pool g) (rf_file_id g) = Some pf \<and> at_rest bs (Some (rf_first_free f)) pf"
proof -
  let ?p = "rf_first_free f" and ?body = "insert_into_page (rf_first_free f) data"
  have len: "ensure_record_length f (length data) = Inr ()" and body_run: "with_page_mut ?p ?body f = (Inr rid, g)"
    using run p by (auto simp: insert_record_def and_then_st_Inr_iff Let_def)
  obtain i t where t: "get_page_mut (rf_file_id f) ?p (rf_pool f) = (Inr i, t)"
    using body_run by (auto simp: with_page_mut_def split: prod.splits sum.splits)
  have unmapped: "bp_page_table (rf_pool f) \<lparr>bk_file_id = rf_file_id f, bk_page_id = ?p\<rparr> = None"
    using f by (simp add: fresh_for_def)
  note fetch = fetch_sched [OF f t [unfolded get_page_mut_def Let_def unmapped option.case]]
  have t': "get_page_mut (rf_file_id f) ?p (map_files (pf_sched (None # fs)) (rf_pool f)) = (Inr i, map_files (pf_sched fs) t)"
    using fetch(1) by (simp add: get_page_mut_def unmapped)
  obtain bytes h where h: "?body (guard_read i t, f\<lparr>rf_pool := t\<rparr>) = (Inr rid, bytes, h)"
    "g = h\<lparr>rf_pool := guard_drop i (guard_write i bytes (rf_pool h))\<rparr>"
    using body_run t by (auto simp: with_page_mut_def close_guard_def split: prod.splits)
  have pool: "rf_pool h = t" using pool_blind_pool [OF blind_bodies(1) h(1)] by simp
  have h': "?body (guard_read i t, f\<lparr>rf_pool := map_files (pf_sched fs) t\<rparr>) = (Inr rid, bytes, h\<lparr>rf_pool := map_files (pf_sched fs) t\<rparr>)"
    using pool_blindD [OF blind_bodies(1) h(1), of "map_files (pf_sched fs) t"] by simp
  have "with_page_mut ?p ?body (rf_sched (None # fs) f) = (Inr rid, rf_sched fs g)"
    using t' h' by (simp add: with_page_mut_def close_guard_def rf_sched_def h(2) pool)
  moreover have "ensure_record_length (rf_sched (None # fs) f) (length data) = Inr ()"
    using len by (simp add: ensure_record_length_def split: if_splits)
  ultimately show "insert_record data (rf_sched (None # fs) f) = (Inr rid, rf_sched fs g)"
    using p by (simp add: insert_record_def Let_def)
  have "rf_file_id h = rf_file_id f"
    using h(1) by (auto simp: insert_into_page_def Let_def and_then_st_pure split: sum.splits if_splits)
  then show "\<exists>pf. bp_files (rf_pool g) (rf_file_id g) = Some pf \<and> at_rest bs (Some (rf_first_free f)) pf"
    using fetch(4) by (auto simp: h(2) pool)
qed

subsection \<open>The database\<close>

lemma insert_stored_sched:
  assumes stored: "stored_records d name = Some f" and d: "disk_healthy d"
    and p: "rf_first_free f \<noteq> 0" "rf_first_free f \<noteq> RECORD_PAGE_LIST_END" and run: "insert_record data f = (Inr r, g)"
  obtains hs f1 g1 where "record_manager_open name (d\<lparr>dk_handles := [hs]\<rparr>) = (Inr f1, d)"
    and "insert_record data f1 = (Inr r, g1)" and "drop_records name g1 d = d" and "rf_header f1 = rf_header f"
proof -
  obtain bs pf where bs: "dk_files d name = Some bs" "page_open (io_of bs) = Inr pf" "open_records pf DEFAULT_BUFFER_CAPACITY = Inr f"
    using stored by (auto simp: stored_records_iff)
  let ?dead = "[Some 0, Some 0] :: nat option list"
  note o1 = page_open_sched [OF bs(2)]
  note o2 = open_records_sched [OF o1(2) bs(3)]
  note i = insert_record_sched [OF o2(2) [OF p(1)] p(2) run]
  let ?d = "d\<lparr>dk_handles := [None # None # None # None # ?dead]\<rparr>"
  have d0: "dk_faults d = []" "dk_handles d = []" using d by (simp_all add: disk_healthy_def)
  have "disk_open name ?d = (Inr \<lparr>io_bytes = bs, io_faults = None # None # None # None # ?dead\<rparr>, d)"
    using bs(1) d0 by (simp add: disk_open_def dk_fault_def dk_handle_def)
  then have open_f: "record_manager_open name ?d = (Inr (rf_sched (None # ?dead) f), d)"
    using o1(1) o2(1) by (simp add: record_manager_open_def page_manager_open_def)
  obtain pf' where pf': "bp_files (rf_pool g) (rf_file_id g) = Some pf'" "at_rest bs (Some (rf_first_free f)) pf'"
    using i(2) by blast
  have "frozen_rf bs 2 (rf_sched ?dead g)"
    using pf' by (auto simp: frozen_rf_def frozen_pool_def frozen_def at_rest_def clean_pf_def numeral_2_eq_2)
  then obtain pf2 where pf2: "record_file_drop (rf_sched ?dead g) = Some pf2" "io_bytes (pf_io pf2) = bs"
    by (rule record_file_drop_frozen)
  have "drop_records name (rf_sched ?dead g) d = d"
    using pf2 bs(1) by (simp add: drop_records_def dk_put_def fun_upd_idem)
  then show thesis by (rule that [OF open_f i(1)]) simp
qed

end
