(* ===== verification/Fault_Catalog.thy ===== *)
theory Fault_Catalog
  imports Fault_Queries
begin

section \<open>A catalog whose write is cut off\<close>

text \<open>
  The catalog of tables is rewritten in place.  When the write fails, the file may hold any
  prefix of the new text.  Opening such a file gives an error or a catalog that holds only the
  first tables of the saved one: a table whose entry is cut off is never read wrongly, because
  its end line is missing, but whole entries are lost without notice.
\<close>

subsection \<open>Prefixes of rendered lines\<close>

lemma lines_from_plain: "newline \<notin> set l \<Longrightarrow> lines_from acc l = (if acc @ l = [] then [] else [acc @ l])"
  by (induction l arbitrary: acc) auto

lemma str_lines_append:
  "list_all plain_line ls \<Longrightarrow> newline \<notin> set p \<Longrightarrow> str_lines (render_lines ls @ p) = ls @ (if p = [] then [] else [p])"
proof (induction ls)
  case (Cons l ls)
  then have "str_lines (l @ newline # (render_lines ls @ p)) = l # str_lines (render_lines ls @ p)"
    unfolding str_lines_def by (subst lines_from_line) (simp_all add: plain_line_def strip_return_plain)
  then show ?case using Cons by simp
qed (simp add: str_lines_def lines_from_plain)

text \<open>The lines of a text that was cut: whole lines, and a part of the next one.\<close>

definition cut_lines :: "string list \<Rightarrow> string list \<Rightarrow> bool" where
  "cut_lines ls xs \<longleftrightarrow> (\<exists>k. xs = take k ls) \<or>
     (\<exists>k j. k < length ls \<and> take j (ls ! k) \<noteq> [] \<and> xs = take k ls @ [take j (ls ! k)])"

lemma cut_lines_Nil: "cut_lines [] xs \<longleftrightarrow> xs = []"
  by (simp add: cut_lines_def)

lemma cut_lines_Cons:
  "cut_lines (l # ls) xs \<longleftrightarrow> xs = [] \<or> (\<exists>j. take j l \<noteq> [] \<and> xs = [take j l]) \<or> (\<exists>ys. xs = l # ys \<and> cut_lines ls ys)"
proof
  assume "cut_lines (l # ls) xs"
  then consider k where "xs = take k (l # ls)"
    | k j where "k < length (l # ls)" "take j ((l # ls) ! k) \<noteq> []" "xs = take k (l # ls) @ [take j ((l # ls) ! k)]"
    unfolding cut_lines_def by blast
  then show "xs = [] \<or> (\<exists>j. take j l \<noteq> [] \<and> xs = [take j l]) \<or> (\<exists>ys. xs = l # ys \<and> cut_lines ls ys)"
  proof cases
    case (1 k)
    then show ?thesis by (cases k) (auto simp: cut_lines_def)
  next
    case (2 k j)
    then show ?thesis by (cases k) (auto simp: cut_lines_def)
  qed
next
  assume "xs = [] \<or> (\<exists>j. take j l \<noteq> [] \<and> xs = [take j l]) \<or> (\<exists>ys. xs = l # ys \<and> cut_lines ls ys)"
  then consider "xs = []" | j where "take j l \<noteq> []" "xs = [take j l]" | ys where "xs = l # ys" "cut_lines ls ys" by blast
  then show "cut_lines (l # ls) xs"
  proof cases
    case 1
    then have "xs = take 0 (l # ls)" by simp
    then show ?thesis unfolding cut_lines_def by blast
  next
    case (2 j)
    then have "0 < length (l # ls) \<and> take j ((l # ls) ! 0) \<noteq> [] \<and> xs = take 0 (l # ls) @ [take j ((l # ls) ! 0)]" by simp
    then show ?thesis unfolding cut_lines_def by blast
  next
    case (3 ys)
    from 3(2) consider k where "ys = take k ls"
      | k j where "k < length ls" "take j (ls ! k) \<noteq> []" "ys = take k ls @ [take j (ls ! k)]"
      unfolding cut_lines_def by blast
    then show ?thesis
    proof cases
      case (1 k)
      then have "xs = take (Suc k) (l # ls)" using 3(1) by simp
      then show ?thesis unfolding cut_lines_def by blast
    next
      case (2 k j)
      then have "Suc k < length (l # ls) \<and> take j ((l # ls) ! Suc k) \<noteq> [] \<and>
        xs = take (Suc k) (l # ls) @ [take j ((l # ls) ! Suc k)]" using 3(1) by simp
      then show ?thesis unfolding cut_lines_def by blast
    qed
  qed
qed

lemma cut_text:
  assumes "list_all plain_line ls"
  shows "cut_lines ls (str_lines (take n (render_lines ls)))"
  using assms
proof (induction ls arbitrary: n)
  case (Cons l ls)
  then have l: "newline \<notin> set l" "carriage_return \<notin> set l" by (simp_all add: plain_line_def)
  show ?case
  proof (cases "n \<le> length l")
    case True
    have "newline \<notin> set (take n l)" using l(1) by (meson in_set_takeD)
    then have "str_lines (take n (render_lines (l # ls))) = (if take n l = [] then [] else [take n l])"
      using True by (simp add: str_lines_def lines_from_plain)
    then show ?thesis by (auto simp: cut_lines_Cons)
  next
    case False
    then have "take n (render_lines (l # ls)) = l @ newline # take (n - Suc (length l)) (render_lines ls)"
      by (simp add: take_Cons')
    moreover have "str_lines (l @ newline # rest) = l # str_lines rest" for rest
      using l by (simp add: str_lines_def lines_from_line strip_return_plain)
    ultimately show ?thesis using Cons by (auto simp: cut_lines_Cons)
  qed
qed (simp add: cut_lines_Nil str_lines_def)

subsection \<open>The loop over the lines of a catalog that was cut\<close>

lemma catalog_line_opens:
  assumes "q \<noteq> []" and "hd q \<noteq> CHR ''e''"
  shows "(\<exists>e. catalog_line (str_split tab q) (m, c) = Inl e) \<or> (\<exists>t. catalog_line (str_split tab q) (m, c) = Inr (m, Some t))"
proof -
  have first: "str_split tab q = [kind] \<Longrightarrow> kind \<noteq> ''end''" for kind
    using assms by (cases q) (auto split: if_splits list.splits)
  have push: "(\<exists>e. push_column name ty (m, c) = Inl e) \<or> (\<exists>t. push_column name ty (m, c) = Inr (m, Some t))" for name ty
    by (cases c; cases ty) (auto simp: push_column_def)
  show ?thesis
    using first push by (cases "(str_split tab q, (m, c))" rule: catalog_line.cases) auto
qed

lemma catalog_loop_append: "catalog_loop (xs @ ys) st = and_then (catalog_loop xs st) (catalog_loop ys)"
proof (induction xs arbitrary: st)
  case (Cons x xs)
  then show ?case by (cases "catalog_line (str_split tab x) st") auto
qed simp

lemma column_line_hd: "hd (column_line c) = CHR ''c''"
  by (simp add: column_line_def split: column_type.split)

text \<open>Within the entry of a table, up to its end line.\<close>

lemma catalog_loop_cut_columns:
  assumes "\<forall>c \<in> set cs. plain_field (cs_name c) \<and> (\<forall>n. cs_type c = CT_Char n \<longrightarrow> n < 2 ^ 64)"
    and "cut_lines (map column_line cs @ ''end'' # ls) xs"
  shows "(\<exists>e. catalog_loop xs (m, Some t) = Inl e) \<or> (\<exists>t'. catalog_loop xs (m, Some t) = Inr (m, Some t')) \<or>
    (\<exists>ys. xs = map column_line cs @ ''end'' # ys \<and> cut_lines ls ys)"
  using assms
proof (induction cs arbitrary: xs t)
  case Nil
  from Nil(2) consider "xs = []" | j where "take j ''end'' \<noteq> []" "xs = [take j ''end'']"
    | ys where "xs = ''end'' # ys" "cut_lines ls ys"
    by (auto simp: cut_lines_Cons)
  then show ?case
  proof cases
    case (2 j)
    then consider "xs = [''e'']" | "xs = [''en'']" | "xs = [''end'']"
      by (cases j; cases "j - 1"; cases "j - 2") auto
    then show ?thesis by cases (use cut_lines_def [of ls "[]"] in \<open>auto simp: exI [of _ 0]\<close>)
  qed auto
next
  case (Cons c cs)
  have line: "catalog_line (str_split tab (column_line c)) (m, Some t) = Inr (m, Some (t\<lparr>ts_columns := ts_columns t @ [c]\<rparr>))"
    using Cons.prems(1) by (intro column_line_parse) auto
  from Cons.prems(2) consider "xs = []" | j where "take j (column_line c) \<noteq> []" "xs = [take j (column_line c)]"
    | ys where "xs = column_line c # ys" "cut_lines (map column_line cs @ ''end'' # ls) ys"
    by (auto simp: cut_lines_Cons)
  then show ?case
  proof cases
    case (2 j)
    have "hd (take j (column_line c)) = CHR ''c''" using 2(1) column_line_hd [of c] by (cases "column_line c"; cases j) auto
    then have "hd (take j (column_line c)) \<noteq> CHR ''e''" by simp
    from catalog_line_opens [OF 2(1) this, of m "Some t"] show ?thesis using 2 by auto
  next
    case (3 ys)
    then have "catalog_loop xs (m, Some t) = catalog_loop ys (m, Some (t\<lparr>ts_columns := ts_columns t @ [c]\<rparr>))"
      using line by (simp add: column_line_not_Nil)
    then show ?thesis using Cons.IH [OF _ 3(2)] Cons.prems(1) 3(1) by auto
  qed auto
qed

lemma catalog_loop_cut:
  "catalog_ok (m @ m') \<Longrightarrow> cut_lines (catalog_file_lines m') xs \<Longrightarrow>
     (\<exists>e. catalog_loop xs (m, None) = Inl e) \<or> (\<exists>n t. catalog_loop xs (m, None) = Inr (n, Some t)) \<or>
     (\<exists>k. catalog_loop xs (m, None) = Inr (m @ take k m', None))"
proof (induction m' arbitrary: m xs)
  case Nil
  then show ?case by (simp add: catalog_file_lines_def bt_values_def cut_lines_Nil)
next
  case (Cons e m')
  obtain k t where e: "e = (k, t)" by fastforce
  have ok: "bt_ok (m @ (k, t) # m')" "k = ts_name t" "schema_ok t"
    using Cons.prems e by (auto simp: catalog_ok_def)
  have name: "plain_field (ts_name t)" using ok(3) by (simp add: schema_ok_def identifier_plain)
  then have split: "str_split tab (tabbed [''table'', ts_name t]) = [''table'', ts_name t]"
    by (intro str_split_tabbed) simp_all
  have cols: "\<forall>c \<in> set (ts_columns t). plain_field (cs_name c) \<and> (\<forall>n. cs_type c = CT_Char n \<longrightarrow> n < 2 ^ 64)"
    using column_facts [OF ok(3)] by blast
  let ?rest = "catalog_file_lines m'" and ?head = "tabbed [''table'', ts_name t]"
  have lines: "catalog_file_lines (e # m') = ?head # map column_line (ts_columns t) @ ''end'' # ?rest"
    by (simp add: e catalog_file_lines_def bt_values_def table_lines_def del: tabbed.simps)
  from Cons.prems(2) consider "xs = []" | j where "take j ?head \<noteq> []" "xs = [take j ?head]"
    | ys where "xs = ?head # ys" "cut_lines (map column_line (ts_columns t) @ ''end'' # ?rest) ys"
    unfolding lines by (auto simp: cut_lines_Cons simp del: tabbed.simps)
  then show ?case
  proof cases
    case 1
    then show ?thesis by (auto intro: exI [of _ 0])
  next
    case (2 j)
    have "hd (take j ?head) = CHR ''t''" using 2(1) by (cases j) auto
    then have "hd (take j ?head) \<noteq> CHR ''e''" by simp
    from catalog_line_opens [OF 2(1) this, of m None] show ?thesis using 2 by (auto simp del: tabbed.simps)
  next
    case (3 ys)
    let ?t0 = "\<lparr>ts_name = ts_name t, ts_columns = []\<rparr>"
    have "?head \<noteq> []" by simp
    then have run: "catalog_loop xs (m, None) = catalog_loop ys (m, Some ?t0)"
      using split 3(1) by (simp del: tabbed.simps str_split.simps)
    from catalog_loop_cut_columns [OF cols 3(2), of m ?t0] consider e where "catalog_loop ys (m, Some ?t0) = Inl e"
      | t' where "catalog_loop ys (m, Some ?t0) = Inr (m, Some t')"
      | zs where "ys = map column_line (ts_columns t) @ ''end'' # zs" "cut_lines ?rest zs" by blast
    then show ?thesis
    proof cases
      case (3 zs)
      have "xs = table_lines t @ zs" using \<open>xs = ?head # ys\<close> 3(1) by (simp add: table_lines_def del: tabbed.simps)
      then have "catalog_loop xs (m, None) = catalog_loop zs (bt_insert (ts_name t) t m, None)"
        using catalog_loop_table [OF ok(3)] by simp
      moreover have "bt_insert k t m = m @ [(k, t)]" using bt_ok_append [OF ok(1)] by (intro bt_insert_last) blast
      ultimately have step: "catalog_loop xs (m, None) = catalog_loop zs (m @ [(k, t)], None)" using ok(2) by simp
      have "catalog_ok ((m @ [(k, t)]) @ m')" using Cons.prems(1) e by simp
      from Cons.IH [OF this 3(2)] show ?thesis
      proof (elim disjE exE)
        fix i
        assume "catalog_loop zs (m @ [(k, t)], None) = Inr ((m @ [(k, t)]) @ take i m', None)"
        then have "catalog_loop xs (m, None) = Inr (m @ take (Suc i) (e # m'), None)" using step e by simp
        then show ?thesis by blast
      qed (use step in auto)
    qed (use run in auto)
  qed
qed

subsection \<open>Saving and opening\<close>

lemma catalog_ok_take: "catalog_ok m \<Longrightarrow> catalog_ok (take k m)"
  using append_take_drop_id [of k m] by (auto simp: catalog_ok_def bt_ok_def take_map [symmetric] sorted_wrt_take dest: in_set_takeD)

lemma parse_cut_catalog:
  assumes m: "catalog_ok m" and cut: "cut_lines (CATALOG_HEADER # catalog_file_lines m) xs"
  defines "result \<equiv> (case xs of [] \<Rightarrow> Inr [] | h # ls \<Rightarrow> if h = CATALOG_HEADER then parse_catalog ls
    else Inl (CatalogCorrupted ''unexpected catalog header''))"
  shows "(\<exists>e. result = Inl e) \<or> (\<exists>k. result = Inr (take k m))"
proof -
  from cut consider "xs = []" | j where "xs = [take j CATALOG_HEADER]"
    | ys where "xs = CATALOG_HEADER # ys" "cut_lines (catalog_file_lines m) ys"
    by (auto simp: cut_lines_Cons)
  then show ?thesis
  proof cases
    case 1
    then show ?thesis by (auto simp: result_def intro: exI [of _ 0])
  next
    case (2 j)
    then show ?thesis by (auto simp: result_def parse_catalog_def intro: exI [of _ 0])
  next
    case (3 ys)
    have "catalog_ok ([] @ m)" using m by simp
    from catalog_loop_cut [OF this 3(2)] show ?thesis using 3(1) by (auto simp: result_def parse_catalog_def)
  qed
qed

lemma catalog_load_cut:
  assumes d: "disk_healthy d" and m: "catalog_ok m"
    and cut: "dk_files d catalog_path = Some (take n (as_bytes (table_cat.file_text m)))"
  shows "\<exists>r. catalog_load d = (r, d) \<and> ((\<exists>e. r = Inl e) \<or> (\<exists>k. r = Inr (take k m)))"
proof -
  let ?cut = "take n (as_bytes (table_cat.file_text m))"
  have bytes: "?cut = as_bytes (take n (table_cat.file_text m))" by (simp add: as_bytes_def take_map)
  have exists: "path_exists catalog_path d" using cut by (simp add: path_exists_def)
  show ?thesis
  proof (cases "from_utf8 ?cut")
    case None
    then have "fs_read_to_string catalog_path d = (Inl InvalidData, d)"
      using d cut by (simp add: fs_read_to_string_def)
    then show ?thesis using exists by (simp add: catalog_load_def)
  next
    case (Some str)
    then have str: "str = take n (table_cat.file_text m)" by (simp add: bytes from_utf8_Some)
    then have read: "fs_read_to_string catalog_path d = (Inr str, d)"
      using d cut Some by (simp add: fs_read_to_string_def)
    have "list_all plain_line (CATALOG_HEADER # catalog_file_lines m)"
      using table_cat.header_plain table_cat.lines_plain [OF m] by simp
    then have "cut_lines (CATALOG_HEADER # catalog_file_lines m) (str_lines str)"
      unfolding str table_cat.file_text_def by (rule cut_text)
    then show ?thesis using read exists parse_cut_catalog [OF m] by (simp add: catalog_load_def)
  qed
qed

text \<open>A save on a device that fails at some call.\<close>

lemma catalog_save_cases:
  obtains fs' where "catalog_save m (d\<lparr>dk_faults := fs\<rparr>) =
      (Inr (), dk_put catalog_path (as_bytes (table_cat.file_text m)) (d\<lparr>dk_faults := fs'\<rparr>))"
  | fs' where "catalog_save m (d\<lparr>dk_faults := fs\<rparr>) = (Inl (TE_Io DeviceFault), d\<lparr>dk_faults := fs'\<rparr>)"
  | n fs' where "catalog_save m (d\<lparr>dk_faults := fs\<rparr>) =
      (Inl (TE_Io DeviceFault), dk_put catalog_path (take n (as_bytes (table_cat.file_text m))) (d\<lparr>dk_faults := fs'\<rparr>))"
proof -
  obtain x fs' where "take_fault fs = (x, fs')" by (cases "take_fault fs")
  then have "catalog_save m (d\<lparr>dk_faults := fs\<rparr>) = (case x of
      None \<Rightarrow> (Inr (), dk_put catalog_path (as_bytes (table_cat.file_text m)) (d\<lparr>dk_faults := fs'\<rparr>))
    | Some 0 \<Rightarrow> (Inl (TE_Io DeviceFault), d\<lparr>dk_faults := fs'\<rparr>)
    | Some (Suc n) \<Rightarrow>
        (Inl (TE_Io DeviceFault), dk_put catalog_path (take n (as_bytes (table_cat.file_text m))) (d\<lparr>dk_faults := fs'\<rparr>)))"
    by (simp add: catalog_save_def fs_write_def dk_fault_def table_cat.file_text_def split: option.split nat.split)
  then show thesis by (auto intro: that split: option.splits nat.splits)
qed

lemma catalog_cut_at_table:
  assumes d: "disk_healthy d" and m: "catalog_ok m"
  obtains n d' where "catalog_save m (d\<lparr>dk_faults := [Some n]\<rparr>) = (Inl (TE_Io DeviceFault), d')"
    and "catalog_load d' = (Inr (take k m), d')"
proof -
  let ?rest = "render_lines (catalog_file_lines (drop k m))" and ?text = "table_cat.file_text (take k m)"
  have "catalog_file_lines m = catalog_file_lines (take k m) @ catalog_file_lines (drop k m)"
    unfolding catalog_file_lines_def bt_values_def concat_append [symmetric] map_append [symmetric] append_take_drop_id ..
  then have parts: "table_cat.file_text m = ?text @ ?rest" by (simp add: table_cat.file_text_def)
  let ?d' = "dk_put catalog_path (as_bytes ?text) d"
  have "d\<lparr>dk_faults := []\<rparr> = d" using d by (simp add: disk_healthy_def)
  then have "catalog_save m (d\<lparr>dk_faults := [Some (Suc (length ?text))]\<rparr>) = (Inl (TE_Io DeviceFault), ?d')"
    using parts by (simp add: catalog_save_def fs_write_def dk_fault_def table_cat.file_text_def)
  moreover have "catalog_load ?d' = (Inr (take k m), ?d')"
    by (rule catalog_load_ok [OF _ _ catalog_ok_take [OF m]]) (use d in simp_all)
  ultimately show thesis by (rule that)
qed

end
