(* ===== verification/Fault_Isolation.thy ===== *)
theory Fault_Isolation
  imports Fault_Queries
begin

section \<open>Which files a modification touches\<close>

text \<open>
  Whatever calls fail and wherever they are cut off, an insertion, an update or a deletion writes
  to the file of its table and to the files of its indexes, and to no other file; and it keeps
  the catalogs.  That holds for failing requests too.
\<close>

definition own_files :: "database \<Rightarrow> string \<Rightarrow> string set" where
  "own_files db name = insert (table_path name) (index_files (set (indexes_for_table name (db_indexes db))))"

definition confined :: "string set \<Rightarrow> database \<Rightarrow> database \<Rightarrow> bool" where
  "confined A db db' \<longleftrightarrow> same_catalogs db db' \<and> (\<forall>p. p \<notin> A \<longrightarrow> dk_files (db_disk db') p = dk_files (db_disk db) p)"

named_theorems confined_rules "operations that touch certain files only"

lemma confined_refl [confined_rules]: "confined A db db"
  by (simp add: confined_def same_catalogs_def)

lemma confined_trans: "confined A db1 db2 \<Longrightarrow> confined A db2 db3 \<Longrightarrow> confined A db1 db3"
  by (auto simp: confined_def same_catalogs_def)

lemma confined_mono: "confined A db db' \<Longrightarrow> A \<subseteq> B \<Longrightarrow> confined B db db'"
  by (auto simp: confined_def)

lemma confined_same_files: "same_files db db' \<Longrightarrow> confined A db db'"
  by (simp add: confined_def same_files_def)

lemma confined_file: "confined A db db' \<Longrightarrow> p \<notin> A \<Longrightarrow> dk_files (db_disk db') p = dk_files (db_disk db) p"
  by (simp add: confined_def)

lemma confined_bind:
  assumes "confined A db (snd (m db))" and "\<And>x db'. m db = (Inr x, db') \<Longrightarrow> confined A db' (snd (k x db'))"
  shows "confined A db (snd (and_then_st (m db) k))"
proof (cases "m db")
  case (Pair r db')
  then show ?thesis using assms by (cases r) (auto intro: confined_trans)
qed

subsection \<open>Tables\<close>

lemma close_table_confined: "table_path name \<in> A \<Longrightarrow> confined A db (close_table name t db)"
  by (auto simp: confined_def same_catalogs_def close_table_def drop_records_def dk_put_def split: option.split)

lemma open_table_confined: "confined A db (snd (open_table name db))"
  by (cases "open_table name db") (simp add: confined_same_files [OF open_table_or_fault(1)])

lemma with_table_confined: "table_path name \<in> A \<Longrightarrow> confined A db (snd (with_table name body db))"
  unfolding with_table_def
  by (rule confined_bind) (auto simp: open_table_confined close_table_confined split: prod.split)

lemma on_database_snd [simp]: "snd (on_database m db) = snd (m db)"
  by (simp add: on_database_def split: prod.split)

subsection \<open>Indexes\<close>

lemma fs_write_elsewhere: "p \<noteq> name \<Longrightarrow> dk_files (snd (fs_write name text d)) p = dk_files d p"
  by (cases rule: dk_fault_cases [of d]) (auto simp: fs_write_def dk_put_def split: nat.split)

lemma replace_index_elsewhere:
  assumes stored: "dk_files d (index_file_path (im_name meta)) = Some (as_bytes (index_file.file_text (meta, es0)))"
    and meta: "meta_ok meta" and p: "p \<noteq> index_file_path (im_name meta)"
  shows "dk_files (snd (replace_index_entries (im_name meta) es d)) p = dk_files d p"
proof -
  obtain q d1 where q: "load_index_file (im_name meta) d = (q, d1)" by (cases "load_index_file (im_name meta) d")
  have d1: "dk_files d1 = dk_files d" using load_index_file_files [of "im_name meta" d] q by simp
  have "disk_healthy (heal_disk d)" by (simp add: disk_healthy_def)
  then have ok: "load_index_file (im_name meta) (heal_disk d) = (Inr (meta, sort_key entry_order es0), heal_disk d)"
    using load_index_file_ok [OF _ _ meta] stored by simp
  show ?thesis
  proof (cases q)
    case (Inr x)
    then have "fst x = meta" using or_faultD [OF load_index_file_or_fault q] ok by auto
    moreover have "dk_files (snd (write_index_file meta es d1)) p = dk_files d p"
      using fs_write_elsewhere [OF p, of "render_lines (index_file_lines meta es)" d1] d1
      by (simp add: write_index_file_def case_prod_beta)
    ultimately show ?thesis using Inr q by (cases x) (simp add: replace_index_entries_def)
  qed (simp add: replace_index_entries_def q d1)
qed

lemma rebuild_index_confined:
  assumes idx: "index_catalog_ok (db_indexes db)" and meta: "meta \<in> set (bt_values (db_indexes db))"
    and stored: "index_stored (db_disk db) meta es0"
  shows "confined {table_path (im_table meta), index_file_path (im_name meta)} db (snd (rebuild_index (im_name meta) db))"
    (is "confined ?A _ _")
proof -
  obtain r db1 where r: "open_table (im_table meta) db = (r, db1)" by (cases "open_table (im_table meta) db")
  have opened: "confined ?A db db1" using open_table_confined [of ?A db "im_table meta"] r by simp
  have find: "find (\<lambda>x. im_name x = im_name meta) (index_catalog_list (db_indexes db)) = Some meta"
    using index_meta_in(3) [OF idx meta] .
  show ?thesis
  proof (cases r)
    case (Inl e)
    then show ?thesis using opened r find by (simp add: rebuild_index_def)
  next
    case (Inr t)
    obtain q t' where q: "index_entries_for_int32_column (im_column meta) t = (q, t')"
      by (cases "index_entries_for_int32_column (im_column meta) t")
    show ?thesis
    proof (cases q)
      case (Inl e)
      then show ?thesis
        using opened confined_trans [OF opened close_table_confined] r find Inr q by (simp add: rebuild_index_def)
    next
      case entries: (Inr es)
      obtain x d where x: "replace_index_entries (im_name meta) es (db_disk db1) = (x, d)"
        by (cases "replace_index_entries (im_name meta) es (db_disk db1)")
      have "same_files db db1" using open_table_or_fault(1) [OF r] .
      then have "dk_files (db_disk db1) (index_file_path (im_name meta)) = Some (as_bytes (index_file.file_text (meta, es0)))"
        using stored by (simp add: index_stored_def same_files_def)
      from replace_index_elsewhere [OF this index_meta_in(2) [OF idx meta], of _ es] x
      have "confined ?A db1 (db1\<lparr>db_disk := d\<rparr>)" by (auto simp: confined_def same_catalogs_def)
      then have "confined ?A db (close_table (im_table meta) t' (db1\<lparr>db_disk := d\<rparr>))"
        using opened close_table_confined [of "im_table meta" ?A] confined_trans by blast
      then show ?thesis using r find Inr q entries x by (simp add: rebuild_index_def on_dir_def)
    qed
  qed
qed

lemma rebuild_all_confined:
  assumes "index_catalog_ok (db_indexes db)" and "set metas \<subseteq> set (indexes_for_table name (db_indexes db))"
    and "distinct (map im_name metas)" and "\<forall>meta \<in> set metas. \<exists>es. index_stored (db_disk db) meta es"
  shows "confined (own_files db name) db (snd (rebuild_all metas db))"
  using assms
proof (induction metas arbitrary: db)
  case Nil
  then show ?case by (simp add: confined_refl)
next
  case (Cons meta metas)
  have meta: "meta \<in> set (bt_values (db_indexes db))" "im_table meta = name"
    using Cons.prems(2) by (auto simp: indexes_for_table_def)
  obtain es where "index_stored (db_disk db) meta es" using Cons.prems(4) by auto
  note step = rebuild_index_confined [OF Cons.prems(1) meta(1) this, unfolded meta(2)]
  have own: "{table_path name, index_file_path (im_name meta)} \<subseteq> own_files db name"
    using Cons.prems(2) by (auto simp: own_files_def index_files_def)
  have "confined (own_files db name) db (snd (and_then_st (rebuild_index (im_name meta) db) (\<lambda>_. rebuild_all metas)))"
  proof (rule confined_bind)
    show "confined (own_files db name) db (snd (rebuild_index (im_name meta) db))" by (rule confined_mono [OF step own])
    fix u db1
    assume "rebuild_index (im_name meta) db = (Inr u, db1)"
    then have db1: "confined {table_path name, index_file_path (im_name meta)} db db1" using step by simp
    then have same: "db_indexes db1 = db_indexes db" by (simp add: confined_def same_catalogs_def)
    have "index_stored (db_disk db1) x es = index_stored (db_disk db) x es" if "x \<in> set metas" for x es
    proof -
      have "im_name x \<in> im_name ` set metas" using that by simp
      then have "im_name x \<noteq> im_name meta" using Cons.prems(3) by auto
      then show ?thesis using confined_file [OF db1, of "index_file_path (im_name x)"] by (simp add: index_stored_def)
    qed
    then have "confined (own_files db1 name) db1 (snd (rebuild_all metas db1))"
      using Cons.prems same by (intro Cons.IH) simp_all
    then show "confined (own_files db name) db1 (snd (rebuild_all metas db1))" by (simp add: own_files_def same)
  qed
  then show ?case by simp
qed

lemma rebuild_indexes_confined:
  assumes idx: "index_catalog_ok (db_indexes db)"
    and stored: "\<forall>meta \<in> set (bt_values (db_indexes db)). \<exists>es. index_stored (db_disk db) meta es"
  shows "confined (own_files db name) db (snd (rebuild_indexes_for_table name db))"
  unfolding rebuild_indexes_for_table_def
proof (rule rebuild_all_confined [OF idx subset_refl])
  show "distinct (map im_name (indexes_for_table name (db_indexes db)))"
    using index_names_distinct [OF idx] by (auto simp: indexes_for_table_def distinct_map intro: inj_on_subset)
qed (use stored in \<open>auto simp: indexes_for_table_def\<close>)

subsection \<open>Modifications\<close>

text \<open>A change of a table with the rebuilding of its indexes, as the three requests have it.\<close>

lemma modify_confined:
  assumes db: "db_ok (heal_db db) T n"
  shows "confined (own_files db name) db (snd (and_then_st (on_database (with_table name body) db) (\<lambda>x db.
    and_then_st (on_database (rebuild_indexes_for_table name) db) (\<lambda>_ db. (Inr x, db)))))"
proof (rule confined_bind)
  have own: "table_path name \<in> own_files db name" by (simp add: own_files_def)
  show "confined (own_files db name) db (snd (on_database (with_table name body) db))"
    using with_table_confined [OF own] by simp
  fix x db1
  assume run: "on_database (with_table name body) db = (Inr x, db1)"
  have "confined {table_path name} db (snd (with_table name body db))" by (rule with_table_confined) simp
  moreover have "snd (with_table name body db) = db1" using arg_cong [OF run, of snd] by simp
  ultimately have db1: "confined {table_path name} db db1" by simp
  then have same: "db_indexes db1 = db_indexes db" by (simp add: confined_def same_catalogs_def)
  note D = db_holdsD [OF db_ok_holds [OF db]]
  have "\<exists>es. index_stored (db_disk db1) meta es" if "meta \<in> set (bt_values (db_indexes db1))" for meta
    using D(8) [of meta] that same confined_file [OF db1, of "index_file_path (im_name meta)"] by (auto simp: index_stored_def)
  then have "confined (own_files db1 name) db1 (snd (rebuild_indexes_for_table name db1))"
    using D(4) same by (intro rebuild_indexes_confined) simp_all
  then have rebuilt: "confined (own_files db name) db1 (snd (on_database (rebuild_indexes_for_table name) db1))"
    by (simp add: own_files_def same)
  show "confined (own_files db name) db1 (snd (and_then_st (on_database (rebuild_indexes_for_table name) db1) (\<lambda>_ db. (Inr x, db))))"
  proof (cases "on_database (rebuild_indexes_for_table name) db1")
    case (Pair r db2)
    then show ?thesis using rebuilt by (cases r) simp_all
  qed
qed

lemma pure_step:
  "(\<And>x. r = Inr x \<Longrightarrow> confined A db (snd (k x db))) \<Longrightarrow> confined A db (snd (and_then_st (r, db) k))"
  by (cases r) (simp_all add: confined_refl)

lemma execute_insert_confined:
  "db_ok (heal_db db) T n \<Longrightarrow> confined (own_files db (ir_table request)) db (snd (execute_insert request db))"
  unfolding execute_insert_def Let_def by (intro pure_step modify_confined)

lemma execute_update_confined:
  "db_ok (heal_db db) T n \<Longrightarrow> confined (own_files db (ur_table request)) db (snd (execute_update request db))"
  unfolding execute_update_def Let_def by (intro pure_step modify_confined)

lemma execute_delete_confined:
  "db_ok (heal_db db) T n \<Longrightarrow> confined (own_files db (dr_table request)) db (snd (execute_delete request db))"
  unfolding execute_delete_def Let_def by (intro pure_step modify_confined)

text \<open>The other tables and their indexes are as before.\<close>

definition others_intact :: "content \<Rightarrow> nat \<Rightarrow> string \<Rightarrow> database \<Rightarrow> bool" where
  "others_intact T n name db \<longleftrightarrow>
     (\<forall>other s. other \<noteq> name \<and> map_of (db_catalog db) other = Some s \<longrightarrow> table_stored (db_disk db) s (T other) n) \<and>
     (\<forall>meta \<in> set (bt_values (db_indexes db)). im_table meta \<noteq> name \<longrightarrow>
        index_stored (db_disk db) meta (current_entries (db_catalog db) T meta))"

lemma confined_others:
  assumes db: "db_ok (heal_db db) T n" and c: "confined (own_files db name) db db'"
  shows "others_intact T n name db'"
proof -
  note D = db_holdsD [OF db_ok_holds [OF db]]
  have same: "db_catalog db' = db_catalog db" "db_indexes db' = db_indexes db"
    using c by (simp_all add: confined_def same_catalogs_def)
  show ?thesis
    unfolding others_intact_def
  proof (intro conjI allI impI ballI)
    fix other s
    assume o: "other \<noteq> name \<and> map_of (db_catalog db') other = Some s"
    then have s: "map_of (db_catalog (heal_db db)) other = Some s" using same by simp
    have "table_path other \<notin> own_files db name" using o by (simp add: own_files_def)
    then have "dk_files (db_disk db') (table_path (ts_name s)) = dk_files (db_disk (heal_db db)) (table_path (ts_name s))"
      using confined_file [OF c] D(6) [OF s] by simp
    then show "table_stored (db_disk db') s (T other) n" using table_stored_cong D(5) [OF s] by blast
  next
    fix meta
    assume m: "meta \<in> set (bt_values (db_indexes db'))" "im_table meta \<noteq> name"
    then have meta: "meta \<in> set (bt_values (db_indexes (heal_db db)))" using same by simp
    have "im_name meta \<noteq> im_name x" if x: "x \<in> set (indexes_for_table name (db_indexes db))" for x
    proof
      assume eq: "im_name meta = im_name x"
      have "x \<in> set (bt_values (db_indexes (heal_db db)))" using x by (simp add: indexes_for_table_def)
      then have "x = meta" using meta eq index_meta_in(1) [OF D(4)] by (metis option.inject)
      then show False using m(2) x by (simp add: indexes_for_table_def)
    qed
    then have "index_file_path (im_name meta) \<notin> own_files db name" by (auto simp: own_files_def index_files_def)
    then show "index_stored (db_disk db') meta (current_entries (db_catalog db') T meta)"
      using confined_file [OF c] D(8) [OF meta] same by (simp add: index_stored_def)
  qed
qed

end
