(* ===== verification/Fault_Properties.thy ===== *)
theory Fault_Properties
  imports Fault_Insert Fault_Catalog Fault_Isolation
begin

section \<open>Properties of the program on a device that may fail\<close>

text \<open>
  What a caller can rely on when calls to the operating system fail, and what the code does not
  ensure.  The faults are those of the disk: any call may fail, and a failing write may have
  written any prefix.
\<close>

text \<open>C14: No operation of a record file passes over a fault.  On a file whose pages are read and written with any faults
  whatever, an insertion, a read, an update, a deletion, a flush and a step of a scan return an error that reports the
  fault, or their result and the file they leave are those of a run without faults.\<close>

theorem record_operations_report_faults:
  "or_fault heal_rf re_fault (insert_record data) \<and> or_fault heal_rf re_fault (get_record r) \<and>
   or_fault heal_rf re_fault (update_record r data) \<and> or_fault heal_rf re_fault (delete_record r) \<and>
   or_fault heal_rf re_fault flush_records \<and> or_fault (apsnd heal_rf) re_fault next_record"
  by (intro conjI fault_rules)

text \<open>C11: A selection reads what the database holds or reports the fault: whatever calls to the operating system fail,
  the result is an error that reports a failed call, or exactly the rows that the request asks for; and the files and
  the catalogs are as before.\<close>

theorem select_reports_faults:
  assumes db: "db_ok (heal_db db) T n" and s: "map_of (db_catalog db) (sr_table request) = Some s"
  shows "\<exists>r db'. execute_select request db = (r, db') \<and> same_files db db' \<and>
    ((\<exists>e. r = Inl e \<and> qe_fault e) \<or>
     (if select_ok (ts_columns s) request
      then r = Inr \<lparr>ps_schema = s,
             ps_columns = map (\<lambda>n. ts_columns s ! position_of (ts_columns s) n) (projected_names (ts_columns s) (sr_projection request)),
             ps_rows = presented (ts_columns s) request (rows_at (T (sr_table request))
               (selected (ts_columns s) (sr_filter request) (T (sr_table request))))\<rparr>
      else \<exists>e. r = Inl e))"
proof -
  obtain r db' where run: "execute_select request db = (r, db')" by (cases "execute_select request db")
  have s': "map_of (db_catalog (heal_db db)) (sr_table request) = Some s" using s by (simp add: heal_db_def)
  note F = execute_select_or_fault [OF run]
  show ?thesis
  proof (cases "execute_select request (heal_db db) = (r, heal_db db')")
    case True
    show ?thesis
    proof (cases "select_ok (ts_columns s) request")
      case ok: True
      show ?thesis by (rule execute_select_ok [OF db s' ok]) (use True F run ok in auto)
    next
      case bad: False
      show ?thesis by (rule execute_select_refused [OF db s' bad]) (use True F run bad in auto)
    qed
  qed (use F run in auto)
qed

theorem select_reports_faults_witness:
  "\<exists>db r db'. dk_faults (db_disk db) = [None, Some 0] \<and> execute_select select_by_id db = (r, db') \<and> same_files db db' \<and>
     ((\<exists>e. r = Inl e \<and> qe_fault e) \<or> (\<exists>result. r = Inr result \<and> ps_rows result = [[V_Char ''Ann'']]))"
proof -
  obtain db0 r0 where db0: "db_ok db0 ((\<lambda>_. Map.empty)(''student'' := [r0 \<mapsto> student_row])) 1"
    "db_catalog db0 = [(''student'', student_schema)]" "db_indexes db0 = [(''by_id'', by_id)]"
    by (rule filled_database)
  let ?db = "db0\<lparr>db_disk := (db_disk db0)\<lparr>dk_faults := [None, Some 0]\<rparr>\<rparr>"
  have "disk_healthy (db_disk db0)" using db_holdsD(1) [OF db_ok_holds [OF db0(1)]] .
  then have "heal_db ?db = db0" by (simp add: heal_db_def heal_disk_def disk_healthy_def)
  then have db: "db_ok (heal_db ?db) ((\<lambda>_. Map.empty)(''student'' := [r0 \<mapsto> student_row])) 1" using db0(1) by simp
  have s: "map_of (db_catalog ?db) (sr_table select_by_id) = Some student_schema" using db0(2) by (simp add: select_by_id_def)
  have "sr_table select_by_id = ''student''" by (simp add: select_by_id_def)
  then show ?thesis
    using select_reports_faults [OF db s] select_by_id_ok select_by_id_rows [of r0]
    by (intro exI [where x = ?db]) fastforce
qed

text \<open>C12: A modification stays within its table, whatever fails: an insertion, an update or a deletion, accepted, refused or
  cut off at any call, writes to the file of its table and to the files of that table's indexes only, keeps the
  catalogs, and leaves the rows of every other table and the entries of its indexes as they were.\<close>

theorem modifications_isolated:
  assumes "db_ok (heal_db db) T n"
  shows "(case execute_insert ins db of (_, db') \<Rightarrow>
      confined (own_files db (ir_table ins)) db db' \<and> others_intact T n (ir_table ins) db') \<and>
    (case execute_update up db of (_, db') \<Rightarrow>
      confined (own_files db (ur_table up)) db db' \<and> others_intact T n (ur_table up) db') \<and>
    (case execute_delete del db of (_, db') \<Rightarrow>
      confined (own_files db (dr_table del)) db db' \<and> others_intact T n (dr_table del) db')"
  using execute_insert_confined [OF assms, of ins] execute_update_confined [OF assms, of up]
    execute_delete_confined [OF assms, of del] confined_others [OF assms]
  by (auto split: prod.split)

theorem modifications_isolated_witness:
  "\<exists>db. dk_faults (db_disk db) = [None, Some 7] \<and> db_catalog db = [(''student'', student_schema)] \<and>
     (case execute_delete \<lparr>dr_table = ''student'', dr_filter = None\<rparr> db of (_, db') \<Rightarrow>
        confined (own_files db ''student'') db db' \<and> table_path ''course'' \<notin> own_files db ''student'')"
proof -
  obtain db0 r0 where db0: "db_ok db0 ((\<lambda>_. Map.empty)(''student'' := [r0 \<mapsto> student_row])) 1"
    "db_catalog db0 = [(''student'', student_schema)]" "db_indexes db0 = [(''by_id'', by_id)]"
    by (rule filled_database)
  let ?db = "db0\<lparr>db_disk := (db_disk db0)\<lparr>dk_faults := [None, Some 7]\<rparr>\<rparr>"
  have "disk_healthy (db_disk db0)" using db_holdsD(1) [OF db_ok_holds [OF db0(1)]] .
  then have "heal_db ?db = db0" by (simp add: heal_db_def heal_disk_def disk_healthy_def)
  then have db: "db_ok (heal_db ?db) ((\<lambda>_. Map.empty)(''student'' := [r0 \<mapsto> student_row])) 1" using db0(1) by simp
  have "case execute_delete \<lparr>dr_table = ''student'', dr_filter = None\<rparr> ?db of (_, db') \<Rightarrow> confined (own_files ?db ''student'') ?db db'"
    using modifications_isolated [OF db, where del = "\<lparr>dr_table = ''student'', dr_filter = None\<rparr>"] by auto
  moreover have "table_path ''course'' \<notin> own_files ?db ''student''" by (simp add: own_files_def)
  ultimately show ?thesis using db0(2) by (intro exI [where x = ?db]) (auto split: prod.splits)
qed

subsection \<open>What the code does not ensure\<close>

text \<open>C18: A failed save of the catalog of tables leaves the file as it was, or a file that opens with an error or
  as the first tables of the catalog, each with its schema; and every number of first tables is possible, so
  that the other tables are gone although the file opens.\<close>

theorem torn_catalog_prefix:
  assumes d: "disk_healthy d" and m: "catalog_ok m"
  shows "(case catalog_save m (d\<lparr>dk_faults := fs\<rparr>) of
      (Inr _, d') \<Rightarrow> catalog_load (heal_disk d') = (Inr m, heal_disk d')
    | (Inl _, d') \<Rightarrow> dk_files d' = dk_files d \<or> (\<exists>r. catalog_load (heal_disk d') = (r, heal_disk d') \<and>
        ((\<exists>e. r = Inl e) \<or> (\<exists>k. r = Inr (take k m))))) \<and>
    (\<exists>n d'. catalog_save m (d\<lparr>dk_faults := [Some n]\<rparr>) = (Inl (TE_Io DeviceFault), d') \<and>
      catalog_load d' = (Inr (take k m), d'))"
proof (rule conjI)
  have healthy: "disk_healthy (heal_disk e)" for e by (simp add: disk_healthy_def)
  have files: "dk_files (heal_disk e) = dk_files e" for e by (simp add: heal_disk_def)
  show "case catalog_save m (d\<lparr>dk_faults := fs\<rparr>) of
      (Inr _, d') \<Rightarrow> catalog_load (heal_disk d') = (Inr m, heal_disk d')
    | (Inl _, d') \<Rightarrow> dk_files d' = dk_files d \<or> (\<exists>r. catalog_load (heal_disk d') = (r, heal_disk d') \<and>
        ((\<exists>e. r = Inl e) \<or> (\<exists>k. r = Inr (take k m))))"
  proof (cases rule: catalog_save_cases [where m = m and d = d and fs = fs])
    case (1 fs')
    then show ?thesis using catalog_load_ok [OF healthy _ m] by (simp add: files)
  next
    case (3 n fs')
    then show ?thesis using catalog_load_cut [OF healthy m] by (simp add: files)
  qed simp
  show "\<exists>n d'. catalog_save m (d\<lparr>dk_faults := [Some n]\<rparr>) = (Inl (TE_Io DeviceFault), d') \<and>
      catalog_load d' = (Inr (take k m), d')"
    by (rule catalog_cut_at_table [OF d m]) blast
qed

theorem torn_catalog_prefix_witness:
  "\<exists>n d'. catalog_save [(''student'', student_schema)] (empty_disk\<lparr>dk_faults := [Some n]\<rparr>) = (Inl (TE_Io DeviceFault), d') \<and>
     catalog_load d' = (Inr [], d')"
proof -
  have "catalog_ok [(''student'', student_schema)]"
    using student_schema_ok by (simp add: catalog_ok_def bt_ok_def student_columns)
  from torn_catalog_prefix [OF empty_disk_healthy this, of _ 0] show ?thesis by simp
qed

text \<open>C19: An insertion that the engine acknowledges can be lost.  The record file writes its pages back when it is
  dropped, and the drop ignores errors: for every insertion into a page with a free slot there are faults on the one
  handle of the table's file for which the engine returns an identifier and the table is as it was before, without
  the row.\<close>

theorem acknowledged_insert_lost:
  assumes db: "db_ok db T n" and s: "map_of (db_catalog db) (ir_table request) = Some s"
    and ok: "insert_ok (ts_columns s) (ir_input request)" and room: "n < 2147483647"
    and stored: "stored_records (db_disk db) (table_path (ir_table request)) = Some f"
    and free: "rf_first_free f \<noteq> RECORD_PAGE_LIST_END"
  shows "\<exists>hs r db'. execute_insert request (db\<lparr>db_disk := (db_disk db)\<lparr>dk_handles := [hs]\<rparr>\<rparr>) = (Inr r, db') \<and>
    T (ir_table request) r = None \<and> db_ok db' T n"
proof -
  let ?name = "ir_table request" and ?vs = "input_row (ts_columns s) (ir_input request)"
  note D = db_holdsD [OF db_ok_holds [OF db]]
  have schema: "schema_ok s" and name: "ts_name s = ?name" using D(6) [OF s] by simp_all
  have fits: "row_fits (ts_columns s) ?vs" using ok by (simp add: insert_ok_def)
  obtain t where t: "open_table ?name db = (Inr t, db)" "table_holds t s (T ?name) n"
    by (rule open_table_ok [OF db_ok_holds [OF db] s])
  have tb: "t = \<lparr>tb_schema = s, tb_layout = layout_of s, tb_file = f\<rparr>"
    using t(1) s compile_schema_ok [OF schema] record_manager_open_healthy [OF D(1) stored] by (simp add: open_table_def on_dir_def)
  obtain r t' where r: "table_insert ?vs t = (Inr r, t')" "T ?name r = None"
    by (rule table_insert_ok [OF t(2) fits room])
  obtain data where data: "encode_row (layout_of s) ?vs = Inr data"
    using r(1) by (auto simp: table_insert_def tb and_then_st_Inr_iff)
  obtain q g where q: "insert_record data f = (q, g)" by (cases "insert_record data f")
  have g: "encode_row (layout_of s) ?vs = Inr data" "insert_record data f = (Inr r, g)"
    using r(1) data q by (simp_all add: table_insert_def on_records_def tb)
  have first: "rf_first_free f \<noteq> 0"
  proof -
    obtain m ps where "rf_chain f ps" using t(2) by (auto simp: tb elim: table_holdsE)
    then show ?thesis using free by (cases ps) (auto simp: rf_chain_def)
  qed
  obtain hs f1 g1 where run: "record_manager_open (table_path ?name) ((db_disk db)\<lparr>dk_handles := [hs]\<rparr>) = (Inr f1, db_disk db)"
    "insert_record data f1 = (Inr r, g1)" "drop_records (table_path ?name) g1 (db_disk db) = db_disk db"
    by (rule insert_stored_sched [OF stored D(1) first free g(2)])
  let ?db = "db\<lparr>db_disk := (db_disk db)\<lparr>dk_handles := [hs]\<rparr>\<rparr>"
  have body: "on_database (with_table ?name (table_insert ?vs)) ?db = (Inr r, db)"
    using s compile_schema_ok [OF schema] run g(1)
    by (simp add: on_database_def with_table_def open_table_def on_dir_def table_insert_def on_records_def close_table_def)
  have "T(?name := T ?name) = T" by simp
  then obtain db' where db': "rebuild_indexes_for_table ?name db = (Inr (), db')" "db_ok db' T n"
    using rebuild_indexes_ok [of db T ?name "T ?name" n] db_ok_holds [OF db] by metis
  have "load_schema ?name ?db = Inr s" using load_schema_ok [of ?db ?name s] s by simp
  then have "execute_insert request ?db = (Inr r, db')"
    using body db'(1) normalize_insert_ok [OF schema ok]
    by (simp add: execute_insert_def Let_def on_database_def)
  then show ?thesis using r(2) db'(2) by blast
qed

text \<open>A file with one record has a page with a free slot.\<close>

lemma one_record_first_free:
  assumes f: "holds_records f rs R n" and R: "dom R = {r}" and ns: "compute_slots_per_page rs = Inr ns" "2 \<le> ns"
  shows "rf_first_free f \<noteq> RECORD_PAGE_LIST_END"
proof
  assume first: "rf_first_free f = RECORD_PAGE_LIST_END"
  obtain m ps where base: "rf_base m f" and chain: "rf_chain f ps" and F: "rf_record_size f = rs" "record_map f = R"
    using f by (rule holds_recordsE)
  have slots: "rf_slots f = ns" using rf_baseD(4) [OF base] ns F(1) by simp
  have "ps = []"
  proof (rule ccontr)
    assume "ps \<noteq> []"
    then obtain p qs where ps: "ps = p # qs" by (cases ps) auto
    then have "p \<in> set ps" by simp
    then have "p \<le> rf_num_pages f" using chain unfolding rf_chain_def by blast
    then show False using small_page_ids(1) [OF rf_baseD(3) [OF base], of p] chain ps first by (simp add: rf_chain_def)
  qed
  have "record_map f r \<noteq> None" using R F(2) by auto
  then have p: "rid_page_id r \<noteq> 0" "rid_page_id r \<le> rf_num_pages f" by (auto simp: record_map_def split: if_splits)
  then have full: "rf_free_slots f (rid_page_id r) = {}" using chain \<open>ps = []\<close> by (auto simp: rf_chain_def)
  have "\<lparr>rid_page_id = rid_page_id r, rid_slot_id = of_nat i\<rparr> = r" if "i < 2" for i
  proof -
    let ?q = "\<lparr>rid_page_id = rid_page_id r, rid_slot_id = of_nat i :: u32\<rparr>"
    have "\<not> slot_is_free (page_bitmap ns (rf_page f (rid_page_id r))) i"
      using full that ns(2) by (auto simp: rf_free_slots_def free_slots_def slots)
    then have "record_map f ?q \<noteq> None"
      using p that ns(2) by (simp add: record_map_def page_slot_def slots unat_of_nat_u32)
    then have "?q \<in> dom R" using F(2) by auto
    then show ?thesis using R by simp
  qed
  from this [of 0] this [of 1] show False by (cases r) auto
qed

theorem acknowledged_insert_lost_witness:
  "\<exists>db r0 hs r db'. db_ok db ((\<lambda>_. Map.empty)(''student'' := [r0 \<mapsto> student_row])) 1 \<and>
     execute_insert \<lparr>ir_table = ''student'', ir_input = FullRow student_row\<rparr> (db\<lparr>db_disk := (db_disk db)\<lparr>dk_handles := [hs]\<rparr>\<rparr>) =
       (Inr r, db') \<and>
     db_ok db' ((\<lambda>_. Map.empty)(''student'' := [r0 \<mapsto> student_row])) 1"
proof -
  obtain db r0 where db: "db_ok db ((\<lambda>_. Map.empty)(''student'' := [r0 \<mapsto> student_row])) 1"
    "db_catalog db = [(''student'', student_schema)]" "db_indexes db = [(''by_id'', by_id)]"
    by (rule filled_database)
  let ?request = "\<lparr>ir_table = ''student'', ir_input = FullRow student_row\<rparr>"
  have s: "map_of (db_catalog db) (ir_table ?request) = Some student_schema" using db(2) by simp
  have ok: "insert_ok (ts_columns student_schema) (ir_input ?request)"
    using student_row_fits by (simp add: insert_ok_def input_row_def)
  have "table_stored (db_disk db) student_schema [r0 \<mapsto> student_row] 1"
    using db_holdsD(5) [OF db_ok_holds [OF db(1)] s] by simp
  then obtain f where f: "stored_records (db_disk db) (table_path (ir_table ?request)) = Some f"
    "holds_records f 12 (row_map_bytes (ts_columns student_schema) [r0 \<mapsto> student_row]) 1"
    by (auto simp: table_stored_def student_columns(2,3))
  have fit: "slots_fit 12 2" by (simp add: slots_fit_def bitmap_bytes_def RECORD_PAGE_HEADER_SIZE_def)
  have "\<exists>ns. compute_slots_per_page 12 = Inr ns \<and> 2 \<le> ns"
    using compute_slots_result [of 12] fit by (cases "compute_slots_per_page 12") (auto simp: not_less [symmetric])
  then obtain ns where ns: "compute_slots_per_page 12 = Inr ns" "2 \<le> ns" by blast
  have "rf_first_free f \<noteq> RECORD_PAGE_LIST_END" by (rule one_record_first_free [OF f(2) _ ns, where r = r0]) simp
  from acknowledged_insert_lost [OF db(1) s ok _ f(1) this] db(1) show ?thesis by fastforce
qed

end
