(* ===== verification/Fault_Index.thy ===== *)
theory Fault_Index
  imports Fault_Catalog
begin

section \<open>An index file whose write is cut off\<close>

text \<open>
  An index file ends with its last entry: nothing marks the end of an entry but the end of its
  line, and a last line without a newline is a line.  So when a write is cut inside the last
  number, the file opens, and the entry names another slot.
\<close>

definition cut_entry :: "index_entry \<Rightarrow> index_entry" where
  "cut_entry e = e\<lparr>ie_rid := (ie_rid e)\<lparr>rid_slot_id := of_nat (unat (rid_slot_id (ie_rid e)) div 10)\<rparr>\<rparr>"

lemma entry_line_cut:
  assumes "10 \<le> unat (rid_slot_id (ie_rid e))"
  shows "entry_line e = entry_line (cut_entry e) @ [digit_char (unat (rid_slot_id (ie_rid e)) mod 10)]"
proof -
  let ?s = "unat (rid_slot_id (ie_rid e))"
  have "?s div 10 < 4294967296" using unat_u32_less [of "rid_slot_id (ie_rid e)"] by simp
  then have "unat (of_nat (?s div 10) :: u32) = ?s div 10" by (rule unat_of_nat_u32)
  then have "show_u32 (rid_slot_id (ie_rid e)) = show_u32 (of_nat (?s div 10)) @ [digit_char (?s mod 10)]"
    using assms by (simp add: show_u32_def show_nat.simps [of ?s])
  then show ?thesis by (simp add: entry_line_def cut_entry_def)
qed

lemma index_fields_plain: "meta_ok meta \<Longrightarrow> list_all plain_line (index_fields meta)"
  unfolding index_fields_def meta_ok_def by (simp add: plain_line_tabbed del: tabbed.simps)

theorem torn_index_wrong_entry:
  assumes d: "disk_healthy d" and meta: "meta_ok meta" and es: "sort_key entry_order es = xs @ [e]"
    and slot: "10 \<le> unat (rid_slot_id (ie_rid e))"
  shows "\<exists>n d'. write_index_file meta es (d\<lparr>dk_faults := [Some n]\<rparr>) = (Inl (IE_Io DeviceFault), d') \<and>
    lookup_eq (im_name meta) (ie_key e) d' =
      (Inr (map ie_rid (filter (\<lambda>x. ie_key x = ie_key e) xs) @ [ie_rid (cut_entry e)]), d')"
proof -
  let ?head = "INDEX_FILE_HEADER # index_fields meta @ map entry_line xs" and ?last = "entry_line (cut_entry e)"
  have parts: "render_lines (index_file_lines meta es) = render_lines ?head @ ?last @ [digit_char (unat (rid_slot_id (ie_rid e)) mod 10), newline]"
    using entry_line_cut [OF slot] by (simp add: index_file_lines_fields es)
  let ?cut = "render_lines ?head @ ?last"
  let ?d' = "dk_put (index_file_path (im_name meta)) (as_bytes ?cut) d"
  have "d\<lparr>dk_faults := []\<rparr> = d" using d by (simp add: disk_healthy_def)
  then have save: "write_index_file meta es (d\<lparr>dk_faults := [Some (Suc (length ?cut))]\<rparr>) = (Inl (IE_Io DeviceFault), ?d')"
    by (simp add: write_index_file_def fs_write_def dk_fault_def parts)
  have plain: "list_all plain_line ?head"
    using index_header_plain index_fields_plain [OF meta] by (auto simp: list_all_iff entry_line_plain)
  have last: "plain_line ?last" "?last \<noteq> []" by (simp_all add: entry_line_plain entry_line_not_Nil)
  have "is_str ?cut" using is_str_render [OF plain] last(1) by (intro is_str_append) (simp_all only: plain_line_def)
  then have read: "fs_read_to_string (index_file_path (im_name meta)) ?d' = (Inr ?cut, ?d')"
    using d by (intro fs_read_healthy) simp_all
  have "str_lines ?cut = INDEX_FILE_HEADER # index_fields meta @ map entry_line (xs @ [cut_entry e])"
    using str_lines_append [OF plain, of ?last] last by (simp add: plain_line_def)
  then have load: "load_index_file (im_name meta) ?d' = (Inr (meta, xs @ [cut_entry e]), ?d')"
    using parse_index_fields [OF meta, of "xs @ [cut_entry e]"] read
    by (simp add: load_index_file_def parse_index_lines_def parse_index_body_def)
  have "sorted (map (\<lambda>e. sint (ie_key e)) (xs @ [cut_entry e]))"
    using entry_order_sorted [of es] by (simp add: es sorted_append cut_entry_def)
  from lookup_eq_loaded [OF load this, of "ie_key e"] save show ?thesis by (auto simp: cut_entry_def)
qed

end
