(* ===== verification/Fault_Ddl.thy ===== *)
theory Fault_Ddl
  imports Database_Findings
begin

section \<open>Drops that are cut off\<close>

text \<open>
  Dropping an index or a table removes files first and saves the catalogs afterwards.  When the
  save fails, the catalog on disk still names what has no file any more.  The directory opens,
  but the drop cannot be repeated, since it fails on the missing file: the name stays in the
  catalog for good.
\<close>

lemma two_calls: "dk_fault (d\<lparr>dk_faults := [None, Some 0]\<rparr>) = (None, d\<lparr>dk_faults := [Some 0]\<rparr>)"
  "dk_fault (d\<lparr>dk_faults := [Some 0]\<rparr>) = (Some 0, d\<lparr>dk_faults := []\<rparr>)"
  by (simp_all add: dk_fault_def)

text \<open>The first of two calls is the removal of a file; the second, a save, fails.\<close>

lemma remove_then_fault:
  assumes "disk_healthy d" and "dk_files d p \<noteq> None"
  defines "d' \<equiv> d\<lparr>dk_files := (dk_files d)(p := None)\<rparr>"
  shows "fs_remove_file p (d\<lparr>dk_faults := [None, Some 0]\<rparr>) = (Inr (), d'\<lparr>dk_faults := [Some 0]\<rparr>)"
    and "fs_write q text (d'\<lparr>dk_faults := [Some 0]\<rparr>) = (Inl DeviceFault, d')" and "disk_healthy d'"
  using assms by (auto simp: fs_remove_file_def fs_write_def two_calls disk_healthy_def)

lemma reopened:
  "disk_healthy (db_disk db) \<Longrightarrow> catalogs_stored (db_disk db) cat idx \<Longrightarrow>
     engine_open (db_disk db) = (Inr \<lparr>db_disk = db_disk db, db_catalog = cat, db_indexes = idx\<rparr>, db_disk db)"
  using database_open_catalogs by (simp add: engine_open_def)

subsection \<open>An index\<close>

lemma delete_missing:
  "disk_healthy d \<Longrightarrow> dk_files d (index_file_path name) = None \<Longrightarrow> delete_index_file name d = (Inl (IE_Io NotFound), d)"
  by (simp add: delete_index_file_def fs_remove_file_def)

lemma drop_indexes_missing:
  "disk_healthy (db_disk db) \<Longrightarrow> meta \<in> set metas \<Longrightarrow> dk_files (db_disk db) (index_file_path (im_name meta)) = None \<Longrightarrow>
     \<exists>e db'. drop_indexes metas db = (Inl e, db')"
proof (induction metas arbitrary: db)
  case (Cons x metas)
  show ?case
  proof (cases "dk_files (db_disk db) (index_file_path (im_name x))")
    case None
    then show ?thesis using Cons.prems(1) by (simp add: on_dir_def delete_missing)
  next
    case (Some bs)
    let ?d = "(db_disk db)\<lparr>dk_files := (dk_files (db_disk db))(index_file_path (im_name x) := None)\<rparr>"
    have delete: "delete_index_file (im_name x) (db_disk db) = (Inr (), ?d)"
      using Cons.prems(1) Some by (simp add: delete_index_file_def fs_remove_healthy)
    have "meta \<in> set metas" using Cons.prems(2,3) Some by auto
    then have "\<exists>e db'. drop_indexes metas (db\<lparr>db_disk := ?d, db_indexes := m\<rparr>) = (Inl e, db')" for m
      using Cons.prems(1,3) by (intro Cons.IH) simp_all
    then show ?thesis
      by (cases "map_of (db_indexes db) (im_name x)") (simp_all add: on_dir_def delete index_catalog_remove_def)
  qed
qed simp

theorem interrupted_drop_index:
  assumes db: "db_ok db T n" and meta: "map_of (db_indexes db) name = Some meta"
  shows "\<exists>e db1 db2. execute_drop_index name (db\<lparr>db_disk := (db_disk db)\<lparr>dk_faults := [None, Some 0]\<rparr>\<rparr>) = (Inl e, db1) \<and>
    engine_open (db_disk db1) = (Inr db2, db_disk db1) \<and> show_indexes db2 = show_indexes db \<and>
    (\<forall>key. lookup_index_eq name key db2 = (Inl (TE_Index (IE_Io NotFound)), db2)) \<and>
    (\<exists>e db3. execute_drop_index name db2 = (Inl e, db3) \<and> db_disk db3 = db_disk db2) \<and>
    (\<exists>e db3. execute_drop_table (im_table meta) db2 = (Inl e, db3))"
proof -
  note D = db_holdsD [OF db_ok_holds [OF db]]
  have m: "meta \<in> set (bt_values (db_indexes db))" "im_name meta = name"
    using meta D(4) by (auto simp: index_catalog_ok_def bt_values_def map_of_in intro!: rev_image_eqI)
  let ?p = "index_file_path name" and ?cat = "db_catalog db" and ?idx = "db_indexes db"
  have f: "dk_files (db_disk db) ?p \<noteq> None" using D(8) [OF m(1)] m(2) by (simp add: index_stored_def)
  let ?d = "(db_disk db)\<lparr>dk_files := (dk_files (db_disk db))(?p := None)\<rparr>"
  let ?db1 = "\<lparr>db_disk = ?d, db_catalog = ?cat, db_indexes = bt_remove name ?idx\<rparr>"
  let ?db2 = "\<lparr>db_disk = ?d, db_catalog = ?cat, db_indexes = ?idx\<rparr>"
  note calls = remove_then_fault [OF D(1) f]
  have first: "execute_drop_index name (db\<lparr>db_disk := (db_disk db)\<lparr>dk_faults := [None, Some 0]\<rparr>\<rparr>) =
      (Inl (QE_Table (TE_Index (IE_Io DeviceFault))), ?db1)"
    using meta m(2) calls(1,2)
    by (simp add: execute_drop_index_def drop_index_def index_catalog_remove_def on_dir_def delete_index_file_def
        index_catalog_save_def drop_index_error_def)
  have "catalogs_stored ?d ?cat ?idx" using D(2) by (simp add: catalogs_stored_put)
  then have opened: "engine_open (db_disk ?db1) = (Inr ?db2, db_disk ?db1)"
    using reopened [of ?db1] calls(3) by simp
  have gone: "disk_healthy ?d" "dk_files ?d ?p = None" using calls(3) by simp_all
  have look: "lookup_index_eq name key ?db2 = (Inl (TE_Index (IE_Io NotFound)), ?db2)" for key
    using gone by (simp add: lookup_index_eq_def on_dir_def lookup_eq_def load_index_file_def fs_read_to_string_def)
  have again: "execute_drop_index name ?db2 = (Inl (QE_Table (TE_Index (IE_Io NotFound))), ?db1)"
    using meta m(2) gone
    by (simp add: execute_drop_index_def drop_index_def index_catalog_remove_def on_dir_def delete_missing drop_index_error_def)
  have "meta \<in> set (indexes_for_table (im_table meta) ?idx)" using m(1) by (simp add: indexes_for_table_def)
  then have "\<exists>e db3. drop_indexes (indexes_for_table (im_table meta) ?idx) ?db2 = (Inl e, db3)"
    by (rule drop_indexes_missing [rotated]) (use gone m(2) in simp_all)
  moreover have "bt_contains (im_table meta) ?cat"
    using D(8) [OF m(1)] by (auto simp: index_position_def bt_contains_def split: option.splits)
  ultimately have "\<exists>e db3. execute_drop_table (im_table meta) ?db2 = (Inl e, db3)"
    by (auto simp: execute_drop_table_def drop_table_def)
  then show ?thesis using first opened look again by (auto simp: show_indexes_def list_indexes_def)
qed

subsection \<open>A table\<close>

theorem interrupted_drop_table:
  assumes db: "db_ok db T n" and s: "map_of (db_catalog db) name = Some s" and none: "indexes_for_table name (db_indexes db) = []"
  shows "\<exists>e db1 db2. execute_drop_table name (db\<lparr>db_disk := (db_disk db)\<lparr>dk_faults := [None, Some 0]\<rparr>\<rparr>) = (Inl e, db1) \<and>
    engine_open (db_disk db1) = (Inr db2, db_disk db1) \<and> show_tables db2 = show_tables db \<and>
    (\<exists>e. open_table name db2 = (Inl e, db2)) \<and> (\<exists>e. execute_drop_table name db2 = (Inl e, db2)) \<and>
    (\<forall>s'. ts_name s' = name \<longrightarrow> (\<exists>e. execute_create_table s' db2 = (Inl e, db2)))"
proof -
  note D = db_holdsD [OF db_ok_holds [OF db]]
  have schema: "ts_name s = name" "schema_ok s" using D(6) [OF s] by simp_all
  let ?p = "table_path name" and ?cat = "db_catalog db" and ?idx = "db_indexes db"
  have f: "dk_files (db_disk db) ?p \<noteq> None"
    using D(5) [OF s] schema(1) by (auto simp: table_stored_def stored_records_iff)
  let ?d = "(db_disk db)\<lparr>dk_files := (dk_files (db_disk db))(?p := None)\<rparr>"
  let ?db1 = "\<lparr>db_disk = ?d, db_catalog = bt_remove name ?cat, db_indexes = ?idx\<rparr>"
  let ?db2 = "\<lparr>db_disk = ?d, db_catalog = ?cat, db_indexes = ?idx\<rparr>"
  note calls = remove_then_fault [OF D(1) f]
  have first: "execute_drop_table name (db\<lparr>db_disk := (db_disk db)\<lparr>dk_faults := [None, Some 0]\<rparr>\<rparr>) =
      (Inl (QE_Table (TE_Io DeviceFault)), ?db1)"
    using s none calls(1,2)
    by (simp add: execute_drop_table_def drop_table_def bt_contains_def on_dir_def catalog_save_def unknown_table_def Let_def)
  have "catalogs_stored ?d ?cat ?idx" using D(2) by (simp add: catalogs_stored_put)
  then have opened: "engine_open (db_disk ?db1) = (Inr ?db2, db_disk ?db1)"
    using reopened [of ?db1] calls(3) by simp
  have gone: "disk_healthy ?d" "dk_files ?d ?p = None" using calls(3) by simp_all
  have open_fails: "open_table name ?db2 = (Inl (TE_Record (RE_PageStore (PS_Io NotFound))), ?db2)"
    using s compile_schema_ok [OF schema(2)] gone
    by (simp add: open_table_def on_dir_def record_manager_open_def page_manager_open_def disk_open_def)
  have drop_fails: "execute_drop_table name ?db2 = (Inl (QE_Table (TE_Io NotFound)), ?db2)"
    using s none gone
    by (simp add: execute_drop_table_def drop_table_def bt_contains_def on_dir_def fs_remove_file_def unknown_table_def)
  have "\<exists>e. execute_create_table s' ?db2 = (Inl e, ?db2)" if "ts_name s' = name" for s'
    using s that by (cases "compile_schema s'") (simp_all add: execute_create_table_def on_database_def create_table_def bt_contains_def)
  then show ?thesis using first opened open_fails drop_fails by (auto simp: show_tables_def)
qed

end
