(* ===== verification/Demo.thy ===== *)
theory Demo
  imports Query_Engine
begin

section \<open>The demonstration program (\<open>examples/demo.rs\<close>)\<close>

text \<open>
  The program runs one scenario on a fresh directory and prints what the engine answers.  Its
  world is the directory and the lines printed so far; between opening and closing, the engine
  takes the place of the directory.  Each part of \<open>run_demo\<close> between two headings is a function
  of its own, in the order of the source.
\<close>

subsection \<open>The world\<close>

datatype demo_error = DE_Io io_error | DE_Query query_error

text \<open>The existence of the root is part of the world, since the program asks for it.\<close>

record demo_world =
  dw_root_exists :: bool
  dw_disk :: disk
  dw_out :: "string list"

record demo_session =
  ds_engine :: database
  ds_out :: "string list"

text \<open>\<open>fs::remove_dir_all\<close>: all files go, or the call fails without effect.\<close>

definition fs_remove_dir_all :: "disk \<Rightarrow> (io_error + unit) \<times> disk" where
  "fs_remove_dir_all d =
     (case dk_fault d of (Some _, d) \<Rightarrow> (Inl DeviceFault, d) | (None, d) \<Rightarrow> (Inr (), d\<lparr>dk_files := Map.empty\<rparr>))"

definition println :: "string \<Rightarrow> demo_session \<Rightarrow> demo_session" where
  "println l s = s\<lparr>ds_out := ds_out s @ [l]\<rparr>"

definition step_lines :: "string \<Rightarrow> string list" where
  "step_lines title = [[], ''== '' @ title @ '' =='']"

definition print_step :: "string \<Rightarrow> demo_session \<Rightarrow> demo_session" where
  "print_step title s = s\<lparr>ds_out := ds_out s @ step_lines title\<rparr>"

text \<open>A call of the engine.\<close>

definition with_engine :: "(database \<Rightarrow> (query_error + 'a) \<times> database) \<Rightarrow> demo_session \<Rightarrow> (query_error + 'a) \<times> demo_session" where
  "with_engine m s = (case m (ds_engine s) of (r, db) \<Rightarrow> (r, s\<lparr>ds_engine := db\<rparr>))"

subsection \<open>Formatting\<close>

fun join_strings :: "string \<Rightarrow> string list \<Rightarrow> string" where
  "join_strings sep [] = []"
| "join_strings sep [x] = x"
| "join_strings sep (x # y # xs) = x @ sep @ join_strings sep (y # xs)"

text \<open>
  \<open>{:.1}\<close> of an \<open>f32\<close>: the exact value of the bit pattern in tenths, rounded to the nearest and at
  a tie to the even one, with the sign of the pattern.
\<close>

definition f32_fraction :: "f32 \<Rightarrow> nat" where
  "f32_fraction x = unat x mod 2 ^ 23"

definition f32_exponent :: "f32 \<Rightarrow> nat" where
  "f32_exponent x = unat x div 2 ^ 23 mod 2 ^ 8"

definition f32_negative :: "f32 \<Rightarrow> bool" where
  "f32_negative x \<longleftrightarrow> 2 ^ 31 \<le> unat x"

definition round_half_even :: "nat \<Rightarrow> nat \<Rightarrow> nat" where
  "round_half_even n d =
     (let q = n div d; r = n mod d
      in if d < 2 * r \<or> 2 * r = d \<and> odd q then q + 1 else q)"

definition f32_tenths :: "f32 \<Rightarrow> nat" where
  "f32_tenths x =
     (let m = (if f32_exponent x = 0 then f32_fraction x else 2 ^ 23 + f32_fraction x);
          e = (if f32_exponent x = 0 then 1 else f32_exponent x)
      in if 150 \<le> e then 10 * m * 2 ^ (e - 150) else round_half_even (10 * m) (2 ^ (150 - e)))"

definition show_f32_1 :: "f32 \<Rightarrow> string" where
  "show_f32_1 x =
     (if f32_exponent x = 255 \<and> f32_fraction x \<noteq> 0 then ''NaN''
      else (if f32_negative x then ''-'' else []) @
        (if f32_exponent x = 255 then ''inf''
         else show_nat (f32_tenths x div 10) @ ''.'' @ show_nat (f32_tenths x mod 10)))"

definition format_column_type :: "column_type \<Rightarrow> string" where
  "format_column_type ty =
     (case ty of CT_Int32 \<Rightarrow> ''Int32'' | CT_Float32 \<Rightarrow> ''Float32'' | CT_Char n \<Rightarrow> ''Char('' @ show_nat n @ '')'')"

definition format_value :: "val \<Rightarrow> string" where
  "format_value v = (case v of V_Int32 n \<Rightarrow> show_i32 n | V_Float32 x \<Rightarrow> show_f32_1 x | V_Char s \<Rightarrow> s)"

definition row_line :: "row \<Rightarrow> string" where
  "row_line row = ''row: ['' @ join_strings '', '' (map format_value row) @ '']''"

definition print_rows :: "row list \<Rightarrow> demo_session \<Rightarrow> demo_session" where
  "print_rows rows s =
     (if rows = [] then println ''rows: <empty>'' s else s\<lparr>ds_out := ds_out s @ map row_line rows\<rparr>)"

definition print_projected_rows :: "column_schema list \<Rightarrow> row list \<Rightarrow> demo_session \<Rightarrow> demo_session" where
  "print_projected_rows columns rows s =
     (let s = println (''columns: ['' @ join_strings '', '' (map cs_name columns) @ '']'') s
      in if rows = [] then println ''rows: <empty>'' s else s\<lparr>ds_out := ds_out s @ map row_line rows\<rparr>)"

subsection \<open>The data of the scenario\<close>

definition demo_schema :: table_schema where
  "demo_schema = \<lparr>ts_name = ''student'', ts_columns =
     [\<lparr>cs_name = ''id'', cs_type = CT_Int32\<rparr>, \<lparr>cs_name = ''score'', cs_type = CT_Float32\<rparr>,
      \<lparr>cs_name = ''name'', cs_type = CT_Char 8\<rparr>]\<rparr>"

text \<open>The literals \<open>88.0\<close>, \<open>91.5\<close>, \<open>85.0\<close> and \<open>95.0\<close>.\<close>

definition demo_rows :: "row list" where
  "demo_rows =
     [[V_Int32 1, V_Float32 0x42B00000, V_Char ''alice''],
      [V_Int32 2, V_Float32 0x42B70000, V_Char ''bob''],
      [V_Int32 3, V_Float32 0x42AA0000, V_Char ''carol''],
      [V_Int32 4, V_Float32 0x42B70000, V_Char ''david'']]"

definition id_is :: "i32 \<Rightarrow> expr option" where
  "id_is n = Some (E_CmpValue ''id'' Op_Eq (V_Int32 n))"

definition select_students :: "expr option \<Rightarrow> select_request" where
  "select_students e = \<lparr>sel_table = ''student'', sel_filter = e\<rparr>"

subsection \<open>The parts of the scenario\<close>

definition demo_create :: "demo_session \<Rightarrow> (query_error + unit) \<times> demo_session" where
  "demo_create s =
     and_then_st (with_engine (execute_create_table demo_schema) (print_step ''Create Table'' s)) (\<lambda>_ s.
       let s = println (''created table: '' @ ts_name demo_schema) s;
           s = print_step ''Show Tables'' s
       in (Inr (), println (''tables: '' @ join_strings '', '' (show_tables (ds_engine s))) s))"

definition attribute_line :: "attribute_meta \<Rightarrow> string" where
  "attribute_line a =
     ''column: '' @ am_column_name a @ '' type='' @ format_column_type (am_column_type a) @ '' offset='' @
     show_nat (am_offset a) @ '' length='' @ show_nat (am_length a)"

definition demo_describe :: "demo_session \<Rightarrow> (query_error + unit) \<times> demo_session" where
  "demo_describe s =
     (let s = print_step ''Describe Table'' s in
      and_then_st (describe_table ''student'' (ds_engine s), s) (\<lambda>(relation, attributes) s.
        let s = println (''relation: '' @ rm_name relation) s;
            s = println (''record size: '' @ show_nat (rm_record_size relation)) s;
            s = println (''column count: '' @ show_nat (rm_column_count relation)) s
        in (Inr (), s\<lparr>ds_out := ds_out s @ map attribute_line attributes\<rparr>)))"

fun insert_rows :: "row list \<Rightarrow> demo_session \<Rightarrow> (query_error + unit) \<times> demo_session" where
  "insert_rows [] s = (Inr (), s)"
| "insert_rows (row # rows) s =
     and_then_st (with_engine (insert_into \<lparr>in_table = ''student'', in_values = row\<rparr>) s) (\<lambda>_. insert_rows rows)"

definition demo_insert :: "demo_session \<Rightarrow> (query_error + unit) \<times> demo_session" where
  "demo_insert s =
     and_then_st (insert_rows demo_rows (print_step ''Insert Rows'' s)) (\<lambda>_ s.
       (Inr (), println ''inserted rows: 4'' s))"

definition index_line :: "index_meta \<Rightarrow> string" where
  "index_line meta = ''index: '' @ im_name meta @ '' on '' @ im_table meta @ ''.'' @ im_column meta"

definition demo_index :: "demo_session \<Rightarrow> (query_error + unit) \<times> demo_session" where
  "demo_index s =
     and_then_st (with_engine (execute_create_index ''student_id_idx'' ''student'' ''id'') (print_step ''Create Index'' s)) (\<lambda>_ s.
       (Inr (), s\<lparr>ds_out := ds_out s @ map index_line (show_indexes (ds_engine s))\<rparr>))"

definition ranked_request :: extended_select_request where
  "ranked_request = \<lparr>sr_table = ''student'', sr_filter = None, sr_projection = P_Columns [''name'', ''score'', ''id''],
     sr_order_by = [\<lparr>ob_column = ''score'', ob_direction = Desc\<rparr>], sr_limit = Some 2\<rparr>"

definition demo_queries :: "demo_session \<Rightarrow> (query_error + unit) \<times> demo_session" where
  "demo_queries s =
     and_then_st (with_engine (select_from (select_students (id_is 2))) (print_step ''Index Equality Query'' s)) (\<lambda>equality s.
       let s = print_rows (se_rows equality) s in
       and_then_st (with_engine (execute_select ranked_request) (print_step ''Order By + Limit'' s)) (\<lambda>ranked s.
         (Inr (), print_projected_rows (ps_columns ranked) (ps_rows ranked) s)))"

definition demo_assignments :: "assignment list" where
  "demo_assignments = [\<lparr>as_column = ''score'', as_value = V_Float32 0x42BE0000\<rparr>]"

definition demo_update :: "demo_session \<Rightarrow> (query_error + unit) \<times> demo_session" where
  "demo_update s =
     and_then_st (with_engine (execute_update \<lparr>ur_table = ''student'', ur_assignments = demo_assignments, ur_filter = id_is 2\<rparr>)
         (print_step ''Update Row'' s)) (\<lambda>updated s.
       let s = println (''updated rows: '' @ show_nat updated) s in
       and_then_st (with_engine (select_from (select_students (id_is 2))) s) (\<lambda>after_update s.
         (Inr (), print_rows (se_rows after_update) s)))"

definition demo_delete :: "demo_session \<Rightarrow> (query_error + unit) \<times> demo_session" where
  "demo_delete s =
     and_then_st (with_engine (execute_delete \<lparr>dr_table = ''student'', dr_filter = id_is 1\<rparr>) (print_step ''Delete Row'' s)) (\<lambda>deleted s.
       let s = println (''deleted rows: '' @ show_nat deleted) s in
       and_then_st (with_engine (select_from (select_students None)) s) (\<lambda>remaining s.
         (Inr (), print_rows (se_rows remaining) s)))"

definition demo_cleanup :: "demo_session \<Rightarrow> (query_error + unit) \<times> demo_session" where
  "demo_cleanup s =
     and_then_st (with_engine (execute_drop_index ''student_id_idx'') (print_step ''Cleanup'' s)) (\<lambda>_.
       with_engine (execute_drop_table ''student''))"

definition demo_session_run :: "demo_session \<Rightarrow> (query_error + unit) \<times> demo_session" where
  "demo_session_run s =
     and_then_st (demo_create s) (\<lambda>_ s.
     and_then_st (demo_describe s) (\<lambda>_ s.
     and_then_st (demo_insert s) (\<lambda>_ s.
     and_then_st (demo_index s) (\<lambda>_ s.
     and_then_st (demo_queries s) (\<lambda>_ s.
     and_then_st (demo_update s) (\<lambda>_ s.
     and_then_st (demo_delete s) (\<lambda>_ s.
       demo_cleanup s)))))))"

definition demo_root :: string where
  "demo_root = ''demo-db''"

definition reset_demo_root :: "demo_world \<Rightarrow> (demo_error + unit) \<times> demo_world" where
  "reset_demo_root w =
     (if dw_root_exists w
      then (case fs_remove_dir_all (dw_disk w) of
              (Inl e, d) \<Rightarrow> (Inl (DE_Io e), w\<lparr>dw_disk := d\<rparr>)
            | (Inr _, d) \<Rightarrow> (Inr (), w\<lparr>dw_disk := d, dw_root_exists := False\<rparr>))
      else (Inr (), w))"

definition run_demo :: "demo_world \<Rightarrow> (demo_error + unit) \<times> demo_world" where
  "run_demo w =
     and_then_st (reset_demo_root w) (\<lambda>_ w.
       let w = w\<lparr>dw_out := dw_out w @ step_lines ''Open Database'' @ [''database root: '' @ demo_root]\<rparr> in
       case engine_open (dw_disk w) of
         (Inl e, d) \<Rightarrow> (Inl (DE_Query e), w\<lparr>dw_disk := d, dw_root_exists := dw_root_exists w \<or> is_ok (fst (fs_create_dir_all (dw_disk w)))\<rparr>)
       | (Inr db, _) \<Rightarrow>
           (case demo_session_run \<lparr>ds_engine = db, ds_out = dw_out w\<rparr> of
              (Inl e, s) \<Rightarrow> (Inl (DE_Query e), \<lparr>dw_root_exists = True, dw_disk = db_disk (ds_engine s), dw_out = ds_out s\<rparr>)
            | (Inr _, s) \<Rightarrow>
                (case fs_remove_dir_all (db_disk (ds_engine s)) of
                   (Inl e, d) \<Rightarrow> (Inl (DE_Io e), \<lparr>dw_root_exists = True, dw_disk = d, dw_out = ds_out s\<rparr>)
                 | (Inr _, d) \<Rightarrow>
                     (Inr (), \<lparr>dw_root_exists = False, dw_disk = d,
                        dw_out = ds_out s @ [''dropped index, dropped table, removed demo directory.''] @
                          step_lines ''Demo Complete'' @
                          [''schema, CRUD, order/limit, and minimal index flow all completed.'']\<rparr>))))"

end
