(* ===== verification/First_Page.thy ===== *)
theory First_Page
  imports Query_Ops
begin

section \<open>Tables whose rows are on one page\<close>

text \<open>
  The rows of a table that has only ever had a few of them are on the first data page, in the
  order of their insertion.  For such tables the identifiers are known, so the answers of the
  engine can be given exactly and not only up to the choice of identifiers.
\<close>

definition first_rid :: "nat \<Rightarrow> rid" where
  "first_rid i = \<lparr>rid_page_id = 1, rid_slot_id = of_nat i\<rparr>"

definition on_first_page :: "'a list \<Rightarrow> rid \<Rightarrow> 'a option" where
  "on_first_page xs = (\<lambda>r. if rid_page_id r = 1 \<and> unat (rid_slot_id r) < length xs then Some (xs ! unat (rid_slot_id r)) else None)"

lemma first_rid_inject: "i < 4294967296 \<Longrightarrow> j < 4294967296 \<Longrightarrow> first_rid i = first_rid j \<longleftrightarrow> i = j"
  by (auto simp: first_rid_def dest: arg_cong [where f = unat] simp: unat_of_nat_u32)

lemma first_rid_slot: "rid_page_id r = 1 \<Longrightarrow> r = first_rid (unat (rid_slot_id r))"
  by (cases r) (simp add: first_rid_def)

lemma on_first_page_first [simp]:
  "i < 4294967296 \<Longrightarrow> on_first_page xs (first_rid i) = (if i < length xs then Some (xs ! i) else None)"
  by (simp add: on_first_page_def first_rid_def unat_of_nat_u32)

lemma on_first_page_Nil [simp]: "on_first_page [] = Map.empty"
  by (simp add: on_first_page_def)

lemma on_first_page_dom:
  "length xs \<le> 4294967296 \<Longrightarrow> dom (on_first_page xs) = first_rid ` {..<length xs}"
proof
  show "dom (on_first_page xs) \<subseteq> first_rid ` {..<length xs}"
    using first_rid_slot by (auto simp: on_first_page_def split: if_splits intro!: image_eqI)
qed (auto simp: dom_def)

lemma on_first_page_snoc:
  assumes "length xs < 4294967296"
  shows "(on_first_page xs)(first_rid (length xs) \<mapsto> x) = on_first_page (xs @ [x])"
proof
  fix r
  show "((on_first_page xs)(first_rid (length xs) \<mapsto> x)) r = on_first_page (xs @ [x]) r"
  proof (cases "rid_page_id r = 1")
    case True
    obtain i where r: "r = first_rid i" "i < 4294967296"
      using first_rid_slot [OF True] unsigned_less [of "rid_slot_id r"] by fastforce
    then show ?thesis using assms by (auto simp: first_rid_inject nth_append)
  next
    case False
    then have "r \<noteq> first_rid (length xs)" by (auto simp: first_rid_def)
    then show ?thesis using False by (simp add: on_first_page_def)
  qed
qed

lemma rids_of_first_page:
  assumes "length xs \<le> 4294967296" and "M = (\<lambda>r. if r \<in> first_rid ` A then None else on_first_page xs r)" and "A \<subseteq> {..<length xs}"
  shows "rids_of M = map first_rid (filter (\<lambda>i. i \<notin> A) [0..<length xs])"
proof (rule rids_of_unique)
  let ?is = "filter (\<lambda>i. i \<notin> A) [0..<length xs]"
  have key: "rid_key (first_rid i) = (1, i)" if "i < length xs" for i
    using that assms(1) by (simp add: rid_key_def first_rid_def unat_of_nat_u32)
  have "sorted_wrt (<) ?is" by (rule sorted_wrt_filter) simp
  then show "sorted_wrt (\<lambda>r s. rid_key r < rid_key s) (map first_rid ?is)"
    unfolding sorted_wrt_map by (rule sorted_wrt_mono_rel [rotated]) (auto simp: key)
  have "first_rid i \<in> first_rid ` A \<longleftrightarrow> i \<in> A" if i: "i < length xs" for i
  proof
    assume "first_rid i \<in> first_rid ` A"
    then obtain j where j: "j \<in> A" "first_rid i = first_rid j" by blast
    moreover have "j < length xs" using assms(3) j(1) by blast
    ultimately show "i \<in> A" using first_rid_inject [of i j] i assms(1) by simp
  qed simp
  moreover have "dom M = dom (on_first_page xs) - first_rid ` A" by (auto simp: assms(2) split: if_splits)
  ultimately show "set (map first_rid ?is) = dom M"
    unfolding on_first_page_dom [OF assms(1)] by auto
qed

lemma rids_of_on_first_page:
  "length xs \<le> 4294967296 \<Longrightarrow> rids_of (on_first_page xs) = map first_rid [0..<length xs]"
  using rids_of_first_page [of xs "on_first_page xs" "{}"] by (simp add: filter_True)

lemma selected_first_page:
  assumes "length xs \<le> 4294967296"
  shows "selected cs e (on_first_page xs) = map first_rid (filter (\<lambda>i. row_selected cs e (xs ! i)) [0..<length xs])"
  unfolding selected_def rids_of_on_first_page [OF assms] filter_map
  using assms by (auto intro!: arg_cong [where f = "map first_rid"] filter_cong)

lemma rows_at_first_page:
  "set ks \<subseteq> {..<length xs} \<Longrightarrow> length xs \<le> 4294967296 \<Longrightarrow>
     rows_at (on_first_page xs) (map first_rid ks) = map (\<lambda>i. xs ! i) ks"
  by (auto simp: rows_at_def)

text \<open>The answer of a selection without a limit or an order is a filter of the list of rows.\<close>

lemma rows_selected_first_page:
  assumes "length xs \<le> 4294967296"
  shows "rows_at (on_first_page xs) (selected cs e (on_first_page xs)) = filter (row_selected cs e) xs"
proof -
  have "filter (row_selected cs e) xs = filter (row_selected cs e) (map (\<lambda>i. xs ! i) [0..<length xs])"
    by (simp add: map_nth)
  then show ?thesis
    unfolding selected_first_page [OF assms]
    using assms by (subst rows_at_first_page) (auto simp: filter_map o_def)
qed

lemma count_first_page:
  assumes "length xs \<le> 4294967296"
  shows "length (selected cs e (on_first_page xs)) = length (filter (row_selected cs e) xs)"
  using arg_cong [OF rows_selected_first_page [OF assms], of length] by (simp add: rows_at_def)

text \<open>What updates and deletions leave.\<close>

lemma updated_first_page:
  assumes "length xs \<le> 4294967296"
  shows "updated cs as (set (selected cs e (on_first_page xs))) (on_first_page xs) =
    on_first_page (map (\<lambda>vs. if row_selected cs e vs then assigned cs as vs else vs) xs)"
proof -
  have "finite (dom (on_first_page xs))" using on_first_page_dom [OF assms] by simp
  note S = selected_facts(1) [OF this, of cs e]
  show ?thesis unfolding updated_def S by (rule ext) (simp add: on_first_page_def)
qed

lemma remaining_first_page:
  fixes xs :: "row list" and cs :: "column_schema list" and e :: "expr option"
  assumes len: "length xs \<le> 4294967296"
  defines "M \<equiv> without (set (selected cs e (on_first_page xs))) (on_first_page xs)"
  shows "rows_at M (selected cs None M) = filter (\<lambda>vs. \<not> row_selected cs e vs) xs"
proof -
  let ?A = "{i. i < length xs \<and> row_selected cs e (xs ! i)}"
  have "set (selected cs e (on_first_page xs)) = first_rid ` ?A"
    unfolding selected_first_page [OF len] by auto
  then have M: "M = (\<lambda>r. if r \<in> first_rid ` ?A then None else on_first_page xs r)" by (simp add: M_def without_def)
  have rids: "rids_of M = map first_rid (filter (\<lambda>i. i \<notin> ?A) [0..<length xs])"
    by (rule rids_of_first_page [OF len M]) auto
  have "M (first_rid i) = Some (xs ! i)" if "i < length xs" "i \<notin> ?A" for i
  proof -
    have "first_rid i \<notin> first_rid ` ?A"
    proof
      assume "first_rid i \<in> first_rid ` ?A"
      then obtain j where j: "j \<in> ?A" "first_rid i = first_rid j" by blast
      then show False using first_rid_inject [of i j] that len by simp
    qed
    then show ?thesis using that(1) len by (simp add: M)
  qed
  then have "rows_at M (selected cs None M) = map (\<lambda>i. xs ! i) (filter (\<lambda>i. i \<notin> ?A) [0..<length xs])"
    by (simp add: selected_def row_selected_def rids rows_at_def)
  also have "\<dots> = map (\<lambda>i. xs ! i) (filter (\<lambda>i. \<not> row_selected cs e (xs ! i)) [0..<length xs])"
    by (auto intro!: arg_cong [where f = "map (\<lambda>i. xs ! i)"] filter_cong)
  also have "\<dots> = filter (\<lambda>vs. \<not> row_selected cs e vs) (map (\<lambda>i. xs ! i) [0..<length xs])"
    by (simp add: filter_map o_def)
  finally show ?thesis by (simp add: map_nth)
qed

subsection \<open>Insertion\<close>

lemma insert_first_page:
  assumes f: "holds_records f rs R 1" and R: "dom R = first_rid ` {..<k}" and k: "k < ns"
    and ns: "compute_slots_per_page rs = Inr ns" and len: "length d = rs"
  obtains g where "insert_record d f = (Inr (first_rid k), g)" and "holds_records g rs (R(first_rid k \<mapsto> d)) 1"
proof -
  obtain m ps where base: "rf_base m f" and chain: "rf_chain f ps" and F: "rf_record_size f = rs" "record_map f = R"
    "unat (rf_num_pages f) \<le> 1" using f by (rule holds_recordsE)
  have slots: "rf_slots f = ns" using rf_baseD(4) [OF base] ns F(1) by simp
  have small: "ns \<le> 4092" using compute_slots_Inr(4) [OF ns] .
  have num: "rf_num_pages f = 0 \<or> rf_num_pages f = 1" using F(3) by (auto simp: word_unat_eq_iff)
  have in_R: "first_rid j \<in> dom R \<longleftrightarrow> j < k" if j: "j < 4294967296" for j
  proof
    assume "first_rid j \<in> dom R"
    then obtain i where "i < k" "first_rid j = first_rid i" unfolding R by blast
    then show "j < k" using first_rid_inject [of j i] j k small by simp
  qed (simp add: R)
  have empty: "rf_num_pages f = 0" if "ps = []"
  proof (rule ccontr)
    assume "rf_num_pages f \<noteq> 0"
    then have one: "rf_num_pages f = 1" using num by blast
    then have "rf_free_slots f 1 = {}" using chain that by (auto simp: rf_chain_def)
    then have "\<not> slot_is_free (page_bitmap ns (rf_page f 1)) k"
      using k by (auto simp: rf_free_slots_def free_slots_def slots)
    then have "record_map f (first_rid k) \<noteq> None"
      using k small one by (simp add: record_map_def first_rid_def page_slot_def slots unat_of_nat_u32)
    then show False using in_R [of k] k small F(2) by (auto simp: domIff)
  qed
  have room: "ps \<noteq> [] \<or> unat (rf_num_pages f) < 2147483647" using F(3) by simp
  have lend: "length d = rf_record_size f" using len F(1) by simp
  obtain g r m' qs where g: "insert_record d f = (Inr r, g)" "rf_base m' g" "rf_chain g qs"
    "record_map f r = None" "record_map g = (record_map f)(r \<mapsto> d)" "rf_slots g = rf_slots f"
    "rf_record_size g = rf_record_size f" "rf_file_id g = rf_file_id f"
    "rf_num_pages g = (if ps = [] then rf_num_pages f + 1 else rf_num_pages f)"
    "rid_page_id r = (case ps of [] \<Rightarrow> rf_num_pages f + 1 | p # _ \<Rightarrow> p)"
    "\<forall>j < unat (rid_slot_id r). record_map f \<lparr>rid_page_id = rid_page_id r, rid_slot_id = of_nat j\<rparr> \<noteq> None"
    by (rule insert_record_least [OF base chain lend room])
  have page: "rid_page_id r = 1" and pages: "unat (rf_num_pages g) \<le> 1"
  proof -
    have one: "p = 1" if "ps = p # qs'" for p qs'
    proof -
      have "p \<in> set ps" using that by simp
      then have "p \<noteq> 0" "p \<le> rf_num_pages f" using chain unfolding rf_chain_def by blast+
      then have "unat p \<noteq> 0" "unat p \<le> 1" using F(3) by (simp_all add: word_le_nat_alt unsigned_eq_0_iff)
      then show ?thesis by (simp add: word_unat_eq_iff)
    qed
    then show "rid_page_id r = 1" using g(10) empty by (simp split: list.splits)
    show "unat (rf_num_pages g) \<le> 1" using g(9) empty F(3) by (simp split: if_splits)
  qed
  define i where "i = unat (rid_slot_id r)"
  have i: "i < 4294967296" "r = first_rid i"
    using unsigned_less [of "rid_slot_id r"] first_rid_slot [OF page] by (simp_all add: i_def)
  have "\<not> i < k" using g(4) in_R [OF i(1)] F(2) i(2) by (auto simp: domIff)
  moreover have "\<not> k < i"
  proof
    assume "k < i"
    then have "record_map f (first_rid k) \<noteq> None" using g(11) page by (simp add: i_def first_rid_def)
    then show False using in_R [of k] k small F(2) by (auto simp: domIff)
  qed
  ultimately have r: "r = first_rid k" using i(2) by simp
  have "holds_records g rs (R(first_rid k \<mapsto> d)) 1"
    using holds_recordsI [OF g(2,3) _ _ pages] g(5,7) F(1,2) r by simp
  then show thesis using that g(1) r by blast
qed

lemma table_insert_first_page:
  assumes t: "table_holds t s (on_first_page rows) 1" and fits: "row_fits (ts_columns s) vs"
    and ns: "compute_slots_per_page (total_len (ts_columns s)) = Inr ns" "length rows < ns"
  obtains t' where "table_insert vs t = (Inr (first_rid (length rows)), t')"
    and "table_holds t' s (on_first_page (rows @ [map stored_value vs])) 1"
proof -
  let ?cs = "ts_columns s" and ?b = "row_bytes (ts_columns s) vs" and ?M = "on_first_page rows"
  note T = table_holdsD [OF t]
  have small: "length rows < 4294967296" using ns(2) compute_slots_Inr(4) [OF ns(1)] by simp
  have dom: "dom (row_map_bytes ?cs ?M) = first_rid ` {..<length rows}" using on_first_page_dom [of rows] small by simp
  obtain g where g: "insert_record ?b (tb_file t) = (Inr (first_rid (length rows)), g)"
    "holds_records g (total_len ?cs) ((row_map_bytes ?cs ?M)(first_rid (length rows) \<mapsto> ?b)) 1"
    by (rule insert_first_page [OF T(5) dom ns(2,1) length_row_bytes [OF fits]])
  let ?M' = "?M(first_rid (length rows) \<mapsto> map stored_value vs)"
  have "table_holds (t\<lparr>tb_file := g\<rparr>) s ?M' 1"
    by (rule table_holds_file [OF t rows_ok_update(1) [OF T(4) row_ok_stored [OF fits]]])
      (use g(2) row_bytes_stored [OF fits] in simp)
  moreover have "table_insert vs t = (Inr (first_rid (length rows)), t\<lparr>tb_file := g\<rparr>)"
    using encode_row_ok [OF fits] T(2) g(1) by (simp add: table_insert_def on_records_def)
  ultimately show thesis using that on_first_page_snoc [OF small, of "map stored_value vs"] by simp
qed

text \<open>A new row comes after the rows that the table has.\<close>

lemma insert_into_first_page:
  assumes db: "db_ok db T 1" and s: "map_of (db_catalog db) name = Some s" and T: "T name = on_first_page rows"
    and fits: "row_fits (ts_columns s) vs"
    and ns: "compute_slots_per_page (total_len (ts_columns s)) = Inr ns" "length rows < ns"
  obtains db' where "insert_into \<lparr>in_table = name, in_values = vs\<rparr> db = (Inr (first_rid (length rows)), db')"
    and "db_ok db' (T(name := on_first_page (rows @ [map stored_value vs]))) 1" and "same_catalogs db db'"
proof -
  let ?M = "on_first_page (rows @ [map stored_value vs])"
  have schema: "schema_ok s" using db_holdsD(6) [OF db_ok_holds [OF db] s] by simp
  obtain r M db1 db2 where m: "on_database (with_table name (table_insert vs)) db = (Inr r, db1)"
    "r = first_rid (length rows) \<and> M = ?M"
    "on_database (rebuild_indexes_for_table name) db1 = (Inr (), db2)" "db_ok db2 (T(name := M)) 1" "same_catalogs db db2"
  proof (rule modify_ok [OF db s order_refl, of "table_insert vs" "\<lambda>r M. r = first_rid (length rows) \<and> M = ?M"])
    fix t
    assume t: "table_holds t s (T name) 1"
    obtain t' where "table_insert vs t = (Inr (first_rid (length rows)), t')" "table_holds t' s ?M 1"
      by (rule table_insert_first_page [OF t [unfolded T] fits ns])
    then show "\<exists>r M t'. table_insert vs t = (Inr r, t') \<and> table_holds t' s M 1 \<and> (r = first_rid (length rows) \<and> M = ?M)"
      by blast
  qed
  have "insert_ok (ts_columns s) (FullRow vs)" using fits by (simp add: insert_ok_def input_row_def)
  then have "normalize_insert_input name s (FullRow vs) = Inr vs"
    using normalize_insert_ok [OF schema] by (simp add: input_row_def)
  then show thesis
    using that [of db2] load_schema_ok [OF s] m by (simp add: insert_into_def execute_insert_def Let_def)
qed

end
