(* ===== verification/Demo_Run.thy ===== *)
theory Demo_Run
  imports Demo First_Page Query_Properties
begin

section \<open>What the demonstration program prints\<close>

text \<open>
  On a directory whose device does not fail, the program runs to its end, prints exactly the
  lines below and leaves nothing behind.  The proof follows the parts of the scenario; between
  them, \<open>student_holds\<close> states what the database contains.
\<close>

subsection \<open>The schema and the rows\<close>

lemma demo_columns:
  "ts_columns demo_schema = [\<lparr>cs_name = ''id'', cs_type = CT_Int32\<rparr>, \<lparr>cs_name = ''score'', cs_type = CT_Float32\<rparr>,
     \<lparr>cs_name = ''name'', cs_type = CT_Char 8\<rparr>]"
  "ts_name demo_schema = ''student''" "total_len (ts_columns demo_schema) = 16"
  by (simp_all add: demo_schema_def)

lemma demo_schema_ok: "schema_ok demo_schema"
  by (simp add: schema_ok_def columns_ok_def demo_schema_def is_identifier_def identifier_char_def Let_def of_char_byte
      word_le_nat_alt)

lemma demo_slots:
  obtains ns where "compute_slots_per_page (total_len (ts_columns demo_schema)) = Inr ns" and "4 \<le> ns"
proof -
  have fit: "slots_fit 16 4" by (simp add: slots_fit_def bitmap_bytes_def RECORD_PAGE_HEADER_SIZE_def)
  have "\<exists>ns. compute_slots_per_page 16 = Inr ns \<and> 4 \<le> ns"
    using compute_slots_result [of 16] fit by (cases "compute_slots_per_page 16") (auto simp: not_less [symmetric])
  then show thesis using that by (auto simp: demo_columns)
qed

lemma demo_rows_fit: "row \<in> set demo_rows \<Longrightarrow> row_fits (ts_columns demo_schema) row \<and> map stored_value row = row"
  by (auto simp: demo_rows_def demo_columns is_str_def utf8_width_def strip_nuls_def)

subsection \<open>Numbers in text\<close>

lemma digit_chars:
  "digit_char 0 = CHR ''0''" "digit_char 1 = CHR ''1''" "digit_char 2 = CHR ''2''" "digit_char 3 = CHR ''3''"
  "digit_char 4 = CHR ''4''" "digit_char 5 = CHR ''5''" "digit_char 6 = CHR ''6''" "digit_char 8 = CHR ''8''"
  "digit_char 9 = CHR ''9''" "digit_char (Suc 0) = CHR ''1''"
  by (simp_all add: digit_char_def char_of_def bit_0)

lemma show_numbers:
  "show_nat 0 = ''0''" "show_nat 1 = ''1''" "show_nat 2 = ''2''" "show_nat 3 = ''3''" "show_nat 4 = ''4''"
  "show_nat 8 = ''8''" "show_nat 16 = ''16''"
  by (simp_all add: show_nat.simps digit_chars)

lemmas show_lengths = show_numbers show_numbers(4) [unfolded numeral_3_eq_3] show_numbers(2) [unfolded One_nat_def]

lemma show_ids: "show_i32 1 = ''1''" "show_i32 2 = ''2''" "show_i32 3 = ''3''" "show_i32 4 = ''4''"
  by (simp_all add: show_i32_def show_numbers show_nat.simps digit_chars)

lemma show_scores:
  "show_f32_1 0x42B00000 = ''88.0''" "show_f32_1 0x42B70000 = ''91.5''" "show_f32_1 0x42AA0000 = ''85.0''"
  "show_f32_1 0x42BE0000 = ''95.0''"
  by (simp_all add: show_f32_1_def f32_tenths_def f32_exponent_def f32_fraction_def f32_negative_def round_half_even_def Let_def
     show_nat.simps digit_chars)

subsection \<open>The database between the parts\<close>

definition student_holds :: "database \<Rightarrow> rows \<Rightarrow> index_catalog \<Rightarrow> bool" where
  "student_holds db M idx \<longleftrightarrow> db_ok db ((\<lambda>_. Map.empty)(''student'' := M)) 1 \<and>
     db_catalog db = [(''student'', demo_schema)] \<and> db_indexes db = idx"

lemma student_holdsD:
  assumes "student_holds db M idx"
  shows "db_ok db ((\<lambda>_. Map.empty)(''student'' := M)) 1" and "map_of (db_catalog db) ''student'' = Some demo_schema"
    and "db_indexes db = idx" and "db_catalog db = [(''student'', demo_schema)]"
  using assms by (simp_all add: student_holds_def)

lemma student_holdsI:
  "student_holds db M idx \<Longrightarrow> db_ok db' ((\<lambda>_. Map.empty)(''student'' := M')) 1 \<Longrightarrow> same_catalogs db db' \<Longrightarrow>
     student_holds db' M' idx"
  by (simp add: student_holds_def same_catalogs_def)

lemma db_ok_mono: "db_ok db T n \<Longrightarrow> n \<le> n' \<Longrightarrow> db_ok db T n'"
  unfolding db_ok_def db_holds_def using table_stored_mono by blast

definition student_id_idx :: index_meta where
  "student_id_idx = \<lparr>im_name = ''student_id_idx'', im_table = ''student'', im_column = ''id'', im_key_type = IK_Int32\<rparr>"

abbreviation indexed :: index_catalog where
  "indexed \<equiv> [(''student_id_idx'', student_id_idx)]"

text \<open>A selection of whole rows.\<close>

lemma select_students_ok:
  assumes db: "student_holds db M idx" and typed: "filter_typed (ts_columns demo_schema) e"
    and rows: "rows_at M (selected (ts_columns demo_schema) e M) = rs" and len: "\<forall>vs \<in> set rs. length vs = 3"
  obtains db' where "select_from (select_students e) db = (Inr \<lparr>se_schema = demo_schema, se_rows = rs\<rparr>, db')"
    and "student_holds db' M idx"
proof -
  let ?cs = "ts_columns demo_schema"
  let ?request = "\<lparr>sr_table = ''student'', sr_filter = e, sr_projection = P_All, sr_order_by = [], sr_limit = None\<rparr>"
  note D = student_holdsD [OF db]
  have ok: "select_ok ?cs ?request"
    using typed by (simp add: select_ok_def projection_ok_def projected_names_def order_ok_def column_names_def demo_columns)
  have "projected ?cs P_All vs = vs" if vs: "vs \<in> set rs" for vs
  proof -
    obtain a b c where "vs = [a, b, c]" using len vs by (auto simp: numeral_3_eq_3 length_Suc_conv)
    then show ?thesis by (simp add: projected_def projected_names_def column_names_def demo_columns column_value_def)
  qed
  then have all: "presented ?cs ?request rs = rs"
    by (simp add: presented_def order_keys_def sort_by_no_keys apply_limit_def map_idI)
  have s: "map_of (db_catalog db) (sr_table ?request) = Some demo_schema" using D(2) by simp
  obtain db' where "execute_select ?request db = (Inr \<lparr>ps_schema = demo_schema,
        ps_columns = map (\<lambda>n. ?cs ! position_of ?cs n) (projected_names ?cs P_All), ps_rows = rs\<rparr>, db')"
    "db_ok db' ((\<lambda>_. Map.empty)(''student'' := M)) 1" "same_catalogs db db'"
    by (rule execute_select_ok [OF D(1) s ok]) (use rows all in simp)
  then show thesis using that student_holdsI [OF db] by (simp add: select_from_def select_students_def)
qed

subsection \<open>Creating, describing and filling the table\<close>

lemmas demo_output = println_def print_step_def step_lines_def

lemma demo_create_ok:
  assumes db: "db_ok (ds_engine s) (\<lambda>_. Map.empty) 1" and new: "db_catalog (ds_engine s) = []" "db_indexes (ds_engine s) = []"
  obtains db' where "demo_create s = (Inr (), s\<lparr>ds_engine := db', ds_out := ds_out s @
      [[], ''== Create Table =='', ''created table: student'', [], ''== Show Tables =='', ''tables: student'']\<rparr>)"
    and "student_holds db' Map.empty []"
proof -
  obtain ns where ns: "compute_slots_per_page (total_len (ts_columns demo_schema)) = Inr ns" by (rule demo_slots)
  obtain db' where db': "create_table demo_schema (ds_engine s) = (Inr (), db')"
    "db_ok db' ((\<lambda>_. Map.empty)(ts_name demo_schema := Map.empty)) 1"
    "db_catalog db' = bt_insert (ts_name demo_schema) demo_schema (db_catalog (ds_engine s))"
    "db_indexes db' = db_indexes (ds_engine s)"
    by (rule create_table_ok [OF db demo_schema_ok _ ns]) (simp add: new)
  have "student_holds db' Map.empty []" using db'(2-4) new by (simp add: student_holds_def demo_columns)
  moreover have "show_tables db' = [''student'']"
    using db'(3) new by (simp add: show_tables_def list_tables_def demo_columns bt_keys_def)
  ultimately show thesis
    using that db'(1)
    by (simp add: demo_create_def with_engine_def execute_create_table_def on_database_def Let_def demo_output demo_columns)
qed

lemma demo_describe_ok:
  assumes "student_holds (ds_engine s) M idx"
  shows "demo_describe s = (Inr (), s\<lparr>ds_out := ds_out s @
    [[], ''== Describe Table =='', ''relation: student'', ''record size: 16'', ''column count: 3'',
     ''column: id type=Int32 offset=0 length=4'', ''column: score type=Float32 offset=4 length=4'',
     ''column: name type=Char(8) offset=8 length=8'']\<rparr>)"
  using student_holdsD(4) [OF assms] compile_schema_ok [OF demo_schema_ok]
  by (simp add: demo_describe_def describe_table_def get_relation_def get_attributes_def layout_of_def demo_columns Let_def
      demo_output attribute_of_def attribute_line_def format_column_type_def show_lengths)

lemma insert_rows_ok:
  "student_holds (ds_engine s) (on_first_page rows) idx \<Longrightarrow>
     \<forall>row \<in> set new. row_fits (ts_columns demo_schema) row \<and> map stored_value row = row \<Longrightarrow> length rows + length new \<le> 4 \<Longrightarrow>
     \<exists>db'. insert_rows new s = (Inr (), s\<lparr>ds_engine := db'\<rparr>) \<and> student_holds db' (on_first_page (rows @ new)) idx"
proof (induction new arbitrary: s rows)
  case Nil
  then show ?case by (intro exI [where x = "ds_engine s"]) simp
next
  case (Cons row new)
  obtain ns where ns: "compute_slots_per_page (total_len (ts_columns demo_schema)) = Inr ns" "4 \<le> ns" by (rule demo_slots)
  note D = student_holdsD [OF Cons.prems(1)]
  have row: "row_fits (ts_columns demo_schema) row" "map stored_value row = row" using Cons.prems(2) by simp_all
  have room: "length rows < ns" using Cons.prems(3) ns(2) by simp
  let ?T = "(\<lambda>_. Map.empty)(''student'' := on_first_page rows)"
  obtain db1 where db1: "insert_into \<lparr>in_table = ''student'', in_values = row\<rparr> (ds_engine s) = (Inr (first_rid (length rows)), db1)"
    "db_ok db1 (?T(''student'' := on_first_page (rows @ [map stored_value row]))) 1" "same_catalogs (ds_engine s) db1"
    by (rule insert_into_first_page [OF D(1,2) _ row(1) ns(1) room]) simp
  have "student_holds db1 (on_first_page (rows @ [row])) idx"
    using student_holdsI [OF Cons.prems(1) _ db1(3)] db1(2) row(2) by simp
  then obtain db' where "insert_rows new (s\<lparr>ds_engine := db1\<rparr>) = (Inr (), s\<lparr>ds_engine := db'\<rparr>)"
    "student_holds db' (on_first_page (rows @ row # new)) idx"
    using Cons.IH [of "s\<lparr>ds_engine := db1\<rparr>" "rows @ [row]"] Cons.prems(2,3) by auto
  then show ?case using db1(1) by (auto simp: with_engine_def)
qed

lemma demo_insert_ok:
  assumes "student_holds (ds_engine s) Map.empty idx"
  obtains db' where "demo_insert s = (Inr (), s\<lparr>ds_engine := db', ds_out := ds_out s @
      [[], ''== Insert Rows =='', ''inserted rows: 4'']\<rparr>)" and "student_holds db' (on_first_page demo_rows) idx"
proof -
  have "\<exists>db'. insert_rows demo_rows (print_step ''Insert Rows'' s) = (Inr (), (print_step ''Insert Rows'' s)\<lparr>ds_engine := db'\<rparr>) \<and>
      student_holds db' (on_first_page ([] @ demo_rows)) idx"
    by (rule insert_rows_ok) (use assms demo_rows_fit in \<open>simp_all add: print_step_def demo_rows_def\<close>)
  then show thesis using that by (auto simp: demo_insert_def demo_output)
qed

subsection \<open>The index and the queries\<close>

lemma demo_index_ok:
  assumes db: "student_holds (ds_engine s) M []"
  obtains db' where "demo_index s = (Inr (), s\<lparr>ds_engine := db', ds_out := ds_out s @
      [[], ''== Create Index =='', ''index: student_id_idx on student.id'']\<rparr>)" and "student_holds db' M indexed"
proof -
  note D = student_holdsD [OF db]
  have name: "is_identifier ''student_id_idx''"
    by (simp add: is_identifier_def identifier_char_def Let_def of_char_byte word_le_nat_alt)
  obtain db' where db': "execute_create_index ''student_id_idx'' ''student'' ''id'' (ds_engine s) = (Inr (), db')"
    "db_ok db' ((\<lambda>_. Map.empty)(''student'' := M)) 1" "db_catalog db' = db_catalog (ds_engine s)"
    "db_indexes db' = bt_insert ''student_id_idx'' \<lparr>im_name = ''student_id_idx'', im_table = ''student'', im_column = ''id'',
       im_key_type = IK_Int32\<rparr> (db_indexes (ds_engine s))"
    by (rule execute_create_index_ok [OF D(1) name _ D(2), where column = "''id''" and i = 0])
      (simp_all add: D(3) demo_columns)
  have "student_holds db' M indexed" using db'(2-4) D(3,4) by (simp add: student_holds_def student_id_idx_def)
  moreover have "show_indexes db' = [student_id_idx]"
    using db'(4) D(3)
    by (simp add: show_indexes_def list_indexes_def index_catalog_list_def bt_values_def student_id_idx_def)
  ultimately show thesis
    using that db'(1)
    by (simp add: demo_index_def with_engine_def demo_output index_line_def student_id_idx_def)
qed

lemma id_is_typed: "filter_typed (ts_columns demo_schema) (id_is n)"
  by (simp add: filter_typed_def id_is_def demo_columns column_type_of_def)

lemma id_is_selects:
  "row_selected (ts_columns demo_schema) (id_is n) [V_Int32 k, x, y] \<longleftrightarrow> k = n"
  by (auto simp: row_selected_def id_is_def demo_columns column_value_def cmp_i32_def signed_word_eqI)

lemma ranked_rows:
  "presented (ts_columns demo_schema) ranked_request demo_rows =
     [[V_Char ''bob'', V_Float32 0x42B70000, V_Int32 2], [V_Char ''david'', V_Float32 0x42B70000, V_Int32 4]]"
  by (simp add: presented_def ranked_request_def demo_rows_def order_keys_def demo_columns position_of_def sort_by_def
      compare_row_value_at_def total_cmp_def total_order_key_def cmp_i32_def cmp_def apply_limit_def
      projected_def projected_names_def column_value_def)

lemma row_lines:
  "row_line [V_Int32 2, V_Float32 0x42B70000, V_Char ''bob''] = ''row: [2, 91.5, bob]''"
  "row_line [V_Int32 2, V_Float32 0x42BE0000, V_Char ''bob''] = ''row: [2, 95.0, bob]''"
  "row_line [V_Int32 3, V_Float32 0x42AA0000, V_Char ''carol''] = ''row: [3, 85.0, carol]''"
  "row_line [V_Int32 4, V_Float32 0x42B70000, V_Char ''david''] = ''row: [4, 91.5, david]''"
  "row_line [V_Char ''bob'', V_Float32 0x42B70000, V_Int32 2] = ''row: [bob, 91.5, 2]''"
  "row_line [V_Char ''david'', V_Float32 0x42B70000, V_Int32 4] = ''row: [david, 91.5, 4]''"
  by (simp_all add: row_line_def format_value_def show_ids show_scores)

lemma demo_queries_ok:
  assumes db: "student_holds (ds_engine s) (on_first_page demo_rows) idx"
  obtains db' where "demo_queries s = (Inr (), s\<lparr>ds_engine := db', ds_out := ds_out s @
      [[], ''== Index Equality Query =='', ''row: [2, 91.5, bob]'', [], ''== Order By + Limit =='',
       ''columns: [name, score, id]'', ''row: [bob, 91.5, 2]'', ''row: [david, 91.5, 4]'']\<rparr>)"
    and "student_holds db' (on_first_page demo_rows) idx"
proof -
  let ?cs = "ts_columns demo_schema" and ?bob = "[V_Int32 2, V_Float32 0x42B70000, V_Char ''bob'']"
  have equal: "rows_at (on_first_page demo_rows) (selected ?cs (id_is 2) (on_first_page demo_rows)) = [?bob]"
    by (subst rows_selected_first_page) (simp_all add: demo_rows_def id_is_selects)
  obtain db1 where db1: "select_from (select_students (id_is 2)) (ds_engine s) = (Inr \<lparr>se_schema = demo_schema, se_rows = [?bob]\<rparr>, db1)"
    "student_holds db1 (on_first_page demo_rows) idx"
    by (rule select_students_ok [OF db id_is_typed equal]) simp
  note D = student_holdsD [OF db1(2)]
  have all: "rows_at (on_first_page demo_rows) (selected ?cs None (on_first_page demo_rows)) = demo_rows"
    by (subst rows_selected_first_page) (simp_all add: row_selected_def demo_rows_def)
  have s: "map_of (db_catalog db1) (sr_table ranked_request) = Some demo_schema" using D(2) by (simp add: ranked_request_def)
  have ok: "select_ok ?cs ranked_request"
    by (simp add: select_ok_def ranked_request_def projection_ok_def projected_names_def order_ok_def column_names_def
        demo_columns filter_typed_def)
  obtain db2 where db2: "execute_select ranked_request db1 = (Inr \<lparr>ps_schema = demo_schema,
        ps_columns = map (\<lambda>n. ?cs ! position_of ?cs n) [''name'', ''score'', ''id''],
        ps_rows = [[V_Char ''bob'', V_Float32 0x42B70000, V_Int32 2], [V_Char ''david'', V_Float32 0x42B70000, V_Int32 4]]\<rparr>, db2)"
    "db_ok db2 ((\<lambda>_. Map.empty)(''student'' := on_first_page demo_rows)) 1" "same_catalogs db1 db2"
    by (rule execute_select_ok [OF D(1) s ok])
      (use all ranked_rows in \<open>simp add: ranked_request_def projected_names_def\<close>)
  have columns: "map cs_name (map (\<lambda>n. ?cs ! position_of ?cs n) [''name'', ''score'', ''id'']) = [''name'', ''score'', ''id'']"
    by (simp add: demo_columns position_of_def)
  show thesis
    using that [of db2] db1(1) db2(1) columns student_holdsI [OF db1(2) db2(2,3)]
    by (simp add: demo_queries_def with_engine_def demo_output print_rows_def print_projected_rows_def row_lines Let_def)
qed

subsection \<open>The changes\<close>

text \<open>The rows after the update.\<close>

definition demo_rows_2 :: "row list" where
  "demo_rows_2 = demo_rows[1 := [V_Int32 2, V_Float32 0x42BE0000, V_Char ''bob'']]"

lemma score_index: "column_index ''score'' (ts_columns demo_schema) = Some 1"
  by (simp add: demo_columns)

lemma demo_update_ok:
  assumes db: "student_holds (ds_engine s) (on_first_page demo_rows) idx"
  obtains db' where "demo_update s = (Inr (), s\<lparr>ds_engine := db', ds_out := ds_out s @
      [[], ''== Update Row =='', ''updated rows: 1'', ''row: [2, 95.0, bob]'']\<rparr>)"
    and "student_holds db' (on_first_page demo_rows_2) idx"
proof -
  let ?cs = "ts_columns demo_schema" and ?bob = "[V_Int32 2, V_Float32 0x42BE0000, V_Char ''bob'']"
  let ?request = "\<lparr>ur_table = ''student'', ur_assignments = demo_assignments, ur_filter = id_is 2\<rparr>"
  note D = student_holdsD [OF db]
  have s: "map_of (db_catalog (ds_engine s)) (ur_table ?request) = Some demo_schema" using D(2) by simp
  have ok: "update_ok ?cs ?request"
    using id_is_typed by (simp add: update_ok_def demo_assignments_def assignment_pairs_def assigns_fit_def demo_columns)
  have count: "length (selected ?cs (id_is 2) (on_first_page demo_rows)) = 1"
    by (subst count_first_page) (simp_all add: demo_rows_def id_is_selects)
  have rows: "updated ?cs (assignment_pairs demo_assignments) (set (selected ?cs (id_is 2) (on_first_page demo_rows)))
      (on_first_page demo_rows) = on_first_page demo_rows_2"
    by (subst updated_first_page)
      (simp_all add: demo_rows_def demo_rows_2_def id_is_selects demo_assignments_def assignment_pairs_def score_index)
  obtain db1 where db1: "execute_update ?request (ds_engine s) = (Inr 1, db1)"
    "db_ok db1 ((\<lambda>_. Map.empty)(''student'' := on_first_page demo_rows_2)) 1" "same_catalogs (ds_engine s) db1"
    by (rule execute_update_ok [OF D(1) s ok]) (use count rows in simp)
  note holds = student_holdsI [OF db db1(2,3)]
  have equal: "rows_at (on_first_page demo_rows_2) (selected ?cs (id_is 2) (on_first_page demo_rows_2)) = [?bob]"
    by (subst rows_selected_first_page) (simp_all add: demo_rows_2_def demo_rows_def id_is_selects)
  obtain db2 where db2: "select_from (select_students (id_is 2)) db1 = (Inr \<lparr>se_schema = demo_schema, se_rows = [?bob]\<rparr>, db2)"
    "student_holds db2 (on_first_page demo_rows_2) idx"
    by (rule select_students_ok [OF holds id_is_typed equal]) simp
  show thesis
    using that [of db2] db1(1) db2
    by (simp add: demo_update_def with_engine_def demo_output print_rows_def row_lines Let_def show_lengths)
qed

lemma demo_delete_ok:
  assumes db: "student_holds (ds_engine s) (on_first_page demo_rows_2) idx"
  obtains db' M where "demo_delete s = (Inr (), s\<lparr>ds_engine := db', ds_out := ds_out s @
      [[], ''== Delete Row =='', ''deleted rows: 1'', ''row: [2, 95.0, bob]'', ''row: [3, 85.0, carol]'',
       ''row: [4, 91.5, david]'']\<rparr>)"
    and "student_holds db' M idx"
proof -
  let ?cs = "ts_columns demo_schema"
  let ?request = "\<lparr>dr_table = ''student'', dr_filter = id_is 1\<rparr>"
  let ?M = "without (set (selected ?cs (id_is 1) (on_first_page demo_rows_2))) (on_first_page demo_rows_2)"
  let ?rows = "[[V_Int32 2, V_Float32 0x42BE0000, V_Char ''bob''], [V_Int32 3, V_Float32 0x42AA0000, V_Char ''carol''],
      [V_Int32 4, V_Float32 0x42B70000, V_Char ''david'']]"
  note D = student_holdsD [OF db]
  have s: "map_of (db_catalog (ds_engine s)) (dr_table ?request) = Some demo_schema" using D(2) by simp
  have typed: "filter_typed ?cs (dr_filter ?request)" using id_is_typed by simp
  have count: "length (selected ?cs (id_is 1) (on_first_page demo_rows_2)) = 1"
    by (subst count_first_page) (simp_all add: demo_rows_2_def demo_rows_def id_is_selects)
  obtain db1 where db1: "execute_delete ?request (ds_engine s) = (Inr 1, db1)"
    "db_ok db1 ((\<lambda>_. Map.empty)(''student'' := ?M)) 1" "same_catalogs (ds_engine s) db1"
    by (rule execute_delete_ok [OF D(1) s typed]) (use count in simp)
  note holds = student_holdsI [OF db db1(2,3)]
  have rest: "rows_at ?M (selected ?cs None ?M) = ?rows"
    by (subst remaining_first_page) (simp_all add: demo_rows_2_def demo_rows_def id_is_selects)
  have all: "filter_typed ?cs None" by (simp add: filter_typed_def)
  obtain db2 where db2: "select_from (select_students None) db1 = (Inr \<lparr>se_schema = demo_schema, se_rows = ?rows\<rparr>, db2)"
    "student_holds db2 ?M idx"
    by (rule select_students_ok [OF holds all rest]) simp
  show thesis
    using that [of db2 ?M] db1(1) db2
    by (simp add: demo_delete_def with_engine_def demo_output print_rows_def row_lines Let_def show_lengths)
qed

subsection \<open>The whole program\<close>

lemma demo_cleanup_ok:
  assumes db: "student_holds (ds_engine s) M indexed"
  obtains db' where "demo_cleanup s = (Inr (), s\<lparr>ds_engine := db', ds_out := ds_out s @ [[], ''== Cleanup ==''] \<rparr>)"
    and "disk_healthy (db_disk db')"
proof -
  note D = student_holdsD [OF db]
  let ?T = "(\<lambda>_. Map.empty)(''student'' := M)"
  obtain db1 where db1: "drop_index ''student_id_idx'' (ds_engine s) = (Inr (), db1)" "db_ok db1 ?T 1"
    "db_catalog db1 = db_catalog (ds_engine s)" "db_indexes db1 = bt_remove ''student_id_idx'' (db_indexes (ds_engine s))"
    by (rule drop_index_ok [OF D(1), where name = "''student_id_idx''"]) (simp add: D(3))
  have s: "map_of (db_catalog db1) ''student'' = Some demo_schema" using db1(3) D(2) by simp
  obtain db2 where db2: "drop_table ''student'' db1 = (Inr (), db2)" "db_ok db2 ?T 1"
    by (rule drop_table_ok [OF db1(2) s])
  have "disk_healthy (db_disk db2)" using db_holdsD(1) [OF db_ok_holds [OF db2(2)]] .
  then show thesis
    using that [of db2] db1(1) db2(1)
    by (simp add: demo_cleanup_def with_engine_def execute_drop_index_def execute_drop_table_def demo_output)
qed

definition demo_lines :: "string list" where
  "demo_lines =
     [[], ''== Create Table =='', ''created table: student'', [], ''== Show Tables =='', ''tables: student'',
      [], ''== Describe Table =='', ''relation: student'', ''record size: 16'', ''column count: 3'',
      ''column: id type=Int32 offset=0 length=4'', ''column: score type=Float32 offset=4 length=4'',
      ''column: name type=Char(8) offset=8 length=8'',
      [], ''== Insert Rows =='', ''inserted rows: 4'',
      [], ''== Create Index =='', ''index: student_id_idx on student.id'',
      [], ''== Index Equality Query =='', ''row: [2, 91.5, bob]'',
      [], ''== Order By + Limit =='', ''columns: [name, score, id]'', ''row: [bob, 91.5, 2]'', ''row: [david, 91.5, 4]'',
      [], ''== Update Row =='', ''updated rows: 1'', ''row: [2, 95.0, bob]'',
      [], ''== Delete Row =='', ''deleted rows: 1'', ''row: [2, 95.0, bob]'', ''row: [3, 85.0, carol]'', ''row: [4, 91.5, david]'',
      [], ''== Cleanup =='']"

lemma demo_session_ok:
  assumes db: "db_ok db (\<lambda>_. Map.empty) 1" "db_catalog db = []" "db_indexes db = []"
  obtains db' where "demo_session_run \<lparr>ds_engine = db, ds_out = out\<rparr> = (Inr (), \<lparr>ds_engine = db', ds_out = out @ demo_lines\<rparr>)"
    and "disk_healthy (db_disk db')"
proof -
  let ?s0 = "\<lparr>ds_engine = db, ds_out = out\<rparr>"
  obtain db1 where run1: "demo_create ?s0 = (Inr (), ?s0\<lparr>ds_engine := db1, ds_out := ds_out ?s0 @
      [[], ''== Create Table =='', ''created table: student'', [], ''== Show Tables =='', ''tables: student'']\<rparr>)"
    and db1: "student_holds db1 Map.empty []"
    by (rule demo_create_ok [of ?s0]) (use db in simp_all)
  let ?s1 = "?s0\<lparr>ds_engine := db1, ds_out := ds_out ?s0 @
      [[], ''== Create Table =='', ''created table: student'', [], ''== Show Tables =='', ''tables: student'']\<rparr>"
  obtain s2 where run2: "demo_describe ?s1 = (Inr (), s2)" and s2: "student_holds (ds_engine s2) Map.empty []"
     "ds_out s2 = ds_out ?s1 @ [[], ''== Describe Table =='', ''relation: student'', ''record size: 16'', ''column count: 3'',
     ''column: id type=Int32 offset=0 length=4'', ''column: score type=Float32 offset=4 length=4'',
     ''column: name type=Char(8) offset=8 length=8'']"
    using demo_describe_ok [of ?s1 Map.empty "[]"] db1 by simp
  obtain db3 where run3: "demo_insert s2 = (Inr (), s2\<lparr>ds_engine := db3, ds_out := ds_out s2 @
      [[], ''== Insert Rows =='', ''inserted rows: 4'']\<rparr>)" and db3: "student_holds db3 (on_first_page demo_rows) []"
    by (rule demo_insert_ok [OF s2(1)])
  let ?s3 = "s2\<lparr>ds_engine := db3, ds_out := ds_out s2 @ [[], ''== Insert Rows =='', ''inserted rows: 4'']\<rparr>"
  have h3: "student_holds (ds_engine ?s3) (on_first_page demo_rows) []" using db3 by simp
  obtain s4 where run4: "demo_index ?s3 = (Inr (), s4)" and s4: "student_holds (ds_engine s4) (on_first_page demo_rows) indexed"
    "ds_out s4 = ds_out ?s3 @ [[], ''== Create Index =='', ''index: student_id_idx on student.id'']"
    by (rule demo_index_ok [OF h3]) simp
  obtain s5 where run5: "demo_queries s4 = (Inr (), s5)" and s5: "student_holds (ds_engine s5) (on_first_page demo_rows) indexed"
    "ds_out s5 = ds_out s4 @ [[], ''== Index Equality Query =='', ''row: [2, 91.5, bob]'', [], ''== Order By + Limit =='',
       ''columns: [name, score, id]'', ''row: [bob, 91.5, 2]'', ''row: [david, 91.5, 4]'']"
    by (rule demo_queries_ok [OF s4(1)]) simp
  obtain s6 where run6: "demo_update s5 = (Inr (), s6)" and s6: "student_holds (ds_engine s6) (on_first_page demo_rows_2) indexed"
    "ds_out s6 = ds_out s5 @ [[], ''== Update Row =='', ''updated rows: 1'', ''row: [2, 95.0, bob]'']"
    by (rule demo_update_ok [OF s5(1)]) simp
  obtain s7 M where run7: "demo_delete s6 = (Inr (), s7)" and s7: "student_holds (ds_engine s7) M indexed"
    "ds_out s7 = ds_out s6 @ [[], ''== Delete Row =='', ''deleted rows: 1'', ''row: [2, 95.0, bob]'',
       ''row: [3, 85.0, carol]'', ''row: [4, 91.5, david]'']"
    by (rule demo_delete_ok [OF s6(1)]) simp
  obtain db8 where run8: "demo_cleanup s7 = (Inr (), s7\<lparr>ds_engine := db8, ds_out := ds_out s7 @ [[], ''== Cleanup ==''] \<rparr>)"
    and db8: "disk_healthy (db_disk db8)"
    by (rule demo_cleanup_ok [OF s7(1)])
  have out: "ds_out s7 @ [[], ''== Cleanup ==''] = out @ demo_lines"
    by (simp add: s2(2) s4(2) s5(2) s6(2) s7(2) demo_lines_def)
  have "demo_session_run ?s0 = (Inr (), s7\<lparr>ds_engine := db8, ds_out := out @ demo_lines\<rparr>)"
    unfolding demo_session_run_def using run1 run2 run3 run4 run5 run6 run7 run8 out by simp
  moreover have "s7\<lparr>ds_engine := db8, ds_out := out @ demo_lines\<rparr> = \<lparr>ds_engine = db8, ds_out = out @ demo_lines\<rparr>"
    by (cases s7) simp
  ultimately show thesis using that db8 by simp
qed

lemma remove_dir_healthy: "disk_healthy d \<Longrightarrow> fs_remove_dir_all d = (Inr (), d\<lparr>dk_files := Map.empty\<rparr>)"
  by (simp add: fs_remove_dir_all_def dk_fault_def disk_healthy_def)

text \<open>C13: On a device that does not fail, the demonstration program runs to its end whatever an earlier run has left in
  its directory, prints exactly the lines of the scenario after those already printed, and removes the directory with
  all its files.\<close>

theorem demo_runs_to_completion:
  assumes "disk_healthy (dw_disk w)" and "\<not> dw_root_exists w \<Longrightarrow> dk_files (dw_disk w) = Map.empty"
  shows "\<exists>d. run_demo w = (Inr (), \<lparr>dw_root_exists = False, dw_disk = d, dw_out = dw_out w @
      [[], ''== Open Database =='', ''database root: demo-db''] @ demo_lines @
      [''dropped index, dropped table, removed demo directory.'', [], ''== Demo Complete =='',
       ''schema, CRUD, order/limit, and minimal index flow all completed.'']\<rparr>) \<and>
    disk_healthy d \<and> dk_files d = Map.empty"
proof -
  let ?d = "(dw_disk w)\<lparr>dk_files := Map.empty\<rparr>" and ?open = "[[], ''== Open Database =='', ''database root: demo-db'']"
  have d: "disk_healthy ?d" using assms(1) by (simp add: disk_healthy_def)
  obtain w1 where reset: "reset_demo_root w = (Inr (), w1)" and w1: "dw_disk w1 = ?d" "dw_out w1 = dw_out w"
    using assms(2) remove_dir_healthy [OF assms(1)] by (cases "dw_root_exists w") (simp_all add: reset_demo_root_def)
  have "db_ok (empty_database ?d) (\<lambda>_. Map.empty) 1" by (rule empty_database_ok [OF d]) simp
  note db = this
  have opened: "engine_open ?d = (Inr (empty_database ?d), ?d)"
    using engine_open_ok [OF db] by (simp add: empty_database_def)
  obtain db' where run: "demo_session_run \<lparr>ds_engine = empty_database ?d, ds_out = dw_out w @ ?open\<rparr> =
      (Inr (), \<lparr>ds_engine = db', ds_out = (dw_out w @ ?open) @ demo_lines\<rparr>)" and db': "disk_healthy (db_disk db')"
    by (rule demo_session_ok [OF db, where out = "dw_out w @ ?open"]) (simp_all add: empty_database_def)
  have "disk_healthy ((db_disk db')\<lparr>dk_files := Map.empty\<rparr>)" using db' by (simp add: disk_healthy_def)
  then show ?thesis
    using reset w1 opened run remove_dir_healthy [OF db']
    by (simp add: run_demo_def Let_def step_lines_def demo_root_def)
qed

theorem demo_runs_to_completion_witness:
  "\<exists>w. run_demo \<lparr>dw_root_exists = False, dw_disk = empty_disk, dw_out = []\<rparr> = (Inr (), w) \<and> \<not> dw_root_exists w \<and>
     length (dw_out w) = 47 \<and> last (dw_out w) = ''schema, CRUD, order/limit, and minimal index flow all completed.''"
proof -
  have "\<exists>d. run_demo \<lparr>dw_root_exists = False, dw_disk = empty_disk, dw_out = []\<rparr> = (Inr (), \<lparr>dw_root_exists = False, dw_disk = d, dw_out = [] @
      [[], ''== Open Database =='', ''database root: demo-db''] @ demo_lines @
      [''dropped index, dropped table, removed demo directory.'', [], ''== Demo Complete =='',
       ''schema, CRUD, order/limit, and minimal index flow all completed.'']\<rparr>) \<and> disk_healthy d \<and> dk_files d = Map.empty"
    using demo_runs_to_completion [of "\<lparr>dw_root_exists = False, dw_disk = empty_disk, dw_out = []\<rparr>"] empty_disk_healthy
    by (simp add: empty_disk_def)
  then show ?thesis by (auto simp: demo_lines_def)
qed

end
