(* ===== verification/Spec2Isabelle.thy ===== *)
theory Spec2Isabelle
  imports Page_Properties Buffer_Properties Buffer_Shared Record_Properties Index_Properties Table_Properties
    Query_Properties Database_Findings Error_Text Fault_Properties Fault_Index Fault_Ddl Demo_Run
begin

text \<open>
  A verification library for \<open>rs_redbase\<close>, a small relational database in Rust.

  \<^bold>\<open>The program.\<close>  It is a stack of layers, each the only client of the one below it.  A page
  file (\<open>src/storage/page/mod.rs\<close>) is a file of pages of 4096 bytes with a free list.  A buffer
  pool (\<open>src/storage/buffer/mod.rs\<close>) keeps pages of several files in frames and evicts the least
  recently used one.  A record file (\<open>src/storage/record/mod.rs\<close>) puts records of one size into
  the pages of one file, with a bitmap of free slots per page and a chain of pages that have
  room, and scans them with predicates on their bytes.  An index (\<open>src/storage/index/mod.rs\<close>) is
  a text file of keys and record identifiers.  A table (\<open>src/table/mod.rs\<close>) encodes rows as
  records by the schema of a catalog; a database is a directory with the catalog of tables, the
  catalog of indexes, a record file for each table and a file for each index.  The query engine
  (\<open>src/query/mod.rs\<close>) checks requests against the schema, runs them on the table, through an
  index where one fits, and rebuilds the indexes after a change.

  \<^bold>\<open>Theories and sources.\<close>  The names of definitions follow those of the source.
  \<^item> Redbase_Prelude, Ordered_Map, Text_Format: what the source uses of the standard library -
    results with early return, checked arithmetic, little-endian bytes, \<open>BTreeMap\<close>, \<open>lines\<close>,
    \<open>split\<close>, \<open>parse\<close>, UTF-8.
  \<^item> Page_Io, Page_File: \<open>PageIo\<close> and \<open>PageFile\<close>; the record \<open>page_file\<close> has the header, the
    cached page and the device.  Page_Spec, Page_Ops: invariant and refinement of an abstract
    store; Page_Store: the interface as a locale; Page_Properties.
  \<^item> Buffer_Pool: \<open>BufferPoolState\<close> with its frames and the recency list, and the guards.
    Buffer_Lru, Buffer_Spec: the invariants; Buffer_Ops, Buffer_Guards, Buffer_Client,
    Buffer_Flush: the operations; Page_Cache: the interface as a locale; Buffer_Properties.
    Buffer_Shared: \<open>BufferPool\<close>, the handle with its lock, the guards and the threads that hold them.
  \<^item> Record_Predicate: predicates and filters; Record_Layout, Record_Page: the bytes of a page;
    Record_File: \<open>RecordFile\<close> and \<open>RecordScan\<close>.  Record_Spec, Record_Ops, Record_Insert,
    Record_Durable, Record_Scan: a record file is a map; Record_Properties.
  \<^item> Disk, Disk_Spec: the directory of files by name, \<open>PageManager\<close>, \<open>RecordManager\<close> and
    \<open>DiskPageIo\<close>.  Line_File: the locale of text files that are read back as written.
  \<^item> Index_Store: \<open>IndexCatalog\<close> and the index files; Index_Spec, Index_Properties.
  \<^item> Table_Schema, Table_Catalog, Table_File, Database: the functions of \<open>src/table/mod.rs\<close>.
    Table_Row, Table_Expr, Table_Ops, Table_Updates, Table_Termination: layouts, the meaning of
    filters, a table as a map from identifiers to rows; Table_Properties.
  \<^item> Query_Plan, Query_Engine: the functions of \<open>src/query/mod.rs\<close>.  Database_Spec: what a
    database holds; Row_Order: stable sorting, over the locale of comparisons; Query_Spec:
    which requests are accepted; Query_Ops, Database_Ddl, Query_Refusals: what requests do;
    Database_Runs: sequences of requests; Query_Properties, Database_Findings.
  \<^item> Error_Text: the texts and causes of all error types.
  \<^item> Demo: the program of \<open>examples/demo.rs\<close>, part by part, over a world of a directory and the
    lines printed.  First_Page: tables whose rows are on one page, where the identifiers are
    known; Demo_Run: what the program prints.
  \<^item> Fault_Rules: three properties of operations on a failing device, with the rules that carry
    them through code.  Fault_Pages, Fault_Records, Fault_Tables, Fault_Queries: each layer
    reports a fault or runs as without faults; Fault_Reads: what only reads writes nothing back;
    Fault_Isolation: which files a modification touches.  Fault_Drops, Fault_Insert,
    Fault_Catalog, Fault_Index, Fault_Ddl: what is lost; Fault_Properties.

  \<^bold>\<open>What the properties show.\<close>  Bottom up: a page file refines a store of pages under every
  sequence of operations, and what is flushed opens again; the pool keeps its invariant in every
  reachable state and is transparent to its client, a flush makes the client's view durable, and
  under every interleaving of threads a guard's frame keeps the guard's page; a
  record file refines a finite map, a scan returns the matching records once each, and a file
  that is dropped opens again with the same records; an index lookup returns exactly the entries
  with the key; the fields of a layout tile the record, a row is read back as it was up to NUL
  characters at the end of text, and a filter means on bytes what it says on rows.  On top, a
  database is a map from tables and identifiers to rows: a selection returns exactly the rows
  asked for, with the same result through an index as by a scan; insertions, updates and
  deletions change exactly what they name; refused requests change nothing; after every
  sequence of well-formed requests the directory opens again as the same database, and the index
  files agree with the tables.  The demonstration program is one such run, and prints exactly the
  lines that are stated.

  When calls fail, at any point and cut off anywhere, no operation of a record file passes over
  the fault; a selection reports it or returns exactly the rows asked for, and writes nothing;
  and a modification writes only to the files of its table and its indexes, so that every other
  table is as before.

  \<^bold>\<open>Modelling decisions.\<close>
  \<^item> Integers keep their width: page, slot and file identifiers are words of 32 bits, an \<open>i32\<close> is
    a word read as signed, \<open>usize\<close> is a natural number with the bound of checked operations
    written out, an \<open>f32\<close> is its bits.  Strings are lists of the bytes of their UTF-8 encoding.
  \<^item> An open file is its bytes with a schedule of device faults, which may be arbitrary: each call
    consumes an entry that lets it succeed or fail, part-way for reads and writes.  The directory
    has a second schedule for calls on whole files.  The properties of the upper layers assume
    that the schedules are exhausted; Page_Properties, Table_Termination, the safety property of
    lookups and the \<open>Fault\<close> theories do not.  A failing write of a whole file leaves it as it was
    or with a prefix of the new text.  \<open>remove_dir_all\<close> in the demonstration program removes all
    files or fails without effect.
  \<^item> A table is open at most once at a time, as the engine does it; the bytes of an open file go
    back to the directory when the handle is dropped.
  \<^item> A panic of the source is an error constructor of its own (\<open>IE_Panic\<close>, \<open>TE_Panic\<close>,
    \<open>QE_Panic\<close>), a loop without end likewise (\<open>BP_Diverges\<close>, \<open>RE_Diverges\<close>): that neither
    occurs is part of what is proved.
  \<^item> Fuel: the search for a victim walks the recency list for as many steps as there are frames
    (enough because the list has no frame twice, Buffer_Lru); \<open>next_record\<close> has a step for each
    slot of the file, and the loops over a scan one more than that (enough for every content of
    the pages and every behaviour of the device, Table_Termination).
  \<^item> Hypotheses on sizes: fewer than \<open>2 ^ 32 - 1\<close> guards on a page; page identifiers below
    \<open>2 ^ 31\<close>, which the counter of insertions guarantees for tables.  The theorems on larger
    identifiers show what goes wrong there.

  \<^bold>\<open>Findings.\<close>  Disposing of a page above \<open>i32::MAX\<close> makes a file that does not open; a read
  that fails part-way leaves foreign bytes in the cached page; forcing a page under a write guard
  loses later writes through it (Page_Properties, Buffer_Properties).  Creating an index under a
  name in use is refused but empties the existing index; creating a table whose records do not
  fit on a page is refused but leaves a file that blocks the name (Database_Findings).  An insertion can be acknowledged and lost, because a
  dropped record file ignores the error of its flush (Fault_Properties).  Text files are rewritten
  in place: a catalog whose write is cut off can open without its last tables (Fault_Properties),
  an index can open with a wrong slot (Fault_Index).  A drop whose save fails leaves a name that
  can be neither used nor dropped (Fault_Ddl).

  \<^bold>\<open>Not modelled.\<close>  The locks of single frames: a run of threads is a sequence of calls of the
  pool, each of which holds the pool's lock throughout (Buffer_Shared), and a thread that waits
  for a frame's lock, or finds it poisoned, has no place in it.  Failures of memory allocation; file systems that identify
  names up to case; the \<open>From\<close> conversions of errors, which are constructors here; the unit
  tests of the source; the module declarations of \<open>src/lib.rs\<close> and \<open>src/storage/mod.rs\<close>.

  \<^bold>\<open>Plan.\<close>  Which rows a table has after a modification that failed part-way: the layers report
  the fault, but the file may hold pages of the old and the new state.
\<close>

end
